(* ===== verification/JsPrelude.thy ===== *)
theory JsPrelude
  imports Main "HOL-Library.AList"
begin

section \<open>JavaScript data structures used by the program\<close>

text \<open>
  What the components share.  A JavaScript \<open>Map\<close> or plain object is an association list in
  insertion order (\<open>jmap\<close>): writing an existing key keeps its position, as \<open>Map.set\<close> and a
  property assignment do.  \<open>own_entries\<close> is the order in which \<open>Object.keys\<close>,
  \<open>Object.entries\<close> and \<open>for .. in\<close> enumerate a plain object: array-index keys first, ascending, then
  the others in insertion order.  A \<open>Set\<close> is a list without duplicates in insertion order.
  An exception is the left side of a sum (\<open>js_error + 'a\<close>).  The two locales state the laws of
  maps and sets that the components' proofs use; both are interpreted here on the lists.
\<close>

named_theorems js_defs \<open>definitions of the JavaScript primitives\<close>
named_theorems js_map_simps \<open>the laws of maps and sets as lists\<close>

subsection \<open>Errors\<close>

text \<open>The exceptions the modelled code throws, with the data a caller can see.\<close>

datatype js_error =
    AssertionError string
  | TypeError
  | UserError string
  | ApplicationError string
  | UnexpectedError string
  | OperationalError string
  | NamedError string string

type_synonym 'a res = "js_error + 'a"

definition rbind :: "'a res \<Rightarrow> ('a \<Rightarrow> 'b res) \<Rightarrow> 'b res" where
  "rbind m f = (case m of Inl e \<Rightarrow> Inl e | Inr x \<Rightarrow> f x)"

lemma rbind_simps [simp]:
  "rbind (Inl e) f = Inl e"
  "rbind (Inr x) f = f x"
  by (simp_all add: rbind_def)

lemma rbind_Inr_iff: "rbind m f = Inr y \<longleftrightarrow> (\<exists>x. m = Inr x \<and> f x = Inr y)"
  by (cases m) auto

lemma rbind_InrE:
  assumes "rbind m f = Inr y"
  obtains x where "m = Inr x" "f x = Inr y"
  using assms by (auto simp: rbind_Inr_iff)

lemma rbind_cong [fundef_cong]:
  assumes "m = m'" and "\<And>x. m' = Inr x \<Longrightarrow> f x = g x"
  shows "rbind m f = rbind m' g"
  using assms by (cases m') auto

text \<open>A loop whose body may throw: \<open>for (const x of xs) s = f(x, s)\<close>.\<close>

fun rfold :: "('x \<Rightarrow> 's \<Rightarrow> 's res) \<Rightarrow> 'x list \<Rightarrow> 's \<Rightarrow> 's res" where
  "rfold f [] s = Inr s"
| "rfold f (x # xs) s = rbind (f x s) (rfold f xs)"

lemma rfold_append: "rfold f (xs @ ys) s = rbind (rfold f xs s) (rfold f ys)"
  by (induction xs arbitrary: s) (auto simp: rbind_def split: sum.splits)

lemma rfold_invariant:
  assumes "rfold f xs s = Inr s'" and "I s"
    and "\<And>x s s'. x \<in> set xs \<Longrightarrow> I s \<Longrightarrow> f x s = Inr s' \<Longrightarrow> I s'"
  shows "I s'"
  using assms by (induction xs arbitrary: s) (auto simp: rbind_Inr_iff)

lemma rfold_fun_cong:
  "xs = ys \<Longrightarrow> s = t \<Longrightarrow> (\<And>x s. x \<in> set ys \<Longrightarrow> f x s = g x s) \<Longrightarrow> rfold f xs s = rfold g ys t"
  by (induction xs arbitrary: ys s t) (auto simp: rbind_def split: sum.split)

text \<open>A loop that threads a state and cannot throw is \<open>fold\<close>.\<close>

lemma fold_invariant_list:
  assumes "I s" and "\<And>x s. x \<in> set xs \<Longrightarrow> I s \<Longrightarrow> I (f x s)"
  shows "I (fold f xs s)"
  using assms by (induction xs arbitrary: s) auto

subsection \<open>Maps and plain objects\<close>

type_synonym ('k, 'v) jmap = "('k \<times> 'v) list"

abbreviation jget :: "('k, 'v) jmap \<Rightarrow> 'k \<Rightarrow> 'v option" where
  "jget m k \<equiv> map_of m k"

abbreviation jput :: "'k \<Rightarrow> 'v \<Rightarrow> ('k, 'v) jmap \<Rightarrow> ('k, 'v) jmap" where
  "jput \<equiv> AList.update"

abbreviation jdel :: "'k \<Rightarrow> ('k, 'v) jmap \<Rightarrow> ('k, 'v) jmap" where
  "jdel \<equiv> AList.delete"

definition jhas :: "('k, 'v) jmap \<Rightarrow> 'k \<Rightarrow> bool" where
  "jhas m k \<longleftrightarrow> map_of m k \<noteq> None"

definition jkeys :: "('k, 'v) jmap \<Rightarrow> 'k list" where
  "jkeys m = map fst m"

definition jvals :: "('k, 'v) jmap \<Rightarrow> 'v list" where
  "jvals m = map snd m"

text \<open>A well-formed map has each key once.\<close>

abbreviation jwf :: "('k, 'v) jmap \<Rightarrow> bool" where
  "jwf m \<equiv> distinct (map fst m)"

lemma jhas_iff: "jhas m k \<longleftrightarrow> k \<in> fst ` set m"
  by (auto simp: jhas_def map_of_eq_None_iff)

lemma set_jkeys [simp]: "set (jkeys m) = fst ` set m"
  by (simp add: jkeys_def)

lemma set_jvals [simp]: "set (jvals m) = snd ` set m"
  by (simp add: jvals_def)

lemma jget_jput [js_map_simps]: "jget (jput k v m) k' = (if k' = k then Some v else jget m k')"
  by (simp add: update_conv')

lemma jget_jdel [js_map_simps]: "jget (jdel k m) k' = (if k' = k then None else jget m k')"
  by (simp add: delete_conv')

lemma jwf_jput [simp]: "jwf m \<Longrightarrow> jwf (jput k v m)"
  by (rule distinct_update)

lemma jwf_jdel [simp]: "jwf m \<Longrightarrow> jwf (jdel k m)"
  by (simp add: distinct_delete)

lemma jget_in_set: "jget m k = Some v \<Longrightarrow> (k, v) \<in> set m"
  by (rule map_of_SomeD)

lemma jget_iff_set: "jwf m \<Longrightarrow> jget m k = Some v \<longleftrightarrow> (k, v) \<in> set m"
  by (simp add: map_of_eq_Some_iff)

lemma jget_filter_key: "jget (filter (\<lambda>(k, v). P k) m) k = (if P k then jget m k else None)"
  by (induction m) auto

text \<open>A map over the values keeps keys and lookups.\<close>

lemma in_set_map_snd: "(k, b) \<in> set (map (\<lambda>(k, v). (k, g v)) m) \<longleftrightarrow> (\<exists>v. (k, v) \<in> set m \<and> b = g v)"
  by force

lemma keys_map_snd: "map fst (map (\<lambda>(k, v). (k, g v)) m) = map fst m"
  by (induction m) auto

lemma jget_map_snd: "jget (map (\<lambda>(k, v). (k, g v)) m) k = map_option g (jget m k)"
  by (induction m) auto

text \<open>
  The laws of a keyed store, as the components use a \<open>Map\<close>: what a lookup returns after a
  write and after a deletion.
\<close>

locale keyed_store =
  fixes emp :: "'m"
    and get :: "'m \<Rightarrow> 'k \<Rightarrow> 'v option"
    and put :: "'k \<Rightarrow> 'v \<Rightarrow> 'm \<Rightarrow> 'm"
    and del :: "'k \<Rightarrow> 'm \<Rightarrow> 'm"
  assumes get_emp: "get emp k = None"
    and get_put: "get (put k v m) k' = (if k' = k then Some v else get m k')"
    and get_del: "get (del k m) k' = (if k' = k then None else get m k')"
begin

lemma put_get_same: "get (put k v m) k = Some v"
  by (simp add: get_put)

lemma put_get_other: "k' \<noteq> k \<Longrightarrow> get (put k v m) k' = get m k'"
  by (simp add: get_put)

lemma del_get_same: "get (del k m) k = None"
  by (simp add: get_del)

lemma fold_put_other:
  "k \<notin> key ` set xs \<Longrightarrow> get (fold (\<lambda>x. put (key x) (val x)) xs m) k = get m k"
  by (induction xs arbitrary: m) (auto simp: get_put)

lemma fold_put_dom:
  "get (fold (\<lambda>x. put (key x) (val x)) xs m) k \<noteq> None \<longleftrightarrow> k \<in> key ` set xs \<or> get m k \<noteq> None"
  by (induction xs arbitrary: m) (auto simp: get_put)

lemma fold_put_unique:
  assumes "inj_on key (set xs)" and "distinct xs" and "x \<in> set xs"
  shows "get (fold (\<lambda>x. put (key x) (val x)) xs m) (key x) = Some (val x)"
  using assms
proof (induction xs arbitrary: m)
  case Nil
  then show ?case by simp
next
  case (Cons y ys)
  show ?case
  proof (cases "x = y")
    case True
    with Cons.prems have "key x \<notin> key ` set ys" by (auto simp: inj_on_def)
    then show ?thesis using True by (simp add: fold_put_other get_put)
  next
    case False
    with Cons.prems have "x \<in> set ys" "inj_on key (set ys)" "distinct ys" by auto
    then show ?thesis by (simp add: Cons.IH)
  qed
qed

lemma fold_del: "get (fold del ks m) k = (if k \<in> set ks then None else get m k)"
  by (induction ks arbitrary: m) (auto simp: get_del)

end

interpretation js: keyed_store "[]" map_of AList.update AList.delete
  by unfold_locales (simp_all add: jget_jput jget_jdel)

subsection \<open>The enumeration order of plain objects\<close>

text \<open>
  A canonical array index is \<open>"0"\<close> or a decimal without leading zero, below \<open>2^32 - 1\<close>.
  Such keys come first, in ascending order; \<open>Object.keys\<close> and \<open>for .. in\<close> agree on this.
\<close>

definition digit_value :: "char \<Rightarrow> nat" where
  "digit_value c = of_char c - 48"

definition is_digit :: "char \<Rightarrow> bool" where
  "is_digit c \<longleftrightarrow> (48 :: nat) \<le> of_char c \<and> of_char c \<le> (57 :: nat)"

definition dec_value :: "string \<Rightarrow> nat" where
  "dec_value s = foldl (\<lambda>n c. 10 * n + digit_value c) 0 s"

definition is_array_index :: "string \<Rightarrow> bool" where
  "is_array_index s \<longleftrightarrow> s \<noteq> [] \<and> list_all is_digit s \<and> (s = ''0'' \<or> hd s \<noteq> CHR ''0'')
     \<and> dec_value s < 2 ^ 32 - 1"

definition own_entries :: "(string, 'v) jmap \<Rightarrow> (string \<times> 'v) list" where
  "own_entries m = sort_key (dec_value \<circ> fst) (filter (is_array_index \<circ> fst) m)
     @ filter (\<lambda>e. \<not> is_array_index (fst e)) m"

definition own_keys :: "(string, 'v) jmap \<Rightarrow> string list" where
  "own_keys m = map fst (own_entries m)"

definition own_vals :: "(string, 'v) jmap \<Rightarrow> 'v list" where
  "own_vals m = map snd (own_entries m)"

lemma set_own_entries [simp]: "set (own_entries m) = set m"
  by (auto simp: own_entries_def)

lemma set_own_keys [simp]: "set (own_keys m) = fst ` set m"
  by (simp add: own_keys_def)

lemma set_own_vals [simp]: "set (own_vals m) = snd ` set m"
  by (simp add: own_vals_def)

lemma length_own_entries [simp]: "length (own_entries m) = length m"
  using sum_length_filter_compl [of "is_array_index \<circ> fst" m] by (simp add: own_entries_def comp_def)

text \<open>Without numeric names the enumeration order is the insertion order.\<close>

lemma own_entries_plain: "\<forall>k \<in> fst ` set m. \<not> is_array_index k \<Longrightarrow> own_entries m = m"
  by (induction m) (auto simp: own_entries_def)

subsection \<open>Sets in insertion order\<close>

definition sadd :: "'a \<Rightarrow> 'a list \<Rightarrow> 'a list" where
  "sadd x xs = (if x \<in> set xs then xs else xs @ [x])"

definition sdel :: "'a \<Rightarrow> 'a list \<Rightarrow> 'a list" where
  "sdel x xs = filter (\<lambda>y. y \<noteq> x) xs"

definition set_of_list :: "'a list \<Rightarrow> 'a list" where
  "set_of_list xs = fold sadd xs []"

lemma set_sadd [simp]: "set (sadd x xs) = insert x (set xs)"
  by (auto simp: sadd_def)

lemma distinct_sadd [simp]: "distinct xs \<Longrightarrow> distinct (sadd x xs)"
  by (simp add: sadd_def)

lemma set_sdel [simp]: "set (sdel x xs) = set xs - {x}"
  by (auto simp: sdel_def)

lemma distinct_sdel [simp]: "distinct xs \<Longrightarrow> distinct (sdel x xs)"
  by (simp add: sdel_def)

locale ordered_set =
  fixes emp :: "'s"
    and ins :: "'a \<Rightarrow> 's \<Rightarrow> 's"
    and rem :: "'a \<Rightarrow> 's \<Rightarrow> 's"
    and elems :: "'s \<Rightarrow> 'a set"
  assumes elems_emp: "elems emp = {}"
    and elems_ins: "elems (ins x s) = insert x (elems s)"
    and elems_rem: "elems (rem x s) = elems s - {x}"
begin

lemma elems_fold_ins: "elems (fold ins xs s) = set xs \<union> elems s"
  by (induction xs arbitrary: s) (auto simp: elems_ins)

lemma elems_fold_rem: "elems (fold rem xs s) = elems s - set xs"
  by (induction xs arbitrary: s) (auto simp: elems_rem)

lemma elems_fold_ins_if:
  "elems (fold (\<lambda>x s. if P x then ins x s else s) xs s) = {x \<in> set xs. P x} \<union> elems s"
  by (induction xs arbitrary: s) (auto simp: elems_ins)

end

interpretation js_set: ordered_set "[]" sadd sdel set
  by unfold_locales auto

lemma set_set_of_list [simp]: "set (set_of_list xs) = set xs"
  by (simp add: set_of_list_def js_set.elems_fold_ins)

lemma distinct_fold_sadd: "distinct s \<Longrightarrow> distinct (fold sadd xs s)"
  by (induction xs arbitrary: s) auto

lemma distinct_set_of_list [simp]: "distinct (set_of_list xs)"
  by (simp add: set_of_list_def distinct_fold_sadd)

subsection \<open>Arrays\<close>

definition find_index :: "('a \<Rightarrow> bool) \<Rightarrow> 'a list \<Rightarrow> nat option" where
  "find_index p xs = (let n = length (takeWhile (\<lambda>x. \<not> p x) xs) in if n < length xs then Some n else None)"

text \<open>\<open>arr.splice(i, 1)\<close>\<close>

definition splice1 :: "nat \<Rightarrow> 'a list \<Rightarrow> 'a list" where
  "splice1 i xs = take i xs @ drop (Suc i) xs"

text \<open>\<open>arr.at(i)\<close>: negative indices count from the end; out of range is \<open>undefined\<close>.\<close>

definition js_at :: "'a list \<Rightarrow> int \<Rightarrow> 'a option" where
  "js_at xs i = (let j = (if i < 0 then int (length xs) + i else i)
     in if 0 \<le> j \<and> j < int (length xs) then Some (xs ! nat j) else None)"

text \<open>\<open>arr[i]\<close> for a natural index.\<close>

definition arr_get :: "'a list \<Rightarrow> nat \<Rightarrow> 'a option" where
  "arr_get xs i = (if i < length xs then Some (xs ! i) else None)"

text \<open>\<open>arr[i] = v\<close>: writing past the end extends the array, the gap holds the given filler.\<close>

definition arr_put :: "'a \<Rightarrow> nat \<Rightarrow> 'a \<Rightarrow> 'a list \<Rightarrow> 'a list" where
  "arr_put hole i v xs = (if i < length xs then xs[i := v]
     else xs @ replicate (i - length xs) hole @ [v])"

lemma find_index_Nil [simp]: "find_index p [] = None"
  by (simp add: find_index_def)

lemma find_index_Cons [simp]:
  "find_index p (x # xs) = (if p x then Some 0 else map_option Suc (find_index p xs))"
  by (simp add: find_index_def Let_def)

lemma find_index_Some:
  "find_index p xs = Some i \<Longrightarrow> i < length xs \<and> p (xs ! i) \<and> (\<forall>j < i. \<not> p (xs ! j))"
proof (induction xs arbitrary: i)
  case Nil
  then show ?case by simp
next
  case (Cons x xs)
  then show ?case by (cases i) (auto simp: less_Suc_eq_0_disj split: if_splits)
qed

lemma find_index_None: "find_index p xs = None \<longleftrightarrow> (\<forall>x \<in> set xs. \<not> p x)"
  by (induction xs) auto

lemma splice1_Cons_0 [simp]: "splice1 0 (x # xs) = xs"
  by (simp add: splice1_def)

lemma splice1_Cons_Suc [simp]: "splice1 (Suc i) (x # xs) = x # splice1 i xs"
  by (simp add: splice1_def)

lemma length_splice1: "i < length xs \<Longrightarrow> length (splice1 i xs) = length xs - 1"
  by (simp add: splice1_def)

lemma set_splice1_subset: "set (splice1 i xs) \<subseteq> set xs"
  by (auto simp: splice1_def dest: in_set_takeD in_set_dropD)

lemma distinct_splice1: "distinct xs \<Longrightarrow> distinct (splice1 i xs)"
  by (auto simp: splice1_def set_take_disj_set_drop_if_distinct)

lemma arr_get_simps [simp]:
  "arr_get [] i = None"
  "arr_get (x # xs) 0 = Some x"
  "arr_get (x # xs) (Suc i) = arr_get xs i"
  by (simp_all add: arr_get_def)

lemma arr_get_in_set: "arr_get xs i = Some x \<Longrightarrow> x \<in> set xs"
  by (auto simp: arr_get_def split: if_splits)

lemma arr_get_arr_put:
  "arr_get (arr_put hole i v xs) j =
     (if j = i then Some v else if j < length xs then Some (xs ! j)
      else if j < i then Some hole else None)"
  by (auto simp: arr_get_def arr_put_def nth_append)

subsection \<open>Decimal numerals\<close>

text \<open>The string a number becomes in a template literal.\<close>

definition digit_char :: "nat \<Rightarrow> char" where
  "digit_char d = char_of (48 + d)"

fun nat_string :: "nat \<Rightarrow> string" where
  "nat_string n = (if n < 10 then [digit_char n] else nat_string (n div 10) @ [digit_char (n mod 10)])"

declare nat_string.simps [simp del]

lemma dec_value_snoc: "dec_value (s @ [c]) = 10 * dec_value s + digit_value c"
  by (simp add: dec_value_def)

lemma digit_value_digit_char: "d < 10 \<Longrightarrow> digit_value (digit_char d) = d"
  by (simp add: digit_value_def digit_char_def)

lemma dec_value_nat_string [simp]: "dec_value (nat_string n) = n"
proof (induction n rule: nat_string.induct)
  case (1 n)
  show ?case
  proof (cases "n < 10")
    case True
    then show ?thesis
      by (subst nat_string.simps) (simp add: dec_value_def digit_value_digit_char)
  next
    case False
    then have "dec_value (nat_string n) = 10 * dec_value (nat_string (n div 10)) + n mod 10"
      by (subst nat_string.simps) (simp add: dec_value_snoc digit_value_digit_char)
    also have "\<dots> = n" using 1 [OF False] by simp
    finally show ?thesis .
  qed
qed

lemma nat_string_inject: "nat_string m = nat_string n \<longleftrightarrow> m = n"
  by (metis dec_value_nat_string)

definition int_string :: "int \<Rightarrow> string" where
  "int_string n = (if n < 0 then CHR ''-'' # nat_string (nat (- n)) else nat_string (nat n))"

subsection \<open>Texts\<close>

definition str_includes :: "string \<Rightarrow> string \<Rightarrow> bool" where
  "str_includes s part \<longleftrightarrow> list_ex (\<lambda>i. take (length part) (drop i s) = part) [0..<Suc (length s)]"

definition ends_with :: "string \<Rightarrow> string \<Rightarrow> bool" where
  "ends_with suffix s \<longleftrightarrow> drop (length s - length suffix) s = suffix"

end
