(* ===== verification/WorkflowTypes.thy ===== *)
theory WorkflowTypes
  imports JsPrelude
begin

section \<open>The data model of a workflow\<close>

text \<open>
  The interfaces of \<open>packages/workflow/src/interfaces.ts\<close> that the engine works on.  An object
  reference is modelled by the record together with its identity: \<open>n_oid\<close> stands for the address
  of the \<open>INode\<close> object, so equality of two \<open>INode\<close> records is the program's \<open>===\<close>.  An optional
  field is an \<open>option\<close>; \<open>disabled\<close> keeps the difference between \<open>undefined\<close>, \<open>false\<close> and \<open>true\<close>.
  The selectors carry a prefix, since a record selector is a global name in HOL.
\<close>

subsection \<open>JSON values\<close>

datatype json =
    JNull
  | JUndefined
  | JBool bool
  | JNum int
  | JStr string
  | JArr "json list"
  | JObj "(string \<times> json) list"

subsection \<open>Connections\<close>

datatype NodeConnectionType =
    AiAgent | AiChain | AiDocument | AiEmbedding | AiLanguageModel | AiMemory | AiOutputParser
  | AiRetriever | AiReranker | AiTextSplitter | AiTool | AiVectorStore | Main

fun connection_type_name :: "NodeConnectionType \<Rightarrow> string" where
  "connection_type_name AiAgent = ''ai_agent''"
| "connection_type_name AiChain = ''ai_chain''"
| "connection_type_name AiDocument = ''ai_document''"
| "connection_type_name AiEmbedding = ''ai_embedding''"
| "connection_type_name AiLanguageModel = ''ai_languageModel''"
| "connection_type_name AiMemory = ''ai_memory''"
| "connection_type_name AiOutputParser = ''ai_outputParser''"
| "connection_type_name AiRetriever = ''ai_retriever''"
| "connection_type_name AiReranker = ''ai_reranker''"
| "connection_type_name AiTextSplitter = ''ai_textSplitter''"
| "connection_type_name AiTool = ''ai_tool''"
| "connection_type_name AiVectorStore = ''ai_vectorStore''"
| "connection_type_name Main = ''main''"

lemma connection_type_name_inject: "connection_type_name s = connection_type_name t \<longleftrightarrow> s = t"
  by (cases s; cases t) simp_all

record IConnection =
  c_node :: string
  c_type :: NodeConnectionType
  c_index :: nat

text \<open>
  \<open>NodeInputConnections\<close>: per index a list of connections, or \<open>null\<close>.  A hole of a sparse array reads
  as \<open>undefined\<close> and is treated like \<open>null\<close> everywhere, so both are \<open>None\<close>.
\<close>

type_synonym NodeInputConnections = "IConnection list option list"
type_synonym INodeConnections = "(NodeConnectionType, NodeInputConnections) jmap"
type_synonym IConnections = "(string, INodeConnections) jmap"

subsection \<open>Nodes\<close>

datatype OnError = ContinueErrorOutput | ContinueRegularOutput | StopWorkflow

record INode =
  n_oid :: nat
  n_id :: string
  n_name :: string
  n_typeVersion :: string
  n_type :: string
  n_position :: "int \<times> int"
  n_disabled :: "bool option"
  n_retryOnFail :: "bool option"
  n_maxTries :: "int option"
  n_waitBetweenTries :: "int option"
  n_alwaysOutputData :: "bool option"
  n_executeOnce :: "bool option"
  n_onError :: "OnError option"
  n_continueOnFail :: "bool option"
  n_parameters :: "(string, json) jmap"
  n_rewireOutputLogTo :: "NodeConnectionType option"
  n_forceCustomOperation :: "(json \<times> json) option"

type_synonym INodes = "(string, INode) jmap"

text \<open>\<open>node.disabled\<close> used as a condition.\<close>

definition is_disabled :: "INode \<Rightarrow> bool" where
  "is_disabled n \<longleftrightarrow> n_disabled n = Some True"

text \<open>A node with the defaults of the optional fields, for the concrete instances.\<close>

definition mk_node :: "nat \<Rightarrow> string \<Rightarrow> INode" where
  "mk_node i nm = \<lparr>n_oid = i, n_id = nm, n_name = nm, n_typeVersion = ''1'', n_type = ''test.set'',
     n_position = (0, 0), n_disabled = None, n_retryOnFail = None, n_maxTries = None,
     n_waitBetweenTries = None, n_alwaysOutputData = None, n_executeOnce = None, n_onError = None,
     n_continueOnFail = None, n_parameters = [], n_rewireOutputLogTo = None,
     n_forceCustomOperation = None\<rparr>"

lemma mk_node_simps [simp]:
  "n_oid (mk_node i nm) = i" "n_name (mk_node i nm) = nm" "n_disabled (mk_node i nm) = None"
  "n_id (mk_node i nm) = nm" "n_typeVersion (mk_node i nm) = ''1''"
  "n_type (mk_node i nm) = ''test.set''" "n_position (mk_node i nm) = (0, 0)"
  "n_retryOnFail (mk_node i nm) = None"
  "n_maxTries (mk_node i nm) = None" "n_waitBetweenTries (mk_node i nm) = None"
  "n_alwaysOutputData (mk_node i nm) = None" "n_executeOnce (mk_node i nm) = None"
  "n_onError (mk_node i nm) = None" "n_continueOnFail (mk_node i nm) = None"
  "n_parameters (mk_node i nm) = []" "n_rewireOutputLogTo (mk_node i nm) = None"
  "n_forceCustomOperation (mk_node i nm) = None"
  "mk_node i nm = mk_node j nm' \<longleftrightarrow> i = j \<and> nm = nm'"
  by (auto simp: mk_node_def)

subsection \<open>Items and run data\<close>

record ISourceData =
  previousNode :: string
  previousNodeOutput :: "nat option"
  previousNodeRun :: "nat option"

record IPairedItemData =
  pi_item :: nat
  pi_input :: "nat option"
  pi_sourceOverwrite :: "ISourceData option"

datatype PairedItem = PairedOne IPairedItemData | PairedMany "IPairedItemData list" | PairedIndex nat

record INodeExecutionData =
  i_json :: "(string, json) jmap"
  i_error :: "json option"
  i_pairedItem :: "PairedItem option"

definition item_of :: "(string, json) jmap \<Rightarrow> INodeExecutionData" where
  "item_of j = \<lparr>i_json = j, i_error = None, i_pairedItem = None\<rparr>"

lemma item_of_simps [simp]:
  "i_json (item_of j) = j" "i_error (item_of j) = None" "i_pairedItem (item_of j) = None"
  "item_of j = item_of j' \<longleftrightarrow> j = j'"
  by (auto simp: item_of_def)

type_synonym Items = "INodeExecutionData list"

text \<open>
  An array of inputs can have \<open>null\<close> for an input whose data has not arrived yet, and, when it was filled by
  index, holes, which read as \<open>undefined\<close>.  The engine tells the two apart, so both are kept.  In the outputs
  of a run and in lists of sources they are not told apart, and \<open>None\<close> stands for both.
\<close>

datatype 'a slot = Hole | Null | Val 'a

type_synonym ITaskDataConnections = "(NodeConnectionType, Items option list) jmap"
type_synonym ITaskDataInputs = "(NodeConnectionType, Items slot list) jmap"
type_synonym ITaskDataConnectionsSource = "(NodeConnectionType, ISourceData option list) jmap"

datatype ExecutionStatus =
  StCanceled | StCrashed | StError | StNew | StRunning | StSuccess | StUnknown | StWaiting

subsection \<open>Requests of nodes to the engine\<close>

record ExecuteNodeAction =
  a_nodeName :: string
  a_input :: "(string, json) jmap"
  a_type :: NodeConnectionType
  a_id :: string
  a_itemIndex :: "nat option"

record EngineRequest =
  rq_actions :: "ExecuteNodeAction list"
  rq_metadata :: json

record SubNodeExecutionData =
  sn_actions :: "(ExecuteNodeAction \<times> string \<times> nat) list"
  sn_metadata :: json

text \<open>Of \<open>ITaskMetadata\<close> the properties the engine reads are fields, the others stay as they are.\<close>

record ITaskMetadata =
  md_preserveSourceOverwrite :: "bool option"
  md_nodeWasResumed :: "bool option"
  md_subNodeExecutionData :: "SubNodeExecutionData option"
  md_other :: "(string, json) jmap"

subsection \<open>Errors and run data\<close>

text \<open>
  An error as the engine keeps it: its own properties, the message and the stack.  \<open>name\<close> is an own
  property only for the classes that set it.
\<close>

record ExecutionError =
  er_name :: "string option"
  er_message :: string

record ITaskData =
  t_executionIndex :: "nat option"
  t_source :: "ISourceData option list"
  t_executionStatus :: "ExecutionStatus option"
  t_data :: "ITaskDataConnections option"
  t_inputOverride :: "ITaskDataConnections option"
  t_error :: "ExecutionError option"
  t_metadata :: "ITaskMetadata option"
  t_hints :: "string list"

type_synonym IRunData = "(string, ITaskData list) jmap"
type_synonym IPinData = "(string, Items) jmap"

text \<open>The waiting tables are keyed by node name, then by run index.\<close>

type_synonym IWaitingForExecution = "(string, (nat, ITaskDataInputs) jmap) jmap"
type_synonym IWaitingForExecutionSource = "(string, (nat, ITaskDataConnectionsSource) jmap) jmap"

record IExecuteData =
  e_node :: INode
  e_data :: ITaskDataInputs
  e_source :: "ITaskDataConnectionsSource option"
  e_runIndex :: "nat option"
  e_metadata :: "ITaskMetadata option"

datatype DestinationMode = Inclusive | Exclusive

record IDestinationNode =
  d_nodeName :: string
  d_mode :: DestinationMode

record IConnectedNode =
  cn_name :: string
  cn_indicies :: "nat list"
  cn_depth :: nat

record INodeConnection =
  sourceIndex :: nat
  destinationIndex :: nat

subsection \<open>Node types\<close>

datatype RequiredInputs = ReqList "nat list" | ReqCount nat | ReqExpr string

text \<open>An output is given by its type, or by a configuration object with a type.\<close>

datatype INodeOutput = OutputType NodeConnectionType | OutputConfiguration NodeConnectionType

text \<open>
  What the engine reads of an \<open>INodeType\<close>; outputs given by an expression are \<open>None\<close>.  The implementations behind it are the nodes of other
  packages: a node type is data here, and the lookup \<open>nodeTypes.getByNameAndVersion\<close> is a
  parameter of the model.
\<close>

record INodeType =
  nt_name :: string
  nt_group :: "string list"
  nt_trigger :: bool
  nt_poll :: bool
  nt_webhook :: bool
  nt_execute :: bool
  nt_inputs :: nat
  nt_outputs :: "INodeOutput list option"
  nt_requiredInputs :: "RequiredInputs option"
  nt_customOperations :: "(string, string list) jmap option"
  nt_requestDefaults :: bool

type_synonym INodeTypes = "string \<Rightarrow> string \<Rightarrow> INodeType option"

end
