(* ===== verification/Connections.thy ===== *)
theory Connections
  imports WorkflowTypes
begin

section \<open>Connection maps and their reversal\<close>

text \<open>
  \<open>packages/workflow/src/common/map-connections-by-destination.ts\<close> turns the connections stored by
  source node into connections by destination node.  The theorems: the reversed map holds exactly
  the reversed connections, in order and with their multiplicity; reversing twice is the identity
  on the connections.
\<close>

definition or_empty :: "'a list option \<Rightarrow> 'a list" where
  "or_empty cs = (case cs of None \<Rightarrow> [] | Some xs \<Rightarrow> xs)"

lemma or_empty_simps [simp]: "or_empty None = []" "or_empty (Some xs) = xs"
  by (simp_all add: or_empty_def)

lemma IConnection_collapse [simp]: "\<lparr>c_node = c_node c, c_type = c_type c, c_index = c_index c\<rparr> = c"
  by (cases c) simp

subsection \<open>mapConnectionsByDestination\<close>

text \<open>
  The body of the innermost loop: create the entry and the slots up to \<open>connectionInfo.index\<close>, then
  push the reversed connection.
\<close>

definition add_reversed ::
  "string \<Rightarrow> NodeConnectionType \<Rightarrow> nat \<Rightarrow> IConnection \<Rightarrow> IConnections \<Rightarrow> IConnections" where
  "add_reversed sourceNode type inputIndex connectionInfo ret =
     (let byType = (case jget ret (c_node connectionInfo) of None \<Rightarrow> [] | Some t \<Rightarrow> t);
          slots = (case jget byType (c_type connectionInfo) of None \<Rightarrow> [] | Some s \<Rightarrow> s);
          padded = slots @ replicate (c_index connectionInfo + 1 - length slots) (Some []);
          pushed = (case padded ! c_index connectionInfo of
              None \<Rightarrow> padded
            | Some cs \<Rightarrow> padded[c_index connectionInfo :=
                Some (cs @ [\<lparr>c_node = sourceNode, c_type = type, c_index = inputIndex\<rparr>])])
      in jput (c_node connectionInfo) (jput (c_type connectionInfo) pushed byType) ret)"

definition mapConnectionsByDestination :: "IConnections \<Rightarrow> IConnections" where
  "mapConnectionsByDestination connections =
     fold (\<lambda>(sourceNode, types).
       fold (\<lambda>(type, slots).
         fold (\<lambda>(inputIndex, cs).
           fold (\<lambda>connectionInfo. add_reversed sourceNode type inputIndex connectionInfo) (or_empty cs))
         (enumerate 0 slots))
       types)
     (own_entries connections) []"

text \<open>All connections of a map, one entry per connection, in enumeration order.\<close>

definition edge_list ::
  "IConnections \<Rightarrow> (string \<times> NodeConnectionType \<times> nat \<times> IConnection) list" where
  "edge_list connections =
     concat (map (\<lambda>(s, types). concat (map (\<lambda>(t, slots). concat (map (\<lambda>(i, cs).
       map (\<lambda>c. (s, t, i, c)) (or_empty cs)) (enumerate 0 slots))) types)) (own_entries connections))"

lemma fold_concat_map: "fold f (concat (map g xs)) = fold (\<lambda>x. fold f (g x)) xs"
  by (induction xs) (auto simp: comp_def fun_eq_iff)

lemma mapConnectionsByDestination_fold:
  "mapConnectionsByDestination connections =
     fold (\<lambda>(s, t, i, c). add_reversed s t i c) (edge_list connections) []"
  by (simp add: mapConnectionsByDestination_def edge_list_def fold_concat_map split_beta' fold_map comp_def)

text \<open>The connections stored for one input of a node.\<close>

definition slot_of :: "IConnections \<Rightarrow> string \<Rightarrow> NodeConnectionType \<Rightarrow> nat \<Rightarrow> IConnection list" where
  "slot_of m n t i = (case jget m n of None \<Rightarrow> [] | Some byType \<Rightarrow>
     (case jget byType t of None \<Rightarrow> [] | Some slots \<Rightarrow>
       (if i < length slots then or_empty (slots ! i) else [])))"

definition no_null :: "IConnections \<Rightarrow> bool" where
  "no_null m \<longleftrightarrow> (\<forall>n byType t slots. jget m n = Some byType \<longrightarrow> jget byType t = Some slots
     \<longrightarrow> None \<notin> set slots)"

lemma no_null_Nil [simp]: "no_null []"
  by (simp add: no_null_def)

lemma slot_of_Nil [simp]: "slot_of [] n t i = []"
  by (simp add: slot_of_def)

text \<open>One push changes one slot and nothing else.\<close>

definition rev_of :: "string \<times> NodeConnectionType \<times> nat \<times> IConnection \<Rightarrow> IConnection" where
  "rev_of = (\<lambda>(s, t, i, c). \<lparr>c_node = s, c_type = t, c_index = i\<rparr>)"

definition target_of :: "string \<times> NodeConnectionType \<times> nat \<times> IConnection \<Rightarrow> string \<times> NodeConnectionType \<times> nat" where
  "target_of = (\<lambda>(s, t, i, c). (c_node c, c_type c, c_index c))"

lemma padded_props:
  assumes "None \<notin> set slots"
  shows "None \<notin> set (slots @ replicate k (Some []))"
    and "i < length slots + k \<Longrightarrow>
      \<exists>cs. (slots @ replicate k (Some [])) ! i = Some cs \<and> cs = (if i < length slots then or_empty (slots ! i) else [])"
proof -
  show "None \<notin> set (slots @ replicate k (Some []))" using assms by auto
  assume "i < length slots + k"
  show "\<exists>cs. (slots @ replicate k (Some [])) ! i = Some cs \<and> cs = (if i < length slots then or_empty (slots ! i) else [])"
  proof (cases "i < length slots")
    case True
    then have "slots ! i \<noteq> None" using assms by (metis nth_mem)
    then show ?thesis using True by (auto simp: nth_append)
  next
    case False
    then show ?thesis using \<open>i < length slots + k\<close> by (auto simp: nth_append)
  qed
qed

lemma pushed_slots:
  fixes slots :: NodeInputConnections and k i :: nat and r :: IConnection
  assumes nn: "None \<notin> set slots"
  defines "padded \<equiv> slots @ replicate (k + 1 - length slots) (Some [])"
  defines "pushed \<equiv> (case padded ! k of None \<Rightarrow> padded | Some cs \<Rightarrow> padded[k := Some (cs @ [r])])"
  shows "None \<notin> set pushed"
    and "(if i < length pushed then or_empty (pushed ! i) else []) =
      (if i < length slots then or_empty (slots ! i) else []) @ (if i = k then [r] else [])"
proof -
  have k: "k < length slots + (k + 1 - length slots)" by simp
  obtain cs where cs: "padded ! k = Some cs" "cs = (if k < length slots then or_empty (slots ! k) else [])"
    using padded_props(2) [OF nn k] unfolding padded_def by blast
  have pu: "pushed = padded[k := Some (cs @ [r])]" by (simp add: pushed_def cs(1))
  have "None \<notin> set padded" using padded_props(1) [OF nn] by (simp add: padded_def)
  then show "None \<notin> set pushed" unfolding pu by (metis insertE option.distinct(1) set_update_subset_insert subsetD)
  have len: "length padded = max (length slots) (k + 1)" by (auto simp: padded_def)
  show "(if i < length pushed then or_empty (pushed ! i) else []) =
      (if i < length slots then or_empty (slots ! i) else []) @ (if i = k then [r] else [])"
  proof (cases "i = k")
    case True
    then show ?thesis using len cs(2) by (simp add: pu)
  next
    case False
    then show ?thesis using len by (auto simp: pu padded_def nth_append)
  qed
qed

lemma add_reversed_slot:
  assumes "no_null R"
  shows "slot_of (add_reversed s t i c R) n ty k =
      slot_of R n ty k @ (if (n, ty, k) = (c_node c, c_type c, c_index c)
        then [\<lparr>c_node = s, c_type = t, c_index = i\<rparr>] else [])"
    and "no_null (add_reversed s t i c R)"
proof -
  define byType where "byType = (case jget R (c_node c) of None \<Rightarrow> [] | Some t \<Rightarrow> t)"
  define slots where "slots = (case jget byType (c_type c) of None \<Rightarrow> [] | Some s \<Rightarrow> s)"
  define r where "r = \<lparr>c_node = s, c_type = t, c_index = i\<rparr>"
  define padded where "padded = slots @ replicate (c_index c + 1 - length slots) (Some [])"
  define pushed where "pushed = (case padded ! c_index c of None \<Rightarrow> padded
      | Some cs \<Rightarrow> padded[c_index c := Some (cs @ [r])])"
  have nn: "None \<notin> set slots"
    using assms by (auto simp: slots_def byType_def no_null_def split: option.splits)
  have eq: "add_reversed s t i c R = jput (c_node c) (jput (c_type c) pushed byType) R"
    by (simp only: add_reversed_def pushed_def padded_def slots_def byType_def r_def Let_def)
  note ps = pushed_slots [OF nn, where k = "c_index c" and r = r, folded padded_def, folded pushed_def]
  show "no_null (add_reversed s t i c R)"
    using assms ps(1) unfolding eq no_null_def
    by (auto simp: jget_jput byType_def split: option.splits if_splits)
  have old: "slot_of R (c_node c) (c_type c) k = (if k < length slots then or_empty (slots ! k) else [])"
    by (auto simp: slot_of_def slots_def byType_def split: option.splits)
  have other: "slot_of R (c_node c) ty k = (case jget byType ty of None \<Rightarrow> []
      | Some sl \<Rightarrow> if k < length sl then or_empty (sl ! k) else [])"
    by (auto simp: slot_of_def byType_def split: option.splits)
  have new: "slot_of (add_reversed s t i c R) n ty k = (if n = c_node c
      then (if ty = c_type c then (if k < length pushed then or_empty (pushed ! k) else [])
            else slot_of R n ty k) else slot_of R n ty k)"
    unfolding eq using other by (simp add: slot_of_def jget_jput)
  show "slot_of (add_reversed s t i c R) n ty k =
      slot_of R n ty k @ (if (n, ty, k) = (c_node c, c_type c, c_index c)
        then [\<lparr>c_node = s, c_type = t, c_index = i\<rparr>] else [])"
    unfolding new using ps(2) [where i = k] old by (simp add: r_def)
qed

lemma fold_add_reversed:
  assumes "no_null R"
  shows "slot_of (fold (\<lambda>(s, t, i, c). add_reversed s t i c) es R) n ty k =
      slot_of R n ty k @ map rev_of (filter (\<lambda>e. target_of e = (n, ty, k)) es)"
    and "no_null (fold (\<lambda>(s, t, i, c). add_reversed s t i c) es R)"
  using assms
proof (induction es arbitrary: R)
  case Nil
  { case 1 then show ?case by simp }
  { case 2 then show ?case by simp }
next
  case (Cons e es)
  obtain s t i c where e: "e = (s, t, i, c)" by (cases e)
  { case 1
    show ?case
      using Cons.IH(1) [OF add_reversed_slot(2) [OF 1]] add_reversed_slot(1) [OF 1]
      by (auto simp: e target_of_def rev_of_def) }
  { case 2
    show ?case using Cons.IH(2) [OF add_reversed_slot(2) [OF 2]] by (simp add: e) }
qed

text \<open>
  the connections found at input \<open>k\<close> of type \<open>ty\<close> of node \<open>n\<close> in the map by destination are
  exactly the reversals of the connections whose target is that input, in enumeration order,
  each as often as it occurs.
\<close>

theorem mapConnectionsByDestination_slots:
  "slot_of (mapConnectionsByDestination connections) n ty k =
     map rev_of (filter (\<lambda>e. target_of e = (n, ty, k)) (edge_list connections))"
  by (simp add: mapConnectionsByDestination_fold fold_add_reversed(1))

text \<open>The map by destination has each node once, and each type once per node.\<close>

definition conns_wf :: "IConnections \<Rightarrow> bool" where
  "conns_wf m \<longleftrightarrow> jwf m \<and> (\<forall>byType \<in> snd ` set m. jwf byType)"

lemma conns_wf_Nil [simp]: "conns_wf []"
  by (simp add: conns_wf_def)

lemma set_jput_subset: "set (jput k v m) \<subseteq> insert (k, v) (set m)"
  by (induction m) auto

lemma conns_wf_add_reversed:
  assumes "conns_wf R"
  shows "conns_wf (add_reversed s t i c R)"
proof -
  have "jwf (case jget R (c_node c) of None \<Rightarrow> [] | Some t \<Rightarrow> t)"
    using assms by (auto simp: conns_wf_def dest!: jget_in_set split: option.splits)
  then show ?thesis
    using assms set_jput_subset [of "c_node c" _ R]
    unfolding conns_wf_def add_reversed_def Let_def
    by (auto intro!: distinct_update dest!: subsetD [OF set_jput_subset])
qed

lemma conns_wf_mapConnectionsByDestination: "conns_wf (mapConnectionsByDestination connections)"
  unfolding mapConnectionsByDestination_fold
  by (rule fold_invariant_list) (auto intro: conns_wf_add_reversed)

lemma in_concat_map: "x \<in> set (concat (map f xs)) \<longleftrightarrow> (\<exists>y \<in> set xs. x \<in> set (f y))"
  by simp

lemma bex_pair: "(\<exists>p \<in> A. P p) \<longleftrightarrow> (\<exists>a b. (a, b) \<in> A \<and> P (a, b))"
  by auto

lemma edge_list_slot:
  assumes "conns_wf m"
  shows "(n, ty, k, c) \<in> set (edge_list m) \<longleftrightarrow> c \<in> set (slot_of m n ty k)"
proof -
  have "(n, ty, k, c) \<in> set (edge_list m) \<longleftrightarrow>
      (\<exists>byType slots. (n, byType) \<in> set m \<and> (ty, slots) \<in> set byType \<and> k < length slots \<and> c \<in> set (or_empty (slots ! k)))"
    unfolding edge_list_def in_concat_map set_own_entries
    by (simp only: bex_pair in_concat_map split set_map image_iff) (auto simp: in_set_enumerate_eq)
  also have "\<dots> \<longleftrightarrow> (\<exists>byType slots. jget m n = Some byType \<and> jget byType ty = Some slots
      \<and> k < length slots \<and> c \<in> set (or_empty (slots ! k)))"
  proof -
    have A: "(n, b) \<in> set m \<longleftrightarrow> jget m n = Some b" for b
      using assms by (simp add: conns_wf_def jget_iff_set)
    have B: "jget m n = Some b \<Longrightarrow> (ty, sl) \<in> set b \<longleftrightarrow> jget b ty = Some sl" for b sl
    proof -
      assume "jget m n = Some b"
      then have "b \<in> snd ` set m" by (auto dest!: jget_in_set intro: rev_image_eqI)
      then have "jwf b" using assms by (auto simp: conns_wf_def)
      then show ?thesis by (simp add: jget_iff_set)
    qed
    show ?thesis by (simp add: A B cong: conj_cong)
  qed
  also have "\<dots> \<longleftrightarrow> c \<in> set (slot_of m n ty k)"
    by (cases "jget m n"; cases "jget (the (jget m n)) ty") (auto simp: slot_of_def)
  finally show ?thesis .
qed

lemma edge_list_mapConnectionsByDestination:
  "(n, ty, k, r) \<in> set (edge_list (mapConnectionsByDestination connections)) \<longleftrightarrow>
     (c_node r, c_type r, c_index r, \<lparr>c_node = n, c_type = ty, c_index = k\<rparr>) \<in> set (edge_list connections)"
proof -
  have "r \<in> set (map rev_of (filter (\<lambda>e. target_of e = (n, ty, k)) (edge_list connections))) \<longleftrightarrow>
      (\<exists>s t i c. (s, t, i, c) \<in> set (edge_list connections) \<and> c_node c = n \<and> c_type c = ty \<and> c_index c = k
        \<and> r = \<lparr>c_node = s, c_type = t, c_index = i\<rparr>)"
    by (auto simp: rev_of_def target_of_def image_iff Bex_def)
  also have "\<dots> \<longleftrightarrow> (c_node r, c_type r, c_index r, \<lparr>c_node = n, c_type = ty, c_index = k\<rparr>) \<in> set (edge_list connections)"
    by (metis IConnection_collapse IConnection.select_convs(1,2,3))
  finally show ?thesis
    unfolding edge_list_slot [OF conns_wf_mapConnectionsByDestination] mapConnectionsByDestination_slots .
qed

text \<open>
  reversing twice gives the original connections back (as a set), for every map.
\<close>

theorem mapConnectionsByDestination_roundtrip:
  "set (edge_list (mapConnectionsByDestination (mapConnectionsByDestination connections))) =
     set (edge_list connections)"
  by (auto simp: edge_list_mapConnectionsByDestination)

end
