(* ===== verification/Reachability.thy ===== *)
theory Reachability
  imports JsPrelude
begin

section \<open>Reachability\<close>

text \<open>
  Edges given by a successor function, paths that avoid a set of nodes, and the contract of the
  searches the components run over them.
\<close>

text \<open>The edge relation of a successor function, and the edges that do not lead into a set.\<close>

definition edges_of :: "('a \<Rightarrow> 'a list) \<Rightarrow> ('a \<times> 'a) set" where
  "edges_of succ = {(x, y). y \<in> set (succ x)}"

definition avoiding :: "('a \<times> 'a) set \<Rightarrow> 'a set \<Rightarrow> ('a \<times> 'a) set" where
  "avoiding E A = {(x, y) \<in> E. y \<notin> A}"

lemma edges_of_iff [simp]: "(x, y) \<in> edges_of succ \<longleftrightarrow> y \<in> set (succ x)"
  by (simp add: edges_of_def)

lemma avoiding_iff [simp]: "(x, y) \<in> avoiding E A \<longleftrightarrow> (x, y) \<in> E \<and> y \<notin> A"
  by (simp add: avoiding_def)

lemma avoiding_empty [simp]: "avoiding E {} = E"
  by (auto simp: avoiding_def)

lemma avoiding_mono: "A \<subseteq> B \<Longrightarrow> avoiding E B \<subseteq> avoiding E A"
  by (auto simp: avoiding_def)

lemma rtrancl_avoiding_no_return: "(z, w) \<in> (avoiding E A)\<^sup>* \<Longrightarrow> z \<notin> A \<Longrightarrow> w \<notin> A"
  by (induction rule: rtrancl_induct) auto

text \<open>A path can be taken to leave its first node for good.\<close>

lemma rtrancl_avoiding_split:
  "(y, w) \<in> (avoiding E A)\<^sup>* \<longleftrightarrow>
     w = y \<or> (\<exists>z. (y, z) \<in> E \<and> z \<notin> insert y A \<and> (z, w) \<in> (avoiding E (insert y A))\<^sup>*)"
proof
  assume "(y, w) \<in> (avoiding E A)\<^sup>*"
  then show "w = y \<or> (\<exists>z. (y, z) \<in> E \<and> z \<notin> insert y A \<and> (z, w) \<in> (avoiding E (insert y A))\<^sup>*)"
  proof (induction rule: rtrancl_induct)
    case base
    then show ?case by simp
  next
    case (step v w)
    show ?case
    proof (cases "w = y")
      case False
      with step.hyps(2) have e: "(v, w) \<in> avoiding E (insert y A)" by auto
      show ?thesis
      proof (cases "v = y")
        case True
        with e show ?thesis by auto
      next
        case False
        with step.IH obtain z where "(y, z) \<in> E" "z \<notin> insert y A" "(z, v) \<in> (avoiding E (insert y A))\<^sup>*"
          by auto
        then show ?thesis using e by (meson rtrancl.rtrancl_into_rtrancl)
      qed
    qed simp
  qed
next
  assume "w = y \<or> (\<exists>z. (y, z) \<in> E \<and> z \<notin> insert y A \<and> (z, w) \<in> (avoiding E (insert y A))\<^sup>*)"
  then show "(y, w) \<in> (avoiding E A)\<^sup>*"
  proof
    assume "\<exists>z. (y, z) \<in> E \<and> z \<notin> insert y A \<and> (z, w) \<in> (avoiding E (insert y A))\<^sup>*"
    then obtain z where z: "(y, z) \<in> avoiding E A" "(z, w) \<in> (avoiding E (insert y A))\<^sup>*" by auto
    have "(avoiding E (insert y A))\<^sup>* \<subseteq> (avoiding E A)\<^sup>*"
      by (rule rtrancl_mono) (auto simp: avoiding_def)
    then show ?thesis using z by (meson converse_rtrancl_into_rtrancl subsetD)
  qed simp
qed

text \<open>The same with the length of the path.\<close>

lemma relpow_avoiding_leave:
  "(y, w) \<in> avoiding E A ^^ k \<Longrightarrow> w = y \<or>
     (\<exists>z. \<exists>j < k. (y, z) \<in> E \<and> z \<notin> insert y A \<and> (z, w) \<in> avoiding E (insert y A) ^^ j)"
proof (induction k arbitrary: w)
  case 0
  then show ?case by simp
next
  case (Suc k)
  then obtain v where v: "(y, v) \<in> avoiding E A ^^ k" "(v, w) \<in> avoiding E A" by auto
  show ?case
  proof (cases "w = y")
    case False
    with v(2) have e: "(v, w) \<in> avoiding E (insert y A)" by auto
    from Suc.IH [OF v(1)] show ?thesis
    proof
      assume "v = y"
      with e False show ?thesis by (intro disjI2 exI [of _ w] exI [of _ "0 :: nat"]) auto
    next
      assume "\<exists>z. \<exists>j < k. (y, z) \<in> E \<and> z \<notin> insert y A \<and> (z, v) \<in> avoiding E (insert y A) ^^ j"
      then obtain z j where "j < k" "(y, z) \<in> E" "z \<notin> insert y A" "(z, v) \<in> avoiding E (insert y A) ^^ j" by blast
      with e show ?thesis by (intro disjI2 exI [of _ z] exI [of _ "Suc j"]) auto
    qed
  qed simp
qed

lemma relpow_subset_mono: "R \<subseteq> S \<Longrightarrow> R ^^ k \<subseteq> S ^^ k" for R S :: "('a \<times> 'a) set"
  by (induction k) (auto intro: relcomp_mono [THEN subsetD])

lemma relpow_avoiding_split:
  "w = y \<or> (\<exists>z. (y, z) \<in> E \<and> z \<notin> insert y A \<and> (\<exists>j < d. (z, w) \<in> avoiding E (insert y A) ^^ j)) \<longleftrightarrow>
     (\<exists>k \<le> d. (y, w) \<in> avoiding E A ^^ k)"
proof -
  have "(y, w) \<in> avoiding E A ^^ Suc j"
    if "(y, z) \<in> E" "z \<notin> insert y A" "(z, w) \<in> avoiding E (insert y A) ^^ j" for z j
  proof -
    have "(z, w) \<in> avoiding E A ^^ j"
      using relpow_subset_mono [OF avoiding_mono [of A "insert y A" E]] that(3) by blast
    then show ?thesis using that by (intro relpow_Suc_I2 [of y z]) auto
  qed
  then have "\<exists>k \<le> d. (y, w) \<in> avoiding E A ^^ k"
    if "\<exists>z. (y, z) \<in> E \<and> z \<notin> insert y A \<and> (\<exists>j < d. (z, w) \<in> avoiding E (insert y A) ^^ j)"
    using that by (metis Suc_leI)
  moreover have "\<exists>k \<le> d. (y, w) \<in> avoiding E A ^^ k" if "w = y"
    using that by (intro exI [of _ "0 :: nat"]) simp
  ultimately show ?thesis using relpow_avoiding_leave [where y = y and w = w and E = E and A = A] by (meson less_le_trans)
qed

subsection \<open>A depth-first walk over edges\<close>

text \<open>
  The shape of the searches of \<open>DirectedGraph\<close>: follow every edge \<open>e\<close> of a node that is not
  marked yet, mark it, and go on with the edges of \<open>dst e\<close>, the marks being shared by all branches.
  \<open>ok\<close> is the assertion every visited node is checked with.
\<close>

function walk :: "('n \<Rightarrow> bool) \<Rightarrow> ('e \<Rightarrow> 'n) \<Rightarrow> ('e \<Rightarrow> 'm) \<Rightarrow> ('e \<Rightarrow> 'n) \<Rightarrow> js_error \<Rightarrow> 'e list
    \<Rightarrow> 'e list \<Rightarrow> 'm list \<Rightarrow> 'm list res" where
  "walk ok src mk dst er U [] seen = Inr seen"
| "walk ok src mk dst er U (e # es) seen =
     (if mk e \<in> set seen then walk ok src mk dst er U es seen
      else if \<not> ok (dst e) then Inl er
      else rbind (walk ok src mk dst er U (filter (\<lambda>c. src c = dst e) U) (sadd (mk e) seen))
        (walk ok src mk dst er U es))"
  by pat_completeness auto

lemma walk_mono_dom:
  "walk_dom (ok, src, mk, dst, er, U, es, seen) \<Longrightarrow> walk ok src mk dst er U es seen = Inr r
     \<Longrightarrow> set seen \<subseteq> set r"
proof (induction arbitrary: r rule: walk.pinduct)
  case 1
  then show ?case by (simp add: walk.psimps)
next
  case 2
  then show ?case by (fastforce simp: walk.psimps rbind_Inr_iff split: if_splits)
qed

lemma card_marks_less:
  "mk e \<notin> set seen \<Longrightarrow> insert (mk e) (set seen) \<subseteq> set seen' \<Longrightarrow> set es' \<subseteq> set U \<union> set es \<Longrightarrow>
     card (mk ` (set U \<union> set es') - set seen') < card (mk ` (set U \<union> set (e # es)) - set seen)"
  by (intro psubset_card_mono) auto

lemma card_marks_le: "card (mk ` (set U \<union> set es) - set seen) \<le> card (mk ` (set U \<union> set (e # es)) - set seen)"
  by (intro card_mono) auto

termination walk
proof (relation "measures [\<lambda>(ok, src, mk, dst, er, U, es, seen). card (mk ` (set U \<union> set es) - set seen),
     \<lambda>(ok, src, mk, dst, er, U, es, seen). length es]", goal_cases)
  case 1
  show ?case by simp
next
  case (2 ok src mk dst er U e es seen)
  then show ?case using card_marks_le [of mk U es seen e] by (simp add: le_less)
next
  case (3 ok src mk dst er U e es seen)
  then show ?case using card_marks_less [of mk e seen "sadd (mk e) seen" "filter (\<lambda>c. src c = dst e) U" U es] by auto
next
  case (4 ok src mk dst er U e es seen r)
  have "insert (mk e) (set seen) \<subseteq> set r" using walk_mono_dom [OF 4(4,3)] by simp
  then show ?case using card_marks_less [of mk e seen r es U es] 4 by simp
qed

lemma walk_distinct: "walk ok src mk dst er U es seen = Inr r \<Longrightarrow> distinct seen \<Longrightarrow> distinct r"
  by (induction ok src mk dst er U es seen arbitrary: r rule: walk.induct)
    (auto simp: rbind_Inr_iff split: if_splits)

lemma walk_mono: "walk ok src mk dst er U es seen = Inr r \<Longrightarrow> set seen \<subseteq> set r"
  by (induction ok src mk dst er U es seen arbitrary: r rule: walk.induct)
    (fastforce simp: rbind_Inr_iff split: if_splits)+

lemma walk_total: "\<forall>c \<in> set U \<union> set es. ok (dst c) \<Longrightarrow> \<exists>r. walk ok src mk dst er U es seen = Inr r"
proof (induction ok src mk dst er U es seen rule: walk.induct)
  case (2 ok src mk dst er U e es seen)
  show ?case
  proof (cases "mk e \<in> set seen")
    case False
    then obtain r where "walk ok src mk dst er U (filter (\<lambda>c. src c = dst e) U) (sadd (mk e) seen) = Inr r"
      using 2 by force
    then show ?thesis using 2 False by simp
  qed (use 2 in simp)
qed simp

lemma walk_Inl: "walk ok src mk dst er U es seen = Inl e \<Longrightarrow> e = er"
  by (induction ok src mk dst er U es seen rule: walk.induct) (auto simp: rbind_def split: if_splits sum.splits)

definition edge_rel :: "('e \<Rightarrow> 'n) \<Rightarrow> ('e \<Rightarrow> 'n) \<Rightarrow> 'e list \<Rightarrow> ('n \<times> 'n) set" where
  "edge_rel src dst U = {(src c, dst c) | c. c \<in> set U}"

lemma edge_relI: "c \<in> set U \<Longrightarrow> (src c, dst c) \<in> edge_rel src dst U"
  by (auto simp: edge_rel_def)

lemma walk_sound:
  assumes "walk ok src mk dst er U es seen = Inr r"
    and "\<forall>c \<in> set es. c \<in> set U \<and> (n, src c) \<in> (edge_rel src dst U)\<^sup>*"
  shows "set r \<subseteq> set seen \<union> mk ` {c \<in> set U. (n, src c) \<in> (edge_rel src dst U)\<^sup>*}"
  using assms
proof (induction ok src mk dst er U es seen arbitrary: r rule: walk.induct)
  case (2 ok src mk dst er U e es seen)
  show ?case
  proof (cases "mk e \<in> set seen")
    case False
    with "2.prems"(1) obtain r' where r': "ok (dst e)"
        "walk ok src mk dst er U (filter (\<lambda>c. src c = dst e) U) (sadd (mk e) seen) = Inr r'"
        "walk ok src mk dst er U es r' = Inr r"
      by (auto simp: rbind_Inr_iff split: if_splits)
    have "(n, dst e) \<in> (edge_rel src dst U)\<^sup>*"
      using "2.prems"(2) edge_relI [of e U src dst] by (meson list.set_intros(1) rtrancl.rtrancl_into_rtrancl)
    then have "set r' \<subseteq> set (sadd (mk e) seen) \<union> mk ` {c \<in> set U. (n, src c) \<in> (edge_rel src dst U)\<^sup>*}"
      using "2.IH"(2) [OF False _ r'(2)] r'(1) by simp
    moreover have "set r \<subseteq> set r' \<union> mk ` {c \<in> set U. (n, src c) \<in> (edge_rel src dst U)\<^sup>*}"
      using "2.IH"(3) [OF False _ r'(2,3)] r'(1) "2.prems"(2) by simp
    moreover have "mk e \<in> mk ` {c \<in> set U. (n, src c) \<in> (edge_rel src dst U)\<^sup>*}"
      using "2.prems"(2) by simp
    ultimately show ?thesis by (simp add: subset_iff) blast
  next
    case True
    with "2.prems"(1) have "walk ok src mk dst er U es seen = Inr r" by simp
    then show ?thesis using "2.IH"(1) [OF True] "2.prems"(2) by simp
  qed
qed simp

lemma walk_closed:
  assumes "walk ok src mk dst er U es seen = Inr r" and "set es \<subseteq> set U"
    and "\<forall>c \<in> set U. \<forall>c' \<in> set U. mk c = mk c' \<longrightarrow> dst c = dst c'"
  shows "mk ` set es \<subseteq> set r \<and> (\<forall>d \<in> set U. mk d \<in> set r \<longrightarrow> mk d \<notin> set seen \<longrightarrow>
    (\<forall>c \<in> set U. src c = dst d \<longrightarrow> mk c \<in> set r))"
  using assms
proof (induction ok src mk dst er U es seen arbitrary: r rule: walk.induct)
  case 1
  from "1.prems"(1) show ?case by auto
next
  case (2 ok src mk dst er U e es seen)
  show ?case
  proof (cases "mk e \<in> set seen")
    case True
    with "2.prems"(1) have w: "walk ok src mk dst er U es seen = Inr r" by simp
    have "set es \<subseteq> set U" using "2.prems"(2) by simp
    from "2.IH"(1) [OF True w this "2.prems"(3)] show ?thesis using walk_mono [OF w] True by auto
  next
    case False
    with "2.prems"(1) obtain r' where r': "ok (dst e)"
        "walk ok src mk dst er U (filter (\<lambda>c. src c = dst e) U) (sadd (mk e) seen) = Inr r'"
        "walk ok src mk dst er U es r' = Inr r"
      by (auto simp: rbind_Inr_iff split: if_splits)
    have A: "mk ` set (filter (\<lambda>c. src c = dst e) U) \<subseteq> set r'"
        "\<forall>d \<in> set U. mk d \<in> set r' \<longrightarrow> mk d \<notin> insert (mk e) (set seen) \<longrightarrow>
          (\<forall>c \<in> set U. src c = dst d \<longrightarrow> mk c \<in> set r')"
      using "2.IH"(2) [OF False _ r'(2)] r'(1) "2.prems"(3) by (simp_all only: set_sadd set_filter not_not) blast+
    have B: "mk ` set es \<subseteq> set r" "\<forall>d \<in> set U. mk d \<in> set r \<longrightarrow> mk d \<notin> set r' \<longrightarrow>
          (\<forall>c \<in> set U. src c = dst d \<longrightarrow> mk c \<in> set r)"
      using "2.IH"(3) [OF False _ r'(2) r'(3)] r'(1) "2.prems"(2,3) by (simp_all only: list.set insert_subset not_not) blast+
    have sub: "set r' \<subseteq> set r" "insert (mk e) (set seen) \<subseteq> set r'"
      using walk_mono [OF r'(3)] walk_mono [OF r'(2)] by auto
    have "mk c \<in> set r" if d: "d \<in> set U" "mk d \<in> set r" "mk d \<notin> set seen"
        and c: "c \<in> set U" "src c = dst d" for c d
    proof (cases "mk d = mk e")
      case True
      moreover have "e \<in> set U" using "2.prems"(2) by simp
      ultimately have "dst d = dst e" using "2.prems"(3) d(1) by blast
      then show ?thesis using A(1) c sub by (auto simp: image_subset_iff)
    next
      case False
      then show ?thesis using A(2) B(2) c d sub by (cases "mk d \<in> set r'") blast+
    qed
    then show ?thesis using B(1) sub by auto
  qed
qed

text \<open>The walk that starts with all edges of a node marks every edge on a path from it.\<close>

lemma walk_result:
  assumes "walk ok src mk dst er U (filter (\<lambda>c. src c = n) U) [] = Inr r"
    and det: "\<forall>c \<in> set U. \<forall>c' \<in> set U. mk c = mk c' \<longrightarrow> dst c = dst c'"
  shows "set r = mk ` {c \<in> set U. (n, src c) \<in> (edge_rel src dst U)\<^sup>*}"
proof
  show "set r \<subseteq> mk ` {c \<in> set U. (n, src c) \<in> (edge_rel src dst U)\<^sup>*}"
    using walk_sound [OF assms(1), of n] by simp
  have clo: "mk ` {c \<in> set U. src c = n} \<subseteq> set r"
      "\<forall>d \<in> set U. mk d \<in> set r \<longrightarrow> (\<forall>c \<in> set U. src c = dst d \<longrightarrow> mk c \<in> set r)"
    using walk_closed [OF assms(1) _ det] by (simp_all add: image_subset_iff)
  have "(n, x) \<in> (edge_rel src dst U)\<^sup>* \<Longrightarrow> \<forall>c \<in> set U. src c = x \<longrightarrow> mk c \<in> set r" for x
  proof (induction rule: rtrancl_induct)
    case base
    show ?case using clo(1) by auto
  next
    case (step y z)
    then obtain d where "d \<in> set U" "y = src d" "z = dst d" by (auto simp: edge_rel_def)
    then show ?case using step.IH clo(2) by blast
  qed
  then show "mk ` {c \<in> set U. (n, src c) \<in> (edge_rel src dst U)\<^sup>*} \<subseteq> set r" by auto
qed

lemma walk_nodes:
  assumes "walk ok src dst dst er U (filter (\<lambda>c. src c = n) U) [] = Inr r"
  shows "dst ` set (filter (\<lambda>c. src c = n) U) \<subseteq> set r"
    and "y \<in> set r \<Longrightarrow> c \<in> set U \<Longrightarrow> src c = y \<Longrightarrow> dst c \<in> set r"
    and "y \<in> set r \<Longrightarrow> (n, y) \<in> (edge_rel src dst U)\<^sup>+"
proof -
  have sound: "set r \<subseteq> dst ` {c \<in> set U. (n, src c) \<in> (edge_rel src dst U)\<^sup>*}"
    using walk_sound [OF assms, of n] by simp
  have clo: "dst ` set (filter (\<lambda>c. src c = n) U) \<subseteq> set r \<and> (\<forall>d \<in> set U. dst d \<in> set r \<longrightarrow>
      (\<forall>c \<in> set U. src c = dst d \<longrightarrow> dst c \<in> set r))"
    using walk_closed [OF assms] by simp
  then show "dst ` set (filter (\<lambda>c. src c = n) U) \<subseteq> set r" ..
  show "dst c \<in> set r" if y: "y \<in> set r" and c: "c \<in> set U" "src c = y"
  proof -
    obtain d where d: "d \<in> set U" "y = dst d" using sound y by auto
    have "dst d \<in> set r" using y unfolding d(2) .
    note step = clo [THEN conjunct2, THEN bspec, OF d(1), THEN mp, OF this]
    show ?thesis using c(2) unfolding d(2) by (rule step [THEN bspec, OF c(1), THEN mp])
  qed
  show "(n, y) \<in> (edge_rel src dst U)\<^sup>+" if "y \<in> set r"
    using that sound by (auto intro: rtrancl_into_trancl1 edge_relI)
qed

text \<open>
  The contract of a downstream search that, when it returns, reports every successor and is closed
  under successors: it returns exactly the nodes reachable by at least one edge.
\<close>

locale downstream_search =
  fixes succ :: "'a \<Rightarrow> 'a list"
    and search :: "'a \<Rightarrow> 'a list res"
  assumes search_succ: "search x = Inr r \<Longrightarrow> y \<in> set (succ x) \<Longrightarrow> y \<in> set r"
    and search_closed: "search x = Inr r \<Longrightarrow> y \<in> set r \<Longrightarrow> z \<in> set (succ y) \<Longrightarrow> z \<in> set r"
    and search_sound: "search x = Inr r \<Longrightarrow> y \<in> set r \<Longrightarrow> (x, y) \<in> (edges_of succ)\<^sup>+"
begin

lemma search_complete:
  assumes "(x, y) \<in> (edges_of succ)\<^sup>+" and "search x = Inr r"
  shows "y \<in> set r"
  using assms(1) by (induction rule: trancl_induct) (auto intro: search_succ search_closed assms(2))

lemma search_eq: "search x = Inr r \<Longrightarrow> set r = {y. (x, y) \<in> (edges_of succ)\<^sup>+}"
  by (auto intro: search_sound search_complete)

lemma search_trans: "search x = Inr r \<Longrightarrow> y \<in> set r \<Longrightarrow> search y = Inr s \<Longrightarrow> set s \<subseteq> set r"
  by (auto simp: search_eq)

lemma search_self: "search x = Inr r \<Longrightarrow> x \<in> set r \<longleftrightarrow> (x, x) \<in> (edges_of succ)\<^sup>+"
  by (simp add: search_eq)

end

end
