(* ===== verification/ConnectedNodes.thy ===== *)
theory ConnectedNodes
  imports Connections Reachability
begin

section \<open>Connected nodes\<close>

text \<open>
  \<open>packages/workflow/src/common\<close>: \<open>getConnectedNodes\<close> collects the nodes connected to a node, and
  \<open>getChildNodes\<close> and \<open>getParentNodes\<close> are its two directions.  The traversal terminates on every
  input, cycles included, and returns exactly the nodes reachable from the start node; the two
  directions are dual.
\<close>

subsection \<open>The traversal\<close>

datatype ConnSel = SelType NodeConnectionType | SelAll | SelAllNonMain

definition selected_types :: "ConnSel \<Rightarrow> INodeConnections \<Rightarrow> NodeConnectionType list" where
  "selected_types connectionType byType = (case connectionType of
      SelAll \<Rightarrow> jkeys byType
    | SelAllNonMain \<Rightarrow> filter (\<lambda>t. t \<noteq> Main) (jkeys byType)
    | SelType t \<Rightarrow> [t])"

text \<open>
  The loop over \<open>addNodes\<close> runs from the last index down to 0; each node moves to the front of
  \<open>returnNodes\<close>, its first earlier occurrence removed.
\<close>

definition merge_nodes :: "string list \<Rightarrow> string list \<Rightarrow> string list" where
  "merge_nodes addNodes returnNodes = foldr (\<lambda>p ret. p # remove1 p ret) addNodes returnNodes"

function getConnectedNodes ::
  "IConnections \<Rightarrow> string \<Rightarrow> ConnSel \<Rightarrow> int \<Rightarrow> string list \<Rightarrow> string list" where
  "getConnectedNodes connections nodeName connectionType depth checkedNodesIncoming =
     (let newDepth = (if depth = -1 then depth else depth - 1) in
      if depth = 0 then []
      else case jget connections nodeName of None \<Rightarrow> []
      | Some byType \<Rightarrow>
          fold (\<lambda>type returnNodes. case jget byType type of None \<Rightarrow> returnNodes
            | Some slots \<Rightarrow>
                if nodeName \<in> set checkedNodesIncoming then returnNodes
                else let checkedNodes = checkedNodesIncoming @ [nodeName] in
                  fold (\<lambda>connectionsByIndex. fold (\<lambda>connection returnNodes.
                      if c_node connection \<in> set checkedNodes then returnNodes
                      else merge_nodes
                        (getConnectedNodes connections (c_node connection) connectionType newDepth checkedNodes)
                        (c_node connection # returnNodes))
                    (or_empty connectionsByIndex)) slots returnNodes)
          (selected_types connectionType byType) [])"
  by pat_completeness auto

termination
proof (relation "measure (\<lambda>(connections, nodeName, connectionType, depth, checked).
    card (fst ` set connections - set checked))", goal_cases)
  case 1
  show ?case by simp
next
  case (2 connections nodeName ct depth chk)
  then have "nodeName \<in> fst ` set connections - set chk" by (auto dest!: jget_in_set intro: rev_image_eqI)
  then have "card (fst ` set connections - set (chk @ [nodeName])) < card (fst ` set connections - set chk)"
    by (intro psubset_card_mono) auto
  then show ?case using 2 by simp
qed

declare getConnectedNodes.simps [simp del]

subsection \<open>What it returns\<close>

text \<open>The nodes one connection away, along the selected connection types.\<close>

definition connected_succ :: "IConnections \<Rightarrow> ConnSel \<Rightarrow> string \<Rightarrow> string list" where
  "connected_succ connections ct n = (case jget connections n of None \<Rightarrow> []
     | Some byType \<Rightarrow> concat (map (\<lambda>t. concat (map (\<lambda>cs. map c_node (or_empty cs))
         (or_empty (jget byType t)))) (selected_types ct byType)))"

lemma getConnectedNodes_unfold:
  "getConnectedNodes C n ct d chk =
     (if d = 0 \<or> n \<in> set chk then []
      else fold (\<lambda>w ret. if w \<in> set (chk @ [n]) then ret
          else merge_nodes (getConnectedNodes C w ct (if d = -1 then d else d - 1) (chk @ [n])) (w # ret))
        (connected_succ C ct n) [])"
proof -
  have skip: "fold (\<lambda>x s. s) xs = (\<lambda>s. s)" for xs :: "'x list" by (induction xs) auto
  have guard: "(\<lambda>t r. case f t of None \<Rightarrow> r | Some s \<Rightarrow> if P then r else let ck = K in fold (h ck) s r) =
      (\<lambda>t r. if P then r else fold (h K) (or_empty (f t)) r)"
    for f :: "'t \<Rightarrow> 'x list option" and P and K :: 'k and h :: "'k \<Rightarrow> 'x \<Rightarrow> 'r \<Rightarrow> 'r"
    by (auto simp: fun_eq_iff split: option.split)
  show ?thesis
    unfolding getConnectedNodes.simps [of C n ct d chk] guard
    by (auto simp: Let_def connected_succ_def fold_concat_map fold_map comp_def skip split: option.split)
qed

lemma set_merge_nodes [simp]: "set (merge_nodes add ret) = set add \<union> set ret"
proof (induction add)
  case (Cons a add)
  have "set (a # remove1 a xs) = insert a (set xs)" for xs :: "string list"
    by (induction xs) auto
  then show ?case using Cons by (simp add: merge_nodes_def)
qed (simp add: merge_nodes_def)

lemma set_fold_merge:
  "set (fold (\<lambda>w ret. if w \<in> A then ret else merge_nodes (g w) (w # ret)) ws ret) =
     (\<Union>w \<in> {w \<in> set ws. w \<notin> A}. insert w (set (g w))) \<union> set ret"
  by (induction ws arbitrary: ret) auto

lemma set_getConnectedNodes_avoiding:
  "set (getConnectedNodes C n ct (-1) chk) =
     (if n \<in> set chk then {} else
       {w. \<exists>y \<in> set (connected_succ C ct n). y \<notin> insert n (set chk)
          \<and> (y, w) \<in> (avoiding (edges_of (connected_succ C ct)) (insert n (set chk)))\<^sup>*})"
proof (induction "card (fst ` set C - set chk)" arbitrary: n chk rule: less_induct)
  case less
  define E where "E = edges_of (connected_succ C ct)"
  show ?case
  proof (cases "n \<in> set chk \<or> connected_succ C ct n = []")
    case True
    then show ?thesis by (subst getConnectedNodes_unfold) auto
  next
    case False
    then have "n \<in> fst ` set C - set chk"
      by (auto simp: connected_succ_def split: option.splits dest!: jget_in_set intro: rev_image_eqI)
    then have lt: "card (fst ` set C - set (chk @ [n])) < card (fst ` set C - set chk)"
      by (intro psubset_card_mono) auto
    have IH: "insert y (set (getConnectedNodes C y ct (-1) (chk @ [n]))) = {w. (y, w) \<in> (avoiding E (insert n (set chk)))\<^sup>*}"
      if "y \<notin> insert n (set chk)" for y
      using less [OF lt, of y] that rtrancl_avoiding_split [of y _ E "insert n (set chk)"]
      by (auto simp: E_def insert_commute)
    have "set (getConnectedNodes C n ct (-1) chk) =
        (\<Union>y \<in> {y \<in> set (connected_succ C ct n). y \<notin> insert n (set chk)}.
           insert y (set (getConnectedNodes C y ct (-1) (chk @ [n]))))"
      using False by (subst getConnectedNodes_unfold) (simp add: set_fold_merge [where A = "insert n (set chk)", simplified])
    also have "\<dots> = {w. \<exists>y \<in> set (connected_succ C ct n). y \<notin> insert n (set chk)
        \<and> (y, w) \<in> (avoiding E (insert n (set chk)))\<^sup>*}"
      using IH by auto
    finally show ?thesis using False by (simp add: E_def)
  qed
qed

definition getChildNodes :: "IConnections \<Rightarrow> string \<Rightarrow> ConnSel \<Rightarrow> int \<Rightarrow> string list" where
  "getChildNodes connectionsBySourceNode nodeName type depth =
     getConnectedNodes connectionsBySourceNode nodeName type depth []"

definition getParentNodes :: "IConnections \<Rightarrow> string \<Rightarrow> ConnSel \<Rightarrow> int \<Rightarrow> string list" where
  "getParentNodes connectionsByDestinationNode nodeName type depth =
     getConnectedNodes connectionsByDestinationNode nodeName type depth []"

text \<open>C22: without a depth limit exactly the other nodes reachable from the start node are returned.\<close>

theorem getConnectedNodes_reachable:
  "set (getConnectedNodes connections nodeName ct (-1) []) =
     {w. w \<noteq> nodeName \<and> (nodeName, w) \<in> (edges_of (connected_succ connections ct))\<^sup>+}"
proof -
  have "set (getConnectedNodes connections nodeName ct (-1) []) =
     {w. w \<noteq> nodeName \<and> (nodeName, w) \<in> (edges_of (connected_succ connections ct))\<^sup>*}"
    using rtrancl_avoiding_split [of nodeName _ "edges_of (connected_succ connections ct)" "{}"]
    by (subst set_getConnectedNodes_avoiding) (auto dest: rtrancl_avoiding_no_return)
  then show ?thesis by (auto dest: rtranclD trancl_into_rtrancl)
qed

text \<open>With a depth limit: the nodes reachable by at most that many connections.\<close>

lemma set_getConnectedNodes_depth_avoiding:
  "set (getConnectedNodes C n ct (int d) chk) =
     (if n \<in> set chk then {} else
       {w. \<exists>y \<in> set (connected_succ C ct n). y \<notin> insert n (set chk)
          \<and> (\<exists>k < d. (y, w) \<in> avoiding (edges_of (connected_succ C ct)) (insert n (set chk)) ^^ k)})"
proof (induction d arbitrary: n chk)
  case 0
  then show ?case by (subst getConnectedNodes_unfold) simp
next
  case (Suc d)
  define E where "E = edges_of (connected_succ C ct)"
  show ?case
  proof (cases "n \<in> set chk")
    case True
    then show ?thesis by (subst getConnectedNodes_unfold) simp
  next
    case False
    have IH: "insert y (set (getConnectedNodes C y ct (int d) (chk @ [n]))) =
        {w. \<exists>k \<le> d. (y, w) \<in> avoiding E (insert n (set chk)) ^^ k}"
      if "y \<notin> insert n (set chk)" for y
    proof -
      have "w \<in> insert y (set (getConnectedNodes C y ct (int d) (chk @ [n]))) \<longleftrightarrow>
          w = y \<or> (\<exists>z. (y, z) \<in> E \<and> z \<notin> insert y (insert n (set chk))
            \<and> (\<exists>j < d. (z, w) \<in> avoiding E (insert y (insert n (set chk))) ^^ j))" for w
        unfolding Suc.IH E_def using that by auto
      then show ?thesis unfolding relpow_avoiding_split by blast
    qed
    have "set (getConnectedNodes C n ct (int (Suc d)) chk) =
        (\<Union>y \<in> {y \<in> set (connected_succ C ct n). y \<notin> insert n (set chk)}.
           insert y (set (getConnectedNodes C y ct (int d) (chk @ [n]))))"
      using False by (subst getConnectedNodes_unfold)
        (simp add: set_fold_merge [where A = "insert n (set chk)", simplified])
    also have "\<dots> = {w. \<exists>y \<in> set (connected_succ C ct n). y \<notin> insert n (set chk)
        \<and> (\<exists>k < Suc d. (y, w) \<in> avoiding E (insert n (set chk)) ^^ k)}"
      using IH by (auto simp: less_Suc_eq_le)
    finally show ?thesis using False by (simp add: E_def)
  qed
qed

text \<open>
  with a depth limit exactly the other nodes that a path of at most that many connections
  reaches are returned.
\<close>

theorem getConnectedNodes_depth:
  "set (getConnectedNodes connections nodeName ct (int d) []) =
     {w. w \<noteq> nodeName \<and> (\<exists>k \<le> d. (nodeName, w) \<in> edges_of (connected_succ connections ct) ^^ k)}"
proof -
  let ?E = "edges_of (connected_succ connections ct)"
  have noret: "w \<noteq> nodeName" if "(z, w) \<in> avoiding ?E {nodeName} ^^ j" "z \<noteq> nodeName" for z w j
    using that rtrancl_avoiding_no_return [of z w ?E "{nodeName}"] relpow_imp_rtrancl by blast
  have "set (getConnectedNodes connections nodeName ct (int d) []) =
      {w. \<exists>y. (nodeName, y) \<in> ?E \<and> y \<notin> {nodeName} \<and> (\<exists>k < d. (y, w) \<in> avoiding ?E {nodeName} ^^ k)}"
    by (subst set_getConnectedNodes_depth_avoiding) auto
  also have "\<dots> = {w. w \<noteq> nodeName \<and> (w = nodeName \<or>
      (\<exists>y. (nodeName, y) \<in> ?E \<and> y \<notin> {nodeName} \<and> (\<exists>k < d. (y, w) \<in> avoiding ?E {nodeName} ^^ k)))}"
    using noret by blast
  also have "\<dots> = {w. w \<noteq> nodeName \<and> (\<exists>k \<le> d. (nodeName, w) \<in> ?E ^^ k)}"
    using relpow_avoiding_split [where y = nodeName and d = d and E = ?E and A = "{}"] by simp
  finally show ?thesis .
qed

subsection \<open>The two directions are dual\<close>

lemma connected_succ_edges:
  assumes "conns_wf m"
  shows "w \<in> set (connected_succ m ct n) \<longleftrightarrow>
    (\<exists>t k c. (n, t, k, c) \<in> set (edge_list m) \<and> c_node c = w
       \<and> (case ct of SelType t' \<Rightarrow> t = t' | SelAll \<Rightarrow> True | SelAllNonMain \<Rightarrow> t \<noteq> Main))"
proof (cases "jget m n")
  case None
  then show ?thesis by (simp add: connected_succ_def edge_list_slot [OF assms] slot_of_def)
next
  case (Some byType)
  have sel: "jget byType t \<noteq> None \<Longrightarrow> t \<in> set (selected_types ct byType) \<longleftrightarrow>
      (case ct of SelType t' \<Rightarrow> t = t' | SelAll \<Rightarrow> True | SelAllNonMain \<Rightarrow> t \<noteq> Main)" for t
    by (cases ct) (auto simp: selected_types_def dest: jget_in_set intro: rev_image_eqI)
  have slot: "c \<in> set (slot_of m n t k) \<longleftrightarrow>
      (\<exists>slots. jget byType t = Some slots \<and> k < length slots \<and> c \<in> set (or_empty (slots ! k)))" for t k c
    by (cases "jget byType t") (auto simp: slot_of_def Some)
  have "w \<in> set (connected_succ m ct n) \<longleftrightarrow> (\<exists>t slots k c. t \<in> set (selected_types ct byType)
      \<and> jget byType t = Some slots \<and> k < length slots \<and> c \<in> set (or_empty (slots ! k)) \<and> c_node c = w)"
  proof -
    have "x \<in> set (or_empty (jget byType t)) \<longleftrightarrow> (\<exists>slots. jget byType t = Some slots \<and> x \<in> set slots)" for x t
      by (cases "jget byType t") auto
    then show ?thesis
      by (simp add: connected_succ_def Some image_iff) (metis in_set_conv_nth)
  qed
  then show ?thesis
    unfolding edge_list_slot [OF assms] slot using sel by (metis option.distinct(1))
qed

text \<open>Connections whose input type is their output type, as the editor creates them.\<close>

definition type_preserving :: "IConnections \<Rightarrow> bool" where
  "type_preserving m \<longleftrightarrow> list_all (\<lambda>(s, t, i, c). c_type c = t) (edge_list m)"

lemma connected_succ_reversed:
  assumes "conns_wf m" and "type_preserving m"
  shows "edges_of (connected_succ (mapConnectionsByDestination m) ct) = (edges_of (connected_succ m ct))\<inverse>"
proof -
  define ok where "ok t = (case ct of SelType t' \<Rightarrow> t = t' | SelAll \<Rightarrow> True | SelAllNonMain \<Rightarrow> t \<noteq> Main)" for t
  have "p \<in> set (connected_succ (mapConnectionsByDestination m) ct n) \<longleftrightarrow> n \<in> set (connected_succ m ct p)" for p n
  proof -
    have tp: "(s, t, i, c) \<in> set (edge_list m) \<Longrightarrow> c_type c = t" for s t i c
      using assms(2) by (auto simp: type_preserving_def list_all_iff)
    have "p \<in> set (connected_succ (mapConnectionsByDestination m) ct n) \<longleftrightarrow>
        (\<exists>t k (r :: IConnection). (c_node r, c_type r, c_index r, \<lparr>c_node = n, c_type = t, c_index = k\<rparr>) \<in> set (edge_list m)
          \<and> c_node r = p \<and> ok t)"
      unfolding connected_succ_edges [OF conns_wf_mapConnectionsByDestination] edge_list_mapConnectionsByDestination ok_def by blast
    also have "\<dots> \<longleftrightarrow> (\<exists>t k c. (p, t, k, c) \<in> set (edge_list m) \<and> c_node c = n \<and> ok t)"
    proof
      assume "\<exists>t k (r :: IConnection). (c_node r, c_type r, c_index r, \<lparr>c_node = n, c_type = t, c_index = k\<rparr>) \<in> set (edge_list m)
          \<and> c_node r = p \<and> ok t"
      then obtain t k and r :: IConnection where r: "(p, c_type r, c_index r, \<lparr>c_node = n, c_type = t, c_index = k\<rparr>) \<in> set (edge_list m)" "ok t"
        by blast
      then have "c_type r = t" using tp [OF r(1)] by simp
      with r show "\<exists>t k c. (p, t, k, c) \<in> set (edge_list m) \<and> c_node c = n \<and> ok t"
        by (intro exI [of _ t] exI [of _ "c_index r"] exI [of _ "\<lparr>c_node = n, c_type = t, c_index = k\<rparr>"]) simp
    next
      assume "\<exists>t k c. (p, t, k, c) \<in> set (edge_list m) \<and> c_node c = n \<and> ok t"
      then obtain t k c where c: "(p, t, k, c) \<in> set (edge_list m)" "c_node c = n" "ok t" by blast
      then show "\<exists>t k (r :: IConnection). (c_node r, c_type r, c_index r, \<lparr>c_node = n, c_type = t, c_index = k\<rparr>) \<in> set (edge_list m)
          \<and> c_node r = p \<and> ok t"
        using tp [OF c(1)]
        by (intro exI [of _ t] exI [of _ "c_index c"] exI [of _ "\<lparr>c_node = p, c_type = t, c_index = k\<rparr>"]) auto
    qed
    also have "\<dots> \<longleftrightarrow> n \<in> set (connected_succ m ct p)"
      unfolding connected_succ_edges [OF assms(1)] ok_def by blast
    finally show ?thesis .
  qed
  then show ?thesis by (auto simp: edges_of_def)
qed

text \<open>
  C23: a node is among the parents of another exactly if the other is among its children.
\<close>

theorem parent_child_duality:
  assumes "conns_wf connections" and "type_preserving connections"
  shows "p \<in> set (getParentNodes (mapConnectionsByDestination connections) n ct (-1)) \<longleftrightarrow>
    n \<in> set (getChildNodes connections p ct (-1))"
  unfolding getParentNodes_def getChildNodes_def getConnectedNodes_reachable
    connected_succ_reversed [OF assms] by (auto simp: trancl_converse)

definition triangle :: IConnections where
  "triangle = [(''A'', [(Main, [Some [\<lparr>c_node = ''B'', c_type = Main, c_index = 0\<rparr>,
                                    \<lparr>c_node = ''C'', c_type = Main, c_index = 1\<rparr>]])]),
     (''B'', [(Main, [Some [\<lparr>c_node = ''C'', c_type = Main, c_index = 0\<rparr>]])])]"

theorem parent_child_duality_witness:
  "''A'' \<in> set (getParentNodes (mapConnectionsByDestination triangle) ''C'' SelAll (-1)) \<longleftrightarrow>
   ''C'' \<in> set (getChildNodes triangle ''A'' SelAll (-1))"
proof (rule parent_child_duality)
  show "conns_wf triangle" by (simp add: conns_wf_def triangle_def)
  show "type_preserving triangle" by code_simp
qed

end
