(* ===== verification/ObservableObject.thy ===== *)
theory ObservableObject
  imports WorkflowTypes
begin

section \<open>Observable objects\<close>

text \<open>
  \<open>packages/workflow/src/observable-object.ts\<close>: the static data of a workflow is wrapped in a proxy that records
  whether it changed.  \<open>create\<close> wraps the objects that are there; the \<open>set\<close> trap stores what it is given, so an
  object assigned later is not wrapped and the writes below it are not seen.  The proxies of a tree share the
  flag of the root.  A write is given by the path of the object that it changes; paths lead through objects, and
  writes inside arrays are not modelled.  The data is a tree: no object is in it twice.
\<close>

text \<open>A value of the tree: an object, wrapped or not, or something else.\<close>

datatype ovalue = Leaf json | Obj bool "(string \<times> ovalue) list"

record IObservableObject =
  o_data :: "(string, ovalue) jmap"
  o_dataChanged :: bool
  o_ignoreEmptyOnFirstChild :: bool

fun wrap_value :: "json \<Rightarrow> ovalue" where
  "wrap_value (JObj kvs) = Obj True (map (\<lambda>(k, v). (k, wrap_value v)) kvs)"
| "wrap_value v = Leaf v"

text \<open>What a reader of the data sees.\<close>

fun unwrap :: "ovalue \<Rightarrow> json" where
  "unwrap (Leaf v) = v"
| "unwrap (Obj wrapped kvs) = JObj (map (\<lambda>(k, v). (k, unwrap v)) kvs)"

definition unwrap_all :: "(string, ovalue) jmap \<Rightarrow> (string, json) jmap" where
  "unwrap_all kvs = map (\<lambda>(k, v). (k, unwrap v)) kvs"

definition create :: "(string, json) jmap \<Rightarrow> bool \<Rightarrow> IObservableObject" where
  "create target ignoreEmptyOnFirstChild =
     \<lparr>o_data = map (\<lambda>(k, v). (k, wrap_value v)) target, o_dataChanged = False,
       o_ignoreEmptyOnFirstChild = ignoreEmptyOnFirstChild\<rparr>"

definition is_undefined :: "ovalue option \<Rightarrow> bool" where
  "is_undefined v \<longleftrightarrow> v = None \<or> v = Some (Leaf JUndefined)"

text \<open>
  The test of the \<open>set\<close> trap of the root: \<open>typeof value === 'object' && Object.keys(value).length === 0\<close>,
  where \<open>typeof null\<close> is \<open>'object'\<close> and \<open>Object.keys(null)\<close> throws.
\<close>

fun is_empty_object :: "ovalue \<Rightarrow> bool res" where
  "is_empty_object (Leaf JNull) = Inl TypeError"
| "is_empty_object (Obj wrapped kvs) = Inr (kvs = [])"
| "is_empty_object (Leaf (JObj kvs)) = Inr (kvs = [])"
| "is_empty_object (Leaf (JArr xs)) = Inr (xs = [])"
| "is_empty_object _ = Inr False"

definition set_root :: "string \<Rightarrow> ovalue \<Rightarrow> IObservableObject \<Rightarrow> IObservableObject res" where
  "set_root name value ob =
     rbind (if o_ignoreEmptyOnFirstChild ob \<and> is_undefined (jget (o_data ob) name)
            then is_empty_object value else Inr False)
       (\<lambda>ignored. Inr (ob\<lparr>o_data := jput name value (o_data ob),
          o_dataChanged := (if ignored then o_dataChanged ob else True)\<rparr>))"

definition delete_root :: "string \<Rightarrow> IObservableObject \<Rightarrow> IObservableObject" where
  "delete_root name ob = ob\<lparr>o_data := jdel name (o_data ob), o_dataChanged := True\<rparr>"

text \<open>
  A change \<open>f\<close> of the object at the end of a path.  A missing or primitive step on the way is an exception.  The
  second component is the \<open>wrapped\<close> flag of that object: only the trap of a wrapped object sets the flag.
\<close>

fun change_at :: "((string, ovalue) jmap \<Rightarrow> (string, ovalue) jmap) \<Rightarrow> string list \<Rightarrow> bool \<Rightarrow> (string, ovalue) jmap
    \<Rightarrow> ((string, ovalue) jmap \<times> bool) res" where
  "change_at f [] wrapped kvs = Inr (f kvs, wrapped)"
| "change_at f (p # ps) wrapped kvs = (case jget kvs p of
      Some (Obj w sub) \<Rightarrow> rbind (change_at f ps w sub) (\<lambda>(sub', seen). Inr (jput p (Obj w sub') kvs, seen))
    | _ \<Rightarrow> Inl TypeError)"

definition change_below :: "((string, ovalue) jmap \<Rightarrow> (string, ovalue) jmap) \<Rightarrow> string list \<Rightarrow> IObservableObject
    \<Rightarrow> IObservableObject res" where
  "change_below f path ob = rbind (change_at f path True (o_data ob))
     (\<lambda>(d, seen). Inr (ob\<lparr>o_data := d, o_dataChanged := (o_dataChanged ob \<or> seen)\<rparr>))"

definition set_at :: "string list \<Rightarrow> string \<Rightarrow> ovalue \<Rightarrow> IObservableObject \<Rightarrow> IObservableObject res" where
  "set_at path name value ob = (if path = [] then set_root name value ob else change_below (jput name value) path ob)"

definition delete_at :: "string list \<Rightarrow> string \<Rightarrow> IObservableObject \<Rightarrow> IObservableObject res" where
  "delete_at path name ob = (if path = [] then Inr (delete_root name ob) else change_below (jdel name) path ob)"

datatype obs_write = SetAt "string list" string ovalue | DeleteAt "string list" string

fun apply_write :: "obs_write \<Rightarrow> IObservableObject \<Rightarrow> IObservableObject res" where
  "apply_write (SetAt path name value) ob = set_at path name value ob"
| "apply_write (DeleteAt path name) ob = delete_at path name ob"

subsection \<open>What the flag promises\<close>

text \<open>The part of a value that the proxies watch: objects that are not wrapped count as empty.\<close>

fun watched :: "ovalue \<Rightarrow> ovalue" where
  "watched (Leaf v) = Leaf v"
| "watched (Obj w kvs) = Obj w (if w then map (\<lambda>(k, v). (k, watched v)) kvs else [])"

definition watched_all :: "(string, ovalue) jmap \<Rightarrow> (string, ovalue) jmap" where
  "watched_all kvs = map (\<lambda>(k, v). (k, watched v)) kvs"

lemma watched_Obj: "watched (Obj w kvs) = Obj w (if w then watched_all kvs else [])"
  by (simp add: watched_all_def)

lemma jget_watched: "jget (watched_all kvs) k = map_option watched (jget kvs k)"
  by (induction kvs) (auto simp: watched_all_def)

lemma watched_jput: "jget kvs p = Some v \<Longrightarrow> watched v' = watched v \<Longrightarrow> watched_all (jput p v' kvs) = watched_all kvs"
  by (induction kvs) (auto simp: watched_all_def split: if_splits)

lemma watched_undefined: "is_undefined (map_option watched v) = is_undefined v"
proof (cases v)
  case (Some x)
  then show ?thesis by (cases x) (simp_all add: is_undefined_def)
qed (simp add: is_undefined_def)

lemma change_at_unseen:
  "change_at f ps w kvs = Inr (kvs', False) \<Longrightarrow> watched (Obj w kvs') = watched (Obj w kvs)"
proof (induction ps arbitrary: w kvs kvs')
  case (Cons p ps)
  then obtain w' sub sub' where p: "jget kvs p = Some (Obj w' sub)" "change_at f ps w' sub = Inr (sub', False)"
      "kvs' = jput p (Obj w' sub') kvs"
    by (auto simp: rbind_Inr_iff split: option.splits ovalue.splits)
  then show ?case using watched_jput [OF p(1) Cons.IH [OF p(2)]] by (simp add: watched_Obj del: watched.simps)
qed simp

text \<open>A step that leaves the flag off: nothing watched changes, but for a new entry of the root without contents.\<close>

definition is_empty :: "ovalue \<Rightarrow> bool" where
  "is_empty v \<longleftrightarrow> v = Obj True [] \<or> v = Obj False [] \<or> v = Leaf (JArr []) \<or> v = Leaf (JObj [])"

lemma apply_write_unseen:
  assumes "apply_write wr ob = Inr ob'" and "\<not> o_dataChanged ob'"
  shows "\<not> o_dataChanged ob \<and> o_ignoreEmptyOnFirstChild ob' = o_ignoreEmptyOnFirstChild ob
    \<and> (watched_all (o_data ob') = watched_all (o_data ob)
      \<or> (\<exists>name v. o_ignoreEmptyOnFirstChild ob \<and> is_undefined (jget (o_data ob) name) \<and> is_empty (watched v)
          \<and> o_data ob' = jput name v (o_data ob)))"
proof -
  have below: "\<not> o_dataChanged ob \<and> o_ignoreEmptyOnFirstChild ob' = o_ignoreEmptyOnFirstChild ob
      \<and> watched_all (o_data ob') = watched_all (o_data ob)" if "change_below f path ob = Inr ob'" for f path
    using that assms(2) change_at_unseen [of f path True "o_data ob"]
    by (auto simp: change_below_def rbind_Inr_iff watched_all_def)
  have empty: "is_empty (watched v)" if "is_empty_object v = Inr True" for v
    using that by (cases v rule: is_empty_object.cases) (auto simp: is_empty_def)
  show ?thesis
  proof (cases wr)
    case (SetAt path name v)
    then show ?thesis
      using assms below [of "jput name v" path] empty [of v]
      by (fastforce simp: set_at_def set_root_def rbind_Inr_iff split: if_splits)
  next
    case (DeleteAt path name)
    then show ?thesis using assms below [of "jdel name" path] by (auto simp: delete_at_def delete_root_def split: if_splits)
  qed
qed

text \<open>
  C24: if no write or deletion of a sequence has set the flag, then every entry of the root that was there is as
  before, but for the contents of objects assigned earlier, which are not watched; and a new entry was an empty
  object or array, and has no watched contents.
\<close>

theorem observable_unmarked:
  assumes "rfold apply_write ws ob = Inr ob'" and "\<not> o_dataChanged ob'"
  shows "map_option watched (jget (o_data ob') k) = map_option watched (jget (o_data ob) k)
    \<or> (o_ignoreEmptyOnFirstChild ob \<and> is_undefined (jget (o_data ob) k)
        \<and> (\<exists>v. jget (o_data ob') k = Some v \<and> is_empty (watched v)))"
proof -
  define good where "good d k \<longleftrightarrow> map_option watched (jget d k) = map_option watched (jget (o_data ob) k)
    \<or> (o_ignoreEmptyOnFirstChild ob \<and> is_undefined (jget (o_data ob) k) \<and> (\<exists>v. jget d k = Some v \<and> is_empty (watched v)))" for d k
  define I where "I s \<longleftrightarrow> (o_dataChanged s \<or> (o_ignoreEmptyOnFirstChild s = o_ignoreEmptyOnFirstChild ob
    \<and> (\<forall>k. good (o_data s) k)))" for s :: IObservableObject
  have "I ob'"
  proof (rule rfold_invariant [OF assms(1), of I])
    show "I ob" by (simp add: I_def good_def)
    show "I s'" if "I s" and st: "apply_write x s = Inr s'" for x s s'
    proof (cases "o_dataChanged s'")
      case False
      note step = apply_write_unseen [OF st False]
      have old: "good (o_data s) k" and opt: "o_ignoreEmptyOnFirstChild s = o_ignoreEmptyOnFirstChild ob" for k
        using \<open>I s\<close> step by (auto simp: I_def)
      consider "watched_all (o_data s') = watched_all (o_data s)"
        | name v where "o_ignoreEmptyOnFirstChild s" "is_undefined (jget (o_data s) name)" "is_empty (watched v)"
            "o_data s' = jput name v (o_data s)"
        using step by blast
      then have "good (o_data s') k" for k
      proof cases
        case 1
        then have "map_option watched (jget (o_data s') k) = map_option watched (jget (o_data s) k)"
          by (simp add: jget_watched [symmetric])
        then show ?thesis using old [of k] by (auto simp: good_def)
      next
        case 2
        have "is_undefined (jget (o_data ob) name)"
          using old [of name] 2(2) watched_undefined [of "jget (o_data ob) name"]
          by (auto simp: good_def is_undefined_def is_empty_def)
        then show ?thesis using old [of k] 2(1,3,4) opt by (auto simp: good_def jget_jput)
      qed
      then show ?thesis using step opt by (simp add: I_def)
    qed (simp add: I_def)
  qed
  then show ?thesis using assms(2) by (simp add: I_def good_def)
qed

text \<open>Static data with one node entry: an object is assigned below it, and the data is saved.\<close>

definition saved_data :: IObservableObject where
  "saved_data = (case apply_write (SetAt [''node:A''] ''seen'' (Obj False [])) (create [(''node:A'', JObj [(''id'', JNum 1)])] True) of
     Inr ob \<Rightarrow> ob\<lparr>o_dataChanged := False\<rparr> | Inl e \<Rightarrow> create [] True)"

definition later_write :: obs_write where
  "later_write = SetAt [''node:A'', ''seen''] ''last'' (Leaf (JNum 2))"

text \<open>A later write below the assigned object changes the data, and the flag stays off: the change is never saved.\<close>

theorem nested_write_unseen:
  "(case apply_write later_write saved_data of Inl e \<Rightarrow> False
    | Inr ob \<Rightarrow> \<not> o_dataChanged ob \<and> map (\<lambda>(k, v). (k, unwrap v)) (o_data ob)
        = [(''node:A'', JObj [(''id'', JNum 1), (''seen'', JObj [(''last'', JNum 2)])])])"
  by code_simp

theorem observable_unmarked_witness:
  "\<exists>ob'. rfold apply_write [later_write, SetAt [] ''node:B'' (Obj True [])] saved_data = Inr ob' \<and> \<not> o_dataChanged ob'
    \<and> map_option watched (jget (o_data ob') ''node:A'')
      = Some (Obj True [(''id'', Leaf (JNum 1)), (''seen'', Obj False [])])"
proof -
  define ob' where "ob' = (case rfold apply_write [later_write, SetAt [] ''node:B'' (Obj True [])] saved_data of
    Inr ob \<Rightarrow> ob | Inl e \<Rightarrow> saved_data)"
  have run: "rfold apply_write [later_write, SetAt [] ''node:B'' (Obj True [])] saved_data = Inr ob'"
    unfolding ob'_def by code_simp
  have off: "\<not> o_dataChanged ob'" unfolding ob'_def by code_simp
  have "jget (o_data saved_data) ''node:A''
      = Some (Obj True [(''id'', Leaf (JNum 1)), (''seen'', Obj False [])])" by code_simp
  then have "map_option watched (jget (o_data ob') ''node:A'')
      = Some (Obj True [(''id'', Leaf (JNum 1)), (''seen'', Obj False [])])"
    using observable_unmarked [OF run off, of "''node:A''"] by (simp add: is_undefined_def)
  then show ?thesis using run off by blast
qed

text \<open>A fresh key of the root cannot be set to \<open>null\<close>: the trap throws.\<close>

lemma set_root_null_throws:
  "jget (o_data ob) name = None \<Longrightarrow> o_ignoreEmptyOnFirstChild ob \<Longrightarrow> set_root name (Leaf JNull) ob = Inl TypeError"
  by (simp add: set_root_def is_undefined_def)

end
