(* ===== verification/Workflow.thy ===== *)
theory Workflow
  imports ConnectedNodes ObservableObject "HOL-Library.Char_ord" "HOL-Library.List_Lexorder"
begin

section \<open>The workflow object\<close>

text \<open>
  The class \<open>Workflow\<close> of \<open>packages/workflow/src/workflow.ts\<close>: its state as a record, its methods
  as functions of the state.  The node type registry is the parameter \<open>nodeTypes\<close>.  Parameters of
  single operations are the defaults computed by \<open>NodeHelpers.getNodeParameters\<close>, the outputs
  computed by \<open>NodeHelpers.getNodeOutputs\<close>, which evaluates expressions, and the
  regular-expression rewriting of \<open>applyAccessPatterns\<close>.
\<close>

record Workflow =
  w_id :: string
  w_name :: string
  w_nodes :: INodes
  w_connectionsBySourceNode :: IConnections
  w_connectionsByDestinationNode :: IConnections
  w_active :: bool
  w_settings :: "(string, json) jmap"
  w_staticData :: IObservableObject
  w_testStaticData :: "(string, json) jmap option"
  w_pinData :: "IPinData option"

record WorkflowParameters =
  wp_id :: string
  wp_name :: string
  wp_nodes :: "INode list"
  wp_connections :: IConnections
  wp_active :: bool
  wp_settings :: "(string, json) jmap"
  wp_staticData :: "(string, json) jmap"
  wp_pinData :: "IPinData option"

subsection \<open>Construction and setters\<close>

definition setNodes :: "INode list \<Rightarrow> Workflow \<Rightarrow> Workflow" where
  "setNodes nodes w = w\<lparr>w_nodes := fold (\<lambda>node. jput (n_name node) node) nodes []\<rparr>"

definition setConnections :: "IConnections \<Rightarrow> Workflow \<Rightarrow> Workflow" where
  "setConnections connections w = w\<lparr>w_connectionsBySourceNode := connections,
     w_connectionsByDestinationNode := mapConnectionsByDestination connections\<rparr>"

definition setPinData :: "IPinData option \<Rightarrow> Workflow \<Rightarrow> Workflow" where
  "setPinData pinData w = w\<lparr>w_pinData := pinData\<rparr>"

definition setSettings :: "(string, json) jmap \<Rightarrow> Workflow \<Rightarrow> Workflow" where
  "setSettings settings w = w\<lparr>w_settings := settings\<rparr>"

definition setTestStaticData :: "(string, json) jmap \<Rightarrow> Workflow \<Rightarrow> Workflow" where
  "setTestStaticData testStaticData w = w\<lparr>w_testStaticData := Some testStaticData\<rparr>"

definition overrideStaticData :: "(string, json) jmap option \<Rightarrow> Workflow \<Rightarrow> Workflow" where
  "overrideStaticData staticData w = w\<lparr>w_staticData :=
     (create (case staticData of None \<Rightarrow> [] | Some d \<Rightarrow> d) True)\<lparr>o_dataChanged := True\<rparr>\<rparr>"

definition newWorkflow :: "INodeTypes \<Rightarrow> (INodeType \<Rightarrow> INode \<Rightarrow> (string, json) jmap option)
    \<Rightarrow> WorkflowParameters \<Rightarrow> Workflow" where
  "newWorkflow nodeTypes getNodeParameters p =
     (let nodes = map (\<lambda>node. case nodeTypes (n_type node) (n_typeVersion node) of None \<Rightarrow> node
            | Some nodeType \<Rightarrow> node\<lparr>n_parameters := (case getNodeParameters nodeType node of
                 None \<Rightarrow> [] | Some ps \<Rightarrow> ps)\<rparr>) (wp_nodes p);
          w0 = \<lparr>w_id = wp_id p, w_name = wp_name p, w_nodes = [], w_connectionsBySourceNode = [],
            w_connectionsByDestinationNode = [], w_active = False, w_settings = [],
            w_staticData = create [] True, w_testStaticData = None, w_pinData = None\<rparr>;
          w1 = setSettings (wp_settings p) (setPinData (wp_pinData p)
            (setConnections (wp_connections p) (setNodes nodes w0)))
      in w1\<lparr>w_active := wp_active p, w_staticData := create (wp_staticData p) True\<rparr>)"

text \<open>The static method computes the same map as the function of \<open>common/\<close>, with its own loops.\<close>

definition getConnectionsByDestination :: "IConnections \<Rightarrow> IConnections" where
  "getConnectionsByDestination connections =
     fold (\<lambda>(sourceNode, types). fold (\<lambda>(type, slots). fold (\<lambda>(inputIndex, cs).
         fold (\<lambda>connectionInfo ret.
           (let ret1 = (if jhas ret (c_node connectionInfo) then ret else jput (c_node connectionInfo) [] ret);
                byType = (case jget ret1 (c_node connectionInfo) of None \<Rightarrow> [] | Some t \<Rightarrow> t);
                byType1 = (if jhas byType (c_type connectionInfo) then byType
                           else jput (c_type connectionInfo) [] byType);
                slots = (case jget byType1 (c_type connectionInfo) of None \<Rightarrow> [] | Some s \<Rightarrow> s);
                padded = slots @ replicate (c_index connectionInfo + 1 - length slots) (Some []);
                pushed = (case padded ! c_index connectionInfo of None \<Rightarrow> padded
                  | Some cs \<Rightarrow> padded[c_index connectionInfo :=
                      Some (cs @ [\<lparr>c_node = sourceNode, c_type = type, c_index = inputIndex\<rparr>])])
            in jput (c_node connectionInfo) (jput (c_type connectionInfo) pushed byType1) ret1))
           (or_empty cs)) (enumerate 0 slots)) types)
     (own_entries connections) []"

subsection \<open>Static data\<close>

text \<open>A value used as a condition.\<close>

fun json_truthy :: "json \<Rightarrow> bool" where
  "json_truthy JNull = False"
| "json_truthy JUndefined = False"
| "json_truthy (JBool b) = b"
| "json_truthy (JNum n) = (n \<noteq> 0)"
| "json_truthy (JStr s) = (s \<noteq> [])"
| "json_truthy (JArr xs) = True"
| "json_truthy (JObj kvs) = True"

text \<open>The entry of the static data proper; a missing one is created as an empty observable
  object, whose writes set the flag of the whole data.\<close>

definition staticEntry :: "string \<Rightarrow> Workflow \<Rightarrow> (json \<times> Workflow) res" where
  "staticEntry key w =
     rbind (if is_undefined (jget (o_data (w_staticData w)) key)
            then rbind (set_root key (Obj True []) (w_staticData w)) (\<lambda>d. Inr (w\<lparr>w_staticData := d\<rparr>))
            else Inr w)
       (\<lambda>w'. case jget (o_data (w_staticData w')) key of None \<Rightarrow> Inr (JUndefined, w') | Some v \<Rightarrow> Inr (unwrap v, w'))"

definition getStaticData :: "string \<Rightarrow> INode option \<Rightarrow> Workflow \<Rightarrow> (json \<times> Workflow) res" where
  "getStaticData type node w =
     rbind (if type = ''global'' then Inr ''global''
            else if type = ''node'' then (case node of
                None \<Rightarrow> Inl (ApplicationError ''The request data of context type node the node parameter has to be set!'')
              | Some n \<Rightarrow> Inr (''node:'' @ n_name n))
            else Inl (ApplicationError ''Unknown context type. Only `global` and `node` are supported.''))
       (\<lambda>key. case Option.bind (w_testStaticData w) (\<lambda>t. jget t key) of
            Some v \<Rightarrow> if json_truthy v then Inr (v, w) else staticEntry key w
          | None \<Rightarrow> staticEntry key w)"

subsection \<open>Looking up nodes\<close>

definition getNode :: "Workflow \<Rightarrow> string \<Rightarrow> INode option" where
  "getNode w nodeName = jget (w_nodes w) nodeName"

definition getNodesByNameList :: "Workflow \<Rightarrow> string list \<Rightarrow> INode list" where
  "getNodesByNameList w nodeNames =
     fold (\<lambda>name nodes. case getNode w name of None \<Rightarrow> nodes | Some node \<Rightarrow> nodes @ [node]) nodeNames []"

definition getPinDataOfNode :: "Workflow \<Rightarrow> string \<Rightarrow> Items option" where
  "getPinDataOfNode w nodeName = (case w_pinData w of None \<Rightarrow> None | Some pinData \<Rightarrow> jget pinData nodeName)"

definition queryNodes :: "INodeTypes \<Rightarrow> (INodeType \<Rightarrow> bool) \<Rightarrow> Workflow \<Rightarrow> INode list" where
  "queryNodes nodeTypes checkFunction w = fold (\<lambda>nodeName returnNodes.
     case jget (w_nodes w) nodeName of None \<Rightarrow> returnNodes
     | Some node \<Rightarrow> if n_disabled node = Some True then returnNodes
         else (case nodeTypes (n_type node) (n_typeVersion node) of
             Some nodeType \<Rightarrow> if checkFunction nodeType then returnNodes @ [node] else returnNodes
           | None \<Rightarrow> returnNodes)) (own_keys (w_nodes w)) []"

definition getTriggerNodes :: "INodeTypes \<Rightarrow> Workflow \<Rightarrow> INode list" where
  "getTriggerNodes nodeTypes w = queryNodes nodeTypes nt_trigger w"

definition getPollNodes :: "INodeTypes \<Rightarrow> Workflow \<Rightarrow> INode list" where
  "getPollNodes nodeTypes w = queryNodes nodeTypes nt_poll w"

subsection \<open>Renaming a node\<close>

text \<open>
  \<open>accessPatterns\<close> is \<open>applyAccessPatterns(_, currentName, newName)\<close>.  The options of the recursive
  call for array elements are left out in the code, so \<open>hasRenamableContent\<close> falls back to false there;
  \<open>null\<close> is an object without keys.
\<close>

lemma own_entries_in: "(k, v) \<in> set (own_entries kvs) \<Longrightarrow> (k, v) \<in> set kvs"
  by simp

function renameNodeInParameterValue :: "(string \<Rightarrow> string) \<Rightarrow> bool \<Rightarrow> json \<Rightarrow> json" where
  "renameNodeInParameterValue accessPatterns hasRenamableContent (JStr s) =
     JStr (if (s \<noteq> [] \<and> hd s = CHR ''='') \<or> hasRenamableContent then accessPatterns s else s)"
| "renameNodeInParameterValue accessPatterns hasRenamableContent (JBool b) = JBool b"
| "renameNodeInParameterValue accessPatterns hasRenamableContent (JNum n) = JNum n"
| "renameNodeInParameterValue accessPatterns hasRenamableContent JUndefined = JUndefined"
| "renameNodeInParameterValue accessPatterns hasRenamableContent (JArr xs) =
     JArr (map (renameNodeInParameterValue accessPatterns False) xs)"
| "renameNodeInParameterValue accessPatterns hasRenamableContent JNull = JObj []"
| "renameNodeInParameterValue accessPatterns hasRenamableContent (JObj kvs) =
     JObj (map (\<lambda>(k, v). (k, renameNodeInParameterValue accessPatterns hasRenamableContent v)) (own_entries kvs))"
  by pat_completeness auto

lemma size_json_obj: "(k, v) \<in> set kvs \<Longrightarrow> size v < Suc (size_list (size_prod (\<lambda>x. 0) size) kvs)"
  by (induction kvs) auto

lemma size_json_arr: "x \<in> set xs \<Longrightarrow> size x < Suc (size_list size xs)" for x :: json
  by (induction xs) auto

termination renameNodeInParameterValue
  by (relation "measure (\<lambda>(_, _, j). size j)") (auto intro: size_json_obj size_json_arr)

text \<open>\<open>renameFormFields\<close> of \<open>node-parameters/rename-node-utils.ts\<close>.\<close>

definition renameFormField :: "(json \<Rightarrow> json) \<Rightarrow> json \<Rightarrow> json" where
  "renameFormField renameField formFieldValue = (case formFieldValue of
      JObj kvs \<Rightarrow> (if jget kvs ''fieldType'' = Some (JStr ''html'') then
          (case jget kvs ''html'' of Some h \<Rightarrow> JObj (jput ''html'' (renameField h) kvs) | None \<Rightarrow> JObj kvs)
        else JObj kvs)
    | _ \<Rightarrow> formFieldValue)"

definition renameFormFields :: "(json \<Rightarrow> json) \<Rightarrow> (string, json) jmap \<Rightarrow> (string, json) jmap" where
  "renameFormFields renameField parameters = (case jget parameters ''formFields'' of
      Some (JObj formFields) \<Rightarrow> (case jget formFields ''values'' of
          Some (JArr values) \<Rightarrow> jput ''formFields'' (JObj (jput ''values''
            (JArr (map (renameFormField renameField) values)) formFields)) parameters
        | _ \<Rightarrow> parameters)
    | _ \<Rightarrow> parameters)"

definition NODES_WITH_RENAMABLE_CONTENT :: "string list" where
  "NODES_WITH_RENAMABLE_CONTENT = [''n8n-nodes-base.code'', ''n8n-nodes-base.function'',
     ''n8n-nodes-base.functionItem'', ''n8n-nodes-base.aiTransform'']"

definition NODES_WITH_RENAMABLE_FORM_HTML_CONTENT :: "string list" where
  "NODES_WITH_RENAMABLE_FORM_HTML_CONTENT = [''n8n-nodes-base.form'']"

definition NODES_WITH_RENAMEABLE_TOPLEVEL_HTML_CONTENT :: "string list" where
  "NODES_WITH_RENAMEABLE_TOPLEVEL_HTML_CONTENT = [''n8n-nodes-base.mailgun'', ''n8n-nodes-base.html'']"

definition rename_key :: "(json \<Rightarrow> json) \<Rightarrow> string \<Rightarrow> (string, json) jmap \<Rightarrow> (string, json) jmap" where
  "rename_key f k ps = jput k (f (case jget ps k of None \<Rightarrow> JUndefined | Some v \<Rightarrow> v)) ps"

text \<open>The body of the loop over the nodes.\<close>

definition renameInNode :: "(string \<Rightarrow> string) \<Rightarrow> INode \<Rightarrow> INode" where
  "renameInNode accessPatterns node =
     (let content = renameNodeInParameterValue accessPatterns True;
          ps1 = (case renameNodeInParameterValue accessPatterns False (JObj (n_parameters node)) of
              JObj ps \<Rightarrow> ps | _ \<Rightarrow> []);
          ps2 = (if n_type node \<in> set NODES_WITH_RENAMABLE_CONTENT then rename_key content ''jsCode'' ps1 else ps1);
          ps3 = (if n_type node \<in> set NODES_WITH_RENAMEABLE_TOPLEVEL_HTML_CONTENT
              then rename_key content ''html'' ps2 else ps2);
          ps4 = (if n_type node \<in> set NODES_WITH_RENAMABLE_FORM_HTML_CONTENT then renameFormFields content ps3 else ps3)
      in node\<lparr>n_parameters := ps4\<rparr>)"

definition lower_char :: "char \<Rightarrow> char" where
  "lower_char c = (let n = (of_char c :: nat) in if 65 \<le> n \<and> n \<le> 90 then char_of (n + 32) else c)"

definition toLowerCase :: "string \<Rightarrow> string" where
  "toLowerCase s = map lower_char s"

definition restrictedKeys :: "string list" where
  "restrictedKeys = [''hasOwnProperty'', ''isPrototypeOf'', ''propertyIsEnumerable'', ''toLocaleString'',
     ''toString'', ''valueOf'', ''constructor'', ''prototype'', ''__proto__'', ''__defineGetter__'',
     ''__defineSetter__'', ''__lookupGetter__'', ''__lookupSetter__'']"

definition renameConnections :: "string \<Rightarrow> string \<Rightarrow> IConnections \<Rightarrow> IConnections" where
  "renameConnections currentName newName connections =
     (let moved = (case jget connections currentName of None \<Rightarrow> connections
          | Some byType \<Rightarrow> jdel currentName (jput newName byType connections))
      in map (\<lambda>(sourceNode, byType). (sourceNode, map (\<lambda>(type, slots). (type, map (map_option (map (\<lambda>connectionData.
           if c_node connectionData = currentName then connectionData\<lparr>c_node := newName\<rparr> else connectionData)))
           slots)) byType)) moved)"

definition renameNode :: "(string \<Rightarrow> string) \<Rightarrow> string \<Rightarrow> string \<Rightarrow> Workflow \<Rightarrow> Workflow res" where
  "renameNode accessPatterns currentName newName w =
     (if toLowerCase newName \<in> set (map toLowerCase restrictedKeys)
      then Inl (UserError (''Node name '' @ newName @ '' is a restricted name.''))
      else let nodes = (case jget (w_nodes w) currentName of None \<Rightarrow> w_nodes w
            | Some node \<Rightarrow> jdel currentName (jput newName (node\<lparr>n_name := newName\<rparr>) (w_nodes w)))
        in Inr (w\<lparr>w_nodes := map (\<lambda>(k, node). (k, renameInNode accessPatterns node)) nodes,
          w_connectionsBySourceNode := renameConnections currentName newName (w_connectionsBySourceNode w)\<rparr>))"

subsection \<open>What renaming preserves\<close>

text \<open>
  The nodes and the connections by source fit together: every node is stored under its own name, and
  connections start and end at existing nodes.  The connections by destination are not looked at.
\<close>

definition sources_consistent :: "Workflow \<Rightarrow> bool" where
  "sources_consistent w \<longleftrightarrow> jwf (w_nodes w) \<and> conns_wf (w_connectionsBySourceNode w)
     \<and> list_all (\<lambda>(k, node). n_name node = k) (w_nodes w)
     \<and> list_all (\<lambda>(s, t, i, c). jhas (w_nodes w) s \<and> jhas (w_nodes w) (c_node c)) (edge_list (w_connectionsBySourceNode w))"

definition renamed :: "string \<Rightarrow> string \<Rightarrow> string \<Rightarrow> string" where
  "renamed currentName newName n = (if n = currentName then newName else n)"

definition rename_edge :: "string \<Rightarrow> string \<Rightarrow> string \<times> NodeConnectionType \<times> nat \<times> IConnection
    \<Rightarrow> string \<times> NodeConnectionType \<times> nat \<times> IConnection" where
  "rename_edge currentName newName = (\<lambda>(s, t, i, c). (renamed currentName newName s, t, i,
     c\<lparr>c_node := renamed currentName newName (c_node c)\<rparr>))"

lemma edges_as_set:
  "set (edge_list m) = {(s, t, i, c). \<exists>byType slots. (s, byType) \<in> set m \<and> (t, slots) \<in> set byType
     \<and> i < length slots \<and> c \<in> set (or_empty (slots ! i))}"
proof -
  have "(s, t, i, c) \<in> set (edge_list m) \<longleftrightarrow>
      (\<exists>byType slots. (s, byType) \<in> set m \<and> (t, slots) \<in> set byType \<and> i < length slots \<and> c \<in> set (or_empty (slots ! i)))"
    for s t i c
    unfolding edge_list_def in_concat_map set_own_entries
    by (simp only: bex_pair in_concat_map split set_map image_iff) (auto simp: in_set_enumerate_eq)
  then show ?thesis by (simp only: set_eq_iff split_paired_All mem_Collect_eq split) blast
qed

text \<open>The moved entries, before the targets are renamed.\<close>

lemma set_moved:
  assumes "jwf m" and "cur \<noteq> new"
  shows "(s, b) \<in> set (case jget m cur of None \<Rightarrow> m | Some byType \<Rightarrow> jdel cur (jput new byType m)) \<longleftrightarrow>
    (s = new \<and> (cur, b) \<in> set m) \<or> (s \<noteq> cur \<and> (s, b) \<in> set m \<and> (s = new \<longrightarrow> jget m cur = None))"
proof (cases "jget m cur")
  case None
  then have "cur \<notin> fst ` set m" by (simp add: map_of_eq_None_iff)
  then show ?thesis unfolding None option.case by (auto intro: rev_image_eqI)
next
  case (Some byType)
  have "(s, b) \<in> set (jdel cur (jput new byType m)) \<longleftrightarrow> jget (jdel cur (jput new byType m)) s = Some b"
    using assms(1) by (simp add: jget_iff_set)
  then show ?thesis
    unfolding Some option.case jget_iff_set [OF assms(1), symmetric] jget_jdel jget_jput using assms(2) Some by auto
qed

lemma or_empty_map_option: "or_empty (map_option (map f) cs) = map f (or_empty cs)"
  by (cases cs) auto

lemma edges_renameConnections:
  assumes "conns_wf m" and "cur \<noteq> new"
  shows "set (edge_list (renameConnections cur new m)) =
    rename_edge cur new ` {e \<in> set (edge_list m). fst e = new \<longrightarrow> jget m cur = None}"
proof -
  define moved where "moved = (case jget m cur of None \<Rightarrow> m | Some byType \<Rightarrow> jdel cur (jput new byType m))"
  define f where "f c = (if c_node c = cur then c\<lparr>c_node := new\<rparr> else c)" for c :: IConnection
  have f: "f c = c\<lparr>c_node := renamed cur new (c_node c)\<rparr>" for c by (simp add: f_def renamed_def)
  define g where "g = map (\<lambda>(type :: NodeConnectionType, slots). (type, map (map_option (map f)) slots))"
  have ren: "renameConnections cur new m = map (\<lambda>(sourceNode, byType). (sourceNode, g byType)) moved"
    unfolding renameConnections_def Let_def moved_def f_def g_def ..
  have "(s, t, i, c) \<in> set (edge_list (renameConnections cur new m)) \<longleftrightarrow>
      (\<exists>c'. (s, t, i, c') \<in> set (edge_list moved) \<and> c = f c')" for s t i c
  proof -
    have "(s, t, i, c) \<in> set (edge_list (renameConnections cur new m)) \<longleftrightarrow>
        (\<exists>b sl. (s, b) \<in> set moved \<and> (t, sl) \<in> set (g b) \<and> i < length sl \<and> c \<in> set (or_empty (sl ! i)))"
      unfolding edges_as_set ren mem_Collect_eq split in_set_map_snd by blast
    also have "\<dots> \<longleftrightarrow> (\<exists>b sl. (s, b) \<in> set moved \<and> (t, sl) \<in> set b \<and> i < length sl
        \<and> c \<in> set (or_empty (map_option (map f) (sl ! i))))"
      unfolding g_def in_set_map_snd by (metis (no_types, lifting) length_map nth_map)
    finally show ?thesis unfolding edges_as_set by (auto simp: or_empty_map_option)
  qed
  moreover have "(s, t, i, c') \<in> set (edge_list moved) \<longleftrightarrow>
      (\<exists>s'. (s', t, i, c') \<in> set (edge_list m) \<and> s = renamed cur new s' \<and> (s' = new \<longrightarrow> jget m cur = None))" for s t i c'
    unfolding edges_as_set moved_def using set_moved [OF _ assms(2), of m] assms
    by (auto simp: conns_wf_def renamed_def)
  ultimately have iff: "(s, t, i, c) \<in> set (edge_list (renameConnections cur new m)) \<longleftrightarrow>
      (\<exists>s' c'. (s', t, i, c') \<in> set (edge_list m) \<and> s = renamed cur new s' \<and> (s' = new \<longrightarrow> jget m cur = None) \<and> c = f c')"
    for s t i c by blast
  have "(s, t, i, c) \<in> rename_edge cur new ` {e \<in> set (edge_list m). fst e = new \<longrightarrow> jget m cur = None} \<longleftrightarrow>
      (\<exists>s' c'. (s', t, i, c') \<in> set (edge_list m) \<and> s = renamed cur new s' \<and> (s' = new \<longrightarrow> jget m cur = None) \<and> c = f c')"
    for s t i c
    by (simp only: image_iff Bex_def split_paired_Ex mem_Collect_eq fst_conv rename_edge_def split prod.inject f) blast
  then show ?thesis unfolding set_eq_iff split_paired_All by (simp only: iff simp_thms)
qed


lemma conns_wf_renameConnections:
  assumes "conns_wf m"
  shows "conns_wf (renameConnections cur new m)"
proof -
  define moved where "moved = (case jget m cur of None \<Rightarrow> m | Some byType \<Rightarrow> jdel cur (jput new byType m))"
  have "set moved \<subseteq> set m \<union> {(new, b) | b. b \<in> snd ` set m}"
    using set_jput_subset [of new _ m]
    by (fastforce simp: moved_def AList.delete_eq dest!: jget_in_set split: option.splits intro: rev_image_eqI)
  then have "\<forall>b \<in> snd ` set moved. jwf b" using assms by (fastforce simp: conns_wf_def)
  moreover have "jwf moved" using assms by (auto simp: conns_wf_def moved_def split: option.split)
  ultimately show ?thesis
    unfolding conns_wf_def renameConnections_def Let_def moved_def [symmetric]
    by (auto simp only: keys_map_snd set_map image_image split_beta snd_conv ball_simps)
qed

lemma renameNode_nodes:
  assumes "renameNode ap cur new w = Inr w'" and "jwf (w_nodes w)" and "cur \<noteq> new"
  shows "jwf (w_nodes w')"
    and "map_option n_name (jget (w_nodes w') k) = (case jget (w_nodes w) cur of
        None \<Rightarrow> map_option n_name (jget (w_nodes w) k)
      | Some node \<Rightarrow> if k = cur then None else if k = new then Some new else map_option n_name (jget (w_nodes w) k))"
proof -
  define nodes where "nodes = (case jget (w_nodes w) cur of None \<Rightarrow> w_nodes w
      | Some node \<Rightarrow> jdel cur (jput new (node\<lparr>n_name := new\<rparr>) (w_nodes w)))"
  have w': "w_nodes w' = map (\<lambda>(k, node). (k, renameInNode ap node)) nodes"
    using assms(1) by (auto simp: renameNode_def nodes_def Let_def split: if_splits)
  have "jwf nodes" using assms(2) by (auto simp: nodes_def split: option.split)
  then show "jwf (w_nodes w')" by (simp only: w' keys_map_snd)
  have "n_name (renameInNode ap node) = n_name node" for node
    by (simp add: renameInNode_def Let_def)
  then show "map_option n_name (jget (w_nodes w') k) = (case jget (w_nodes w) cur of
        None \<Rightarrow> map_option n_name (jget (w_nodes w) k)
      | Some node \<Rightarrow> if k = cur then None else if k = new then Some new else map_option n_name (jget (w_nodes w) k))"
    unfolding w' jget_map_snd using assms(3)
    by (auto simp: nodes_def option.map_comp comp_def jget_jput jget_jdel split: option.split)
qed


lemma jhas_name: "jhas m k \<longleftrightarrow> map_option n_name (jget m k) \<noteq> None"
  by (simp add: jhas_def)

text \<open>
  C25: renaming to another name (the new name differs from the current one) keeps every node stored under its
  own name and every connection by source between existing nodes, also when the new name is already taken.  The
  connections by destination stay as they were.
\<close>

theorem renameNode_consistent:
  assumes "renameNode accessPatterns currentName newName w = Inr w'"
    and "sources_consistent w" and "currentName \<noteq> newName"
  shows "sources_consistent w' \<and> w_connectionsByDestinationNode w' = w_connectionsByDestinationNode w"
proof -
  have wf: "jwf (w_nodes w)" "conns_wf (w_connectionsBySourceNode w)"
    and nm: "\<And>k node. jget (w_nodes w) k = Some node \<Longrightarrow> n_name node = k"
    and ends: "\<And>s t i c. (s, t, i, c) \<in> set (edge_list (w_connectionsBySourceNode w)) \<Longrightarrow>
      jhas (w_nodes w) s \<and> jhas (w_nodes w) (c_node c)"
    using assms(2) by (auto simp: sources_consistent_def list_all_iff dest!: jget_in_set)
  note rn = renameNode_nodes [OF assms(1) wf(1) assms(3)]
  have conn': "w_connectionsBySourceNode w' = renameConnections currentName newName (w_connectionsBySourceNode w)"
    using assms(1) by (auto simp: renameNode_def Let_def split: if_splits)
  have has: "jhas (w_nodes w') (renamed currentName newName k)" if "jhas (w_nodes w) k" for k
    using that assms(3) unfolding jhas_name rn(2) renamed_def by (auto split: option.split)
  have nm': "map_option n_name (jget (w_nodes w) k) = (if jget (w_nodes w) k = None then None else Some k)" for k
    using nm by (cases "jget (w_nodes w) k") auto
  have "n_name node = k" if "jget (w_nodes w') k = Some node" for k node
    using rn(2) [of k] that by (auto simp: nm' split: option.splits if_splits)
  then have A: "list_all (\<lambda>(k, node). n_name node = k) (w_nodes w')"
    using rn(1) by (auto simp: list_all_iff jget_iff_set)
  have B: "jhas (w_nodes w') s \<and> jhas (w_nodes w') (c_node c)"
    if "(s, t, i, c) \<in> set (edge_list (w_connectionsBySourceNode w'))" for s t i c
    using that ends has
    unfolding conn' edges_renameConnections [OF wf(2) assms(3)] by (auto simp: rename_edge_def)
  have C: "conns_wf (w_connectionsBySourceNode w')"
    unfolding conn' by (rule conns_wf_renameConnections [OF wf(2)])
  have "sources_consistent w'" using rn(1) A B C by (auto simp: sources_consistent_def list_all_iff)
  then show ?thesis using assms(1) by (auto simp: renameNode_def Let_def split: if_splits)
qed


definition chain_workflow :: Workflow where
  "chain_workflow = \<lparr>w_id = ''1'', w_name = ''chain'', w_nodes = map (\<lambda>(i, n). (n, mk_node i n))
       [(0, ''A''), (1, ''B''), (2, ''C'')],
     w_connectionsBySourceNode = triangle, w_connectionsByDestinationNode = mapConnectionsByDestination triangle,
     w_active = False, w_settings = [], w_staticData = create [] True, w_testStaticData = None, w_pinData = None\<rparr>"

text \<open>A new name, and a name that is taken.\<close>

definition renamed_chain :: "string \<Rightarrow> Workflow" where
  "renamed_chain newName = (case renameNode (\<lambda>s. s) ''B'' newName chain_workflow of Inr w \<Rightarrow> w | Inl e \<Rightarrow> chain_workflow)"

theorem renameNode_consistent_witness:
  "sources_consistent (renamed_chain ''D'') \<and> sources_consistent (renamed_chain ''C'')
    \<and> own_keys (w_nodes (renamed_chain ''D'')) = [''A'', ''C'', ''D''] \<and> own_keys (w_nodes (renamed_chain ''C'')) = [''A'', ''C'']"
proof -
  have ok: "sources_consistent chain_workflow" by code_simp
  have "renameNode (\<lambda>s. s) ''B'' ''D'' chain_workflow = Inr (renamed_chain ''D'')"
    "renameNode (\<lambda>s. s) ''B'' ''C'' chain_workflow = Inr (renamed_chain ''C'')" by code_simp+
  then have "sources_consistent (renamed_chain ''D'')" "sources_consistent (renamed_chain ''C'')"
    using renameNode_consistent [OF _ ok] by fastforce+
  moreover have "own_keys (w_nodes (renamed_chain ''D'')) = [''A'', ''C'', ''D'']"
    "own_keys (w_nodes (renamed_chain ''C'')) = [''A'', ''C'']" by code_simp+
  ultimately show ?thesis by simp
qed

text \<open>
  Renaming leaves the connections by destination as they were, so they still name the old node;
  and renaming a node to its own name deletes it.
\<close>

lemma renameNode_destination_stale:
  "renameNode ap cur new w = Inr w' \<Longrightarrow> w_connectionsByDestinationNode w' = w_connectionsByDestinationNode w"
  by (auto simp: renameNode_def Let_def split: if_splits)

lemma renameNode_same_name_deletes:
  "renameNode ap cur cur w = Inr w' \<Longrightarrow> getNode w' cur = None"
  by (auto simp: renameNode_def Let_def getNode_def jget_map_snd jget_jdel split: if_splits option.split)

text \<open>
  C26: after renaming a node to a fresh name the connections are exactly the old ones with the name
  replaced at both ends.
\<close>

theorem renameNode_edges:
  assumes "renameNode accessPatterns currentName newName w = Inr w'"
    and "conns_wf (w_connectionsBySourceNode w)" and "currentName \<noteq> newName"
    and "jget (w_connectionsBySourceNode w) newName = None"
  shows "set (edge_list (w_connectionsBySourceNode w')) =
    rename_edge currentName newName ` set (edge_list (w_connectionsBySourceNode w))"
proof -
  have "fst e \<noteq> newName" if "e \<in> set (edge_list (w_connectionsBySourceNode w))" for e
    using that assms(4) edge_list_slot [OF assms(2)] by (cases e rule: prod_cases4) (auto simp: slot_of_def)
  moreover have "w_connectionsBySourceNode w' = renameConnections currentName newName (w_connectionsBySourceNode w)"
    using assms(1) by (auto simp: renameNode_def Let_def split: if_splits)
  ultimately show ?thesis unfolding edges_renameConnections [OF assms(2,3)]
    by (metis (mono_tags, lifting) Collect_cong Collect_mem_eq edges_renameConnections [OF assms(2,3)])
qed

theorem renameNode_edges_witness:
  "set (edge_list (w_connectionsBySourceNode (the (case renameNode (\<lambda>s. s) ''B'' ''D'' chain_workflow of
       Inr w \<Rightarrow> Some w | Inl _ \<Rightarrow> None)))) =
   rename_edge ''B'' ''D'' ` set (edge_list (w_connectionsBySourceNode chain_workflow))"
proof (rule renameNode_edges)
  show "renameNode (\<lambda>s. s) ''B'' ''D'' chain_workflow =
      Inr (the (case renameNode (\<lambda>s. s) ''B'' ''D'' chain_workflow of Inr w \<Rightarrow> Some w | Inl _ \<Rightarrow> None))"
    by code_simp
qed (code_simp, simp, code_simp)

subsection \<open>The highest nodes above a node\<close>

text \<open>
  \<open>checkedNodes\<close> is one array shared by all recursive calls, so it is part of the result.  The loops
  over the inputs and their connections are \<open>highestLoop\<close> over the connections of the selected inputs.
\<close>

definition main_connections :: "IConnections \<Rightarrow> string \<Rightarrow> NodeInputConnections option" where
  "main_connections connections n = Option.bind (jget connections n) (\<lambda>byType. jget byType Main)"

definition selected_connections :: "NodeInputConnections \<Rightarrow> nat option \<Rightarrow> IConnection list" where
  "selected_connections slots nodeConnectionIndex = concat (map (\<lambda>(connectionIndex, cs).
     if nodeConnectionIndex \<noteq> None \<and> nodeConnectionIndex \<noteq> Some connectionIndex then [] else or_empty cs)
     (enumerate 0 slots))"

definition add_missing :: "string list \<Rightarrow> string list \<Rightarrow> string list" where
  "add_missing addNodes returnNodes = fold sadd addNodes returnNodes"

text \<open>The node itself, when its \<open>disabled\<close> is \<open>false\<close>; and the node when nothing above it was found.\<close>

definition currentHighest :: "INode \<Rightarrow> string \<Rightarrow> string list" where
  "currentHighest node nodeName = (if n_disabled node = Some False then [nodeName] else [])"

definition or_itself :: "INode \<Rightarrow> string \<Rightarrow> string list \<Rightarrow> string list" where
  "or_itself node nodeName addNodes =
     (if addNodes = [] \<and> n_disabled node \<noteq> Some True then [nodeName] else addNodes)"

function highestLoop :: "Workflow \<Rightarrow> IConnection list \<Rightarrow> string list \<Rightarrow> string list \<Rightarrow> string list \<times> string list" where
  "highestLoop w [] returnNodes checkedNodes = (returnNodes, checkedNodes)"
| "highestLoop w (connection # cs) returnNodes checkedNodes =
     (if c_node connection \<in> set checkedNodes then highestLoop w cs returnNodes checkedNodes
      else case jget (w_nodes w) (c_node connection) of
        None \<Rightarrow> highestLoop w cs returnNodes checkedNodes
      | Some node \<Rightarrow> (case main_connections (w_connectionsByDestinationNode w) (c_node connection) of
            None \<Rightarrow> highestLoop w cs (add_missing (or_itself node (c_node connection)
                (currentHighest node (c_node connection))) returnNodes) checkedNodes
          | Some slots \<Rightarrow> (case highestLoop w (selected_connections slots None) []
                (checkedNodes @ [c_node connection]) of
              (addNodes, checked') \<Rightarrow> highestLoop w cs
                (add_missing (or_itself node (c_node connection) addNodes) returnNodes) checked')))"
  by pat_completeness auto

lemma highestLoop_mono_dom:
  "highestLoop_dom (w, cs, ret, chk) \<Longrightarrow> set chk \<subseteq> set (snd (highestLoop w cs ret chk))"
proof (induction rule: highestLoop.pinduct)
  case 1
  then show ?case by (simp add: highestLoop.psimps)
next
  case (2 w c cs ret chk)
  then show ?case by (fastforce simp: highestLoop.psimps split: option.split prod.split)
qed

lemma main_connections_in: "main_connections C n = Some slots \<Longrightarrow> n \<in> fst ` set C"
  by (auto simp: main_connections_def bind_eq_Some_conv dest!: jget_in_set intro: rev_image_eqI)

lemma card_unchecked_less:
  "n \<in> fst ` set C \<Longrightarrow> n \<notin> set chk \<Longrightarrow> insert n (set chk) \<subseteq> set chk' \<Longrightarrow>
     card (fst ` set C - set chk') < card (fst ` set C - set chk)"
  by (intro psubset_card_mono) auto

lemma card_unchecked_le: "set chk \<subseteq> set chk' \<Longrightarrow> card (fst ` set C - set chk') \<le> card (fst ` set C - set chk)"
  by (intro card_mono) auto

termination highestLoop
proof (relation "measures [\<lambda>(w, cs, ret, chk). card (fst ` set (w_connectionsByDestinationNode w) - set chk),
     \<lambda>(w, cs, ret, chk). length cs]", goal_cases)
  case (5 w c cs ret chk node slots)
  then show ?case
    using card_unchecked_less [OF main_connections_in [OF 5(3)] 5(1), of "chk @ [c_node c]"] by simp
next
  case (6 w c cs ret chk node slots addNodes chk')
  have "set (chk @ [c_node c]) \<subseteq> set chk'"
    using highestLoop_mono_dom [OF 6(5)] by (simp add: 6(4) [symmetric])
  then show ?case
    using card_unchecked_less [OF main_connections_in [OF 6(3)] 6(1), of chk'] by simp
qed simp_all

text \<open>
  The exported method.  The inner calls of the code are calls of this method with no index: the
  loop inlines it for a node known to exist and not to be checked yet.
\<close>

definition getHighestNode :: "Workflow \<Rightarrow> string \<Rightarrow> nat option \<Rightarrow> string list \<Rightarrow> (string list \<times> string list) res" where
  "getHighestNode w nodeName nodeConnectionIndex checkedNodes = (case jget (w_nodes w) nodeName of
      None \<Rightarrow> Inl TypeError
    | Some node \<Rightarrow> (case main_connections (w_connectionsByDestinationNode w) nodeName of
          None \<Rightarrow> Inr (currentHighest node nodeName, checkedNodes)
        | Some slots \<Rightarrow> if nodeName \<in> set checkedNodes then Inr (currentHighest node nodeName, checkedNodes)
            else Inr (highestLoop w (selected_connections slots nodeConnectionIndex) [] (checkedNodes @ [nodeName]))))"

lemma highestLoop_call:
  "highestLoop w (c # cs) ret chk =
     (if c_node c \<in> set chk then highestLoop w cs ret chk
      else case getHighestNode w (c_node c) None chk of
        Inl e \<Rightarrow> highestLoop w cs ret chk
      | Inr (addNodes, chk') \<Rightarrow> highestLoop w cs
          (add_missing (case jget (w_nodes w) (c_node c) of None \<Rightarrow> [] | Some node \<Rightarrow> or_itself node (c_node c) addNodes) ret) chk')"
  by (auto simp: getHighestNode_def split: option.split prod.split)

end
