(* ===== verification/WorkflowSearch.thy ===== *)
theory WorkflowSearch
  imports Workflow
begin

section \<open>Searching a workflow\<close>

text \<open>
  The searches of the class \<open>Workflow\<close> (\<open>packages/workflow/src/workflow.ts\<close>): the breadth-first
  search that reports every ancestor with its distance, the search for the connection through
  which a node depends on another, the root node of a sub node, and the choice of the start node.
\<close>

subsection \<open>Breadth-first search\<close>

definition dedupe :: "'a list \<Rightarrow> 'a list" where
  "dedupe arr = set_of_list arr"

text \<open>
  \<open>visited\<close> and \<open>returnConns\<close> share their objects: an entry of \<open>visited\<close> other than the one of the
  source is the entry of \<open>returnConns\<close>, in the same order.  The function is the body of
  \<open>toAdd.forEach\<close>, \<open>depth\<close> being already incremented.
\<close>

type_synonym bfs_state = "(string, IConnectedNode) jmap \<times> IConnectedNode list"

definition bfsVisit :: "IConnections \<Rightarrow> nat \<Rightarrow> IConnectedNode \<Rightarrow> bfs_state \<Rightarrow> bfs_state" where
  "bfsVisit connections depth cur = (\<lambda>(visited, queue). case jget visited (cn_name cur) of
      Some v \<Rightarrow> (jput (cn_name cur) (v\<lparr>cn_indicies := dedupe (cn_indicies v @ cn_indicies cur)\<rparr>) visited, queue)
    | None \<Rightarrow> (jput (cn_name cur) cur visited,
        queue @ map (\<lambda>connection. \<lparr>cn_name = c_node connection, cn_indicies = [c_index connection], cn_depth = depth\<rparr>)
          (concat (map or_empty (or_empty (main_connections connections (cn_name cur)))))))"

lemma bfsVisit_dom: "fst ` set (fst (bfsVisit C d cur (vis, q))) = insert (cn_name cur) (fst ` set vis)"
  by (auto simp: bfsVisit_def dom_update split: option.splits dest: jget_in_set intro: rev_image_eqI)

lemma bfs_fold_dom: "fst ` set (fst (fold (bfsVisit C d) cs s)) = cn_name ` set cs \<union> fst ` set (fst s)"
proof (induction cs arbitrary: s)
  case (Cons c cs)
  then show ?case by (cases s) (simp add: bfsVisit_dom)
qed simp

lemma bfs_fold_queue:
  "snd (fold (bfsVisit C d) cs (vis, q)) \<noteq> q \<Longrightarrow> \<exists>c \<in> set cs. cn_name c \<in> fst ` set C \<and> cn_name c \<notin> fst ` set vis"
proof (induction cs arbitrary: vis q)
  case (Cons c cs)
  obtain vis' q' where st: "bfsVisit C d c (vis, q) = (vis', q')" by force
  show ?case
  proof (cases "q' = q")
    case False
    then have "jget vis (cn_name c) = None" "main_connections C (cn_name c) \<noteq> None"
      using st by (auto simp: bfsVisit_def split: option.splits)
    then show ?thesis by (auto dest: main_connections_in simp: map_of_eq_None_iff)
  next
    case True
    then obtain c' where "c' \<in> set cs" "cn_name c' \<in> fst ` set C" "cn_name c' \<notin> fst ` set vis'"
      using Cons.IH [of vis' q] Cons.prems by (simp add: st) blast
    then show ?thesis using bfsVisit_dom [of C d c vis q] by (auto simp: st)
  qed
qed simp

function bfsLoop :: "IConnections \<Rightarrow> int \<Rightarrow> nat \<Rightarrow> IConnectedNode list \<Rightarrow> (string, IConnectedNode) jmap
    \<Rightarrow> (string, IConnectedNode) jmap" where
  "bfsLoop connections maxDepth depth queue visited =
     (if queue = [] then visited
      else if maxDepth \<noteq> -1 \<and> int depth > maxDepth then visited
      else case fold (bfsVisit connections (depth + 1)) queue (visited, []) of
        (visited', queue') \<Rightarrow> bfsLoop connections maxDepth (depth + 1) queue' visited')"
  by pat_completeness auto

termination
proof (relation "measures [\<lambda>(C, m, d, q, vis). card (fst ` set C - fst ` set vis), \<lambda>(C, m, d, q, vis). if q = [] then 0 else 1]",
    goal_cases)
  case (2 C m d q vis vis' q')
  have vis': "fst ` set vis' = cn_name ` set q \<union> fst ` set vis"
    using bfs_fold_dom [of C "d + 1" q "(vis, [])"] 2(3) [symmetric] by simp
  show ?case
  proof (cases "q' = []")
    case True
    have "card (fst ` set C - fst ` set vis') \<le> card (fst ` set C - fst ` set vis)"
      unfolding vis' by (intro card_mono) auto
    then show ?thesis using True 2 by auto
  next
    case False
    then obtain c where "c \<in> set q" "cn_name c \<in> fst ` set C" "cn_name c \<notin> fst ` set vis"
      using bfs_fold_queue [of C "d + 1" q vis "[]"] 2(3) [symmetric] by auto
    then have "card (fst ` set C - fst ` set vis') < card (fst ` set C - fst ` set vis)"
      unfolding vis' by (intro psubset_card_mono) auto
    then show ?thesis by simp
  qed
qed simp

declare bfsLoop.simps [simp del]

definition searchNodesBFS :: "IConnections \<Rightarrow> string \<Rightarrow> int \<Rightarrow> IConnectedNode list" where
  "searchNodesBFS connections sourceNode maxDepth =
     map snd (filter (\<lambda>(name, _). name \<noteq> sourceNode)
       (bfsLoop connections maxDepth 0 [\<lparr>cn_name = sourceNode, cn_indicies = [], cn_depth = 0\<rparr>] []))"

definition getParentNodesByDepth :: "Workflow \<Rightarrow> string \<Rightarrow> int \<Rightarrow> IConnectedNode list" where
  "getParentNodesByDepth w nodeName maxDepth =
     searchNodesBFS (w_connectionsByDestinationNode w) nodeName maxDepth"

subsection \<open>The connection between a node and a parent\<close>

text \<open>One pass over the connections of a node: either the connection is found, or the queue grows.\<close>

fun scanConnections :: "string \<Rightarrow> string list \<Rightarrow> (nat \<times> IConnection) list \<Rightarrow> string list
    \<Rightarrow> INodeConnection + string list" where
  "scanConnections parentNodeName visitedNodes [] queue = Inr queue"
| "scanConnections parentNodeName visitedNodes ((index, connection) # rest) queue =
     (if parentNodeName = c_node connection
      then Inl \<lparr>sourceIndex = c_index connection, destinationIndex = index\<rparr>
      else scanConnections parentNodeName visitedNodes rest
        (if c_node connection \<in> set visitedNodes then queue else queue @ [c_node connection]))"

definition indexed_connections :: "NodeInputConnections \<Rightarrow> (nat \<times> IConnection) list" where
  "indexed_connections typeConnections = concat (map (\<lambda>cs. enumerate 0 (or_empty cs)) typeConnections)"

definition typed_connections :: "IConnections \<Rightarrow> string \<Rightarrow> NodeConnectionType \<Rightarrow> NodeInputConnections option" where
  "typed_connections connections n type = Option.bind (jget connections n) (\<lambda>byType. jget byType type)"

function connectionLoop :: "IConnections \<Rightarrow> NodeConnectionType \<Rightarrow> string \<Rightarrow> string list \<Rightarrow> string list
    \<Rightarrow> INodeConnection option" where
  "connectionLoop connectionsByDest type parentNodeName visitedNodes [] = None"
| "connectionLoop connectionsByDest type parentNodeName visitedNodes (currentNodeName # queue) =
     (if currentNodeName \<in> set visitedNodes
      then connectionLoop connectionsByDest type parentNodeName visitedNodes queue
      else case typed_connections connectionsByDest currentNodeName type of
        None \<Rightarrow> connectionLoop connectionsByDest type parentNodeName (sadd currentNodeName visitedNodes) queue
      | Some typeConnections \<Rightarrow>
          (case scanConnections parentNodeName (sadd currentNodeName visitedNodes)
              (indexed_connections typeConnections) queue of
            Inl found \<Rightarrow> Some found
          | Inr queue' \<Rightarrow> connectionLoop connectionsByDest type parentNodeName
              (sadd currentNodeName visitedNodes) queue'))"
  by pat_completeness auto

termination
proof (relation "measures [\<lambda>(C, t, p, vis, q). card (fst ` set C - set vis), \<lambda>(C, t, p, vis, q). length q]", goal_cases)
  case (3 C t p vis n q)
  have "card (fst ` set C - set (sadd n vis)) \<le> card (fst ` set C - set vis)"
    by (rule card_unchecked_le) auto
  then show ?case by (auto simp: le_less)
next
  case (4 C t p vis n q slots q')
  then have "n \<in> fst ` set C"
    by (auto simp: typed_connections_def bind_eq_Some_conv dest!: jget_in_set intro: rev_image_eqI)
  then show ?case using card_unchecked_less [of n C vis "sadd n vis"] 4 by simp
qed simp_all

definition getNodeConnectionIndexes :: "Workflow \<Rightarrow> string \<Rightarrow> string \<Rightarrow> NodeConnectionType
    \<Rightarrow> INodeConnection option" where
  "getNodeConnectionIndexes w nodeName parentNodeName type = (case getNode w parentNodeName of
      None \<Rightarrow> None
    | Some _ \<Rightarrow> connectionLoop (w_connectionsByDestinationNode w) type parentNodeName [] [nodeName])"

definition getConnectionsBetweenNodes :: "Workflow \<Rightarrow> string list \<Rightarrow> string list \<Rightarrow> (IConnection \<times> IConnection) list" where
  "getConnectionsBetweenNodes w sources targets =
     concat (map (\<lambda>source. concat (map (\<lambda>(type, slots). concat (map (\<lambda>(sourceIndex, cs).
       map (\<lambda>target. (\<lparr>c_node = source, c_type = type, c_index = sourceIndex\<rparr>, target))
         (filter (\<lambda>target. c_node target \<in> set targets) (or_empty cs)))
       (enumerate 0 slots))) (or_empty (jget (w_connectionsBySourceNode w) source)))) sources)"

subsection \<open>The root node of a sub node\<close>

text \<open>Connection types are ordered by their names, as \<open>sort()\<close> orders them.\<close>

instantiation NodeConnectionType :: linorder
begin

definition less_eq_NodeConnectionType :: "NodeConnectionType \<Rightarrow> NodeConnectionType \<Rightarrow> bool" where
  "less_eq_NodeConnectionType s t \<longleftrightarrow> connection_type_name s \<le> connection_type_name t"

definition less_NodeConnectionType :: "NodeConnectionType \<Rightarrow> NodeConnectionType \<Rightarrow> bool" where
  "less_NodeConnectionType s t \<longleftrightarrow> connection_type_name s < connection_type_name t"

instance
  by standard (auto simp: less_eq_NodeConnectionType_def less_NodeConnectionType_def connection_type_name_inject
      less_le)

end

text \<open>
  \<open>getNodeOutputs\<close> is the parameter \<open>outputsOf\<close>.  The recursion follows sub nodes to the node they
  belong to and does not end on a cycle of non-main connections, where the program overflows its
  stack; \<open>None\<close> is that outcome.
\<close>

definition nonMainNodesConnected :: "Workflow \<Rightarrow> NodeConnectionType list \<Rightarrow> INode \<Rightarrow> string list" where
  "nonMainNodesConnected w outputs node =
     sort (concat (map (\<lambda>type. if typed_connections (w_connectionsBySourceNode w) (n_name node) type \<noteq> None
         then getChildNodes (w_connectionsBySourceNode w) (n_name node) (SelType type) (-1) else [])
       (sort (filter (\<lambda>t. t \<noteq> Main) outputs))))"

partial_function (option) getParentMainInputNode ::
  "INodeTypes \<Rightarrow> (INode \<Rightarrow> INodeType \<Rightarrow> NodeConnectionType list) \<Rightarrow> Workflow \<Rightarrow> INode \<Rightarrow> INode res option" where
  "getParentMainInputNode nodeTypes outputsOf w node =
     (case nodeTypes (n_type node) (n_typeVersion node) of
        None \<Rightarrow> Some (Inr node)
      | Some nodeType \<Rightarrow> (case nonMainNodesConnected w (outputsOf node nodeType) node of
            [] \<Rightarrow> Some (Inr node)
          | first # _ \<Rightarrow> (case getNode w first of
                None \<Rightarrow> Some (Inl (ApplicationError (''Node '' @ first @ '' not found'')))
              | Some returnNode \<Rightarrow> getParentMainInputNode nodeTypes outputsOf w returnNode)))"

subsection \<open>The start node\<close>

definition STARTING_NODE_TYPES :: "string list" where
  "STARTING_NODE_TYPES = [''n8n-nodes-base.manualTrigger'', ''n8n-nodes-base.executeWorkflowTrigger'',
     ''n8n-nodes-base.errorTrigger'', ''n8n-nodes-base.start'', ''n8n-nodes-base.evaluationTrigger'',
     ''n8n-nodes-base.formTrigger'']"

definition MANUAL_CHAT_TRIGGER_LANGCHAIN_NODE_TYPE :: string where
  "MANUAL_CHAT_TRIGGER_LANGCHAIN_NODE_TYPE = ''@n8n/n8n-nodes-langchain.manualChatTrigger''"

text \<open>\<open>STARTING_NODE_TYPES.indexOf(type)\<close>, with -1 for the other types.\<close>

definition starting_index :: "string \<Rightarrow> int" where
  "starting_index type = (case find_index (\<lambda>t. t = type) STARTING_NODE_TYPES of None \<Rightarrow> -1 | Some i \<Rightarrow> int i)"

text \<open>The first of the given nodes that is an enabled trigger; a name or a type without entry is an exception.\<close>

fun firstTrigger :: "INodeTypes \<Rightarrow> Workflow \<Rightarrow> string list \<Rightarrow> INode option res" where
  "firstTrigger nodeTypes w [] = Inr None"
| "firstTrigger nodeTypes w (nodeName # rest) = (case getNode w nodeName of
      None \<Rightarrow> Inl TypeError
    | Some node \<Rightarrow> (case nodeTypes (n_type node) (n_typeVersion node) of
          None \<Rightarrow> Inl TypeError
        | Some nodeType \<Rightarrow>
            if nt_name nodeType = MANUAL_CHAT_TRIGGER_LANGCHAIN_NODE_TYPE then firstTrigger nodeTypes w rest
            else if (nt_trigger nodeType \<or> nt_poll nodeType) \<and> n_disabled node \<noteq> Some True then Inr (Some node)
            else firstTrigger nodeTypes w rest))"

fun firstStarting :: "Workflow \<Rightarrow> string list \<Rightarrow> INode option res" where
  "firstStarting w [] = Inr None"
| "firstStarting w (nodeName # rest) = (case getNode w nodeName of
      None \<Rightarrow> Inl TypeError
    | Some node \<Rightarrow> if n_type node \<in> set STARTING_NODE_TYPES \<and> n_disabled node \<noteq> Some True
        then Inr (Some node) else firstStarting w rest)"

definition firstTriggerOrStarting :: "INodeTypes \<Rightarrow> Workflow \<Rightarrow> string list \<Rightarrow> INode option res" where
  "firstTriggerOrStarting nodeTypes w nodeNames =
     rbind (firstTrigger nodeTypes w nodeNames) (\<lambda>found. case found of
         Some node \<Rightarrow> Inr (Some node)
       | None \<Rightarrow> firstStarting w (map n_name (sort_key (\<lambda>n. starting_index (n_type n)) (own_vals (w_nodes w)))))"

text \<open>\<open>__getStartNode\<close>\<close>

definition getStartNodeOf :: "INodeTypes \<Rightarrow> Workflow \<Rightarrow> string list \<Rightarrow> INode option res" where
  "getStartNodeOf nodeTypes w nodeNames =
     (case (if length nodeNames = 1 then getNode w (hd nodeNames) else None) of
        Some node \<Rightarrow> if \<not> is_disabled node then Inr (Some node) else firstTriggerOrStarting nodeTypes w nodeNames
      | None \<Rightarrow> firstTriggerOrStarting nodeTypes w nodeNames)"

text \<open>\<open>getStartNode\<close>: an empty destination name counts as none.\<close>

definition getStartNode :: "INodeTypes \<Rightarrow> Workflow \<Rightarrow> string option \<Rightarrow> INode option res" where
  "getStartNode nodeTypes w destinationNode =
     (if destinationNode = None \<or> destinationNode = Some [] then getStartNodeOf nodeTypes w (own_keys (w_nodes w))
      else rbind (getHighestNode w (the destinationNode) None []) (\<lambda>(highest, _).
        let nodeNames = (if highest = [] then [the destinationNode] else highest)
        in rbind (getStartNodeOf nodeTypes w nodeNames) (\<lambda>node. case node of
            Some n \<Rightarrow> Inr (Some n)
          | None \<Rightarrow> Inr (getNode w (hd nodeNames)))))"

subsection \<open>Breadth-first search finds shortest distances\<close>

definition shortest :: "('a \<times> 'a) set \<Rightarrow> 'a \<Rightarrow> 'a \<Rightarrow> nat \<Rightarrow> bool" where
  "shortest E x y d \<longleftrightarrow> (x, y) \<in> E ^^ d \<and> (\<forall>k < d. (x, y) \<notin> E ^^ k)"

lemma shortest_unique: "shortest E x y d \<Longrightarrow> shortest E x y k \<Longrightarrow> d = k"
  by (metis shortest_def nat_neq_iff)

lemma shortest_le: "(x, y) \<in> E ^^ d \<Longrightarrow> \<exists>k \<le> d. shortest E x y k"
proof (induction d rule: less_induct)
  case (less d)
  show ?case
  proof (cases "\<exists>k < d. (x, y) \<in> E ^^ k")
    case True
    then obtain k where "k < d" "(x, y) \<in> E ^^ k" by blast
    then show ?thesis using less.IH [of k] by (meson less_imp_le order.trans)
  next
    case False
    then show ?thesis using less.prems by (auto simp: shortest_def)
  qed
qed

lemma shortest_pred:
  assumes "shortest E x z (Suc d)"
  obtains y where "shortest E x y d" and "(y, z) \<in> E"
proof -
  obtain y where y: "(x, y) \<in> E ^^ d" "(y, z) \<in> E" using assms by (auto simp: shortest_def)
  obtain k where k: "k \<le> d" "shortest E x y k" using shortest_le [OF y(1)] by blast
  have "(x, z) \<in> E ^^ Suc k" using k(2) y(2) unfolding shortest_def by (auto intro: relcompI)
  moreover have "\<forall>j < Suc d. (x, z) \<notin> E ^^ j" using assms by (simp add: shortest_def)
  ultimately have "\<not> Suc k < Suc d" by blast
  then show ?thesis using k y that by (cases "k = d") auto
qed

lemma shortest_none_after:
  assumes "\<forall>y. \<not> shortest E x y d" and "d \<le> k"
  shows "\<not> shortest E x y k"
  using assms(2)
proof (induction k arbitrary: y)
  case 0
  then show ?case using assms(1) by simp
next
  case (Suc k)
  then show ?case using assms(1) by (cases "d = Suc k") (auto elim: shortest_pred)
qed

abbreviation main_succ :: "IConnections \<Rightarrow> string \<Rightarrow> string list" where
  "main_succ C \<equiv> connected_succ C (SelType Main)"

lemma main_succ_targets:
  "c_node ` set (concat (map or_empty (or_empty (main_connections C n)))) = set (main_succ C n)"
proof (cases "jget C n")
  case (Some byType)
  then show ?thesis
    by (cases "jget byType Main") (auto simp: main_connections_def connected_succ_def selected_types_def)
qed (simp add: main_connections_def connected_succ_def)

definition named :: "(string, IConnectedNode) jmap \<Rightarrow> bool" where
  "named vis \<longleftrightarrow> jwf vis \<and> (\<forall>n c. jget vis n = Some c \<longrightarrow> cn_name c = n)"

definition depth_of :: "(string, IConnectedNode) jmap \<Rightarrow> string \<Rightarrow> nat option" where
  "depth_of vis n = map_option cn_depth (jget vis n)"

lemma bfsVisit_spec:
  assumes "bfsVisit C D c (vis, q) = (vis', q')" and "named vis"
  shows "named vis'"
    and "depth_of vis' = (if depth_of vis (cn_name c) = None then (depth_of vis)(cn_name c \<mapsto> cn_depth c) else depth_of vis)"
    and "cn_name ` set q' = cn_name ` set q \<union> (if depth_of vis (cn_name c) = None then set (main_succ C (cn_name c)) else {})"
    and "\<forall>x \<in> set q. cn_depth x = D \<Longrightarrow> \<forall>x \<in> set q'. cn_depth x = D"
proof -
  let ?t = "concat (map or_empty (or_empty (main_connections C (cn_name c))))"
  have t: "cn_name ` set (map (\<lambda>connection. \<lparr>cn_name = c_node connection, cn_indicies = [c_index connection], cn_depth = D\<rparr>) ?t)
      = set (main_succ C (cn_name c))"
    unfolding set_map image_image by (simp only: IConnectedNode.select_convs main_succ_targets)
  show "named vis'" "depth_of vis' = (if depth_of vis (cn_name c) = None then (depth_of vis)(cn_name c \<mapsto> cn_depth c) else depth_of vis)"
      "\<forall>x \<in> set q. cn_depth x = D \<Longrightarrow> \<forall>x \<in> set q'. cn_depth x = D"
    using assms by (auto simp: bfsVisit_def named_def depth_of_def fun_eq_iff jget_jput split: option.splits if_splits)
  show "cn_name ` set q' = cn_name ` set q \<union> (if depth_of vis (cn_name c) = None then set (main_succ C (cn_name c)) else {})"
  proof (cases "jget vis (cn_name c)")
    case None
    with assms(1) have "q' = q @ map (\<lambda>connection. \<lparr>cn_name = c_node connection, cn_indicies = [c_index connection], cn_depth = D\<rparr>) ?t"
      by (simp add: bfsVisit_def)
    then show ?thesis using t by (simp only: set_append image_Un depth_of_def None option.map if_True simp_thms)
  next
    case (Some v)
    with assms(1) have "q' = q" by (simp add: bfsVisit_def)
    then show ?thesis by (simp add: depth_of_def Some)
  qed
qed

lemma bfs_fold_spec:
  assumes "fold (bfsVisit C D) cs (vis, q) = (vis', q')" and "named vis"
    and "\<forall>c \<in> set cs. cn_depth c = d" and "\<forall>x \<in> set q. cn_depth x = D"
  shows "named vis' \<and> (\<forall>n. depth_of vis' n = (case depth_of vis n of Some k \<Rightarrow> Some k
      | None \<Rightarrow> if n \<in> cn_name ` set cs then Some d else None))
    \<and> cn_name ` set q' = cn_name ` set q \<union> (\<Union>n \<in> {n \<in> cn_name ` set cs. depth_of vis n = None}. set (main_succ C n))
    \<and> (\<forall>x \<in> set q'. cn_depth x = D)"
  using assms
proof (induction cs arbitrary: vis q)
  case (Cons c cs)
  obtain vis1 q1 where st: "bfsVisit C D c (vis, q) = (vis1, q1)" by force
  note sp = bfsVisit_spec [OF st Cons.prems(2)]
  let ?fresh = "\<lambda>vis. {n \<in> cn_name ` set cs. depth_of vis n = None}"
  have IH: "named vis'" "\<forall>n. depth_of vis' n = (case depth_of vis1 n of Some k \<Rightarrow> Some k
        | None \<Rightarrow> if n \<in> cn_name ` set cs then Some d else None)"
      "cn_name ` set q' = cn_name ` set q1 \<union> (\<Union>n \<in> ?fresh vis1. set (main_succ C n))"
      "\<forall>x \<in> set q'. cn_depth x = D"
    using Cons.IH [of vis1 q1, OF _ sp(1) _ sp(4) [OF Cons.prems(4)]] Cons.prems(1,3) by (auto simp: st)
  have "\<forall>n. depth_of vis' n = (case depth_of vis n of Some k \<Rightarrow> Some k
      | None \<Rightarrow> if n \<in> cn_name ` set (c # cs) then Some d else None)"
    using IH(2) Cons.prems(3) unfolding sp(2) by (auto split: option.splits if_splits)
  moreover have "cn_name ` set q' = cn_name ` set q
      \<union> (\<Union>n \<in> {n \<in> cn_name ` set (c # cs). depth_of vis n = None}. set (main_succ C n))"
  proof (cases "depth_of vis (cn_name c)")
    case None
    then have "{n \<in> cn_name ` set (c # cs). depth_of vis n = None} = insert (cn_name c) (?fresh vis1)"
      unfolding sp(2) by auto
    then show ?thesis unfolding IH(3) sp(3) using None by auto
  next
    case (Some k)
    then have "{n \<in> cn_name ` set (c # cs). depth_of vis n = None} = ?fresh vis1"
      unfolding sp(2) by auto
    then show ?thesis unfolding IH(3) sp(3) using Some by auto
  qed
  ultimately show ?case using IH(1,4) by blast
qed (auto split: option.split)


lemma bfsLoop_spec:
  assumes "named vis" and "\<forall>c \<in> set q. cn_depth c = d"
    and "\<And>n k. depth_of vis n = Some k \<longleftrightarrow> shortest E x n k \<and> k < d"
    and "\<And>c. c \<in> set q \<Longrightarrow> (x, cn_name c) \<in> E ^^ d"
    and "\<And>n. shortest E x n d \<Longrightarrow> n \<in> cn_name ` set q"
    and "m = -1 \<or> int d \<le> m + 1 \<or> d = 0"
    and E: "E = edges_of (main_succ C)"
  shows "named (bfsLoop C m d q vis) \<and>
    (depth_of (bfsLoop C m d q vis) n = Some k \<longleftrightarrow> shortest E x n k \<and> (m = -1 \<or> int k \<le> m))"
  using assms
proof (induction C m d q vis arbitrary: n k rule: bfsLoop.induct)
  case (1 C m d q vis)
  show ?case
  proof (cases "q = []")
    case True
    then have "\<not> shortest E x n k" if "d \<le> k" for n k
      using shortest_none_after [of E x d k n] "1.prems"(5) that by auto
    then have "shortest E x n k \<longleftrightarrow> shortest E x n k \<and> k < d" for n k by (meson leI)
    moreover have "k < d \<Longrightarrow> m = -1 \<or> int k \<le> m" for k using "1.prems"(6) by auto
    ultimately show ?thesis using True "1.prems"(1,3) by (subst bfsLoop.simps) (auto simp: bfsLoop.simps)
  next
    case ne: False
    show ?thesis
    proof (cases "m \<noteq> -1 \<and> int d > m")
      case True
      then have "m = int d - 1 \<or> d = 0 \<and> m < 0" using "1.prems"(6) by auto
      then have "k < d \<longleftrightarrow> m = -1 \<or> int k \<le> m" for k using True by auto
      then show ?thesis using True ne "1.prems"(1,3) by (subst (1 2) bfsLoop.simps) auto
    next
      case False
      obtain vis' q' where st: "fold (bfsVisit C (d + 1)) q (vis, []) = (vis', q')" by force
      note fs = bfs_fold_spec [OF st "1.prems"(1,2), simplified]
      have new: "shortest E x n d \<longleftrightarrow> n \<in> cn_name ` set q \<and> depth_of vis n = None" for n
      proof
        assume "shortest E x n d"
        moreover from this have "depth_of vis n = None"
          using "1.prems"(3) shortest_unique by (metis not_Some_eq less_irrefl)
        ultimately show "n \<in> cn_name ` set q \<and> depth_of vis n = None" using "1.prems"(5) by blast
      next
        assume n: "n \<in> cn_name ` set q \<and> depth_of vis n = None"
        then have "(x, n) \<in> E ^^ d" using "1.prems"(4) by auto
        then obtain k where "k \<le> d" "shortest E x n k" using shortest_le by metis
        then show "shortest E x n d" using n "1.prems"(3) [of n k] by (cases "k = d") auto
      qed
      have rec: "bfsLoop C m d q vis = bfsLoop C m (d + 1) q' vis'"
        using ne False st by (subst bfsLoop.simps) auto
      show ?thesis
        unfolding rec
      proof (rule "1.IH" [OF ne False st [symmetric]])
        show "named vis'" "\<forall>c \<in> set q'. cn_depth c = d + 1" using fs by auto
        show "depth_of vis' n = Some k \<longleftrightarrow> shortest E x n k \<and> k < d + 1" for n k
          using fs "1.prems"(3) [of n k] new [of n] shortest_unique [of E x n]
          by (auto split: option.splits simp: less_Suc_eq)
        show "(x, cn_name c) \<in> E ^^ (d + 1)" if "c \<in> set q'" for c
        proof -
          have "cn_name c \<in> (\<Union>n \<in> {n \<in> cn_name ` set q. depth_of vis n = None}. set (main_succ C n))"
            using fs that by blast
          then obtain n where "shortest E x n d" "(n, cn_name c) \<in> E" using new "1.prems"(7) by auto
          then show ?thesis by (auto simp: shortest_def)
        qed
        show "n \<in> cn_name ` set q'" if sh: "shortest E x n (d + 1)" for n
        proof -
          obtain y where "shortest E x y d" "(y, n) \<in> E" using shortest_pred sh by (metis Suc_eq_plus1)
          then show ?thesis using fs new "1.prems"(7) by auto
        qed
        show "m = -1 \<or> int (d + 1) \<le> m + 1 \<or> d + 1 = 0" using False by auto
        show "E = edges_of (main_succ C)" by (rule "1.prems"(7))
      qed
    qed
  qed
qed

text \<open>
  C27: the breadth-first search reports every other node that a path of at most \<open>maxDepth\<close> connections
  reaches (any length for -1) exactly once, with the length of a shortest path.
\<close>

theorem searchNodesBFS_distance:
  "distinct (map cn_name (searchNodesBFS connections sourceNode maxDepth)) \<and>
   ((\<exists>c \<in> set (searchNodesBFS connections sourceNode maxDepth). cn_name c = n \<and> cn_depth c = k) \<longleftrightarrow>
      n \<noteq> sourceNode \<and> shortest (edges_of (main_succ connections)) sourceNode n k \<and> (maxDepth = -1 \<or> int k \<le> maxDepth))"
proof -
  let ?r = "bfsLoop connections maxDepth 0 [\<lparr>cn_name = sourceNode, cn_indicies = [], cn_depth = 0\<rparr>] []"
  let ?E = "edges_of (main_succ connections)"
  have spec: "named ?r \<and> (depth_of ?r n = Some k \<longleftrightarrow> shortest ?E sourceNode n k \<and> (maxDepth = -1 \<or> int k \<le> maxDepth))" for n k
    by (rule bfsLoop_spec) (auto simp: named_def depth_of_def shortest_def)
  then have wf: "jwf ?r" and nm: "\<And>n c. jget ?r n = Some c \<Longrightarrow> cn_name c = n" by (auto simp: named_def)
  have names: "map cn_name (searchNodesBFS connections sourceNode maxDepth) = filter (\<lambda>n. n \<noteq> sourceNode) (map fst ?r)"
  proof -
    have "cn_name (snd e) = fst e" if "e \<in> set ?r" for e
      using nm [of "fst e" "snd e"] that wf by (simp add: jget_iff_set)
    then show ?thesis
      by (auto simp: searchNodesBFS_def filter_map comp_def split_beta intro!: map_cong filter_cong)
  qed
  have "(\<exists>c \<in> set (searchNodesBFS connections sourceNode maxDepth). cn_name c = n \<and> cn_depth c = k) \<longleftrightarrow>
      n \<noteq> sourceNode \<and> depth_of ?r n = Some k"
    using nm wf by (auto simp: searchNodesBFS_def depth_of_def jget_iff_set) 
  then show ?thesis using spec wf by (simp add: names distinct_filter)
qed

subsection \<open>The connection to a parent\<close>

lemma scanConnections_spec:
  "(case scanConnections p vis ics q of
      Inl r \<Rightarrow> \<exists>i c. (i, c) \<in> set ics \<and> c_node c = p \<and> r = \<lparr>sourceIndex = c_index c, destinationIndex = i\<rparr>
    | Inr q' \<Rightarrow> p \<notin> (c_node \<circ> snd) ` set ics \<and> set q' = set q \<union> ((c_node \<circ> snd) ` set ics - set vis))"
proof (induction ics arbitrary: q)
  case (Cons ic ics)
  obtain i c where ic: "ic = (i, c)" by force
  show ?case
  proof (cases "p = c_node c")
    case False
    define q1 where "q1 = (if c_node c \<in> set vis then q else q @ [c_node c])"
    have "scanConnections p vis (ic # ics) q = scanConnections p vis ics q1"
      using False by (simp add: ic q1_def)
    moreover have "set q1 = set q \<union> ({c_node c} - set vis)" by (auto simp: q1_def)
    ultimately show ?thesis using Cons.IH [of q1] False by (auto simp: ic split: sum.splits)
  qed (auto simp: ic)
qed simp

lemma indexed_targets:
  "typed_connections C n t = Some slots \<Longrightarrow> (c_node \<circ> snd) ` set (indexed_connections slots) = set (connected_succ C (SelType t) n)"
proof -
  have "(c_node \<circ> snd) ` set (enumerate 0 xs) = c_node ` set xs" for xs :: "IConnection list"
    by (metis image_comp list.set_map map_snd_enumerate)
  then have "(c_node \<circ> snd) ` set (indexed_connections slots) = (\<Union>cs \<in> set slots. c_node ` set (or_empty cs))"
    by (simp only: indexed_connections_def set_concat set_map image_UN image_image)
  moreover assume "typed_connections C n t = Some slots"
  ultimately show ?thesis
    by (auto simp: typed_connections_def connected_succ_def selected_types_def bind_eq_Some_conv) blast
qed

lemma connectionLoop_None:
  assumes "E = edges_of (connected_succ C (SelType t))"
    and "\<forall>v \<in> set vis. p \<notin> set (connected_succ C (SelType t) v) \<and> set (connected_succ C (SelType t) v) \<subseteq> set vis \<union> set q"
  shows "connectionLoop C t p vis q = None \<longleftrightarrow> p \<notin> E\<^sup>+ `` (set vis \<union> set q)"
  using assms
proof (induction C t p vis q rule: connectionLoop.induct)
  case (1 C t p vis)
  have "y \<in> set vis" if "(x, y) \<in> E\<^sup>*" "x \<in> set vis" for x y
    using that 1 by (induction rule: rtrancl_induct) auto
  then have "p \<notin> E\<^sup>+ `` set vis" using 1 by (auto dest!: tranclD2)
  then show ?case by simp
next
  case (2 C t p vis n q)
  note E = "2.prems"(1)
  show ?case
  proof (cases "n \<in> set vis")
    case True
    then have "set vis \<union> set (n # q) = set vis \<union> set q" by auto
    then show ?thesis using 2(1) [OF True E] "2.prems"(2) True by simp
  next
    case False
    show ?thesis
    proof (cases "typed_connections C n t")
      case None
      then have "connected_succ C (SelType t) n = []"
        by (auto simp: typed_connections_def connected_succ_def selected_types_def bind_eq_None_conv split: option.splits)
      then show ?thesis using 2(2) [OF False None E] "2.prems"(2) False None by simp
    next
      case (Some slots)
      note tgt = indexed_targets [OF Some]
      note sc = scanConnections_spec [where p = p and vis = "sadd n vis" and ics = "indexed_connections slots" and q = q]
      show ?thesis
      proof (cases "scanConnections p (sadd n vis) (indexed_connections slots) q")
        case (Inl r)
        then have "p \<in> set (connected_succ C (SelType t) n)" using sc tgt by force
        then have "(n, p) \<in> E\<^sup>+" using E by auto
        then show ?thesis using False Some Inl by auto
      next
        case (Inr q')
        then have q': "p \<notin> set (connected_succ C (SelType t) n)"
            "set q' = set q \<union> (set (connected_succ C (SelType t) n) - insert n (set vis))"
          using sc tgt by auto
        have "connectionLoop C t p (sadd n vis) q' = None \<longleftrightarrow> p \<notin> E\<^sup>+ `` (set (sadd n vis) \<union> set q')"
          using 2(3) [OF False Some Inr E] "2.prems"(2) q' by auto
        moreover have "E\<^sup>+ `` (set (sadd n vis) \<union> set q') = E\<^sup>+ `` (set vis \<union> set (n # q))"
        proof -
          have "E\<^sup>+ `` set (connected_succ C (SelType t) n) \<subseteq> E\<^sup>+ `` {n}"
            using E by (auto intro: trancl_into_trancl2)
          moreover have "set (sadd n vis) \<union> set q' = set vis \<union> set (n # q) \<union> (set (connected_succ C (SelType t) n) - insert n (set vis))"
            by (auto simp: q'(2))
          ultimately show ?thesis by auto
        qed
        ultimately show ?thesis using False Some Inr by simp
      qed
    qed
  qed
qed

text \<open>
  a connection to the parent is found exactly if the parent exists and the node depends on it,
  directly or through other nodes.
\<close>

theorem getNodeConnectionIndexes_iff:
  "(\<exists>r. getNodeConnectionIndexes w nodeName parentNodeName type = Some r) \<longleftrightarrow>
     getNode w parentNodeName \<noteq> None \<and>
     (nodeName, parentNodeName) \<in> (edges_of (connected_succ (w_connectionsByDestinationNode w) (SelType type)))\<^sup>+"
  using connectionLoop_None [OF refl, of "[]" parentNodeName "w_connectionsByDestinationNode w" type "[nodeName]"]
  by (cases "getNode w parentNodeName") (auto simp: getNodeConnectionIndexes_def)

subsection \<open>The highest nodes and the start node\<close>

lemma set_add_missing [simp]: "set (add_missing xs ys) = set xs \<union> set ys"
  by (simp add: add_missing_def js_set.elems_fold_ins)

definition enabled_node :: "Workflow \<Rightarrow> string \<Rightarrow> bool" where
  "enabled_node w n = (case getNode w n of None \<Rightarrow> False | Some node \<Rightarrow> n_disabled node \<noteq> Some True)"

lemma selected_targets:
  "main_connections C n = Some slots \<Longrightarrow> c \<in> set (selected_connections slots i) \<Longrightarrow> c_node c \<in> set (main_succ C n)"
proof -
  assume "main_connections C n = Some slots" "c \<in> set (selected_connections slots i)"
  moreover from this obtain cs where "cs \<in> set slots" "c \<in> set (or_empty cs)"
    using nth_mem by (fastforce simp: selected_connections_def in_set_enumerate_eq split: if_splits)
  ultimately show ?thesis using main_succ_targets [of C n] by force
qed

lemma highestLoop_sound:
  assumes "E = edges_of (main_succ (w_connectionsByDestinationNode w))"
    and "\<forall>c \<in> set cs. (x, c_node c) \<in> E\<^sup>+" and "\<forall>h \<in> set ret. enabled_node w h \<and> (x, h) \<in> E\<^sup>+"
  shows "\<forall>h \<in> set (fst (highestLoop w cs ret chk)). enabled_node w h \<and> (x, h) \<in> E\<^sup>+"
  using assms
proof (induction w cs ret chk rule: highestLoop.induct)
  case (2 w c cs ret chk)
  note E = "2.prems"(1)
  let ?good = "\<lambda>h. enabled_node w h \<and> (x, h) \<in> E\<^sup>+"
  have c: "(x, c_node c) \<in> E\<^sup>+" and cs: "\<forall>c \<in> set cs. (x, c_node c) \<in> E\<^sup>+" using "2.prems"(2) by auto
  show ?case
  proof (cases "c_node c \<in> set chk")
    case True
    then show ?thesis using 2(1) [OF True E cs "2.prems"(3)] by simp
  next
    case new: False
    show ?thesis
    proof (cases "jget (w_nodes w) (c_node c)")
      case None
      then show ?thesis using 2(2) [OF new None E cs "2.prems"(3)] new by simp
    next
      case (Some node)
      have itself: "?good h" if "h \<in> set (or_itself node (c_node c) add)" "\<forall>h \<in> set add. ?good h" for h add
        using that c Some by (auto simp: or_itself_def enabled_node_def getNode_def split: if_splits)
      show ?thesis
      proof (cases "main_connections (w_connectionsByDestinationNode w) (c_node c)")
        case None
        have "\<forall>h \<in> set (currentHighest node (c_node c)). ?good h"
          using c Some by (simp add: currentHighest_def enabled_node_def getNode_def)
        then have ret': "\<forall>h \<in> set (add_missing (or_itself node (c_node c) (currentHighest node (c_node c))) ret). ?good h"
          using "2.prems"(3) itself by (simp add: ball_Un)
        have "highestLoop w (c # cs) ret chk = highestLoop w cs
            (add_missing (or_itself node (c_node c) (currentHighest node (c_node c))) ret) chk"
          using new Some None by simp
        then show ?thesis using 2(3) [OF new Some None E cs ret'] by (simp only:)
      next
        case slots: (Some slots)
        obtain add chk' where r: "highestLoop w (selected_connections slots None) [] (chk @ [c_node c]) = (add, chk')"
          by force
        have "(c_node c, c_node d) \<in> E" if "d \<in> set (selected_connections slots None)" for d
          using selected_targets [OF slots that] E by simp
        then have "\<forall>d \<in> set (selected_connections slots None). (x, c_node d) \<in> E\<^sup>+"
          using c by (blast intro: trancl_into_trancl)
        from 2(4) [OF new Some slots E this]
        have "\<forall>h \<in> set (fst (highestLoop w (selected_connections slots None) [] (chk @ [c_node c]))). ?good h"
          by (simp only: list.set ball_empty True_implies_equals)
        then have "\<forall>h \<in> set add. ?good h" by (simp only: r fst_conv)
        then have ret': "\<forall>h \<in> set (add_missing (or_itself node (c_node c) add) ret). ?good h"
          using "2.prems"(3) itself [of _ add] by (simp add: ball_Un)
        have eq: "highestLoop w (c # cs) ret chk = highestLoop w cs (add_missing (or_itself node (c_node c) add) ret) chk'"
          by (simp only: highestLoop.simps new Some slots r if_False option.case prod.case)
        show ?thesis unfolding eq by (rule 2(5) [OF new Some slots r [symmetric] E cs ret'])
      qed
    qed
  qed
qed simp


text \<open>
  every highest node found above an existing node is an enabled node of the workflow from which the
  node can be reached, or the node itself.
\<close>

theorem getHighestNode_enabled:
  assumes "getHighestNode w nodeName idx checked = Inr (highest, checked')" and "h \<in> set highest"
  shows "enabled_node w h \<and>
    (h = nodeName \<or> (nodeName, h) \<in> (edges_of (main_succ (w_connectionsByDestinationNode w)))\<^sup>+)"
proof -
  obtain node where node: "jget (w_nodes w) nodeName = Some node"
    using assms(1) by (auto simp: getHighestNode_def split: option.splits)
  have cur: "h \<in> set (currentHighest node nodeName) \<Longrightarrow> ?thesis"
    using node by (auto simp: currentHighest_def enabled_node_def getNode_def split: if_splits)
  show ?thesis
  proof (cases "main_connections (w_connectionsByDestinationNode w) nodeName")
    case None
    then show ?thesis using assms node cur by (auto simp: getHighestNode_def)
  next
    case (Some slots)
    show ?thesis
    proof (cases "nodeName \<in> set checked")
      case True
      then show ?thesis using assms node cur Some by (auto simp: getHighestNode_def)
    next
      case False
      have "\<forall>h \<in> set (fst (highestLoop w (selected_connections slots idx) [] (checked @ [nodeName]))).
          enabled_node w h \<and> (nodeName, h) \<in> (edges_of (main_succ (w_connectionsByDestinationNode w)))\<^sup>+"
        using selected_targets [OF Some] by (intro highestLoop_sound [OF refl]) auto
      then show ?thesis using assms node Some False by (auto simp: getHighestNode_def)
    qed
  qed
qed

theorem getHighestNode_enabled_witness:
  "enabled_node chain_workflow ''A'' \<and> (''A'' = ''C'' \<or>
     (''C'', ''A'') \<in> (edges_of (main_succ (w_connectionsByDestinationNode chain_workflow)))\<^sup>+)"
proof (rule getHighestNode_enabled)
  show "getHighestNode chain_workflow ''C'' None [] = Inr ([''A''], [''C'', ''B''])" by code_simp
qed simp


lemma firstTrigger_enabled:
  "firstTrigger nodeTypes w ns = Inr (Some node) \<Longrightarrow>
     n_disabled node \<noteq> Some True \<and> (\<exists>n \<in> set ns. getNode w n = Some node)"
  by (induction nodeTypes w ns rule: firstTrigger.induct) (auto split: option.splits if_splits)

lemma firstStarting_enabled:
  "firstStarting w ns = Inr (Some node) \<Longrightarrow> n_disabled node \<noteq> Some True \<and> (\<exists>n \<in> set ns. getNode w n = Some node)"
  by (induction w ns rule: firstStarting.induct) (auto split: option.splits if_splits)

lemma getStartNodeOf_enabled:
  assumes "getStartNodeOf nodeTypes w ns = Inr (Some node)"
  shows "n_disabled node \<noteq> Some True \<and> (\<exists>n. getNode w n = Some node)"
proof -
  have "firstTriggerOrStarting nodeTypes w ns = Inr (Some node) \<Longrightarrow>
      n_disabled node \<noteq> Some True \<and> (\<exists>n. getNode w n = Some node)"
    by (auto simp: firstTriggerOrStarting_def rbind_Inr_iff split: option.splits
        dest!: firstTrigger_enabled firstStarting_enabled)
  then show ?thesis using assms
    by (auto simp: getStartNodeOf_def is_disabled_def split: option.splits if_splits)
qed

text \<open>
  the start node chosen for a whole workflow is an enabled node of the workflow; a start node
  chosen for a destination is one too, unless the only candidates are disabled and the first of them is taken.
\<close>

theorem getStartNode_enabled:
  assumes "getStartNode nodeTypes w destination = Inr (Some node)"
  shows "(\<exists>n. getNode w n = Some node) \<and> (destination = None \<longrightarrow> n_disabled node \<noteq> Some True)"
  using assms
  by (auto simp: getStartNode_def rbind_Inr_iff Let_def split: if_splits option.splits dest!: getStartNodeOf_enabled)

definition no_types :: INodeTypes where
  "no_types nm version = Some \<lparr>nt_name = nm, nt_group = [], nt_trigger = (nm = ''test.trigger''), nt_poll = False,
     nt_webhook = False, nt_execute = True, nt_inputs = 1, nt_outputs = Some [OutputType Main], nt_requiredInputs = None,
     nt_customOperations = None, nt_requestDefaults = False\<rparr>"

definition single_workflow :: Workflow where
  "single_workflow = chain_workflow\<lparr>w_nodes := [(''T'', mk_node 0 ''T'')]\<rparr>"

theorem getStartNode_enabled_witness:
  "(\<exists>n. getNode single_workflow n = Some (mk_node 0 ''T'')) \<and> n_disabled (mk_node 0 ''T'') \<noteq> Some True"
proof -
  have "getStartNode no_types single_workflow None = Inr (Some (mk_node 0 ''T''))" by code_simp
  from getStartNode_enabled [OF this] show ?thesis by simp
qed

end
