(* ===== verification/DirectedGraph.thy ===== *)
theory DirectedGraph
  imports Workflow
begin

section \<open>The directed graph of partial executions\<close>

text \<open>
  The class \<open>DirectedGraph\<close> of \<open>packages/core/src/execution-engine/partial-execution-utils\<close>: nodes
  keyed by name, connections keyed by a string made of their ends.  A connection object is the
  record of its fields: within one graph two connections with equal fields have the same key and
  hence are the same object.  \<open>a.ok\<close> is an \<open>AssertionError\<close>.  The index of an output is a position in an array;
  the index of an input may be negative in a graph, but not in a workflow, to which a graph is exported.
\<close>

record GraphConnection =
  g_from :: INode
  g_to :: INode
  g_type :: NodeConnectionType
  g_outputIndex :: nat
  g_inputIndex :: int

record DirectedGraph =
  dg_nodes :: "(string, INode) jmap"
  dg_connections :: "(string, GraphConnection) jmap"

definition emptyGraph :: DirectedGraph where
  "emptyGraph = \<lparr>dg_nodes = [], dg_connections = []\<rparr>"

subsection \<open>Nodes and connections\<close>

definition makeKey :: "GraphConnection \<Rightarrow> string" where
  "makeKey c = n_name (g_from c) @ ''-'' @ connection_type_name (g_type c) @ ''-'' @ nat_string (g_outputIndex c)
     @ ''-'' @ int_string (g_inputIndex c) @ ''-'' @ n_name (g_to c)"

definition hasNode :: "DirectedGraph \<Rightarrow> string \<Rightarrow> bool" where
  "hasNode g nodeName \<longleftrightarrow> jhas (dg_nodes g) nodeName"

definition getNodes :: "DirectedGraph \<Rightarrow> (string, INode) jmap" where
  "getNodes g = dg_nodes g"

definition getNodesByNames :: "DirectedGraph \<Rightarrow> string list \<Rightarrow> INode list" where
  "getNodesByNames g names =
     fold (\<lambda>name nodes. case jget (dg_nodes g) name of Some node \<Rightarrow> sadd node nodes | None \<Rightarrow> nodes) names []"

definition getConnections :: "DirectedGraph \<Rightarrow> INode option \<Rightarrow> GraphConnection list" where
  "getConnections g to_filter = filter (\<lambda>c. case to_filter of None \<Rightarrow> True | Some node \<Rightarrow> g_to c = node)
     (jvals (dg_connections g))"

definition addNode :: "INode \<Rightarrow> DirectedGraph \<Rightarrow> DirectedGraph" where
  "addNode node g = g\<lparr>dg_nodes := jput (n_name node) node (dg_nodes g)\<rparr>"

definition addNodes :: "INode list \<Rightarrow> DirectedGraph \<Rightarrow> DirectedGraph" where
  "addNodes nodes g = fold addNode nodes g"

text \<open>\<open>this.nodes.get(node.name) === node\<close>\<close>

definition nodeExists :: "DirectedGraph \<Rightarrow> INode \<Rightarrow> bool" where
  "nodeExists g node \<longleftrightarrow> jget (dg_nodes g) (n_name node) = Some node"

abbreviation noNode :: js_error where
  "noNode \<equiv> AssertionError ''nodeExists''"

definition getDirectChildConnections :: "DirectedGraph \<Rightarrow> INode \<Rightarrow> GraphConnection list res" where
  "getDirectChildConnections g node = (if \<not> nodeExists g node then Inl noNode
     else Inr (filter (\<lambda>connection. g_from connection = node) (jvals (dg_connections g))))"

definition getDirectParentConnections :: "DirectedGraph \<Rightarrow> INode \<Rightarrow> GraphConnection list res" where
  "getDirectParentConnections g node = (if \<not> nodeExists g node then Inl noNode
     else Inr (filter (\<lambda>connection. g_to connection = node) (jvals (dg_connections g))))"

definition setConnection :: "GraphConnection \<Rightarrow> DirectedGraph \<Rightarrow> DirectedGraph" where
  "setConnection c g = g\<lparr>dg_connections := jput (makeKey c) c (dg_connections g)\<rparr>"

definition addConnection :: "INode \<Rightarrow> INode \<Rightarrow> NodeConnectionType option \<Rightarrow> nat option \<Rightarrow> int option
    \<Rightarrow> DirectedGraph \<Rightarrow> DirectedGraph res" where
  "addConnection from to type outputIndex inputIndex g =
     (if jget (dg_nodes g) (n_name from) \<noteq> Some from then Inl (AssertionError ''fromExists'')
      else if jget (dg_nodes g) (n_name to) \<noteq> Some to then Inl (AssertionError ''toExists'')
      else Inr (setConnection \<lparr>g_from = from, g_to = to,
          g_type = (case type of None \<Rightarrow> Main | Some t \<Rightarrow> t),
          g_outputIndex = (case outputIndex of None \<Rightarrow> 0 | Some i \<Rightarrow> i),
          g_inputIndex = (case inputIndex of None \<Rightarrow> 0 | Some i \<Rightarrow> i)\<rparr> g))"

text \<open>\<open>addConnection\<close> with a complete connection as its argument.\<close>

definition addGraphConnection :: "GraphConnection \<Rightarrow> DirectedGraph \<Rightarrow> DirectedGraph res" where
  "addGraphConnection c g =
     addConnection (g_from c) (g_to c) (Some (g_type c)) (Some (g_outputIndex c)) (Some (g_inputIndex c)) g"

definition addConnections :: "GraphConnection list \<Rightarrow> DirectedGraph \<Rightarrow> DirectedGraph res" where
  "addConnections cs g = rfold addGraphConnection cs g"

definition getConnection :: "DirectedGraph \<Rightarrow> INode \<Rightarrow> nat \<Rightarrow> NodeConnectionType \<Rightarrow> int \<Rightarrow> INode \<Rightarrow> GraphConnection option" where
  "getConnection g from outputIndex type inputIndex to = jget (dg_connections g)
     (makeKey \<lparr>g_from = from, g_to = to, g_type = type, g_outputIndex = outputIndex, g_inputIndex = inputIndex\<rparr>)"

subsection \<open>Removing a node\<close>

text \<open>Deleting the visited entry while iterating over a \<open>Map\<close> is safe: the loop is a filter.\<close>

definition dropConnections :: "INode \<Rightarrow> DirectedGraph \<Rightarrow> DirectedGraph" where
  "dropConnections node g = g\<lparr>dg_connections :=
     filter (\<lambda>(key, connection). \<not> (g_to connection = node \<or> g_from connection = node)) (dg_connections g)\<rparr>"

definition bridging :: "(GraphConnection \<Rightarrow> bool) \<Rightarrow> GraphConnection list \<Rightarrow> GraphConnection list \<Rightarrow> GraphConnection list" where
  "bridging skipConnectionFn incomingConnections outgoingConnections =
     concat (map (\<lambda>incomingConnection.
       if skipConnectionFn incomingConnection then []
       else concat (map (\<lambda>outgoingConnection.
         if skipConnectionFn outgoingConnection then []
         else [incomingConnection\<lparr>g_to := g_to outgoingConnection, g_inputIndex := g_inputIndex outgoingConnection\<rparr>])
         outgoingConnections)) incomingConnections)"

definition removeNode :: "INode \<Rightarrow> bool \<Rightarrow> (GraphConnection \<Rightarrow> bool) \<Rightarrow> DirectedGraph
    \<Rightarrow> (DirectedGraph \<times> GraphConnection list option) res" where
  "removeNode node reconnectConnections skipConnectionFn g =
     (if reconnectConnections then
        rbind (getDirectParentConnections g node) (\<lambda>incomingConnections.
        rbind (getDirectChildConnections g node) (\<lambda>outgoingConnections.
          let newConnections = bridging skipConnectionFn incomingConnections outgoingConnections;
              g1 = fold setConnection newConnections (dropConnections node g)
          in Inr (g1\<lparr>dg_nodes := jdel (n_name node) (dg_nodes g1)\<rparr>, Some newConnections)))
      else let g1 = dropConnections node g
        in Inr (g1\<lparr>dg_nodes := jdel (n_name node) (dg_nodes g1)\<rparr>, None))"

subsection \<open>Traversals\<close>

text \<open>
  \<open>children\<close> is one set shared by all recursive calls.  The loop over the direct children of a node is
  \<open>childrenLoop\<close>; the call in its body is the lookup of the child's own connections and their loop.
\<close>

function childrenLoop :: "DirectedGraph \<Rightarrow> GraphConnection list \<Rightarrow> INode list \<Rightarrow> INode list res" where
  "childrenLoop g [] children = Inr children"
| "childrenLoop g (directChild # rest) children =
     (if g_to directChild \<in> set children then childrenLoop g rest children
      else rbind (getDirectChildConnections g (g_to directChild)) (\<lambda>directChildren.
        rbind (childrenLoop g directChildren (sadd (g_to directChild) children))
          (childrenLoop g rest)))"
  by pat_completeness auto

lemma childrenLoop_mono_dom:
  "childrenLoop_dom (g, cs, chs) \<Longrightarrow> childrenLoop g cs chs = Inr r \<Longrightarrow> set chs \<subseteq> set r"
proof (induction arbitrary: r rule: childrenLoop.pinduct)
  case 1
  then show ?case by (simp add: childrenLoop.psimps)
next
  case 2
  then show ?case by (fastforce simp: childrenLoop.psimps rbind_Inr_iff split: if_splits)
qed

lemma directChildren_in:
  "getDirectChildConnections g n = Inr cs \<Longrightarrow> set cs \<subseteq> set (jvals (dg_connections g))"
  by (auto simp: getDirectChildConnections_def split: if_splits)

lemma directParents_in:
  "getDirectParentConnections g n = Inr cs \<Longrightarrow> set cs \<subseteq> set (jvals (dg_connections g))"
  by (auto simp: getDirectParentConnections_def split: if_splits)

termination childrenLoop
proof (relation "measures [\<lambda>(g, cs, chs). card (g_to ` (set (jvals (dg_connections g)) \<union> set cs) - set chs),
     \<lambda>(g, cs, chs). length cs]", goal_cases)
  case (2 g c rest chs)
  then show ?case using card_marks_le [of g_to "jvals (dg_connections g)" rest chs c] by (simp add: le_less)
next
  case (3 g c rest chs cs)
  then show ?case
    using card_marks_less [of g_to c chs "sadd (g_to c) chs" cs "jvals (dg_connections g)" rest]
      directChildren_in [OF 3(2)] by auto
next
  case (4 g c rest chs cs r)
  have "insert (g_to c) (set chs) \<subseteq> set r" using childrenLoop_mono_dom [OF 4(4,3)] by simp
  then show ?case
    using card_marks_less [of g_to c chs r rest "jvals (dg_connections g)" rest] 4 by simp
qed simp

definition getChildrenRecursive :: "DirectedGraph \<Rightarrow> INode \<Rightarrow> INode list \<Rightarrow> INode list res" where
  "getChildrenRecursive g node children =
     rbind (getDirectChildConnections g node) (\<lambda>directChildren. childrenLoop g directChildren children)"

definition getChildren :: "DirectedGraph \<Rightarrow> INode \<Rightarrow> INode list res" where
  "getChildren g node = getChildrenRecursive g node []"

text \<open>The search upwards collects connections.\<close>

function parentsLoop :: "DirectedGraph \<Rightarrow> GraphConnection list \<Rightarrow> GraphConnection list \<Rightarrow> GraphConnection list res" where
  "parentsLoop g [] connections = Inr connections"
| "parentsLoop g (connection # rest) connections =
     (if connection \<in> set connections then parentsLoop g rest connections
      else rbind (getDirectParentConnections g (g_from connection)) (\<lambda>parentConnections.
        rbind (parentsLoop g parentConnections (sadd connection connections)) (parentsLoop g rest)))"
  by pat_completeness auto

lemma parentsLoop_mono_dom:
  "parentsLoop_dom (g, cs, conns) \<Longrightarrow> parentsLoop g cs conns = Inr r \<Longrightarrow> set conns \<subseteq> set r"
proof (induction arbitrary: r rule: parentsLoop.pinduct)
  case 1
  then show ?case by (simp add: parentsLoop.psimps)
next
  case 2
  then show ?case by (fastforce simp: parentsLoop.psimps rbind_Inr_iff split: if_splits)
qed

termination parentsLoop
proof (relation "measures [\<lambda>(g, cs, conns). card ((\<lambda>c. c) ` (set (jvals (dg_connections g)) \<union> set cs) - set conns),
     \<lambda>(g, cs, conns). length cs]", goal_cases)
  case (2 g c rest conns)
  then show ?case
    using card_marks_le [of "\<lambda>c. c" "jvals (dg_connections g)" rest conns c] by (simp add: le_less)
next
  case (3 g c rest conns cs)
  then show ?case
    using card_marks_less [of "\<lambda>c. c" c conns "sadd c conns" cs "jvals (dg_connections g)" rest]
      directParents_in [OF 3(2)] by auto
next
  case (4 g c rest conns cs r)
  have "insert c (set conns) \<subseteq> set r" using parentsLoop_mono_dom [OF 4(4,3)] by simp
  then show ?case
    using card_marks_less [of "\<lambda>c. c" c conns r rest "jvals (dg_connections g)" rest] 4 by simp
qed simp

definition getParentConnectionsRecursive ::
  "DirectedGraph \<Rightarrow> INode \<Rightarrow> GraphConnection list \<Rightarrow> GraphConnection list res" where
  "getParentConnectionsRecursive g node connections =
     rbind (getDirectParentConnections g node) (\<lambda>parentConnections. parentsLoop g parentConnections connections)"

definition getParentConnections :: "DirectedGraph \<Rightarrow> INode \<Rightarrow> GraphConnection list res" where
  "getParentConnections g node = getParentConnectionsRecursive g node []"

text \<open>The depth-first search stops at the first node the predicate accepts.\<close>

function searchLoop :: "DirectedGraph \<Rightarrow> (INode \<Rightarrow> bool) \<Rightarrow> GraphConnection list \<Rightarrow> INode list
    \<Rightarrow> (INode option \<times> INode list) res" where
  "searchLoop g fn [] seen = Inr (None, seen)"
| "searchLoop g fn (childConnection # rest) seen =
     (if g_to childConnection \<in> set seen then searchLoop g fn rest seen
      else if fn (g_to childConnection) then Inr (Some (g_to childConnection), sadd (g_to childConnection) seen)
      else rbind (getDirectChildConnections g (g_to childConnection)) (\<lambda>childConnections.
        rbind (searchLoop g fn childConnections (sadd (g_to childConnection) seen)) (\<lambda>result.
          case result of (Some found, seen') \<Rightarrow> Inr (Some found, seen')
          | (None, seen') \<Rightarrow> searchLoop g fn rest seen')))"
  by pat_completeness auto

lemma searchLoop_mono_dom:
  "searchLoop_dom (g, fn, cs, seen) \<Longrightarrow> searchLoop g fn cs seen = Inr (f, r) \<Longrightarrow> set seen \<subseteq> set r"
proof (induction arbitrary: f r rule: searchLoop.pinduct)
  case 1
  then show ?case by (simp add: searchLoop.psimps)
next
  case 2
  then show ?case
    by (fastforce simp: searchLoop.psimps rbind_Inr_iff split: if_splits option.splits prod.splits)
qed

termination searchLoop
proof (relation "measures [\<lambda>(g, fn, cs, seen). card (g_to ` (set (jvals (dg_connections g)) \<union> set cs) - set seen),
     \<lambda>(g, fn, cs, seen). length cs]", goal_cases)
  case (2 g fn c rest seen)
  then show ?case using card_marks_le [of g_to "jvals (dg_connections g)" rest seen c] by (simp add: le_less)
next
  case (3 g fn c rest seen cs)
  then show ?case
    using card_marks_less [of g_to c seen "sadd (g_to c) seen" cs "jvals (dg_connections g)" rest]
      directChildren_in [OF 3(3)] by auto
next
  case (4 g fn c rest seen cs x a r)
  have "insert (g_to c) (set seen) \<subseteq> set r" using searchLoop_mono_dom [OF 4(7)] 4(4,5) by auto
  then show ?case
    using card_marks_less [of g_to c seen r rest "jvals (dg_connections g)" rest] 4 by simp
qed simp

definition depthFirstSearchRecursive :: "DirectedGraph \<Rightarrow> INode \<Rightarrow> (INode \<Rightarrow> bool) \<Rightarrow> INode list
    \<Rightarrow> (INode option \<times> INode list) res" where
  "depthFirstSearchRecursive g from fn seen =
     (if from \<in> set seen then Inr (None, seen)
      else if fn from then Inr (Some from, sadd from seen)
      else rbind (getDirectChildConnections g from) (\<lambda>childConnections.
        searchLoop g fn childConnections (sadd from seen)))"

definition depthFirstSearch :: "DirectedGraph \<Rightarrow> INode \<Rightarrow> (INode \<Rightarrow> bool) \<Rightarrow> INode option res" where
  "depthFirstSearch g from fn = rbind (depthFirstSearchRecursive g from fn []) (\<lambda>(found, _). Inr found)"

subsection \<open>Strongly connected components\<close>

text \<open>
  The local variables of \<open>getStronglyConnectedComponents\<close>.  \<open>stack\<close> has its top, \<open>stack.at(-1)\<close>, at the
  head of the list.  \<open>followNode\<close> is \<open>enterNode\<close>, the loop over the children (\<open>followLoop\<close>, whose
  recursive call is inlined) and \<open>leaveNode\<close>.
\<close>

record SccState =
  scc_id :: nat
  scc_visited :: "INode list"
  scc_ids :: "(INode, nat) jmap"
  scc_lowLinkValues :: "(INode, nat) jmap"
  scc_stack :: "INode list"
  scc_components :: "INode list list"

definition initScc :: SccState where
  "initScc = \<lparr>scc_id = 0, scc_visited = [], scc_ids = [], scc_lowLinkValues = [], scc_stack = [], scc_components = []\<rparr>"

definition enterNode :: "INode \<Rightarrow> SccState \<Rightarrow> SccState" where
  "enterNode node s = s\<lparr>scc_visited := sadd node (scc_visited s),
     scc_lowLinkValues := jput node (scc_id s) (scc_lowLinkValues s),
     scc_ids := jput node (scc_id s) (scc_ids s),
     scc_id := scc_id s + 1,
     scc_stack := node # scc_stack s\<rparr>"

definition lowerLink :: "INode \<Rightarrow> INode \<Rightarrow> SccState \<Rightarrow> SccState res" where
  "lowerLink node child s =
     (if child \<in> set (scc_stack s)
      then (case jget (scc_lowLinkValues s) child of None \<Rightarrow> Inl (AssertionError ''childLowLinkValue'')
        | Some childLow \<Rightarrow> (case jget (scc_lowLinkValues s) node of None \<Rightarrow> Inl (AssertionError ''ownLowLinkValue'')
            | Some ownLow \<Rightarrow> Inr (s\<lparr>scc_lowLinkValues := jput node (min childLow ownLow) (scc_lowLinkValues s)\<rparr>)))
      else Inr s)"

definition leaveNode :: "INode \<Rightarrow> SccState \<Rightarrow> SccState res" where
  "leaveNode node s = (case jget (scc_ids s) node of None \<Rightarrow> Inl (AssertionError ''ownId'')
     | Some ownId \<Rightarrow> (case jget (scc_lowLinkValues s) node of None \<Rightarrow> Inl (AssertionError ''ownLowLinkValue'')
       | Some ownLow \<Rightarrow>
           if ownId = ownLow then
             let own = (\<lambda>n. jget (scc_lowLinkValues s) n = Some ownId);
                 scc = set_of_list (takeWhile own (scc_stack s));
                 s' = s\<lparr>scc_stack := dropWhile own (scc_stack s)\<rparr>
             in Inr (if scc \<noteq> [] then s'\<lparr>scc_components := scc_components s' @ [scc]\<rparr> else s')
           else Inr s))"

function followLoop :: "DirectedGraph \<Rightarrow> INode \<Rightarrow> INode list \<Rightarrow> SccState \<Rightarrow> SccState res" where
  "followLoop g node [] s = Inr s"
| "followLoop g node (child # rest) s =
     rbind (if child \<in> set (scc_visited s) then Inr s
            else rbind (getDirectChildConnections g child) (\<lambda>cs.
              rbind (followLoop g child (map g_to cs) (enterNode child s)) (leaveNode child)))
       (\<lambda>s1. rbind (lowerLink node child s1) (followLoop g node rest))"
  by pat_completeness auto

lemma lowerLink_visited: "lowerLink node child s = Inr s' \<Longrightarrow> scc_visited s' = scc_visited s"
  by (auto simp: lowerLink_def split: if_splits option.splits)

lemma leaveNode_visited: "leaveNode node s = Inr s' \<Longrightarrow> scc_visited s' = scc_visited s"
  by (auto simp: leaveNode_def Let_def split: if_splits option.splits)

lemma enterNode_visited: "set (scc_visited (enterNode node s)) = insert node (set (scc_visited s))"
  by (simp add: enterNode_def)

lemma followLoop_mono_dom:
  "followLoop_dom (g, n, cs, s) \<Longrightarrow> followLoop g n cs s = Inr s' \<Longrightarrow> set (scc_visited s) \<subseteq> set (scc_visited s')"
proof (induction arbitrary: s' rule: followLoop.pinduct)
  case 1
  then show ?case by (simp add: followLoop.psimps)
next
  case (2 g node child rest s)
  from "2.prems" obtain s1 s2 where
    s1: "(if child \<in> set (scc_visited s) then Inr s else rbind (getDirectChildConnections g child) (\<lambda>cs.
      rbind (followLoop g child (map g_to cs) (enterNode child s)) (leaveNode child))) = Inr s1"
    and s2: "lowerLink node child s1 = Inr s2" "followLoop g node rest s2 = Inr s'"
    by (auto simp: followLoop.psimps(2) [OF "2.hyps"] rbind_Inr_iff)
  have "set (scc_visited s) \<subseteq> set (scc_visited s1)"
    using s1 "2.IH"(1) by (fastforce simp: rbind_Inr_iff enterNode_visited dest: leaveNode_visited split: if_splits)
  moreover have "set (scc_visited s1) \<subseteq> set (scc_visited s')"
    using "2.IH"(2) [OF s1 s2] lowerLink_visited [OF s2(1)] by simp
  ultimately show ?case by blast
qed

termination followLoop
proof (relation "measures [\<lambda>(g, n, cs, s). card (set (jvals (dg_nodes g)) - set (scc_visited s)),
     \<lambda>(g, n, cs, s). length cs]", goal_cases)
  case (2 g node child rest s cs)
  then have "child \<in> set (jvals (dg_nodes g))"
    by (auto simp: getDirectChildConnections_def nodeExists_def split: if_splits dest!: jget_in_set intro: rev_image_eqI)
  then have "card (set (jvals (dg_nodes g)) - set (scc_visited (enterNode child s)))
      < card (set (jvals (dg_nodes g)) - set (scc_visited s))"
    using 2 by (intro psubset_card_mono) (auto simp: enterNode_visited)
  then show ?case by simp
next
  case (3 g node child rest s s1 s2)
  have "set (scc_visited s) \<subseteq> set (scc_visited s1)"
    using 3(1,3) followLoop_mono_dom by (fastforce simp: rbind_Inr_iff enterNode_visited dest: leaveNode_visited split: if_splits)
  then have "card (set (jvals (dg_nodes g)) - set (scc_visited s2)) \<le> card (set (jvals (dg_nodes g)) - set (scc_visited s))"
    using lowerLink_visited [OF 3(2)] by (intro card_mono) auto
  then show ?case by (auto simp: le_less)
qed simp

definition followNode :: "DirectedGraph \<Rightarrow> INode \<Rightarrow> SccState \<Rightarrow> SccState res" where
  "followNode g node s =
     (if node \<in> set (scc_visited s) then Inr s
      else rbind (getDirectChildConnections g node) (\<lambda>cs.
        rbind (followLoop g node (map g_to cs) (enterNode node s)) (leaveNode node)))"

lemma followLoop_call:
  "followLoop g node (child # rest) s =
     rbind (followNode g child s) (\<lambda>s1. rbind (lowerLink node child s1) (followLoop g node rest))"
  by (simp add: followNode_def)

definition getStronglyConnectedComponents :: "DirectedGraph \<Rightarrow> INode list list res" where
  "getStronglyConnectedComponents g =
     rbind (rfold (followNode g) (jvals (dg_nodes g)) initScc) (\<lambda>s. Inr (scc_components s))"

subsection \<open>Import and export\<close>

text \<open>Writing past the end of \<open>resultConnection[type]\<close> leaves holes, which read as \<open>undefined\<close>.\<close>

definition exportConnection :: "GraphConnection \<Rightarrow> IConnections \<Rightarrow> IConnections res" where
  "exportConnection connection result =
     (let fromName = n_name (g_from connection);
          resultConnection = (case jget result fromName of None \<Rightarrow> [(g_type connection, [])] | Some r \<Rightarrow> r)
      in case jget resultConnection (g_type connection) of
          None \<Rightarrow> Inl TypeError
        | Some slots \<Rightarrow>
            let group = (case arr_get slots (g_outputIndex connection) of Some (Some cs) \<Rightarrow> cs | _ \<Rightarrow> []);
                pushed = group @ [\<lparr>c_node = n_name (g_to connection), c_type = g_type connection,
                  c_index = nat (g_inputIndex connection)\<rparr>]
            in Inr (jput fromName (jput (g_type connection)
                 (arr_put None (g_outputIndex connection) (Some pushed) slots) resultConnection) result))"

definition toIConnections :: "DirectedGraph \<Rightarrow> IConnections res" where
  "toIConnections g = rfold exportConnection (jvals (dg_connections g)) []"

definition toWorkflow :: "INodeTypes \<Rightarrow> (INodeType \<Rightarrow> INode \<Rightarrow> (string, json) jmap option) \<Rightarrow> WorkflowParameters
    \<Rightarrow> DirectedGraph \<Rightarrow> Workflow res" where
  "toWorkflow nodeTypes getNodeParameters parameters g = rbind (toIConnections g) (\<lambda>connections.
     Inr (newWorkflow nodeTypes getNodeParameters
       (parameters\<lparr>wp_nodes := jvals (dg_nodes g), wp_connections := connections\<rparr>)))"

definition fromWorkflow :: "Workflow \<Rightarrow> DirectedGraph res" where
  "fromWorkflow workflow =
     rfold (\<lambda>(fromNodeName, iConnection) g.
       (case getNode workflow fromNodeName of None \<Rightarrow> Inl (AssertionError ''from'')
        | Some from \<Rightarrow> rfold (\<lambda>(outputType, outputs).
            rfold (\<lambda>(outputIndex, conns).
              rfold (\<lambda>conn g. (case getNode workflow (c_node conn) of None \<Rightarrow> Inl (AssertionError ''to'')
                | Some to \<Rightarrow> addConnection from to (Some outputType) (Some outputIndex) (Some (int (c_index conn))) g))
              (or_empty conns))
            (enumerate 0 outputs)) iConnection g))
       (own_entries (w_connectionsBySourceNode workflow))
       (addNodes (own_vals (w_nodes workflow)) emptyGraph)"

definition clone :: "DirectedGraph \<Rightarrow> DirectedGraph res" where
  "clone g = addConnections (getConnections g None) (addNodes (jvals (getNodes g)) emptyGraph)"

end
