(* ===== verification/GraphTraversal.thy ===== *)
theory GraphTraversal
  imports DirectedGraph
begin

section \<open>Well-formed graphs and their traversals\<close>

text \<open>
  The invariant of \<open>DirectedGraph\<close> and which operations keep it; the traversals return exactly the
  reachable nodes and connections; the depth-first search finds a node exactly if one is reachable.
\<close>

subsection \<open>The invariant\<close>

definition graph_wf :: "DirectedGraph \<Rightarrow> bool" where
  "graph_wf g \<longleftrightarrow> jwf (dg_nodes g) \<and> jwf (dg_connections g)
     \<and> list_all (\<lambda>(k, n). n_name n = k) (dg_nodes g)
     \<and> list_all (\<lambda>(k, c). makeKey c = k \<and> nodeExists g (g_from c) \<and> nodeExists g (g_to c)) (dg_connections g)"

abbreviation graph_nodes :: "DirectedGraph \<Rightarrow> INode set" where
  "graph_nodes g \<equiv> set (jvals (dg_nodes g))"

abbreviation graph_conns :: "DirectedGraph \<Rightarrow> GraphConnection set" where
  "graph_conns g \<equiv> set (jvals (dg_connections g))"

text \<open>The relation between nodes that one connection makes.\<close>

abbreviation child_rel :: "DirectedGraph \<Rightarrow> (INode \<times> INode) set" where
  "child_rel g \<equiv> edge_rel g_from g_to (jvals (dg_connections g))"

lemma graph_wf_emptyGraph [simp]: "graph_wf emptyGraph"
  by (simp add: graph_wf_def emptyGraph_def)

lemma graph_wf_node: "graph_wf g \<Longrightarrow> nodeExists g n \<longleftrightarrow> n \<in> graph_nodes g"
  by (auto simp: graph_wf_def nodeExists_def jget_iff_set list_all_iff image_iff Bex_def)

lemma graph_wf_conn:
  assumes "graph_wf g" and "c \<in> graph_conns g"
  shows "nodeExists g (g_from c)" and "nodeExists g (g_to c)"
    and "jget (dg_connections g) (makeKey c) = Some c"
  using assms by (auto simp: graph_wf_def list_all_iff jget_iff_set)

lemma graph_wfI:
  assumes "jwf (dg_nodes g)" and "jwf (dg_connections g)"
    and "\<And>k n. jget (dg_nodes g) k = Some n \<Longrightarrow> n_name n = k"
    and "\<And>k c. jget (dg_connections g) k = Some c \<Longrightarrow> makeKey c = k \<and> nodeExists g (g_from c) \<and> nodeExists g (g_to c)"
  shows "graph_wf g"
proof -
  have "n_name n = k" if "(k, n) \<in> set (dg_nodes g)" for k n
    using assms(3) that jget_iff_set [OF assms(1)] by blast
  moreover have "makeKey c = k \<and> nodeExists g (g_from c) \<and> nodeExists g (g_to c)" if "(k, c) \<in> set (dg_connections g)" for k c
    using assms(4) that jget_iff_set [OF assms(2)] by blast
  ultimately show ?thesis using assms(1,2) unfolding graph_wf_def list_all_iff by blast
qed

lemma graph_wfD:
  assumes "graph_wf g"
  shows "jwf (dg_nodes g)" and "jwf (dg_connections g)"
    and "jget (dg_nodes g) k = Some n \<Longrightarrow> n_name n = k"
    and "jget (dg_connections g) k' = Some c \<Longrightarrow> makeKey c = k' \<and> nodeExists g (g_from c) \<and> nodeExists g (g_to c)"
  using assms by (auto simp: graph_wf_def list_all_iff dest!: jget_in_set)

lemma graph_wf_addNode:
  assumes "graph_wf g" and "jget (dg_nodes g) (n_name n) \<in> {None, Some n}"
  shows "graph_wf (addNode n g)"
proof (rule graph_wfI)
  have keep: "nodeExists (addNode n g) m" if "nodeExists g m" for m
    using that assms(2) by (auto simp: nodeExists_def addNode_def jget_jput)
  show "makeKey c = k \<and> nodeExists (addNode n g) (g_from c) \<and> nodeExists (addNode n g) (g_to c)"
    if "jget (dg_connections (addNode n g)) k = Some c" for k c
    using graph_wfD(4) [OF assms(1), of k c] that keep by (simp add: addNode_def)
  show "n_name m = k" if "jget (dg_nodes (addNode n g)) k = Some m" for k m
    using graph_wfD(3) [OF assms(1), of k m] that by (simp add: addNode_def jget_jput split: if_splits)
qed (use graph_wfD(1,2) [OF assms(1)] in \<open>simp_all add: addNode_def\<close>)

lemma nodeExists_setConnection [simp]: "nodeExists (setConnection c g) n = nodeExists g n"
  by (simp add: nodeExists_def setConnection_def)

lemma graph_wf_setConnection:
  assumes "graph_wf g" and "nodeExists g (g_from c)" and "nodeExists g (g_to c)"
  shows "graph_wf (setConnection c g)"
proof (rule graph_wfI)
  show "makeKey d = k \<and> nodeExists (setConnection c g) (g_from d) \<and> nodeExists (setConnection c g) (g_to d)"
    if "jget (dg_connections (setConnection c g)) k = Some d" for k d
    using graph_wfD(4) [OF assms(1), of k d] that assms(2,3)
    by (auto simp: setConnection_def jget_jput nodeExists_def split: if_splits)
  show "n_name m = k" if "jget (dg_nodes (setConnection c g)) k = Some m" for k m
    using graph_wfD(3) [OF assms(1), of k m] that by (simp add: setConnection_def)
qed (use graph_wfD(1,2) [OF assms(1)] in \<open>simp_all add: setConnection_def\<close>)

lemma graph_wf_addConnection:
  assumes "graph_wf g" and "addConnection from to t i j g = Inr g'"
  shows "graph_wf g'"
  using assms by (auto simp: addConnection_def nodeExists_def intro!: graph_wf_setConnection split: if_splits)

lemma addConnection_nodes: "addConnection from to t i j g = Inr g' \<Longrightarrow> dg_nodes g' = dg_nodes g"
  by (auto simp: addConnection_def setConnection_def split: if_splits)

lemma graph_wf_dropConnections: "graph_wf g \<Longrightarrow> graph_wf (dropConnections n g)"
  by (auto simp: graph_wf_def dropConnections_def list_all_iff nodeExists_def
      intro: distinct_map_filter)

lemma dropConnections_conns:
  "graph_conns (dropConnections n g) = {c \<in> graph_conns g. g_from c \<noteq> n \<and> g_to c \<noteq> n}"
  by (force simp: dropConnections_def)

lemma dropConnections_nodes [simp]: "dg_nodes (dropConnections n g) = dg_nodes g"
  by (simp add: dropConnections_def)

lemma graph_wf_delNode:
  assumes "graph_wf g" and "nodeExists g n" and "\<forall>c \<in> graph_conns g. g_from c \<noteq> n \<and> g_to c \<noteq> n"
  shows "graph_wf (g\<lparr>dg_nodes := jdel (n_name n) (dg_nodes g)\<rparr>)"
proof -
  have "n_name (g_from c) \<noteq> n_name n \<and> n_name (g_to c) \<noteq> n_name n" if "c \<in> graph_conns g" for c
    using assms that graph_wf_conn(1,2) [OF assms(1) that] by (auto simp: nodeExists_def)
  then have keep: "nodeExists (g\<lparr>dg_nodes := jdel (n_name n) (dg_nodes g)\<rparr>) (g_from c)
      \<and> nodeExists (g\<lparr>dg_nodes := jdel (n_name n) (dg_nodes g)\<rparr>) (g_to c)" if "c \<in> graph_conns g" for c
    using that graph_wf_conn(1,2) [OF assms(1) that] by (simp add: nodeExists_def jget_jdel)
  show ?thesis
  proof (rule graph_wfI)
    show "makeKey c = k \<and> nodeExists (g\<lparr>dg_nodes := jdel (n_name n) (dg_nodes g)\<rparr>) (g_from c)
        \<and> nodeExists (g\<lparr>dg_nodes := jdel (n_name n) (dg_nodes g)\<rparr>) (g_to c)"
      if "jget (dg_connections (g\<lparr>dg_nodes := jdel (n_name n) (dg_nodes g)\<rparr>)) k = Some c" for k c
    proof -
      from that have "(k, c) \<in> set (dg_connections g)" by (auto dest: jget_in_set)
      then have "c \<in> graph_conns g" by (auto intro: rev_image_eqI)
      then show ?thesis using keep graph_wfD(4) [OF assms(1), of k c] that by simp
    qed
    show "n_name m = k" if "jget (dg_nodes (g\<lparr>dg_nodes := jdel (n_name n) (dg_nodes g)\<rparr>)) k = Some m" for k m
      using graph_wfD(3) [OF assms(1), of k m] that by (simp add: jget_jdel split: if_splits)
  qed (use graph_wfD(1,2) [OF assms(1)] in simp_all)
qed

subsection \<open>The traversals\<close>

text \<open>
  The loops of the three searches are the walk of \<open>Reachability\<close>, on a well-formed graph with
  assertions that never fail.
\<close>

lemma directChildren_wf:
  "nodeExists g n \<Longrightarrow> getDirectChildConnections g n = Inr (filter (\<lambda>c. g_from c = n) (jvals (dg_connections g)))"
  by (simp add: getDirectChildConnections_def)

lemma directParents_wf:
  "nodeExists g n \<Longrightarrow> getDirectParentConnections g n = Inr (filter (\<lambda>c. g_to c = n) (jvals (dg_connections g)))"
  by (simp add: getDirectParentConnections_def)

lemma childrenLoop_walk:
  "childrenLoop g cs children = walk (nodeExists g) g_from g_to g_to noNode (jvals (dg_connections g)) cs children"
  by (induction g cs children rule: childrenLoop.induct)
    (auto simp: getDirectChildConnections_def intro!: rbind_cong)

lemma parentsLoop_walk:
  "parentsLoop g cs conns = walk (nodeExists g) g_to (\<lambda>c. c) g_from noNode (jvals (dg_connections g)) cs conns"
  by (induction g cs conns rule: parentsLoop.induct)
    (auto simp: getDirectParentConnections_def intro!: rbind_cong)

definition child_nodes :: "DirectedGraph \<Rightarrow> INode \<Rightarrow> INode list" where
  "child_nodes g n = map g_to (filter (\<lambda>c. g_from c = n) (jvals (dg_connections g)))"

lemma edges_child_nodes: "edges_of (child_nodes g) = child_rel g"
  by (auto simp: edges_of_def child_nodes_def edge_rel_def simp del: set_jvals)

text \<open>\<open>getChildren\<close> is a downstream search of every graph, well-formed or not.\<close>

lemma getChildren_walk:
  assumes "getChildren g n = Inr r"
  shows "walk (nodeExists g) g_from g_to g_to noNode (jvals (dg_connections g))
    (filter (\<lambda>c. g_from c = n) (jvals (dg_connections g))) [] = Inr r"
  using assms by (auto simp: getChildren_def getChildrenRecursive_def getDirectChildConnections_def childrenLoop_walk
      split: if_splits)

interpretation children: downstream_search "child_nodes g" "getChildren g" for g
proof
  show "y \<in> set r" if "getChildren g x = Inr r" "y \<in> set (child_nodes g x)" for x r y
    using walk_nodes(1) [OF getChildren_walk [OF that(1)]] that(2) by (auto simp: child_nodes_def)
  show "z \<in> set r" if "getChildren g x = Inr r" "y \<in> set r" "z \<in> set (child_nodes g y)" for x r y z
    using walk_nodes(2) [OF getChildren_walk [OF that(1)] that(2)] that(3) by (auto simp: child_nodes_def simp del: set_jvals)
  show "(x, y) \<in> (edges_of (child_nodes g))\<^sup>+" if "getChildren g x = Inr r" "y \<in> set r" for x r y
    using walk_nodes(3) [OF getChildren_walk [OF that(1)] that(2)] by (simp add: edges_child_nodes)
qed

lemma getChildren_spec:
  assumes "graph_wf g" and "nodeExists g n"
  obtains cs where "getChildren g n = Inr cs" and "distinct cs" and "set cs = {m. (n, m) \<in> (child_rel g)\<^sup>+}"
proof -
  let ?U = "jvals (dg_connections g)"
  have "\<exists>r. walk (nodeExists g) g_from g_to g_to noNode ?U (filter (\<lambda>c. g_from c = n) ?U) [] = Inr r"
    by (rule walk_total) (use graph_wf_conn(2) [OF assms(1)] in auto)
  then obtain r where r: "walk (nodeExists g) g_from g_to g_to noNode ?U (filter (\<lambda>c. g_from c = n) ?U) [] = Inr r" ..
  then have "getChildren g n = Inr r"
    by (simp add: getChildren_def getChildrenRecursive_def directChildren_wf [OF assms(2)] childrenLoop_walk)
  then show ?thesis using that walk_distinct [OF r] children.search_eq [of g n r] by (simp add: edges_child_nodes)
qed

lemma getParentConnections_spec:
  assumes "graph_wf g" and "nodeExists g n"
  obtains cs where "getParentConnections g n = Inr cs" and "distinct cs"
    and "set cs = {c \<in> graph_conns g. (g_to c, n) \<in> (child_rel g)\<^sup>*}"
proof -
  let ?U = "jvals (dg_connections g)"
  have "\<exists>r. walk (nodeExists g) g_to (\<lambda>c. c) g_from noNode ?U (filter (\<lambda>c. g_to c = n) ?U) [] = Inr r"
    by (rule walk_total) (use graph_wf_conn(1) [OF assms(1)] in auto)
  then obtain r where r: "walk (nodeExists g) g_to (\<lambda>c. c) g_from noNode ?U (filter (\<lambda>c. g_to c = n) ?U) [] = Inr r" ..
  then have "getParentConnections g n = Inr r"
    by (simp add: getParentConnections_def getParentConnectionsRecursive_def directParents_wf [OF assms(2)] parentsLoop_walk)
  moreover have "edge_rel g_to g_from ?U = (child_rel g)\<inverse>" by (auto simp: edge_rel_def)
  moreover have "set r = {c \<in> graph_conns g. (n, g_to c) \<in> (edge_rel g_to g_from ?U)\<^sup>*}"
    using walk_result [OF r] by simp
  ultimately show ?thesis using that walk_distinct [OF r] by (simp add: rtrancl_converse)
qed

text \<open>
  C28: on a well-formed graph \<open>getChildren\<close> returns, each once, exactly the nodes reachable by at least
  one connection; the node itself is among them exactly if it lies on a cycle.
\<close>

theorem getChildren_reachable:
  assumes "graph_wf g" and "nodeExists g n"
  shows "\<exists>cs. getChildren g n = Inr cs \<and> distinct cs \<and> set cs = {m. (n, m) \<in> (child_rel g)\<^sup>+}"
  by (rule getChildren_spec [OF assms]) blast

text \<open>
  \<open>getParentConnections\<close> returns, each once, exactly the connections that end at the node or at a
  node from which it can be reached.
\<close>

theorem getParentConnections_upstream:
  assumes "graph_wf g" and "nodeExists g n"
  shows "\<exists>cs. getParentConnections g n = Inr cs \<and> distinct cs
    \<and> set cs = {c \<in> graph_conns g. (g_to c, n) \<in> (child_rel g)\<^sup>*}"
  by (rule getParentConnections_spec [OF assms]) blast

lemma searchLoop_walk:
  "searchLoop g fn cs seen = Inr (None, seen') \<Longrightarrow>
     walk (nodeExists g) g_from g_to g_to noNode (jvals (dg_connections g)) cs seen = Inr seen'
     \<and> (\<forall>n \<in> set seen' - set seen. \<not> fn n)"
proof (induction g fn cs seen arbitrary: seen' rule: searchLoop.induct)
  case (2 g fn c rest seen)
  show ?case
  proof (cases "g_to c \<in> set seen")
    case False
    with "2.prems" obtain ds seen1 where *: "\<not> fn (g_to c)" "getDirectChildConnections g (g_to c) = Inr ds"
        "searchLoop g fn ds (sadd (g_to c) seen) = Inr (None, seen1)" "searchLoop g fn rest seen1 = Inr (None, seen')"
      by (auto simp: rbind_Inr_iff split: if_splits option.splits)
    then show ?thesis
      using "2.IH"(2) [OF False *(1,2,3)] "2.IH"(3) [OF False *(1,2,3) refl refl *(4)] False
      by (auto simp: getDirectChildConnections_def split: if_splits)
  qed (use 2 in simp)
qed simp

lemma searchLoop_found:
  "searchLoop g fn cs seen = Inr (Some f, seen') \<Longrightarrow> set cs \<subseteq> graph_conns g \<Longrightarrow>
     fn f \<and> (\<exists>c \<in> set cs. (g_to c, f) \<in> (child_rel g)\<^sup>*)"
proof (induction g fn cs seen arbitrary: seen' rule: searchLoop.induct)
  case (2 g fn c rest seen)
  consider "g_to c \<in> set seen" | "g_to c \<notin> set seen" "fn (g_to c)" | "g_to c \<notin> set seen" "\<not> fn (g_to c)" by blast
  then show ?case
  proof cases
    case 3
    from 3 "2.prems"(1) obtain ds where ds: "getDirectChildConnections g (g_to c) = Inr ds"
      by (auto simp: rbind_Inr_iff split: if_splits)
    then have sub: "set ds \<subseteq> graph_conns g" by (rule directChildren_in)
    obtain fd seen1 where sd: "searchLoop g fn ds (sadd (g_to c) seen) = Inr (fd, seen1)"
      using 3 "2.prems"(1) ds by (auto simp: rbind_Inr_iff split: if_splits)
    have "searchLoop g fn (c # rest) seen = (case fd of Some f \<Rightarrow> Inr (Some f, seen1) | None \<Rightarrow> searchLoop g fn rest seen1)"
      using 3 by (simp add: ds sd split: option.split)
    with "2.prems"(1) consider "fd = Some f" | "fd = None" "searchLoop g fn rest seen1 = Inr (Some f, seen')"
      by (cases fd) auto
    then show ?thesis
    proof cases
      case 1
      then obtain d where d: "fn f" "d \<in> set ds" "(g_to d, f) \<in> (child_rel g)\<^sup>*"
        using "2.IH"(2) [OF 3 ds _ sub] sd by blast
      then have "g_from d = g_to c" "d \<in> graph_conns g"
        using ds by (auto simp: getDirectChildConnections_def split: if_splits)
      then have "(g_to c, g_to d) \<in> child_rel g" using edge_relI [of d _ g_from g_to] by metis
      then show ?thesis using d by (auto intro: converse_rtrancl_into_rtrancl)
    next
      case 2
      then show ?thesis using "2.IH"(3) [OF 3 ds sd _ _ 2(2)] "2.prems"(2) by auto
    qed
  qed (use 2 in auto)
qed simp

lemma searchLoop_total:
  assumes "graph_wf g" and "set cs \<subseteq> graph_conns g"
  shows "\<exists>r. searchLoop g fn cs seen = Inr r"
  using assms
proof (induction g fn cs seen rule: searchLoop.induct)
  case (2 g fn c rest seen)
  show ?case
  proof (cases "g_to c \<in> set seen \<or> fn (g_to c)")
    case False
    have "nodeExists g (g_to c)" using graph_wf_conn(2) [OF "2.prems"(1)] "2.prems"(2) by simp
    then have ds: "getDirectChildConnections g (g_to c) = Inr (filter (\<lambda>d. g_from d = g_to c) (jvals (dg_connections g)))"
      by (rule directChildren_wf)
    then obtain f seen1 where r: "searchLoop g fn (filter (\<lambda>d. g_from d = g_to c) (jvals (dg_connections g)))
        (sadd (g_to c) seen) = Inr (f, seen1)"
      using "2.IH"(2) [OF _ _ ds] False "2.prems" by fastforce
    show ?thesis
    proof (cases f)
      case None
      then have "\<exists>r. searchLoop g fn rest seen1 = Inr r" using "2.IH"(3) [OF _ _ ds r] False "2.prems" by auto
      then show ?thesis using False ds r None by auto
    next
      case (Some a)
      then show ?thesis using False ds r by auto
    qed
  qed (use 2 in auto)
qed simp

lemma depthFirstSearch_spec:
  assumes "graph_wf g" and "nodeExists g start"
  shows "\<exists>found. depthFirstSearch g start fn = Inr found
    \<and> (\<forall>n. found = Some n \<longrightarrow> fn n \<and> (start, n) \<in> (child_rel g)\<^sup>*)
    \<and> (found = None \<longleftrightarrow> (\<forall>n. (start, n) \<in> (child_rel g)\<^sup>* \<longrightarrow> \<not> fn n))"
proof (cases "fn start")
  case True
  then show ?thesis by (auto simp: depthFirstSearch_def depthFirstSearchRecursive_def)
next
  case False
  let ?cs = "filter (\<lambda>c. g_from c = start) (jvals (dg_connections g))"
  have ds: "getDirectChildConnections g start = Inr ?cs" by (rule directChildren_wf [OF assms(2)])
  obtain f seen' where r: "searchLoop g fn ?cs [start] = Inr (f, seen')"
    using searchLoop_total [OF assms(1), of ?cs fn "[start]"] by auto
  have res: "depthFirstSearch g start fn = Inr f"
    using False ds r by (simp add: depthFirstSearch_def depthFirstSearchRecursive_def sadd_def)
  show ?thesis
  proof (cases f)
    case None
    have w: "walk (nodeExists g) g_from g_to g_to noNode (jvals (dg_connections g)) ?cs [start] = Inr seen'"
      and nofn: "\<forall>n \<in> set seen' - {start}. \<not> fn n"
      using searchLoop_walk [OF r [unfolded None]] by auto
    have clo: "g_to ` set ?cs \<subseteq> set seen'"
        "\<forall>d \<in> graph_conns g. g_to d \<in> set seen' \<longrightarrow> g_to d \<notin> {start} \<longrightarrow>
          (\<forall>c \<in> graph_conns g. g_from c = g_to d \<longrightarrow> g_to c \<in> set seen')"
      using walk_closed [OF w] by auto
    have "n \<in> set seen'" if "(start, n) \<in> (child_rel g)\<^sup>*" for n
      using that
    proof (induction rule: rtrancl_induct)
      case base
      show ?case using walk_mono [OF w] by simp
    next
      case (step y z)
      then obtain c where c: "c \<in> graph_conns g" "g_from c = y" "g_to c = z" by (auto simp: edge_rel_def)
      show ?case
      proof (cases "y = start")
        case True
        then show ?thesis using clo(1) c by auto
      next
        case False
        with step.hyps(1) obtain x where "(x, y) \<in> child_rel g" by (metis rtranclE)
        then obtain d where "d \<in> graph_conns g" "g_to d = y" by (auto simp: edge_rel_def)
        then show ?thesis using clo(2) c step.IH False by blast
      qed
    qed
    then have "\<forall>n. (start, n) \<in> (child_rel g)\<^sup>* \<longrightarrow> \<not> fn n" using nofn False by blast
    then show ?thesis using res None by simp
  next
    case (Some n)
    then obtain c where "fn n" "c \<in> set ?cs" "(g_to c, n) \<in> (child_rel g)\<^sup>*"
      using searchLoop_found [of g fn ?cs "[start]" n seen'] r by auto
    then have "fn n \<and> (start, n) \<in> (child_rel g)\<^sup>*"
      using edge_relI [of c "jvals (dg_connections g)" g_from g_to] by (auto intro: converse_rtrancl_into_rtrancl)
    then show ?thesis using res Some by auto
  qed
qed

text \<open>
  the depth-first search on a well-formed graph always returns; what it finds satisfies the
  predicate and is reachable, and it finds nothing exactly if no reachable node satisfies the predicate.
\<close>

theorem depthFirstSearch_correct:
  assumes "graph_wf g" and "nodeExists g start"
  shows "\<exists>found. depthFirstSearch g start fn = Inr found
    \<and> (\<forall>n. found = Some n \<longrightarrow> fn n \<and> (start, n) \<in> (child_rel g)\<^sup>*)
    \<and> (found = None \<longleftrightarrow> (\<forall>n. (start, n) \<in> (child_rel g)\<^sup>* \<longrightarrow> \<not> fn n))"
  by (rule depthFirstSearch_spec [OF assms])

subsection \<open>A concrete graph\<close>

definition main_conn :: "INode \<Rightarrow> INode \<Rightarrow> GraphConnection" where
  "main_conn a b = \<lparr>g_from = a, g_to = b, g_type = Main, g_outputIndex = 0, g_inputIndex = 0\<rparr>"

definition graph_of :: "INode list \<Rightarrow> GraphConnection list \<Rightarrow> DirectedGraph" where
  "graph_of ns cs = fold setConnection cs (addNodes ns emptyGraph)"

text \<open>A loop of three nodes with a chord: \<open>R\<close> to \<open>A\<close>, \<open>A\<close> to \<open>B\<close>, \<open>B\<close> to \<open>A\<close>, \<open>A\<close> to \<open>R\<close>.\<close>

definition loop_graph :: DirectedGraph where
  "loop_graph = graph_of [mk_node 0 ''R'', mk_node 1 ''A'', mk_node 2 ''B'']
     [main_conn (mk_node 0 ''R'') (mk_node 1 ''A''), main_conn (mk_node 1 ''A'') (mk_node 2 ''B''),
      main_conn (mk_node 2 ''B'') (mk_node 1 ''A''), main_conn (mk_node 1 ''A'') (mk_node 0 ''R'')]"

lemma loop_graph_wf: "graph_wf loop_graph"
  by code_simp

lemma loop_graph_nodes:
  "nodeExists loop_graph (mk_node 0 ''R'')" "nodeExists loop_graph (mk_node 1 ''A'')" "nodeExists loop_graph (mk_node 2 ''B'')"
  by code_simp+

theorem getChildren_reachable_witness:
  "\<exists>cs. getChildren loop_graph (mk_node 1 ''A'') = Inr cs \<and> distinct cs
     \<and> set cs = {m. (mk_node 1 ''A'', m) \<in> (child_rel loop_graph)\<^sup>+}"
  by (rule getChildren_reachable [OF loop_graph_wf loop_graph_nodes(2)])

theorem getParentConnections_upstream_witness:
  "\<exists>cs. getParentConnections loop_graph (mk_node 1 ''A'') = Inr cs \<and> distinct cs
    \<and> set cs = {c \<in> graph_conns loop_graph. (g_to c, mk_node 1 ''A'') \<in> (child_rel loop_graph)\<^sup>*}"
  by (rule getParentConnections_upstream [OF loop_graph_wf loop_graph_nodes(2)])

theorem depthFirstSearch_correct_witness:
  "\<exists>found. depthFirstSearch loop_graph (mk_node 0 ''R'') (\<lambda>n. n_name n = ''B'') = Inr found
    \<and> (\<forall>n. found = Some n \<longrightarrow> n_name n = ''B'' \<and> (mk_node 0 ''R'', n) \<in> (child_rel loop_graph)\<^sup>*)
    \<and> (found = None \<longleftrightarrow> (\<forall>n. (mk_node 0 ''R'', n) \<in> (child_rel loop_graph)\<^sup>* \<longrightarrow> n_name n \<noteq> ''B''))"
  by (rule depthFirstSearch_correct [OF loop_graph_wf loop_graph_nodes(1)])

end
