(* ===== verification/GraphComponents.thy ===== *)
theory GraphComponents
  imports GraphTraversal
begin

section \<open>The components the graph reports\<close>

text \<open>
  \<open>getStronglyConnectedComponents\<close> on a well-formed graph: it returns, its components are disjoint,
  and the nodes of one component reach each other.  It does not return all of them: a node whose
  low link is lowered after its children were compared with it stays on the stack.
\<close>

abbreviation scc_no :: "SccState \<Rightarrow> INode \<Rightarrow> nat option" where
  "scc_no s \<equiv> jget (scc_ids s)"

abbreviation scc_low :: "SccState \<Rightarrow> INode \<Rightarrow> nat option" where
  "scc_low s \<equiv> jget (scc_lowLinkValues s)"

definition mutually_reachable :: "DirectedGraph \<Rightarrow> INode list \<Rightarrow> bool" where
  "mutually_reachable g cmp \<longleftrightarrow> (\<forall>x \<in> set cmp. \<forall>y \<in> set cmp. (x, y) \<in> (child_rel g)\<^sup>*)"

definition stack_inv :: "SccState \<Rightarrow> bool" where
  "stack_inv s \<longleftrightarrow> distinct (scc_stack s @ concat (scc_components s))
     \<and> set (scc_stack s) \<union> set (concat (scc_components s)) \<subseteq> set (scc_visited s)"

definition number_inv :: "SccState \<Rightarrow> bool" where
  "number_inv s \<longleftrightarrow> (\<forall>n. (n \<in> set (scc_visited s) \<longleftrightarrow> scc_no s n \<noteq> None) \<and> (scc_no s n \<noteq> None \<longleftrightarrow> scc_low s n \<noteq> None))
     \<and> (\<forall>n i. scc_no s n = Some i \<longrightarrow> i < scc_id s) \<and> (\<forall>n m i. scc_no s n = Some i \<longrightarrow> scc_no s m = Some i \<longrightarrow> n = m)"

definition low_inv :: "DirectedGraph \<Rightarrow> SccState \<Rightarrow> bool" where
  "low_inv g s \<longleftrightarrow> (\<forall>n l i. scc_low s n = Some l \<longrightarrow> scc_no s n = Some i \<longrightarrow> l \<le> i)
     \<and> (\<forall>n l. scc_low s n = Some l \<longrightarrow> (\<exists>m. scc_no s m = Some l \<and> (n, m) \<in> (child_rel g)\<^sup>*))"

definition scc_inv :: "DirectedGraph \<Rightarrow> SccState \<Rightarrow> bool" where
  "scc_inv g s \<longleftrightarrow> stack_inv s \<and> number_inv s \<and> low_inv g s \<and> set (scc_visited s) \<subseteq> graph_nodes g
     \<and> (\<forall>cmp \<in> set (scc_components s). cmp \<noteq> [] \<and> mutually_reachable g cmp)"

lemma scc_invD:
  assumes "scc_inv g s"
  shows "n \<in> set (scc_visited s) \<Longrightarrow> \<exists>i. scc_no s n = Some i \<and> i < scc_id s"
    and "n \<in> set (scc_visited s) \<Longrightarrow> \<exists>l. scc_low s n = Some l"
    and "scc_no s n = Some i \<Longrightarrow> scc_no s m = Some i \<Longrightarrow> n = m"
    and "n \<notin> set (scc_visited s) \<Longrightarrow> scc_no s n = None \<and> scc_low s n = None"
    and "scc_low s n = Some l \<Longrightarrow> scc_no s n = Some i \<Longrightarrow> l \<le> i"
    and "scc_low s n = Some l \<Longrightarrow> \<exists>m. scc_no s m = Some l \<and> (n, m) \<in> (child_rel g)\<^sup>*"
    and "set (scc_stack s) \<subseteq> set (scc_visited s)"
proof -
  have num: "n \<in> set (scc_visited s) \<longleftrightarrow> scc_no s n \<noteq> None" "scc_no s n \<noteq> None \<longleftrightarrow> scc_low s n \<noteq> None" for n
    using assms by (auto simp: scc_inv_def number_inv_def)
  have lt: "scc_no s n = Some i \<Longrightarrow> i < scc_id s" for n i
    using assms by (auto simp: scc_inv_def number_inv_def)
  show "n \<in> set (scc_visited s) \<Longrightarrow> \<exists>i. scc_no s n = Some i \<and> i < scc_id s" using num lt by blast
  show "n \<in> set (scc_visited s) \<Longrightarrow> \<exists>l. scc_low s n = Some l" using num by blast
  show "n \<notin> set (scc_visited s) \<Longrightarrow> scc_no s n = None \<and> scc_low s n = None" using num by blast
  show "scc_no s n = Some i \<Longrightarrow> scc_no s m = Some i \<Longrightarrow> n = m"
    using assms unfolding scc_inv_def number_inv_def by blast
  show "scc_low s n = Some l \<Longrightarrow> scc_no s n = Some i \<Longrightarrow> l \<le> i"
    "scc_low s n = Some l \<Longrightarrow> \<exists>m. scc_no s m = Some l \<and> (n, m) \<in> (child_rel g)\<^sup>*"
    using assms unfolding scc_inv_def low_inv_def by blast+
  show "set (scc_stack s) \<subseteq> set (scc_visited s)" using assms by (simp add: scc_inv_def stack_inv_def)
qed

lemma scc_inv_init: "scc_inv g initScc"
  by (simp add: scc_inv_def initScc_def stack_inv_def number_inv_def low_inv_def)

lemma scc_inv_enter:
  assumes "scc_inv g s" and "n \<notin> set (scc_visited s)" and "n \<in> graph_nodes g"
  shows "scc_inv g (enterNode n s)"
proof -
  have old: "scc_no s n = None" "scc_low s n = None" using scc_invD(4) [OF assms(1,2)] by auto
  have "stack_inv (enterNode n s)"
    using assms(1,2) by (auto simp: scc_inv_def stack_inv_def enterNode_def)
  moreover have "number_inv (enterNode n s)"
  proof -
    have "scc_no s m \<noteq> Some (scc_id s)" for m
      using assms(1) by (force simp: scc_inv_def number_inv_def)
    then show ?thesis
      using assms(1,2) unfolding scc_inv_def number_inv_def
      by (auto simp: enterNode_def jget_jput less_Suc_eq)
  qed
  moreover have "low_inv g (enterNode n s)"
  proof -
    have "\<exists>k. scc_no (enterNode n s) k = Some l \<and> (m, k) \<in> (child_rel g)\<^sup>*" if "scc_low (enterNode n s) m = Some l" for m l
    proof (cases "m = n")
      case True
      then show ?thesis using that by (intro exI [of _ n]) (simp add: enterNode_def jget_jput)
    next
      case False
      then have "scc_low s m = Some l" using that by (simp add: enterNode_def jget_jput)
      from scc_invD(6) [OF assms(1) this] obtain k where "scc_no s k = Some l" "(m, k) \<in> (child_rel g)\<^sup>*"
        by blast
      moreover from this have "k \<noteq> n" using old by auto
      ultimately show ?thesis by (intro exI [of _ k]) (simp add: enterNode_def jget_jput)
    qed
    moreover have "l \<le> i" if "scc_low (enterNode n s) m = Some l" "scc_no (enterNode n s) m = Some i" for m l i
      using that scc_invD(5) [OF assms(1), of m l i] by (simp add: enterNode_def jget_jput split: if_splits)
    ultimately show ?thesis unfolding low_inv_def by blast
  qed
  ultimately show ?thesis using assms(1,3) by (auto simp: scc_inv_def enterNode_def)
qed

lemma scc_inv_lower:
  assumes "scc_inv g s" and "n \<in> set (scc_visited s)" and "(n, c) \<in> child_rel g"
  shows "\<exists>s'. lowerLink n c s = Inr s' \<and> scc_inv g s' \<and> scc_stack s' = scc_stack s
    \<and> scc_visited s' = scc_visited s \<and> scc_ids s' = scc_ids s"
proof (cases "c \<in> set (scc_stack s)")
  case False
  then show ?thesis using assms(1) by (simp add: lowerLink_def)
next
  case True
  then obtain lc ln i where l: "scc_low s c = Some lc" "scc_low s n = Some ln" "scc_no s n = Some i"
    using scc_invD(2,7) [OF assms(1)] scc_invD(1,2) [OF assms(1,2)] by blast
  define s' where "s' = s\<lparr>scc_lowLinkValues := jput n (min lc ln) (scc_lowLinkValues s)\<rparr>"
  have low': "scc_low s' m = (if m = n then Some (min lc ln) else scc_low s m)" for m
    by (simp add: s'_def jget_jput)
  have "\<exists>k. scc_no s k = Some (min lc ln) \<and> (n, k) \<in> (child_rel g)\<^sup>*"
    using scc_invD(6) [OF assms(1) l(1)] scc_invD(6) [OF assms(1) l(2)] assms(3)
    by (cases "lc \<le> ln") (auto simp: min_def intro: converse_rtrancl_into_rtrancl)
  then have "\<exists>k. scc_no s k = Some l \<and> (m, k) \<in> (child_rel g)\<^sup>*" if "scc_low s' m = Some l" for m l
    using that scc_invD(6) [OF assms(1), of m l] by (auto simp: low' split: if_splits)
  moreover have "l \<le> j" if "scc_low s' m = Some l" "scc_no s m = Some j" for m l j
    using that scc_invD(5) [OF assms(1), of m l j] scc_invD(5) [OF assms(1) l(2,3)] l(3)
    by (auto simp: low' split: if_splits)
  moreover have ids: "scc_ids s' = scc_ids s" by (simp add: s'_def)
  ultimately have "low_inv g s'" unfolding low_inv_def ids by blast
  moreover have "number_inv s'"
    using assms(1,2) unfolding scc_inv_def number_inv_def by (auto simp: s'_def jget_jput)
  ultimately have "scc_inv g s'"
    using assms(1) by (simp add: scc_inv_def stack_inv_def s'_def)
  then show ?thesis using True l by (simp add: lowerLink_def s'_def)
qed

lemma dropWhile_append_stop: "\<forall>x \<in> set ys. \<not> P x \<Longrightarrow> dropWhile P (xs @ ys) = dropWhile P xs @ ys"
  by (induction xs) (auto simp: dropWhile_eq_self_iff intro: dropWhile_eq_self_iff [THEN iffD2])

lemma takeWhile_append_stop: "\<forall>x \<in> set ys. \<not> P x \<Longrightarrow> takeWhile P (xs @ ys) = takeWhile P xs"
  by (induction xs) (auto simp: takeWhile_eq_Nil_iff)

text \<open>
  Leaving a node pops nodes above the part of the stack that was there before the node was entered; what
  it pops is above the node, hence reachable from it, and has its number as low link, hence reaches it.
\<close>

lemma scc_inv_leave:
  assumes inv: "scc_inv g s" and st: "scc_stack s = new @ n # base" and k: "scc_no s n = Some k"
    and new: "\<forall>x \<in> set new. (n, x) \<in> (child_rel g)\<^sup>*"
    and base: "\<forall>x \<in> set base. \<exists>i. scc_no s x = Some i \<and> i < k"
  shows "\<exists>s' new'. leaveNode n s = Inr s' \<and> scc_inv g s' \<and> scc_stack s' = new' @ base
    \<and> set new' \<subseteq> insert n (set new) \<and> scc_visited s' = scc_visited s \<and> scc_ids s' = scc_ids s"
proof -
  have vis: "set (scc_stack s) \<subseteq> set (scc_visited s)" by (rule scc_invD(7) [OF inv])
  then obtain l where l: "scc_low s n = Some l" using scc_invD(2) [OF inv, of n] st by auto
  show ?thesis
  proof (cases "k = l")
    case False
    then show ?thesis using inv st k l
      by (intro exI [of _ s] exI [of _ "new @ [n]"]) (auto simp: leaveNode_def)
  next
    case True
    define own where "own x \<longleftrightarrow> scc_low s x = Some k" for x
    define popped rest where "popped = takeWhile own (new @ [n])" and "rest = dropWhile own (new @ [n])"
    have pr: "popped @ rest = new @ [n]" by (simp add: popped_def rest_def)
    have nb: "\<forall>x \<in> set base. \<not> own x"
      using base scc_invD(5) [OF inv] by (fastforce simp: own_def)
    have split: "takeWhile own (scc_stack s) = popped" "dropWhile own (scc_stack s) = rest @ base"
      using takeWhile_append_stop [OF nb, of "new @ [n]"] dropWhile_append_stop [OF nb, of "new @ [n]"]
      by (simp_all add: st popped_def rest_def)
    define scc where "scc = set_of_list popped"
    define s' where "s' = (let s1 = s\<lparr>scc_stack := rest @ base\<rparr> in
        if scc \<noteq> [] then s1\<lparr>scc_components := scc_components s1 @ [scc]\<rparr> else s1)"
    have run: "leaveNode n s = Inr s'"
      using split by (simp add: leaveNode_def k l True s'_def scc_def own_def [abs_def] Let_def)
    have same: "scc_visited s' = scc_visited s" "scc_ids s' = scc_ids s" "scc_lowLinkValues s' = scc_lowLinkValues s"
        "scc_id s' = scc_id s" "scc_stack s' = rest @ base"
        "concat (scc_components s') = concat (scc_components s) @ scc"
      by (auto simp: s'_def Let_def)
    have subset: "set popped \<union> set rest = insert n (set new)" using arg_cong [OF pr, of set] by auto
    have "mutually_reachable g scc"
    proof -
      have "(x, n) \<in> (child_rel g)\<^sup>* \<and> (n, x) \<in> (child_rel g)\<^sup>*" if "x \<in> set popped" for x
      proof -
        have "own x" using that by (auto simp: popped_def dest: set_takeWhileD)
        then obtain m where "scc_no s m = Some k" "(x, m) \<in> (child_rel g)\<^sup>*"
          using scc_invD(6) [OF inv, of x k] by (auto simp: own_def)
        then have "(x, n) \<in> (child_rel g)\<^sup>*" using scc_invD(3) [OF inv k] by blast
        then show ?thesis using new that subset by auto
      qed
      then show ?thesis unfolding mutually_reachable_def scc_def by (auto intro: rtrancl_trans)
    qed
    then have comps: "\<forall>c \<in> set (scc_components s'). c \<noteq> [] \<and> mutually_reachable g c"
      using inv by (auto simp: s'_def Let_def scc_inv_def)
    have "distinct (scc_stack s @ concat (scc_components s))"
      and old: "set (concat (scc_components s)) \<subseteq> set (scc_visited s)"
      using inv by (simp_all add: scc_inv_def stack_inv_def)
    moreover have "scc_stack s = popped @ rest @ base" using pr by (simp add: st append_assoc [symmetric] del: append_assoc)
    ultimately have dist: "distinct (popped @ rest @ base @ concat (scc_components s))" by (simp only: append_assoc)
    have "distinct (scc_stack s' @ concat (scc_components s'))"
      using dist by (auto simp only: same scc_def distinct_append set_append distinct_set_of_list set_set_of_list)
    moreover have "set popped \<union> set rest \<union> set base \<subseteq> set (scc_visited s)"
      using subset vis by (auto simp: st)
    ultimately have "stack_inv s'"
      unfolding stack_inv_def same using old
      by (auto simp only: scc_def set_append set_set_of_list Un_subset_iff Un_iff subset_iff)
    moreover have "number_inv s \<and> low_inv g s \<and> set (scc_visited s) \<subseteq> graph_nodes g" using inv by (simp add: scc_inv_def)
    then have "number_inv s' \<and> low_inv g s' \<and> set (scc_visited s') \<subseteq> graph_nodes g"
      unfolding number_inv_def low_inv_def same .
    ultimately have "scc_inv g s'" using comps unfolding scc_inv_def by (simp only: simp_thms)
    then show ?thesis using run same subset by (intro exI [of _ s'] exI [of _ rest]) auto
  qed
qed


lemma child_relI: "getDirectChildConnections g n = Inr cs \<Longrightarrow> c \<in> set (map g_to cs) \<Longrightarrow> (n, c) \<in> child_rel g"
  by (auto simp: getDirectChildConnections_def edge_rel_def split: if_splits)

text \<open>One visit: entering a node, the loop over its children and leaving it.\<close>

definition follow_ok :: "DirectedGraph \<Rightarrow> INode \<Rightarrow> SccState \<Rightarrow> SccState res \<Rightarrow> bool" where
  "follow_ok g n s r \<longleftrightarrow> (\<exists>s' new. r = Inr s' \<and> scc_inv g s' \<and> scc_stack s' = new @ scc_stack s
    \<and> (\<forall>x \<in> set new. (n, x) \<in> (child_rel g)\<^sup>*) \<and> set (scc_visited s) \<subseteq> set (scc_visited s')
    \<and> (\<forall>x \<in> set (scc_visited s). scc_no s' x = scc_no s x))"

lemma visit_inv:
  assumes inv: "scc_inv g s" and n: "n \<notin> set (scc_visited s)"
    and loop: "follow_ok g n (enterNode n s) (followLoop g n cs (enterNode n s))"
  shows "follow_ok g n s (rbind (followLoop g n cs (enterNode n s)) (leaveNode n))"
proof -
  obtain s2 new2 where s2: "followLoop g n cs (enterNode n s) = Inr s2" "scc_inv g s2"
      "scc_stack s2 = new2 @ scc_stack (enterNode n s)" "\<forall>x \<in> set new2. (n, x) \<in> (child_rel g)\<^sup>*"
      "set (scc_visited (enterNode n s)) \<subseteq> set (scc_visited s2)"
      "\<forall>x \<in> set (scc_visited (enterNode n s)). scc_no s2 x = scc_no (enterNode n s) x"
    using loop unfolding follow_ok_def by blast
  have st: "scc_stack s2 = new2 @ n # scc_stack s" using s2(3) by (simp add: enterNode_def)
  have no2: "scc_no s2 n = Some (scc_id s)" "\<And>x. x \<in> set (scc_visited s) \<Longrightarrow> scc_no s2 x = scc_no s x"
    using s2(6) n unfolding enterNode_visited by (auto simp: enterNode_def jget_jput)
  have "\<exists>i. scc_no s2 x = Some i \<and> i < scc_id s" if "x \<in> set (scc_stack s)" for x
    using that scc_invD(1,7) [OF inv] no2(2) by (metis subsetD)
  then obtain s1 new1 where s1: "leaveNode n s2 = Inr s1" "scc_inv g s1" "scc_stack s1 = new1 @ scc_stack s"
      "set new1 \<subseteq> insert n (set new2)" "scc_visited s1 = scc_visited s2" "scc_ids s1 = scc_ids s2"
    using scc_inv_leave [OF s2(2) st no2(1) s2(4)] by blast
  have "\<forall>x \<in> set new1. (n, x) \<in> (child_rel g)\<^sup>*" using s1(4) s2(4) by auto
  then show ?thesis
    unfolding follow_ok_def using s1 s2(1,5) no2(2) by (intro exI [of _ s1] exI [of _ new1]) (auto simp: enterNode_visited)
qed

lemma graph_wf_target: "graph_wf g \<Longrightarrow> (n, c) \<in> child_rel g \<Longrightarrow> nodeExists g c"
  using graph_wf_conn(2) by (auto simp: edge_rel_def)

lemma followLoop_inv:
  assumes "graph_wf g" and "scc_inv g s" and "n \<in> set (scc_visited s)" and "\<forall>c \<in> set cs. (n, c) \<in> child_rel g"
  shows "follow_ok g n s (followLoop g n cs s)"
  using assms
proof (induction g n cs s rule: followLoop.induct)
  case (1 g n s)
  then show ?case by (simp add: follow_ok_def)
next
  case (2 g n child rest s)
  have edge: "(n, child) \<in> child_rel g" and edges: "\<forall>c \<in> set rest. (n, c) \<in> child_rel g"
    using "2.prems"(4) by auto
  let ?call = "if child \<in> set (scc_visited s) then Inr s else rbind (getDirectChildConnections g child) (\<lambda>cs.
      rbind (followLoop g child (map g_to cs) (enterNode child s)) (leaveNode child))"
  have "follow_ok g n s ?call"
  proof (cases "child \<in> set (scc_visited s)")
    case True
    then show ?thesis using "2.prems"(2) by (simp add: follow_ok_def)
  next
    case False
    have ex: "nodeExists g child" by (rule graph_wf_target [OF "2.prems"(1) edge])
    then obtain ccs where ccs: "getDirectChildConnections g child = Inr ccs" by (simp add: directChildren_wf)
    have ent: "scc_inv g (enterNode child s)"
      using scc_inv_enter [OF "2.prems"(2) False] ex graph_wf_node [OF "2.prems"(1)] by blast
    have "child \<in> set (scc_visited (enterNode child s))" by (simp add: enterNode_visited)
    from "2.IH"(1) [OF False ccs "2.prems"(1) ent this] child_relI [OF ccs]
    have "follow_ok g child (enterNode child s) (followLoop g child (map g_to ccs) (enterNode child s))" by blast
    from visit_inv [OF "2.prems"(2) False this] obtain s1 new where
      "rbind (followLoop g child (map g_to ccs) (enterNode child s)) (leaveNode child) = Inr s1" "scc_inv g s1"
      "scc_stack s1 = new @ scc_stack s" "\<forall>x \<in> set new. (child, x) \<in> (child_rel g)\<^sup>*"
      "set (scc_visited s) \<subseteq> set (scc_visited s1)" "\<forall>x \<in> set (scc_visited s). scc_no s1 x = scc_no s x"
      unfolding follow_ok_def by blast
    then show ?thesis unfolding follow_ok_def using False ccs edge
      by (intro exI [of _ s1] exI [of _ new]) (auto intro: converse_rtrancl_into_rtrancl)
  qed
  then obtain s1 new1 where s1: "?call = Inr s1" "scc_inv g s1" "scc_stack s1 = new1 @ scc_stack s"
      "\<forall>x \<in> set new1. (n, x) \<in> (child_rel g)\<^sup>*" "set (scc_visited s) \<subseteq> set (scc_visited s1)"
      "\<forall>x \<in> set (scc_visited s). scc_no s1 x = scc_no s x" unfolding follow_ok_def by blast
  have nv: "n \<in> set (scc_visited s1)" using "2.prems"(3) s1(5) by blast
  from scc_inv_lower [OF s1(2) nv edge] obtain s2 where s2: "lowerLink n child s1 = Inr s2" "scc_inv g s2"
      "scc_stack s2 = scc_stack s1" "scc_visited s2 = scc_visited s1" "scc_ids s2 = scc_ids s1" by blast
  have nv2: "n \<in> set (scc_visited s2)" using nv s2(4) by simp
  from "2.IH"(2) [OF s1(1) s2(1) "2.prems"(1) s2(2) nv2 edges] obtain s3 new3 where
    s3: "followLoop g n rest s2 = Inr s3" "scc_inv g s3" "scc_stack s3 = new3 @ scc_stack s2"
      "\<forall>x \<in> set new3. (n, x) \<in> (child_rel g)\<^sup>*" "set (scc_visited s2) \<subseteq> set (scc_visited s3)"
      "\<forall>x \<in> set (scc_visited s2). scc_no s3 x = scc_no s2 x" unfolding follow_ok_def by blast
  have "followLoop g n (child # rest) s = Inr s3" using s1(1) s2(1) s3(1) by simp
  then show ?case
    unfolding follow_ok_def using s1 s2(3,4,5) s3 by (intro exI [of _ s3] exI [of _ "new3 @ new1"]) auto
qed

lemma followNode_inv:
  assumes "graph_wf g" and "scc_inv g s" and "n \<in> graph_nodes g"
  shows "\<exists>s'. followNode g n s = Inr s' \<and> scc_inv g s'"
proof (cases "n \<in> set (scc_visited s)")
  case True
  then show ?thesis using assms(2) by (simp add: followNode_def)
next
  case False
  have ent: "scc_inv g (enterNode n s)" by (rule scc_inv_enter [OF assms(2) False assms(3)])
  obtain cs where cs: "getDirectChildConnections g n = Inr cs"
    using directChildren_wf graph_wf_node [OF assms(1)] assms(3) by blast
  have "n \<in> set (scc_visited (enterNode n s))" by (simp add: enterNode_visited)
  from followLoop_inv [OF assms(1) ent this] child_relI [OF cs]
  have "follow_ok g n (enterNode n s) (followLoop g n (map g_to cs) (enterNode n s))" by blast
  from visit_inv [OF assms(2) False this] show ?thesis using False cs by (auto simp: followNode_def follow_ok_def)
qed

lemma follow_all_inv:
  assumes "graph_wf g" and "scc_inv g s" and "set ns \<subseteq> graph_nodes g"
  shows "\<exists>s'. rfold (followNode g) ns s = Inr s' \<and> scc_inv g s'"
  using assms(2,3)
proof (induction ns arbitrary: s)
  case (Cons n ns)
  then obtain s1 where "followNode g n s = Inr s1" "scc_inv g s1" using followNode_inv [OF assms(1)] by fastforce
  then show ?case using Cons.IH [of s1] Cons.prems(2) by simp
qed simp

lemma strongly_connected_spec:
  assumes "graph_wf g"
  shows "\<exists>comps. getStronglyConnectedComponents g = Inr comps \<and> distinct (concat comps)
    \<and> list_all (\<lambda>c. c \<noteq> [] \<and> set c \<subseteq> graph_nodes g \<and> mutually_reachable g c) comps"
proof -
  obtain s where s: "rfold (followNode g) (jvals (dg_nodes g)) initScc = Inr s" "scc_inv g s"
    using follow_all_inv [OF assms scc_inv_init order_refl] by blast
  have "list_all (\<lambda>c. c \<noteq> [] \<and> set c \<subseteq> graph_nodes g \<and> mutually_reachable g c) (scc_components s)"
    using s(2) by (auto simp: list_all_iff scc_inv_def stack_inv_def)
  moreover have "distinct (concat (scc_components s))" using s(2) by (auto simp: scc_inv_def stack_inv_def)
  ultimately show ?thesis using s(1) by (auto simp: getStronglyConnectedComponents_def)
qed

text \<open>
  C29: on a well-formed graph the search for strongly connected components returns; the components it
  reports are non-empty, share no node, and the nodes of each of them reach each other.
\<close>

theorem strongly_connected_sound:
  assumes "graph_wf g"
  shows "\<exists>comps. getStronglyConnectedComponents g = Inr comps \<and> distinct (concat comps)
    \<and> list_all (\<lambda>c. c \<noteq> [] \<and> set c \<subseteq> graph_nodes g \<and> mutually_reachable g c) comps"
  by (rule strongly_connected_spec [OF assms])

theorem strongly_connected_sound_witness:
  "\<exists>comps. getStronglyConnectedComponents loop_graph = Inr comps \<and> distinct (concat comps)
    \<and> list_all (\<lambda>c. c \<noteq> [] \<and> set c \<subseteq> graph_nodes loop_graph \<and> mutually_reachable loop_graph c) comps"
  by (rule strongly_connected_sound [OF loop_graph_wf])

text \<open>
  it is not complete: in the loop of three nodes every node reaches every other, and no component
  is reported at all.
\<close>

theorem strongly_connected_incomplete:
  "getStronglyConnectedComponents loop_graph = Inr [] \<and>
   mutually_reachable loop_graph [mk_node 0 ''R'', mk_node 1 ''A'', mk_node 2 ''B'']"
proof -
  let ?R = "mk_node 0 ''R''" and ?A = "mk_node 1 ''A''" and ?B = "mk_node 2 ''B''"
  have conns: "jvals (dg_connections loop_graph) = [main_conn ?R ?A, main_conn ?A ?B, main_conn ?B ?A, main_conn ?A ?R]"
    by code_simp
  have e: "(?R, ?A) \<in> child_rel loop_graph" "(?A, ?B) \<in> child_rel loop_graph" "(?B, ?A) \<in> child_rel loop_graph"
      "(?A, ?R) \<in> child_rel loop_graph"
    using edge_relI [of _ "jvals (dg_connections loop_graph)" g_from g_to] conns by (force simp: main_conn_def)+
  have "(x, y) \<in> (child_rel loop_graph)\<^sup>*" if "x \<in> {?R, ?A, ?B}" "y \<in> {?R, ?A, ?B}" for x y
  proof -
    have to: "(x, ?A) \<in> (child_rel loop_graph)\<^sup>*" using that(1) e by auto
    have "(?A, y) \<in> (child_rel loop_graph)\<^sup>*" using that(2) e by auto
    with to show ?thesis by (rule rtrancl_trans)
  qed
  then have "mutually_reachable loop_graph [?R, ?A, ?B]" by (simp add: mutually_reachable_def)
  moreover have "getStronglyConnectedComponents loop_graph = Inr []" by code_simp
  ultimately show ?thesis by blast
qed

end
