(* ===== verification/GraphEdits.thy ===== *)
theory GraphEdits
  imports GraphTraversal
begin

section \<open>Editing a graph\<close>

text \<open>
  Connections are stored under a string key; when the names contain no dash the key determines the
  connection.  Removing a node with \<open>reconnectConnections\<close> keeps the paths between the other nodes.
  Importing a workflow gives the graph of its connections, and a clone is the same graph.
\<close>

subsection \<open>Keys\<close>

definition plain :: "string \<Rightarrow> bool" where
  "plain s \<longleftrightarrow> CHR ''-'' \<notin> set s"

lemma split_at_dash:
  "plain xs \<Longrightarrow> plain ys \<Longrightarrow> xs @ CHR ''-'' # us = ys @ CHR ''-'' # vs \<longleftrightarrow> xs = ys \<and> us = vs"
proof (induction xs arbitrary: ys)
  case Nil
  then show ?case by (cases ys) (auto simp: plain_def)
next
  case (Cons x xs)
  then show ?case by (cases ys) (auto simp: plain_def)
qed

lemma plain_connection_type: "plain (connection_type_name t)"
  by (cases t) (simp_all add: plain_def)

lemma plain_nat_string: "plain (nat_string n)"
proof -
  have d: "digit_char k \<noteq> CHR ''-''" if "k < 10" for k
  proof
    assume "digit_char k = CHR ''-''"
    then have "(of_char (digit_char k) :: nat) = of_char CHR ''-''" by simp
    then show False using that by (simp add: digit_char_def)
  qed
  show ?thesis unfolding plain_def by (induction n rule: nat_string.induct) (subst nat_string.simps, auto simp: d dest: sym)
qed

text \<open>The text of a number, up to a dash after it, determines the number, also if it begins with a dash.\<close>

lemma nat_string_no_dash: "nat_string n \<noteq> CHR ''-'' # s"
  using plain_nat_string [of n] by (auto simp: plain_def)

lemma split_at_number:
  "int_string i @ CHR ''-'' # us = int_string j @ CHR ''-'' # vs \<longleftrightarrow> i = j \<and> us = vs"
proof -
  have mixed: "nat_string m @ CHR ''-'' # xs \<noteq> CHR ''-'' # ys" for m xs ys
  proof -
    have "nat_string m \<noteq> []" by (subst nat_string.simps) simp
    then show ?thesis using nat_string_no_dash [of m] by (cases "nat_string m") auto
  qed
  show ?thesis
    using mixed mixed [symmetric]
    by (auto simp: int_string_def split_at_dash plain_nat_string nat_string_inject)
qed

definition separable :: "INode set \<Rightarrow> bool" where
  "separable N \<longleftrightarrow> (\<forall>c c'. {g_from c, g_to c, g_from c', g_to c'} \<subseteq> N \<longrightarrow> makeKey c = makeKey c' \<longrightarrow> c = c')"

lemma plain_separable:
  assumes "inj_on n_name N" and "\<forall>n \<in> N. plain (n_name n)"
  shows "separable N"
proof -
  have "c = c'" if N: "{g_from c, g_to c, g_from c', g_to c'} \<subseteq> N" and key: "makeKey c = makeKey c'" for c c' :: GraphConnection
  proof -
    have p: "plain (n_name (g_from c))" "plain (n_name (g_from c'))" using N assms(2) by auto
    have "n_name (g_from c) = n_name (g_from c') \<and> g_type c = g_type c' \<and> g_outputIndex c = g_outputIndex c'
        \<and> g_inputIndex c = g_inputIndex c' \<and> n_name (g_to c) = n_name (g_to c')"
      using key by (simp add: makeKey_def split_at_dash split_at_number p plain_connection_type plain_nat_string
          connection_type_name_inject nat_string_inject)
    moreover from this have "g_from c = g_from c'" "g_to c = g_to c'"
      using N assms(1) by (auto dest: inj_onD)
    ultimately show ?thesis by simp
  qed
  then show ?thesis unfolding separable_def by blast
qed

text \<open>With dashes two different connections can have the same key, and the second one replaces the first.\<close>

lemma makeKey_collision:
  "makeKey (main_conn (mk_node 0 ''A-main-0-0-B'') (mk_node 1 ''C'')) = makeKey (main_conn (mk_node 2 ''A'') (mk_node 3 ''B-main-0-0-C''))"
  by code_simp

text \<open>Connections stored under their keys, between nodes of a fixed set.\<close>

definition keyed :: "INode set \<Rightarrow> DirectedGraph \<Rightarrow> bool" where
  "keyed N g \<longleftrightarrow> jwf (dg_connections g)
     \<and> list_all (\<lambda>(k, c). k = makeKey c \<and> g_from c \<in> N \<and> g_to c \<in> N) (dg_connections g)"

lemma in_jvals: "jwf m \<Longrightarrow> v \<in> set (jvals m) \<longleftrightarrow> (\<exists>k. jget m k = Some v)"
  by (auto simp: jget_iff_set image_iff Bex_def)

lemma graph_wf_keyed: "graph_wf g \<Longrightarrow> keyed (graph_nodes g) g"
proof -
  assume wf: "graph_wf g"
  have "k = makeKey c \<and> g_from c \<in> graph_nodes g \<and> g_to c \<in> graph_nodes g" if "(k, c) \<in> set (dg_connections g)" for k c
  proof -
    have "jget (dg_connections g) k = Some c" using that graph_wfD(2) [OF wf] by (simp add: jget_iff_set)
    from graph_wfD(4) [OF wf this] show ?thesis using graph_wf_node [OF wf] by blast
  qed
  then show ?thesis using graph_wfD(2) [OF wf] unfolding keyed_def list_all_iff by blast
qed

lemma keyed_setConnection:
  assumes "keyed N g" and "g_from c \<in> N" and "g_to c \<in> N"
  shows "keyed N (setConnection c g)"
  using assms set_jput_subset [of "makeKey c" c "dg_connections g"]
  by (auto simp: keyed_def setConnection_def list_all_iff)

lemma setConnection_conns:
  assumes "keyed N g" and "separable N" and "g_from c \<in> N" and "g_to c \<in> N"
  shows "graph_conns (setConnection c g) = insert c (graph_conns g)"
proof -
  have wf: "jwf (dg_connections g)" using assms(1) by (simp add: keyed_def)
  have key: "k = makeKey d \<and> (k = makeKey c \<longrightarrow> d = c)" if "(k, d) \<in> set (dg_connections g)" for k d
    using that assms by (auto simp: keyed_def list_all_iff separable_def)
  have A: "d \<in> graph_conns (setConnection c g) \<longleftrightarrow> (\<exists>k. jget (jput (makeKey c) c (dg_connections g)) k = Some d)" for d
    using in_jvals [of "jput (makeKey c) c (dg_connections g)" d] wf by (simp add: setConnection_def)
  have B: "(\<exists>k. jget (jput (makeKey c) c (dg_connections g)) k = Some d) \<longleftrightarrow> d = c \<or> (\<exists>k. (k, d) \<in> set (dg_connections g))" for d
  proof
    assume "d = c \<or> (\<exists>k. (k, d) \<in> set (dg_connections g))"
    then show "\<exists>k. jget (jput (makeKey c) c (dg_connections g)) k = Some d"
    proof
      assume "\<exists>k. (k, d) \<in> set (dg_connections g)"
      then obtain k where "(k, d) \<in> set (dg_connections g)" ..
      then show ?thesis using key [of k d] jget_iff_set [OF wf, of k d]
        by (intro exI [of _ k]) (simp add: jget_jput)
    qed (auto simp: jget_jput)
  qed (auto simp: jget_jput jget_iff_set [OF wf] split: if_splits)
  have C: "d \<in> insert c (graph_conns g) \<longleftrightarrow> d = c \<or> (\<exists>k. (k, d) \<in> set (dg_connections g))" for d
    by (simp only: insert_iff in_jvals [OF wf] jget_iff_set [OF wf])
  show ?thesis by (rule set_eqI) (simp only: A B C)
qed

lemma fold_setConnection:
  assumes "keyed N g" and "separable N" and "\<forall>c \<in> set cs. g_from c \<in> N \<and> g_to c \<in> N"
  shows "keyed N (fold setConnection cs g) \<and> graph_conns (fold setConnection cs g) = set cs \<union> graph_conns g
    \<and> dg_nodes (fold setConnection cs g) = dg_nodes g"
  using assms
proof (induction cs arbitrary: g)
  case (Cons c cs)
  have "dg_nodes (setConnection c g) = dg_nodes g" by (simp add: setConnection_def)
  then show ?case
    using Cons.IH [of "setConnection c g"] keyed_setConnection [OF Cons.prems(1)]
      setConnection_conns [OF Cons.prems(1,2)] Cons.prems by simp
qed simp

lemma keyed_dropConnections: "keyed N g \<Longrightarrow> keyed N (dropConnections n g)"
  by (auto simp: keyed_def dropConnections_def list_all_iff intro: distinct_map_filter)


subsection \<open>Removing a node\<close>

text \<open>The edges made by the connections whose type is kept.\<close>

definition kept_rel :: "(NodeConnectionType \<Rightarrow> bool) \<Rightarrow> DirectedGraph \<Rightarrow> (INode \<times> INode) set" where
  "kept_rel keep g = {(g_from c, g_to c) | c. c \<in> graph_conns g \<and> keep (g_type c)}"

lemma kept_rel_all: "kept_rel (\<lambda>_. True) g = child_rel g"
  by (simp add: kept_rel_def edge_rel_def)

lemma set_bridging:
  "c \<in> set (bridging skip ins outs) \<longleftrightarrow> (\<exists>i \<in> set ins. \<exists>j \<in> set outs. \<not> skip i \<and> \<not> skip j
     \<and> c = i\<lparr>g_to := g_to j, g_inputIndex := g_inputIndex j\<rparr>)"
  by (auto simp: bridging_def)

lemma removeNode_conns:
  assumes "keyed N g" and "separable N" and "nodeExists g n"
    and "removeNode n True (\<lambda>c. \<not> keep (g_type c)) g = Inr (g', new)"
  shows "keyed N g'" and "dg_nodes g' = jdel (n_name n) (dg_nodes g)"
    and "kept_rel keep g' = {(u, v) \<in> kept_rel keep g. u \<noteq> n \<and> v \<noteq> n}
      \<union> {(u, v). (u, n) \<in> kept_rel keep g \<and> (n, v) \<in> kept_rel keep g}"
proof -
  define ins outs where "ins = filter (\<lambda>c. g_to c = n) (jvals (dg_connections g))"
    and "outs = filter (\<lambda>c. g_from c = n) (jvals (dg_connections g))"
  define news where "news = bridging (\<lambda>c. \<not> keep (g_type c)) ins outs"
  define g1 where "g1 = fold setConnection news (dropConnections n g)"
  have g': "g' = g1\<lparr>dg_nodes := jdel (n_name n) (dg_nodes g1)\<rparr>"
    using assms(3,4) by (simp add: removeNode_def directParents_wf directChildren_wf g1_def news_def ins_def outs_def Let_def)
  have ends: "g_from c \<in> N \<and> g_to c \<in> N" if "c \<in> graph_conns g" for c
    using that assms(1) by (auto simp: keyed_def list_all_iff)
  then have "\<forall>c \<in> set news. g_from c \<in> N \<and> g_to c \<in> N"
    by (auto simp: news_def set_bridging ins_def outs_def simp del: set_jvals)
  note fs = fold_setConnection [OF keyed_dropConnections [OF assms(1), of n] assms(2) this, folded g1_def]
  show "keyed N g'" using fs by (simp add: g' keyed_def)
  show "dg_nodes g' = jdel (n_name n) (dg_nodes g)" using fs by (simp add: g')
  have conns: "graph_conns g' = set news \<union> {c \<in> graph_conns g. g_from c \<noteq> n \<and> g_to c \<noteq> n}"
    using fs dropConnections_conns [of n g] by (simp add: g' del: set_jvals)
  have news: "(\<exists>c \<in> set news. g_from c = u \<and> g_to c = v \<and> keep (g_type c)) \<longleftrightarrow>
      (u, n) \<in> kept_rel keep g \<and> (n, v) \<in> kept_rel keep g" for u v
    unfolding news_def Bex_def set_bridging by (force simp: ins_def outs_def kept_rel_def)
  have "(u, v) \<in> kept_rel keep g' \<longleftrightarrow> (\<exists>c \<in> set news. g_from c = u \<and> g_to c = v \<and> keep (g_type c))
      \<or> ((u, v) \<in> kept_rel keep g \<and> u \<noteq> n \<and> v \<noteq> n)" for u v
    unfolding kept_rel_def conns by blast
  then show "kept_rel keep g' = {(u, v) \<in> kept_rel keep g. u \<noteq> n \<and> v \<noteq> n}
      \<union> {(u, v). (u, n) \<in> kept_rel keep g \<and> (n, v) \<in> kept_rel keep g}"
    unfolding news by auto
qed

lemma bypass_trancl:
  assumes E': "E' = {(u, v) \<in> E. u \<noteq> n \<and> v \<noteq> n} \<union> {(u, v). (u, n) \<in> E \<and> (n, v) \<in> E}"
    and "u \<noteq> n" and "v \<noteq> n"
  shows "(u, v) \<in> E'\<^sup>+ \<longleftrightarrow> (u, v) \<in> E\<^sup>+"
proof
  have "E' \<subseteq> E\<^sup>+" unfolding E' by auto
  then have "E'\<^sup>+ \<subseteq> E\<^sup>+" using trancl_mono_subset trancl_id [OF trans_trancl] by metis
  then show "(u, v) \<in> E'\<^sup>+ \<Longrightarrow> (u, v) \<in> E\<^sup>+" by blast
next
  assume "(u, v) \<in> E\<^sup>+"
  then have "(v \<noteq> n \<longrightarrow> (u, v) \<in> E'\<^sup>+) \<and> (v = n \<longrightarrow> (\<exists>a. a \<noteq> n \<and> (u, a) \<in> E'\<^sup>* \<and> (a, n) \<in> E))"
  proof (induction rule: trancl_induct)
    case (base y)
    then show ?case using assms(2) unfolding E' by auto
  next
    case (step y z)
    show ?case
    proof (cases "y = n")
      case True
      then obtain a where a: "a \<noteq> n" "(u, a) \<in> E'\<^sup>*" "(a, n) \<in> E" using step.IH by blast
      then have "(a, z) \<in> E'" if "z \<noteq> n" using step.hyps(2) True unfolding E' by auto
      then show ?thesis using a by (meson rtrancl_into_trancl1)
    next
      case False
      then have uy: "(u, y) \<in> E'\<^sup>+" using step.IH by blast
      have "(y, z) \<in> E'" if "z \<noteq> n" using step.hyps(2) False that unfolding E' by auto
      then show ?thesis using uy step.hyps(2) False by (meson trancl_into_rtrancl trancl_into_trancl)
    qed
  qed
  then show "(u, v) \<in> E'\<^sup>+" using assms(3) by blast
qed

lemma removeNode_returns:
  "nodeExists g n \<Longrightarrow> \<exists>g' news. removeNode n True skip g = Inr (g', Some news)"
  by (simp add: removeNode_def directParents_wf directChildren_wf Let_def)

text \<open>
  C30: removing a node with \<open>reconnectConnections\<close> keeps, for the connection types that are not skipped,
  exactly the paths between the other nodes: one leads from \<open>u\<close> to \<open>v\<close> afterwards if and only if one
  did before.
\<close>

theorem removeNode_keeps_paths:
  assumes "graph_wf g" and "separable (graph_nodes g)" and "nodeExists g n" and "u \<noteq> n" and "v \<noteq> n"
  shows "\<exists>g' news. removeNode n True (\<lambda>c. \<not> keep (g_type c)) g = Inr (g', Some news)
    \<and> dg_nodes g' = jdel (n_name n) (dg_nodes g)
    \<and> ((u, v) \<in> (kept_rel keep g')\<^sup>+ \<longleftrightarrow> (u, v) \<in> (kept_rel keep g)\<^sup>+)"
proof -
  obtain g' news where r: "removeNode n True (\<lambda>c. \<not> keep (g_type c)) g = Inr (g', Some news)"
    using removeNode_returns [OF assms(3)] by blast
  note rc = removeNode_conns [OF graph_wf_keyed [OF assms(1)] assms(2,3) r]
  show ?thesis using r rc(2) bypass_trancl [OF rc(3) assms(4,5)] by blast
qed

lemma plain_loop_graph: "separable (graph_nodes loop_graph)"
proof -
  have "graph_nodes loop_graph = {mk_node 0 ''R'', mk_node 1 ''A'', mk_node 2 ''B''}" by code_simp
  then show ?thesis by (intro plain_separable) (auto simp: plain_def inj_on_def)
qed

theorem removeNode_keeps_paths_witness:
  "\<exists>g' news. removeNode (mk_node 1 ''A'') True (\<lambda>c. \<not> g_type c = Main) loop_graph = Inr (g', Some news)
    \<and> dg_nodes g' = jdel (n_name (mk_node 1 ''A'')) (dg_nodes loop_graph)
    \<and> ((mk_node 0 ''R'', mk_node 2 ''B'') \<in> (kept_rel (\<lambda>t. t = Main) g')\<^sup>+
       \<longleftrightarrow> (mk_node 0 ''R'', mk_node 2 ''B'') \<in> (kept_rel (\<lambda>t. t = Main) loop_graph)\<^sup>+)"
  by (rule removeNode_keeps_paths [OF loop_graph_wf plain_loop_graph loop_graph_nodes(2)]) simp_all

lemma setConnection_nodes [simp]: "dg_nodes (setConnection c g) = dg_nodes g"
  by (simp add: setConnection_def)

lemma graph_wf_fold_setConnection:
  assumes "graph_wf h" and "\<forall>c \<in> set cs. nodeExists h (g_from c) \<and> nodeExists h (g_to c)"
  shows "graph_wf (fold setConnection cs h) \<and> dg_nodes (fold setConnection cs h) = dg_nodes h"
  using assms
proof (induction cs arbitrary: h)
  case (Cons c cs)
  then have "graph_wf (setConnection c h)" by (intro graph_wf_setConnection) auto
  then show ?case using Cons.IH [of "setConnection c h"] Cons.prems(2) by simp
qed simp

text \<open>
  Without the option, and with it when no kept connection leads from the node to itself, the graph
  stays well-formed.
\<close>

theorem removeNode_wf:
  assumes "graph_wf g" and "nodeExists g n"
    and "reconnect \<longrightarrow> separable (graph_nodes g) \<and> (\<forall>c \<in> graph_conns g. g_from c = n \<and> g_to c = n \<longrightarrow> skip c)"
  shows "\<exists>g' news. removeNode n reconnect skip g = Inr (g', news) \<and> graph_wf g' \<and> \<not> nodeExists g' n"
proof (cases reconnect)
  case False
  have "graph_wf ((dropConnections n g)\<lparr>dg_nodes := jdel (n_name n) (dg_nodes (dropConnections n g))\<rparr>)"
  proof (rule graph_wf_delNode)
    show "graph_wf (dropConnections n g)" by (rule graph_wf_dropConnections [OF assms(1)])
    show "nodeExists (dropConnections n g) n" using assms(2) by (simp add: nodeExists_def)
    show "\<forall>c \<in> graph_conns (dropConnections n g). g_from c \<noteq> n \<and> g_to c \<noteq> n"
      unfolding dropConnections_conns by blast
  qed
  then show ?thesis using False by (simp add: removeNode_def Let_def nodeExists_def jget_jdel)
next
  case True
  define ins outs where "ins = filter (\<lambda>c. g_to c = n) (jvals (dg_connections g))"
    and "outs = filter (\<lambda>c. g_from c = n) (jvals (dg_connections g))"
  define news where "news = bridging skip ins outs"
  define g1 where "g1 = fold setConnection news (dropConnections n g)"
  have run: "removeNode n True skip g = Inr (g1\<lparr>dg_nodes := jdel (n_name n) (dg_nodes g1)\<rparr>, Some news)"
    using assms(2) by (simp add: removeNode_def directParents_wf directChildren_wf g1_def news_def ins_def outs_def Let_def)
  have ends: "nodeExists g (g_from c) \<and> nodeExists g (g_to c) \<and> g_from c \<noteq> n \<and> g_to c \<noteq> n" if mem: "c \<in> set news" for c
  proof -
    obtain i j where ij: "i \<in> graph_conns g" "j \<in> graph_conns g" "g_to i = n" "g_from j = n" "\<not> skip i" "\<not> skip j"
        "c = i\<lparr>g_to := g_to j, g_inputIndex := g_inputIndex j\<rparr>"
      using mem by (auto simp: news_def set_bridging ins_def outs_def simp del: set_jvals)
    then show ?thesis using graph_wf_conn(1,2) [OF assms(1)] assms(3) True by auto
  qed
  have ex: "nodeExists (dropConnections n g) m = nodeExists g m" for m by (simp add: nodeExists_def)
  have g1: "graph_wf g1" "dg_nodes g1 = dg_nodes g"
    using graph_wf_fold_setConnection [OF graph_wf_dropConnections [OF assms(1)], of news] ends ex by (auto simp: g1_def)
  have "graph_conns g1 = set news \<union> graph_conns (dropConnections n g)"
  proof -
    have k: "keyed (graph_nodes g) (dropConnections n g)" by (rule keyed_dropConnections [OF graph_wf_keyed [OF assms(1)]])
    show ?thesis unfolding g1_def
      using fold_setConnection [OF k] assms(3) True ends graph_wf_node [OF assms(1)] by blast
  qed
  then have "\<forall>c \<in> graph_conns g1. g_from c \<noteq> n \<and> g_to c \<noteq> n"
    using ends by (auto simp: dropConnections_conns simp del: set_jvals)
  moreover have "nodeExists g1 n" using assms(2) g1(2) by (simp add: nodeExists_def)
  ultimately have "graph_wf (g1\<lparr>dg_nodes := jdel (n_name n) (dg_nodes g1)\<rparr>)" using graph_wf_delNode g1(1) by blast
  then show ?thesis using True run by (simp add: nodeExists_def jget_jdel)
qed

definition self_loop_graph :: DirectedGraph where
  "self_loop_graph = graph_of [mk_node 0 ''R'', mk_node 1 ''A'']
     [main_conn (mk_node 0 ''R'') (mk_node 1 ''A''), main_conn (mk_node 1 ''A'') (mk_node 1 ''A'')]"

text \<open>
  removing a node with a connection to itself and \<open>reconnectConnections\<close> leaves connections to the
  removed node, on which a later lookup of its neighbours fails its assertion.
\<close>

theorem removeNode_self_loop_dangles:
  "graph_wf self_loop_graph \<and>
   (case removeNode (mk_node 1 ''A'') True (\<lambda>c. g_type c \<noteq> Main) self_loop_graph of
      Inr (g, _) \<Rightarrow> getChildren g (mk_node 0 ''R'') = Inl noNode | Inl _ \<Rightarrow> False)"
  by code_simp

end
