(* ===== verification/GraphImport.thy ===== *)
theory GraphImport
  imports GraphEdits
begin

section \<open>Import, export and cloning\<close>

text \<open>
  A clone is the same graph.  A workflow becomes the graph of its connections, and a graph is exported as
  the connections it holds, provided no node has outgoing connections of two types: the export
  creates the entry of a node for the type of its first connection only.
\<close>

subsection \<open>Cloning\<close>

lemma update_fresh: "k \<notin> fst ` set m \<Longrightarrow> jput k v m = m @ [(k, v)]"
  by (induction m) auto

lemma fold_jput_fresh: "jwf (m @ kvs) \<Longrightarrow> fold (\<lambda>(k, v). jput k v) kvs m = m @ kvs"
proof (induction kvs arbitrary: m)
  case (Cons kv kvs)
  obtain k v where kv: "kv = (k, v)" by force
  have "k \<notin> fst ` set m" using Cons.prems by (auto simp: kv)
  then show ?case using Cons.IH [of "m @ [(k, v)]"] Cons.prems by (simp add: kv update_fresh)
qed simp

lemma addNodes_own:
  assumes "jwf ns" and "list_all (\<lambda>(k, n). n_name n = k) ns"
  shows "addNodes (jvals ns) emptyGraph = emptyGraph\<lparr>dg_nodes := ns\<rparr>"
proof -
  have "fold addNode (jvals ns) g = g\<lparr>dg_nodes := fold (\<lambda>(k, n). jput k n) ns (dg_nodes g)\<rparr>"
    if "list_all (\<lambda>(k, n). n_name n = k) ns" for g ns
    using that by (induction ns arbitrary: g) (auto simp: jvals_def addNode_def)
  then show ?thesis using assms fold_jput_fresh [of "[]" ns] by (simp add: addNodes_def emptyGraph_def)
qed

lemma GraphConnection_collapse [simp]:
  "\<lparr>g_from = g_from c, g_to = g_to c, g_type = g_type c, g_outputIndex = g_outputIndex c,
     g_inputIndex = g_inputIndex c\<rparr> = c"
  by (cases c) simp

lemma addGraphConnection_ok:
  "nodeExists g (g_from c) \<Longrightarrow> nodeExists g (g_to c) \<Longrightarrow> addGraphConnection c g = Inr (setConnection c g)"
  by (simp add: addGraphConnection_def addConnection_def nodeExists_def)

lemma addConnections_ok:
  "\<forall>c \<in> set cs. nodeExists g (g_from c) \<and> nodeExists g (g_to c) \<Longrightarrow> addConnections cs g = Inr (fold setConnection cs g)"
  unfolding addConnections_def
proof (induction cs arbitrary: g)
  case (Cons c cs)
  then show ?case by (simp add: addGraphConnection_ok)
qed simp

lemma clone_wf:
  assumes "graph_wf g"
  shows "clone g = Inr g"
proof -
  let ?g0 = "emptyGraph\<lparr>dg_nodes := dg_nodes g\<rparr>"
  have n: "addNodes (jvals (getNodes g)) emptyGraph = ?g0"
    using assms addNodes_own by (simp add: getNodes_def graph_wf_def)
  have "fold setConnection (jvals cs) h = h\<lparr>dg_connections := fold (\<lambda>(k, c). jput k c) cs (dg_connections h)\<rparr>"
    if "list_all (\<lambda>(k, c). makeKey c = k) cs" for cs h
    using that by (induction cs arbitrary: h) (auto simp: jvals_def setConnection_def)
  moreover have "list_all (\<lambda>(k, c). makeKey c = k) (dg_connections g)"
    using assms by (auto simp: graph_wf_def list_all_iff)
  ultimately have "fold setConnection (jvals (dg_connections g)) ?g0 = ?g0\<lparr>dg_connections := dg_connections g\<rparr>"
    using fold_jput_fresh [of "[]" "dg_connections g"] graph_wfD(2) [OF assms] by (simp add: emptyGraph_def)
  then have "fold setConnection (jvals (dg_connections g)) ?g0 = g" by simp
  moreover have "addConnections (jvals (dg_connections g)) ?g0 = Inr (fold setConnection (jvals (dg_connections g)) ?g0)"
    using graph_wf_conn(1,2) [OF assms] by (intro addConnections_ok) (simp add: nodeExists_def)
  ultimately show ?thesis by (simp add: clone_def n getConnections_def)
qed

text \<open>a clone of a well-formed graph is the same graph.\<close>

theorem clone_same: "graph_wf g \<Longrightarrow> clone g = Inr g"
  by (rule clone_wf)

theorem clone_same_witness: "clone loop_graph = Inr loop_graph"
  by (rule clone_same [OF loop_graph_wf])

subsection \<open>Export\<close>

definition exported :: "GraphConnection \<Rightarrow> IConnection" where
  "exported c = \<lparr>c_node = n_name (g_to c), c_type = g_type c, c_index = nat (g_inputIndex c)\<rparr>"

lemma exportConnection_slot:
  assumes "exportConnection c C = Inr C'"
  shows "slot_of C' s t i = slot_of C s t i @
    (if (s, t, i) = (n_name (g_from c), g_type c, g_outputIndex c) then [exported c] else [])"
proof -
  define rc where "rc = (case jget C (n_name (g_from c)) of None \<Rightarrow> [(g_type c, [])] | Some r \<Rightarrow> r)"
  obtain slots where slots: "jget rc (g_type c) = Some slots"
    using assms by (auto simp: exportConnection_def Let_def rc_def [symmetric] split: option.splits)
  define group where "group = (case arr_get slots (g_outputIndex c) of Some (Some cs) \<Rightarrow> cs | _ \<Rightarrow> [])"
  have C': "C' = jput (n_name (g_from c)) (jput (g_type c)
      (arr_put None (g_outputIndex c) (Some (group @ [exported c])) slots) rc) C"
    using assms by (simp add: exportConnection_def Let_def rc_def [symmetric] slots group_def [symmetric] exported_def)
  have arr: "(if k < length xs then or_empty (xs ! k) else []) = (case arr_get xs k of Some (Some cs) \<Rightarrow> cs | _ \<Rightarrow> [])"
    for xs :: NodeInputConnections and k
    by (auto simp: arr_get_def split: option.split)
  have slot: "slot_of m s t i = (case jget m s of None \<Rightarrow> [] | Some byType \<Rightarrow> (case jget byType t of None \<Rightarrow> []
      | Some xs \<Rightarrow> (case arr_get xs i of Some (Some cs) \<Rightarrow> cs | _ \<Rightarrow> [])))" for m s t i
    by (auto simp: slot_of_def arr split: option.split)
  have old: "slot_of C (n_name (g_from c)) t i = (case jget rc t of None \<Rightarrow> []
      | Some xs \<Rightarrow> (case arr_get xs i of Some (Some cs) \<Rightarrow> cs | _ \<Rightarrow> []))" for t i
    by (auto simp: slot rc_def split: option.split)
  have get: "(case arr_get (arr_put None k (Some v) xs) i of Some (Some cs) \<Rightarrow> cs | _ \<Rightarrow> [])
      = (if i = k then v else (case arr_get xs i of Some (Some cs) \<Rightarrow> cs | _ \<Rightarrow> []))"
    for k i and v :: "IConnection list" and xs
    by (simp add: arr_get_arr_put) (simp add: arr_get_def)
  show ?thesis
  proof (cases "s = n_name (g_from c)")
    case True
    then show ?thesis
      using old [of t i] by (auto simp: C' slot [of "jput _ _ _"] jget_jput get slots group_def)
  qed (simp add: C' slot jget_jput)
qed

lemma export_slots:
  "rfold exportConnection cs C = Inr C' \<Longrightarrow> slot_of C' s t i = slot_of C s t i @
     map exported (filter (\<lambda>c. (n_name (g_from c), g_type c, g_outputIndex c) = (s, t, i)) cs)"
proof (induction cs arbitrary: C)
  case (Cons c cs)
  then obtain C1 where "exportConnection c C = Inr C1" "rfold exportConnection cs C1 = Inr C'"
    by (auto simp: rbind_Inr_iff)
  then show ?case using Cons.IH [of C1] exportConnection_slot [of c C C1 s t i] by auto
qed simp

text \<open>The types the exported entry of a node has.\<close>

definition export_types :: "IConnections \<Rightarrow> string \<Rightarrow> NodeConnectionType set" where
  "export_types C s = {t. \<exists>byType. jget C s = Some byType \<and> jget byType t \<noteq> None}"

definition one_type :: "GraphConnection list \<Rightarrow> bool" where
  "one_type cs \<longleftrightarrow> (\<forall>c \<in> set cs. \<forall>d \<in> set cs. n_name (g_from c) = n_name (g_from d) \<longrightarrow> g_type c = g_type d)"

lemma one_type_Cons:
  "one_type (c # cs) \<longleftrightarrow> one_type cs \<and> (\<forall>d \<in> set cs. n_name (g_from d) = n_name (g_from c) \<longrightarrow> g_type c = g_type d)"
proof -
  have pairs: "(\<forall>x \<in> insert a A. \<forall>y \<in> insert a A. P x y) \<longleftrightarrow> (\<forall>x \<in> A. \<forall>y \<in> A. P x y) \<and> (\<forall>y \<in> A. P y a)"
    if "\<And>x. P x x" and "\<And>x y. P x y \<Longrightarrow> P y x" for P :: "'a \<Rightarrow> 'a \<Rightarrow> bool" and a A
    using that by blast
  show ?thesis
    unfolding one_type_def list.set by (subst pairs) (auto simp: eq_commute [of "g_type c"])
qed

lemma exportConnection_types:
  assumes "exportConnection c C = Inr C'"
  shows "export_types C' s = (if s = n_name (g_from c) then insert (g_type c) (export_types C s) else export_types C s)"
    and "jget C' s = None \<longleftrightarrow> jget C s = None \<and> s \<noteq> n_name (g_from c)"
  using assms
  by (auto simp: exportConnection_def export_types_def Let_def jget_jput split: option.splits if_splits)

lemma exportConnection_defined:
  "(\<exists>C'. exportConnection c C = Inr C') \<longleftrightarrow>
     jget C (n_name (g_from c)) = None \<or> g_type c \<in> export_types C (n_name (g_from c))"
  by (cases "jget C (n_name (g_from c))") (auto simp: exportConnection_def export_types_def Let_def split: option.split)

lemma export_defined:
  assumes "\<And>s. jget C s = None \<longleftrightarrow> export_types C s = {}" and "\<And>s. \<exists>t. export_types C s \<subseteq> {t}"
  shows "(\<exists>C'. rfold exportConnection cs C = Inr C') \<longleftrightarrow>
    one_type cs \<and> (\<forall>c \<in> set cs. export_types C (n_name (g_from c)) \<subseteq> {g_type c})"
  using assms
proof (induction cs arbitrary: C)
  case Nil
  then show ?case by (simp add: one_type_def)
next
  case (Cons c cs)
  let ?s = "n_name (g_from c)"
  have def1: "(\<exists>C'. exportConnection c C = Inr C') \<longleftrightarrow> export_types C ?s \<subseteq> {g_type c}"
    unfolding exportConnection_defined Cons.prems(1) using Cons.prems(2) [of ?s] by auto
  show ?case
  proof (cases "export_types C ?s \<subseteq> {g_type c}")
    case False
    then have "\<nexists>C'. rfold exportConnection (c # cs) C = Inr C'" using def1 by (auto simp: rbind_Inr_iff)
    then show ?thesis using False by auto
  next
    case True
    then obtain C1 where C1: "exportConnection c C = Inr C1" using def1 by blast
    have ty: "export_types C1 s = (if s = ?s then {g_type c} else export_types C s)" for s
      using exportConnection_types(1) [OF C1, of s] True by auto
    have "jget C1 s = None \<longleftrightarrow> export_types C1 s = {}" for s
      using exportConnection_types(2) [OF C1, of s] Cons.prems(1) [of s] by (simp add: ty)
    moreover have "\<exists>t. export_types C1 s \<subseteq> {t}" for s using Cons.prems(2) [of s] by (auto simp: ty)
    ultimately have "(\<exists>C'. rfold exportConnection cs C1 = Inr C') \<longleftrightarrow>
        one_type cs \<and> (\<forall>d \<in> set cs. export_types C1 (n_name (g_from d)) \<subseteq> {g_type d})"
      by (rule Cons.IH)
    moreover have "(\<exists>C'. rfold exportConnection (c # cs) C = Inr C') \<longleftrightarrow> (\<exists>C'. rfold exportConnection cs C1 = Inr C')"
      using C1 by simp
    moreover have "(one_type cs \<and> (\<forall>d \<in> set cs. export_types C1 (n_name (g_from d)) \<subseteq> {g_type d}))
        \<longleftrightarrow> one_type (c # cs) \<and> (\<forall>d \<in> set cs. export_types C (n_name (g_from d)) \<subseteq> {g_type d})"
    proof -
      have "(if n_name (g_from d) = ?s then {g_type c} else export_types C (n_name (g_from d))) \<subseteq> {g_type d} \<longleftrightarrow>
          (n_name (g_from d) = ?s \<longrightarrow> g_type c = g_type d) \<and> export_types C (n_name (g_from d)) \<subseteq> {g_type d}" for d
        using True by (cases "n_name (g_from d) = ?s") auto
      then show ?thesis unfolding one_type_Cons ty by blast
    qed
    ultimately show ?thesis using True by (simp only: list.set ball_simps simp_thms)
  qed
qed

lemma toIConnections_slots:
  assumes "toIConnections g = Inr C"
  shows "slot_of C s t i =
     map exported (filter (\<lambda>c. (n_name (g_from c), g_type c, g_outputIndex c) = (s, t, i)) (jvals (dg_connections g)))"
proof -
  have "slot_of [] s t i = []" by (simp add: slot_of_def)
  then show ?thesis
    using assms export_slots [of "jvals (dg_connections g)" "[]" C s t i] by (simp only: toIConnections_def append_Nil)
qed

lemma toIConnections_defined:
  "(\<exists>C. toIConnections g = Inr C) \<longleftrightarrow> one_type (jvals (dg_connections g))"
proof -
  have none: "export_types [] s = {}" for s by (simp add: export_types_def)
  show ?thesis
    using export_defined [of "[]" "jvals (dg_connections g)"] by (simp only: toIConnections_def) (simp add: none)
qed

text \<open>
  the export succeeds exactly if no node name has outgoing connections of two types; then an
  output of a node holds exactly the connections the graph has there, in order.
\<close>

theorem toIConnections_correct:
  "case toIConnections g of
     Inl e \<Rightarrow> \<not> one_type (jvals (dg_connections g))
   | Inr C \<Rightarrow> one_type (jvals (dg_connections g)) \<and>
      (\<forall>s t i. slot_of C s t i =
         map exported (filter (\<lambda>c. (n_name (g_from c), g_type c, g_outputIndex c) = (s, t, i))
           (jvals (dg_connections g))))"
proof (cases "toIConnections g")
  case (Inl e)
  then show ?thesis using toIConnections_defined [of g] by simp
next
  case (Inr C)
  then show ?thesis using toIConnections_defined [of g] toIConnections_slots [OF Inr] by simp
qed

subsection \<open>Import\<close>

lemma rfold_concat_map: "rfold f (concat (map g xs)) = rfold (\<lambda>x. rfold f (g x)) xs"
proof
  show "rfold f (concat (map g xs)) s = rfold (\<lambda>x. rfold f (g x)) xs s" for s
    by (induction xs arbitrary: s) (auto simp: rfold_append rbind_def split: sum.split)
qed

lemma rfold_map: "rfold f (map g xs) s = rfold (\<lambda>x. f (g x)) xs s"
  by (induction xs arbitrary: s) (auto simp: rbind_def split: sum.split)

lemma rfold_cong:
  "(\<And>x s. x \<in> set xs \<Longrightarrow> f x s = g x s) \<Longrightarrow> rfold f xs s = rfold g xs s"
  by (induction xs arbitrary: s) (auto simp: rbind_def split: sum.split)

definition graph_edge :: "Workflow \<Rightarrow> string \<times> NodeConnectionType \<times> nat \<times> IConnection \<Rightarrow> GraphConnection" where
  "graph_edge w = (\<lambda>(s, t, i, c). \<lparr>g_from = the (getNode w s), g_to = the (getNode w (c_node c)),
     g_type = t, g_outputIndex = i, g_inputIndex = int (c_index c)\<rparr>)"

lemma fromWorkflow_edges:
  assumes "sources_consistent w" and src: "\<forall>s. jhas (w_connectionsBySourceNode w) s \<longrightarrow> jhas (w_nodes w) s"
  shows "fromWorkflow w = addConnections (map (graph_edge w) (edge_list (w_connectionsBySourceNode w)))
    (addNodes (own_vals (w_nodes w)) emptyGraph)"
proof -
  let ?C = "w_connectionsBySourceNode w"
  have ends: "\<exists>to. getNode w (c_node c) = Some to" if "(s, t, i, c) \<in> set (edge_list ?C)" for s t i c
  proof -
    have "\<forall>x \<in> set (edge_list ?C). case x of (s, t, i, c) \<Rightarrow> jhas (w_nodes w) s \<and> jhas (w_nodes w) (c_node c)"
      using assms(1) unfolding sources_consistent_def list_all_iff by (elim conjE)
    from bspec [OF this that] show ?thesis by (simp add: jhas_def getNode_def)
  qed
  have step: "(case getNode w (c_node c) of None \<Rightarrow> Inl (AssertionError ''to'')
       | Some to \<Rightarrow> addConnection from to (Some t) (Some i) (Some (int (c_index c))) g) = addGraphConnection (graph_edge w (s, t, i, c)) g"
    if s: "getNode w s = Some from" and e: "(s, t, i, c) \<in> set (edge_list ?C)" for s t i c g "from"
    using ends [OF e] by (auto simp: s graph_edge_def addGraphConnection_def)
  have edge: "(s, t, i, c) \<in> set (edge_list ?C)"
    if "(s, types) \<in> set ?C" "(t, slots) \<in> set types" "(i, cs) \<in> set (enumerate 0 slots)" "c \<in> set (or_empty cs)" for s types t slots i cs c
    using that unfolding edges_as_set in_set_enumerate_eq by auto
  have src': "\<exists>from. getNode w s = Some from" if "(s, types) \<in> set ?C" for s types
  proof -
    have "jhas ?C s" using that by (force simp: jhas_iff)
    then have "jhas (w_nodes w) s" using src by simp
    then show ?thesis by (auto simp: jhas_def getNode_def)
  qed
  have inner: "rfold (\<lambda>conn g. (case getNode w (c_node conn) of None \<Rightarrow> Inl (AssertionError ''to'')
        | Some to \<Rightarrow> addConnection from to (Some t) (Some i) (Some (int (c_index conn))) g)) (or_empty cs) g
      = rfold (\<lambda>conn. addGraphConnection (graph_edge w (s, t, i, conn))) (or_empty cs) g"
    if "getNode w s = Some from" "(s, types) \<in> set ?C" "(t, slots) \<in> set types" "(i, cs) \<in> set (enumerate 0 slots)"
    for s "from" types t slots i cs g
    by (intro rfold_cong step edge) (use that in simp_all)
  show ?thesis
    unfolding fromWorkflow_def addConnections_def rfold_map edge_list_def rfold_concat_map
  proof (rule rfold_cong)
    fix x g assume "x \<in> set (own_entries ?C)"
    then show "(case x of (fromNodeName, iConnection) \<Rightarrow> \<lambda>g.
       (case getNode w fromNodeName of None \<Rightarrow> Inl (AssertionError ''from'')
        | Some from \<Rightarrow> rfold (\<lambda>(outputType, outputs).
            rfold (\<lambda>(outputIndex, conns).
              rfold (\<lambda>conn g. (case getNode w (c_node conn) of None \<Rightarrow> Inl (AssertionError ''to'')
                | Some to \<Rightarrow> addConnection from to (Some outputType) (Some outputIndex) (Some (int (c_index conn))) g))
              (or_empty conns))
            (enumerate 0 outputs)) iConnection g)) g =
      rfold (\<lambda>e. addGraphConnection (graph_edge w e)) (case x of (s, types) \<Rightarrow>
        concat (map (\<lambda>(t, slots). concat (map (\<lambda>(i, cs). map (\<lambda>c. (s, t, i, c)) (or_empty cs)) (enumerate 0 slots))) types)) g"
    proof -
      obtain s types where xp: "x = (s, types)" by (cases x)
      then have mem: "(s, types) \<in> set ?C" using \<open>x \<in> set (own_entries ?C)\<close> by (simp add: xp)
      obtain "from" where f: "getNode w s = Some from" using src' [OF mem] by blast
      show ?thesis
        unfolding xp prod.case f option.case rfold_concat_map
        by (intro rfold_cong) (use inner [OF f mem] in \<open>auto simp: rfold_concat_map rfold_map intro!: rfold_cong\<close>)
    qed
  qed
qed

lemma jwf_own_entries: "jwf m \<Longrightarrow> jwf (own_entries m)"
  by (auto simp: own_entries_def distinct_map comp_def intro: inj_on_subset)

lemma jget_own_entries: "jwf m \<Longrightarrow> jget (own_entries m) k = jget m k"
proof (rule option.expand)
  assume m: "jwf m"
  show "(jget (own_entries m) k = None) = (jget m k = None)" by (simp add: map_of_eq_None_iff)
  show "the (jget (own_entries m) k) = the (jget m k)" if "jget (own_entries m) k \<noteq> None" "jget m k \<noteq> None"
    using that m by (auto simp: jget_iff_set jwf_own_entries)
qed

text \<open>
  C31: a workflow whose nodes and connections by source fit together, in which every entry of the connections
  by source belongs to a node and no node name holds a dash, becomes a well-formed graph with the nodes of the
  workflow and exactly its connections.
\<close>

theorem fromWorkflow_graph:
  assumes "sources_consistent w" and "\<forall>s. jhas (w_connectionsBySourceNode w) s \<longrightarrow> jhas (w_nodes w) s"
    and "\<forall>node \<in> snd ` set (w_nodes w). plain (n_name node)"
  shows "\<exists>g. fromWorkflow w = Inr g \<and> graph_wf g \<and> (\<forall>n. jget (dg_nodes g) n = getNode w n)
    \<and> graph_conns g = graph_edge w ` set (edge_list (w_connectionsBySourceNode w))"
proof -
  let ?N = "own_entries (w_nodes w)" and ?start = "emptyGraph\<lparr>dg_nodes := own_entries (w_nodes w)\<rparr>"
  let ?cs = "map (graph_edge w) (edge_list (w_connectionsBySourceNode w))"
  have w: "jwf (w_nodes w)" "\<And>k n. (k, n) \<in> set (w_nodes w) \<Longrightarrow> n_name n = k"
    using assms(1) by (auto simp: sources_consistent_def list_all_iff)
  have "addNodes (jvals ?N) emptyGraph = ?start"
    by (rule addNodes_own) (use w in \<open>auto simp: jwf_own_entries list_all_iff\<close>)
  then have g0: "addNodes (own_vals (w_nodes w)) emptyGraph = ?start" by (simp add: own_vals_def jvals_def)
  have get: "jget (dg_nodes ?start) n = getNode w n" for n by (simp add: getNode_def jget_own_entries w(1))
  have wf0: "graph_wf ?start" using w by (auto simp: graph_wf_def emptyGraph_def jwf_own_entries list_all_iff)
  have ends: "nodeExists ?start (g_from c) \<and> nodeExists ?start (g_to c)" if "c \<in> set ?cs" for c
  proof -
    obtain s t i k where e: "(s, t, i, k) \<in> set (edge_list (w_connectionsBySourceNode w))" "c = graph_edge w (s, t, i, k)"
      using \<open>c \<in> set ?cs\<close> by auto
    have "\<forall>x \<in> set (edge_list (w_connectionsBySourceNode w)).
        case x of (s, t, i, c) \<Rightarrow> jhas (w_nodes w) s \<and> jhas (w_nodes w) (c_node c)"
      using assms(1) unfolding sources_consistent_def list_all_iff by (elim conjE)
    from bspec [OF this e(1)] obtain a b where ab: "getNode w s = Some a" "getNode w (c_node k) = Some b"
      by (auto simp: jhas_def getNode_def)
    then have "n_name a = s" "n_name b = c_node k" using w(2) by (auto simp: getNode_def dest: jget_in_set)
    then show ?thesis using ab e(2) unfolding nodeExists_def get by (simp add: graph_edge_def)
  qed
  let ?g = "fold setConnection ?cs ?start"
  have run: "fromWorkflow w = Inr ?g"
    unfolding fromWorkflow_edges [OF assms(1,2)] g0 by (rule addConnections_ok) (use ends in blast)
  have wf: "graph_wf ?g" "dg_nodes ?g = dg_nodes ?start"
    using graph_wf_fold_setConnection [OF wf0] ends by blast+
  have "inj_on n_name (graph_nodes ?start)" using w by (auto simp: inj_on_def jvals_def intro!: inj_onI dest: eq_key_imp_eq_value)
  moreover have "\<forall>n \<in> graph_nodes ?start. plain (n_name n)" using assms(3) by (auto simp: jvals_def)
  ultimately have "separable (graph_nodes ?start)" by (rule plain_separable)
  then have "graph_conns ?g = set ?cs \<union> graph_conns ?start"
    using fold_setConnection [OF graph_wf_keyed [OF wf0]] ends graph_wf_node [OF wf0] by blast
  also have "\<dots> = set ?cs" by (simp add: emptyGraph_def)
  finally show ?thesis using run wf get by (intro exI [of _ ?g]) (simp only: set_map simp_thms)
qed

theorem fromWorkflow_graph_witness:
  "\<exists>g. fromWorkflow chain_workflow = Inr g \<and> graph_wf g \<and> (\<forall>n. jget (dg_nodes g) n = getNode chain_workflow n)
    \<and> graph_conns g = graph_edge chain_workflow ` set (edge_list (w_connectionsBySourceNode chain_workflow))"
proof (rule fromWorkflow_graph)
  show "sources_consistent chain_workflow" by code_simp
  show "\<forall>s. jhas (w_connectionsBySourceNode chain_workflow) s \<longrightarrow> jhas (w_nodes chain_workflow) s"
    unfolding jhas_iff by (simp add: chain_workflow_def triangle_def)
  show "\<forall>node \<in> snd ` set (w_nodes chain_workflow). plain (n_name node)" by code_simp
qed

definition two_type_graph :: DirectedGraph where
  "two_type_graph = graph_of [mk_node 0 ''R'', mk_node 1 ''A'']
     [main_conn (mk_node 0 ''R'') (mk_node 1 ''A''), (main_conn (mk_node 0 ''R'') (mk_node 1 ''A''))\<lparr>g_type := AiTool\<rparr>]"

text \<open>
  a graph in which a node has outgoing connections of two types cannot be turned back into a workflow.
\<close>

theorem toIConnections_two_types: "graph_wf two_type_graph \<and> toIConnections two_type_graph = Inl TypeError"
  by code_simp

end
