(* ===== verification/PartialGraph.thy ===== *)
theory PartialGraph
  imports GraphComponents GraphImport
begin

section \<open>The graph of a partial execution\<close>

text \<open>
  The functions of \<open>partial-execution-utils\<close> that transform the graph before a partial execution:
  \<open>filterDisabledNodes\<close>, \<open>findSubgraph\<close>, \<open>handleCycles\<close> and \<open>rewireGraph\<close>.
\<close>

subsection \<open>The transformations\<close>

lemma rfold_fundef_cong [fundef_cong]:
  assumes "xs = ys" and "s = t" and "\<And>x s. x \<in> set ys \<Longrightarrow> f x s = g x s"
  shows "rfold f xs s = rfold g ys t"
  unfolding assms(1,2) by (rule rfold_cong) (rule assms(3))

text \<open>\<open>getNodes\<close> returns a copy of the map, which the loop visits while it deletes nodes of the graph.\<close>

definition filterDisabledNodes :: "DirectedGraph \<Rightarrow> DirectedGraph res" where
  "filterDisabledNodes graph = rbind (clone graph) (\<lambda>filteredGraph.
     rfold (\<lambda>node g. if is_disabled node
         then rbind (removeNode node True (\<lambda>c. g_type c \<noteq> Main) g) (\<lambda>(g', _). Inr g')
         else Inr g)
       (jvals (getNodes filteredGraph)) filteredGraph)"

definition addWithNodes :: "GraphConnection \<Rightarrow> DirectedGraph \<Rightarrow> DirectedGraph res" where
  "addWithNodes connection newGraph =
     addGraphConnection connection (addNodes [g_from connection, g_to connection] newGraph)"

function findSubgraphRecursive :: "DirectedGraph \<Rightarrow> INode \<Rightarrow> INode \<Rightarrow> INode \<Rightarrow> DirectedGraph \<Rightarrow> GraphConnection list
    \<Rightarrow> DirectedGraph res" where
  "findSubgraphRecursive graph destinationNode current trigger newGraph currentBranch =
     (if current = trigger then rfold addWithNodes currentBranch (addNode trigger newGraph)
      else rbind (getDirectParentConnections graph current) (\<lambda>parentConnections.
        if parentConnections = [] then Inr newGraph
        else if current = destinationNode \<and> list_ex (\<lambda>c. g_to c = destinationNode) currentBranch then Inr newGraph
        else if list_ex (\<lambda>c. g_to c = current) currentBranch then rfold addWithNodes currentBranch newGraph
        else rfold (\<lambda>parentConnection newGraph.
            if g_type parentConnection \<noteq> Main then Inr newGraph
            else findSubgraphRecursive graph destinationNode (g_from parentConnection) trigger newGraph
              (currentBranch @ [parentConnection])) parentConnections newGraph))"
  by pat_completeness auto

termination findSubgraphRecursive
proof (relation "measure (\<lambda>(graph, destinationNode, current, trigger, newGraph, currentBranch).
    card (g_to ` graph_conns graph - g_to ` set currentBranch))", goal_cases)
  case (2 graph destinationNode current trigger newGraph currentBranch parents parent g)
  have "parent \<in> graph_conns graph" "g_to parent = current"
    using 2 by (auto simp: getDirectParentConnections_def split: if_splits)
  moreover have "current \<notin> g_to ` set currentBranch" using 2 by (auto simp: list_ex_iff)
  ultimately have "g_to ` graph_conns graph - g_to ` set (currentBranch @ [parent])
      \<subset> g_to ` graph_conns graph - g_to ` set currentBranch" by auto
  then show ?case by (simp add: psubset_card_mono)
qed simp

declare findSubgraphRecursive.simps [simp del]

definition addSubNodes :: "DirectedGraph \<Rightarrow> INode \<Rightarrow> DirectedGraph \<Rightarrow> DirectedGraph res" where
  "addSubNodes graph node subgraph = rbind (getParentConnections graph node) (\<lambda>parentConnections.
     rfold (\<lambda>connection g. if g_type connection = Main then Inr g else addWithNodes connection g)
       parentConnections subgraph)"

text \<open>The loop visits the nodes of a copy of the map, so not those that it adds.\<close>

definition subNodesLoop :: "DirectedGraph \<Rightarrow> DirectedGraph \<Rightarrow> DirectedGraph res" where
  "subNodesLoop graph subgraph = rfold (addSubNodes graph) (jvals (getNodes subgraph)) subgraph"

definition findSubgraph :: "DirectedGraph \<Rightarrow> INode \<Rightarrow> INode \<Rightarrow> DirectedGraph res" where
  "findSubgraph graph destination trigger =
     rbind (findSubgraphRecursive graph destination destination trigger emptyGraph []) (subNodesLoop graph)"

text \<open>\<open>cycle.has\<close> of the components; every component has at least one node.\<close>

definition handleCycles :: "DirectedGraph \<Rightarrow> INode list \<Rightarrow> INode \<Rightarrow> INode list res" where
  "handleCycles graph startNodes trigger =
     rbind (getStronglyConnectedComponents graph) (\<lambda>components.
       let cycles = filter (\<lambda>cycle. length cycle \<ge> 1) components
       in if cycles = [] then Inr startNodes
       else rfold (\<lambda>startNode newStartNodes. rfold (\<lambda>cycle newStartNodes.
           if startNode \<in> set cycle then
             rbind (depthFirstSearch graph trigger (\<lambda>node. node \<in> set cycle)) (\<lambda>firstNode.
               (case firstNode of None \<Rightarrow> Inl (AssertionError ''firstNode'')
                | Some first \<Rightarrow> Inr (sadd first (sdel startNode newStartNodes))))
           else Inr newStartNodes) cycles newStartNodes) startNodes startNodes)"

text \<open>
  \<open>rewireGraph\<close> writes \<open>rewireOutputLogTo\<close> of the tool, which both graphs share: the new node takes the
  place of the old one everywhere.  The result is the graph passed in, as changed, and the graph returned.
\<close>

definition replaceNode :: "INode \<Rightarrow> INode \<Rightarrow> DirectedGraph \<Rightarrow> DirectedGraph" where
  "replaceNode old new g = (let r = (\<lambda>n. if n = old then new else n) in
     \<lparr>dg_nodes = map (\<lambda>(k, n). (k, r n)) (dg_nodes g),
      dg_connections = map (\<lambda>(k, c). (k, c\<lparr>g_from := r (g_from c), g_to := r (g_to c)\<rparr>)) (dg_connections g)\<rparr>)"

definition TOOL_EXECUTOR_NODE_NAME :: string where
  "TOOL_EXECUTOR_NODE_NAME = ''PartialExecutionToolExecutor''"

definition toolExecutorNode :: "nat \<Rightarrow> INode \<Rightarrow> (string \<times> json) option \<Rightarrow> INode" where
  "toolExecutorNode oid rootNode agentRequest = (mk_node oid TOOL_EXECUTOR_NODE_NAME)
     \<lparr>n_disabled := Some False, n_type := ''@n8n/n8n-nodes-langchain.toolExecutor'',
      n_parameters := [(''query'', (case agentRequest of None \<Rightarrow> JObj [] | Some (_, query) \<Rightarrow> query)),
        (''toolName'', JStr (case agentRequest of None \<Rightarrow> '''' | Some (name, _) \<Rightarrow> name))],
      n_id := n_id rootNode, n_typeVersion := ''0''\<rparr>"

definition rewireGraph :: "nat \<Rightarrow> INode \<Rightarrow> DirectedGraph \<Rightarrow> (string \<times> json) option
    \<Rightarrow> (DirectedGraph \<times> DirectedGraph) res" where
  "rewireGraph newOid tool graph agentRequest =
     rbind (clone graph) (\<lambda>modifiedGraph.
     rbind (getChildren modifiedGraph tool) (\<lambda>children.
       if children = [] then Inr (graph, graph)
       else let rootNode = last children in
         rbind (getDirectParentConnections modifiedGraph rootNode) (\<lambda>parents.
         let allIncomingConnection = filter (\<lambda>cn. g_type cn = Main) parents;
             toolExecutor = toolExecutorNode newOid rootNode agentRequest;
             modifiedGraph = addNode toolExecutor modifiedGraph;
             rewired = tool\<lparr>n_rewireOutputLogTo := Some AiTool\<rparr>;
             self = (\<lambda>n. if n = tool then rewired else n);
             graph = replaceNode tool rewired graph;
             modifiedGraph = replaceNode tool rewired modifiedGraph
         in rbind (addConnection rewired toolExecutor (Some AiTool) None None modifiedGraph) (\<lambda>modifiedGraph.
            rbind (rfold (\<lambda>cn. addConnection (self (g_from cn)) toolExecutor (Some (g_type cn)) None None)
              allIncomingConnection modifiedGraph) (\<lambda>modifiedGraph.
            rbind (removeNode (self rootNode) False (\<lambda>_. False) modifiedGraph) (\<lambda>(modifiedGraph, _).
              Inr (graph, modifiedGraph)))))))"

subsection \<open>Parts of a graph\<close>

definition part_of :: "DirectedGraph \<Rightarrow> DirectedGraph \<Rightarrow> bool" where
  "part_of g s \<longleftrightarrow> graph_wf s \<and> (\<forall>n. nodeExists s n \<longrightarrow> nodeExists g n) \<and> graph_conns s \<subseteq> graph_conns g"

lemma part_of_empty: "part_of g emptyGraph"
  by (simp add: part_of_def nodeExists_def) (simp add: emptyGraph_def)

lemma part_of_get:
  assumes "part_of g s" and "graph_wf g" and "nodeExists g n"
  shows "jget (dg_nodes s) (n_name n) \<in> {None, Some n}"
proof (cases "jget (dg_nodes s) (n_name n)")
  case (Some m)
  have "n_name m = n_name n" using graph_wfD(3) [of s] Some assms(1) by (auto simp: part_of_def)
  then have "nodeExists s m" using Some by (simp add: nodeExists_def)
  then have "nodeExists g m" using assms(1) by (simp add: part_of_def)
  then show ?thesis using Some assms(3) \<open>n_name m = n_name n\<close> by (simp add: nodeExists_def)
qed simp

lemma nodeExists_addNode:
  assumes "jget (dg_nodes s) (n_name n) \<in> {None, Some n}"
  shows "nodeExists (addNode n s) m \<longleftrightarrow> nodeExists s m \<or> m = n"
  using assms by (auto simp: nodeExists_def addNode_def jget_jput)

lemma part_of_addNode:
  assumes "part_of g s" and "graph_wf g" and "nodeExists g n"
  shows "part_of g (addNode n s)" and "nodeExists (addNode n s) m \<longleftrightarrow> nodeExists s m \<or> m = n"
    and "graph_conns (addNode n s) = graph_conns s"
proof -
  show ex: "nodeExists (addNode n s) m \<longleftrightarrow> nodeExists s m \<or> m = n" for m
    by (rule nodeExists_addNode [OF part_of_get [OF assms]])
  show conns: "graph_conns (addNode n s) = graph_conns s" by (simp add: addNode_def)
  have "graph_wf (addNode n s)"
    by (rule graph_wf_addNode [OF _ part_of_get [OF assms]]) (use assms(1) in \<open>simp add: part_of_def\<close>)
  then show "part_of g (addNode n s)"
    using assms(1,3) unfolding part_of_def ex conns by blast
qed

lemma part_of_addWithNodes:
  assumes "part_of g s" and "graph_wf g" and "separable (graph_nodes g)" and "c \<in> graph_conns g"
  shows "\<exists>s'. addWithNodes c s = Inr s' \<and> part_of g s' \<and> graph_conns s' = insert c (graph_conns s)
    \<and> (\<forall>m. nodeExists s' m \<longleftrightarrow> nodeExists s m \<or> m = g_from c \<or> m = g_to c)"
proof -
  note ends = graph_wf_conn(1,2) [OF assms(2,4)]
  define s1 where "s1 = addNode (g_to c) (addNode (g_from c) s)"
  note one = part_of_addNode [OF assms(1,2) ends(1)]
  note two = part_of_addNode [OF one(1) assms(2) ends(2)]
  have s1: "part_of g s1" "graph_conns s1 = graph_conns s"
      "nodeExists s1 m \<longleftrightarrow> nodeExists s m \<or> m = g_from c \<or> m = g_to c" for m
    using two one by (auto simp: s1_def)
  have run: "addWithNodes c s = Inr (setConnection c s1)"
    unfolding addWithNodes_def addNodes_def fold.simps comp_def id_apply s1_def [symmetric]
    by (rule addGraphConnection_ok) (simp_all add: s1(3))
  have wf: "graph_wf (setConnection c s1)"
    by (rule graph_wf_setConnection) (use s1 in \<open>simp_all add: part_of_def\<close>)
  have sub: "graph_nodes s1 \<subseteq> graph_nodes g"
    using s1(1) graph_wf_node assms(2) unfolding part_of_def by blast
  then have sep: "separable (graph_nodes s1)" using assms(3) unfolding separable_def by blast
  have "g_from c \<in> graph_nodes s1 \<and> g_to c \<in> graph_nodes s1"
    using s1(1,3) graph_wf_node unfolding part_of_def by blast
  then have conns: "graph_conns (setConnection c s1) = insert c (graph_conns s)"
    using setConnection_conns [OF graph_wf_keyed sep] s1(1,2) by (simp add: part_of_def del: set_jvals)
  have "part_of g (setConnection c s1)"
    using s1 wf conns assms(1,4) by (simp add: part_of_def del: set_jvals)
  then show ?thesis using run conns s1(3) by (simp del: set_jvals)
qed

lemma part_of_addBranch:
  assumes "graph_wf g" and "separable (graph_nodes g)"
  shows "set cs \<subseteq> graph_conns g \<Longrightarrow> part_of g s \<Longrightarrow> \<exists>s'. rfold addWithNodes cs s = Inr s' \<and> part_of g s'
    \<and> graph_conns s' = set cs \<union> graph_conns s \<and> (\<forall>m. nodeExists s' m \<longleftrightarrow> nodeExists s m \<or> m \<in> g_from ` set cs \<union> g_to ` set cs)"
proof (induction cs arbitrary: s)
  case (Cons c cs)
  then obtain s1 where s1: "addWithNodes c s = Inr s1" "part_of g s1" "graph_conns s1 = insert c (graph_conns s)"
      "\<forall>m. nodeExists s1 m \<longleftrightarrow> nodeExists s m \<or> m = g_from c \<or> m = g_to c"
    using part_of_addWithNodes [OF Cons.prems(2) assms, of c] by auto
  then show ?case using Cons.IH [OF _ s1(2)] Cons.prems(1) by (auto simp del: set_jvals)
qed simp

subsection \<open>What the subgraph contains\<close>

lemma rfold_run:
  assumes "\<And>x s. x \<in> set xs \<Longrightarrow> I s \<Longrightarrow> \<exists>s'. f x s = Inr s' \<and> I s' \<and> R s s'"
    and "\<And>s. R s s" and "\<And>s t u. R s t \<Longrightarrow> R t u \<Longrightarrow> R s u" and "I s"
  shows "\<exists>s'. rfold f xs s = Inr s' \<and> I s' \<and> R s s'"
  using assms(1,4)
proof (induction xs arbitrary: s)
  case Nil
  then show ?case using assms(2) by simp
next
  case (Cons x xs)
  obtain s1 where s1: "f x s = Inr s1" "I s1" "R s s1" using Cons.prems(1) [of x s] Cons.prems(2) by auto
  obtain s2 where s2: "rfold f xs s1 = Inr s2" "I s2" "R s1 s2" using Cons.IH [of s1] Cons.prems(1) s1(2) by auto
  then show ?case using s1 assms(3) [OF s1(3) s2(3)] by simp
qed

lemma rfold_hits:
  assumes "rfold f xs s = Inr r" and "I s" and "x \<in> set xs"
    and "\<And>y s s'. y \<in> set xs \<Longrightarrow> I s \<Longrightarrow> f y s = Inr s' \<Longrightarrow> I s' \<and> (Q s \<longrightarrow> Q s')"
    and "\<And>s s'. I s \<Longrightarrow> f x s = Inr s' \<Longrightarrow> Q s'"
  shows "Q r"
  using assms
proof (induction xs arbitrary: s)
  case (Cons y ys)
  obtain s1 where s1: "f y s = Inr s1" "rfold f ys s1 = Inr r" using Cons.prems(1) by (auto simp: rbind_Inr_iff)
  have I: "I s1" using Cons.prems(4) [OF _ Cons.prems(2) s1(1)] by simp
  show ?case
  proof (cases "x \<in> set ys")
    case True
    show ?thesis by (rule Cons.IH [OF s1(2) I True]) (use Cons.prems(4,5) in auto)
  next
    case False
    then have "Q s1" using Cons.prems(2,3,5) s1(1) by auto
    then have "I r \<and> Q r"
      by (intro rfold_invariant [OF s1(2), of "\<lambda>s. I s \<and> Q s"]) (use I Cons.prems(4) in auto)
    then show ?thesis ..
  qed
qed simp

abbreviation main_rel :: "DirectedGraph \<Rightarrow> (INode \<times> INode) set" where
  "main_rel g \<equiv> kept_rel (\<lambda>t. t = Main) g"

text \<open>What a step of the search adds: \<open>Main\<close> connections from which the destination can be reached.\<close>

definition grows :: "DirectedGraph \<Rightarrow> INode \<Rightarrow> DirectedGraph \<Rightarrow> DirectedGraph \<Rightarrow> bool" where
  "grows g dest s s' \<longleftrightarrow> graph_conns s \<subseteq> graph_conns s'
     \<and> graph_conns s' \<subseteq> graph_conns s \<union> {c \<in> graph_conns g. g_type c = Main \<and> (g_to c, dest) \<in> (main_rel g)\<^sup>*}"

lemma grows_refl: "grows g dest s s"
  by (simp add: grows_def)

lemma grows_trans: "grows g dest s t \<Longrightarrow> grows g dest t u \<Longrightarrow> grows g dest s u"
  unfolding grows_def by blast

text \<open>A branch of the search that has arrived at a node.\<close>

definition on_branch :: "DirectedGraph \<Rightarrow> INode \<Rightarrow> INode \<Rightarrow> GraphConnection list \<Rightarrow> bool" where
  "on_branch g dest cur cs \<longleftrightarrow> nodeExists g cur \<and> (cur, dest) \<in> (main_rel g)\<^sup>*
     \<and> set cs \<subseteq> {c \<in> graph_conns g. g_type c = Main \<and> (g_to c, dest) \<in> (main_rel g)\<^sup>*}"

lemma main_relI: "c \<in> graph_conns g \<Longrightarrow> g_type c = Main \<Longrightarrow> (g_from c, g_to c) \<in> main_rel g"
  by (auto simp: kept_rel_def simp del: set_jvals)

lemma on_branch_step:
  assumes "graph_wf g" and "on_branch g dest cur cs" and "c \<in> graph_conns g" and "g_to c = cur" and "g_type c = Main"
  shows "on_branch g dest (g_from c) (cs @ [c])"
  using assms main_relI [OF assms(3,5)] graph_wf_conn(1) [OF assms(1,3)]
  by (auto simp: on_branch_def intro: converse_rtrancl_into_rtrancl simp del: set_jvals)

lemma branch_smaller:
  assumes "c \<in> graph_conns g" and "g_to c \<notin> g_to ` set cs"
  shows "card (g_to ` graph_conns g - g_to ` set (cs @ [c])) < card (g_to ` graph_conns g - g_to ` set cs)"
  by (intro psubset_card_mono) (use assms in auto)

lemma addBranch_grows:
  assumes "graph_wf g" and "separable (graph_nodes g)" and "on_branch g dest cur cs" and "part_of g s"
  shows "\<exists>s'. rfold addWithNodes cs s = Inr s' \<and> part_of g s' \<and> grows g dest s s' \<and> set cs \<subseteq> graph_conns s'"
proof -
  have "set cs \<subseteq> graph_conns g" using assms(3) unfolding on_branch_def by blast
  then obtain s' where "rfold addWithNodes cs s = Inr s'" "part_of g s'" "graph_conns s' = set cs \<union> graph_conns s"
    using part_of_addBranch [OF assms(1,2) _ assms(4)] by blast
  then show ?thesis using assms(3) unfolding grows_def on_branch_def by blast
qed

lemma findSubgraphRecursive_run:
  assumes "graph_wf g" and "separable (graph_nodes g)" and "nodeExists g trigger"
  shows "on_branch g dest cur cs \<Longrightarrow> part_of g s \<Longrightarrow>
    \<exists>s'. findSubgraphRecursive g dest cur trigger s cs = Inr s' \<and> part_of g s' \<and> grows g dest s s'"
proof (induction "card (g_to ` graph_conns g - g_to ` set cs)" arbitrary: cur s cs rule: less_induct)
  case less
  note ob = less.prems(1)
  let ?ps = "filter (\<lambda>c. g_to c = cur) (jvals (dg_connections g))"
  have par: "getDirectParentConnections g cur = Inr ?ps"
    using directParents_wf ob unfolding on_branch_def by blast
  note unf = findSubgraphRecursive.simps [of g dest cur trigger s cs]
  show ?case
  proof (cases "cur = trigger")
    case True
    obtain s' where "rfold addWithNodes cs (addNode trigger s) = Inr s'" "part_of g s'" "grows g dest (addNode trigger s) s'"
      using addBranch_grows [OF assms(1,2) ob part_of_addNode(1) [OF less.prems(2) assms(1,3)]] by blast
    moreover have "findSubgraphRecursive g dest cur trigger s cs = rfold addWithNodes cs (addNode trigger s)"
      unfolding unf using True by (rule if_P)
    ultimately show ?thesis
      using part_of_addNode(3) [OF less.prems(2) assms(1,3)] by (simp add: grows_def del: set_jvals)
  next
    case False
    consider "?ps = [] \<or> cur = dest \<and> list_ex (\<lambda>c. g_to c = dest) cs"
      | "?ps \<noteq> []" "\<not> (cur = dest \<and> list_ex (\<lambda>c. g_to c = dest) cs)" "list_ex (\<lambda>c. g_to c = cur) cs"
      | "?ps \<noteq> []" "\<not> (cur = dest \<and> list_ex (\<lambda>c. g_to c = dest) cs)" "\<not> list_ex (\<lambda>c. g_to c = cur) cs" by blast
    then show ?thesis
    proof cases
      case 1
      then have "findSubgraphRecursive g dest cur trigger s cs = Inr s"
        unfolding unf using False par by auto
      then show ?thesis using less.prems(2) grows_refl by blast
    next
      case 2
      then show ?thesis using addBranch_grows [OF assms(1,2) ob less.prems(2)]
        by (auto simp only: unf False if_False par rbind_simps if_True)
    next
      case 3
      let ?f = "\<lambda>p s. if g_type p \<noteq> Main then Inr s
        else findSubgraphRecursive g dest (g_from p) trigger s (cs @ [p])"
      have "\<exists>s'. rfold ?f ?ps s = Inr s' \<and> part_of g s' \<and> grows g dest s s'"
      proof (rule rfold_run [where I = "part_of g" and R = "grows g dest"])
        fix p t assume p: "p \<in> set ?ps" and t: "part_of g t"
        have mem: "p \<in> graph_conns g" "g_to p = cur" using p by auto
        have new: "g_to p \<notin> g_to ` set cs" using 3(3) mem(2) by (auto simp: list_ex_iff)
        show "\<exists>s'. ?f p t = Inr s' \<and> part_of g s' \<and> grows g dest t s'"
        proof (cases "g_type p = Main")
          case True
          then show ?thesis
            using less.hyps [OF branch_smaller [OF mem(1) new] on_branch_step [OF assms(1) ob mem True] t] by simp
        qed (use t grows_refl in simp)
      qed (use grows_refl grows_trans less.prems(2) in blast)+
      then show ?thesis using 3 by (simp only: unf False if_False par rbind_simps)
    qed
  qed
qed

text \<open>A connection on a walk from the trigger to the destination that starts and arrives only once.\<close>

definition lane :: "DirectedGraph \<Rightarrow> INode \<Rightarrow> INode \<Rightarrow> (INode \<times> INode) set" where
  "lane g dest trigger = {(a, b) \<in> main_rel g. a \<noteq> dest \<and> b \<noteq> trigger}"

lemma findSubgraphRecursive_loop:
  assumes "getDirectParentConnections g cur = Inr ps" and "cur \<noteq> trigger" and "ps \<noteq> []"
    and "\<not> (cur = dest \<and> list_ex (\<lambda>c. g_to c = dest) cs)" and "\<not> list_ex (\<lambda>c. g_to c = cur) cs"
  shows "findSubgraphRecursive g dest cur trigger s cs = rfold (\<lambda>p s. if g_type p \<noteq> Main then Inr s
        else findSubgraphRecursive g dest (g_from p) trigger s (cs @ [p])) ps s"
  unfolding findSubgraphRecursive.simps [of g dest cur trigger s cs]
  by (simp only: assms rbind_simps if_False simp_thms)

text \<open>One loop over the parents reaches the call for a given parent and keeps what it adds.\<close>

lemma findSubgraphRecursive_parent:
  assumes "graph_wf g" and "separable (graph_nodes g)" and "nodeExists g trigger"
    and "on_branch g dest cur cs" and "part_of g s" and "findSubgraphRecursive g dest cur trigger s cs = Inr r"
    and "cur \<noteq> trigger" and "\<not> list_ex (\<lambda>c. g_to c = cur) cs"
    and "p \<in> graph_conns g" and "g_to p = cur" and "g_type p = Main"
    and Q: "\<And>t t'. part_of g t \<Longrightarrow> findSubgraphRecursive g dest (g_from p) trigger t (cs @ [p]) = Inr t' \<Longrightarrow> K \<subseteq> graph_conns t'"
  shows "K \<subseteq> graph_conns r"
proof -
  let ?ps = "filter (\<lambda>c. g_to c = cur) (jvals (dg_connections g))"
  let ?f = "\<lambda>p s. if g_type p \<noteq> Main then Inr s
        else findSubgraphRecursive g dest (g_from p) trigger s (cs @ [p])"
  have par: "getDirectParentConnections g cur = Inr ?ps"
    using directParents_wf assms(4) unfolding on_branch_def by blast
  have mem: "p \<in> set ?ps" using assms(9,10) by simp
  then have ne: "?ps \<noteq> []" by (auto simp del: set_filter)
  have nd: "\<not> (cur = dest \<and> list_ex (\<lambda>c. g_to c = dest) cs)" using assms(8) by auto
  have run: "rfold ?f ?ps s = Inr r"
    using assms(6) findSubgraphRecursive_loop [OF par assms(7) ne nd assms(8)] by simp
  show ?thesis
  proof (rule rfold_hits [OF run, where I = "part_of g" and Q = "\<lambda>t. K \<subseteq> graph_conns t"])
    fix q t t' assume q: "q \<in> set ?ps" and t: "part_of g t" and "?f q t = Inr t'"
    then show "part_of g t' \<and> (K \<subseteq> graph_conns t \<longrightarrow> K \<subseteq> graph_conns t')"
    proof (cases "g_type q = Main")
      case True
      have "q \<in> graph_conns g" "g_to q = cur" using q by auto
      from findSubgraphRecursive_run [OF assms(1,2,3) on_branch_step [OF assms(1,4) this True] t]
      show ?thesis using \<open>?f q t = Inr t'\<close> True unfolding grows_def by auto
    qed simp
  next
    fix t t' assume "part_of g t" "?f p t = Inr t'"
    then show "K \<subseteq> graph_conns t'" using Q [of t t'] assms(11) by simp
  qed (use assms(5) mem in simp_all)
qed

lemma findSubgraphRecursive_keeps:
  assumes "graph_wf g" and "separable (graph_nodes g)" and "nodeExists g trigger"
  shows "on_branch g dest cur cs \<Longrightarrow> part_of g s \<Longrightarrow> findSubgraphRecursive g dest cur trigger s cs = Inr r
    \<Longrightarrow> (trigger, cur) \<in> (lane g dest trigger)\<^sup>* \<Longrightarrow> cur \<noteq> dest \<Longrightarrow> set cs \<subseteq> graph_conns r"
proof (induction "card (g_to ` graph_conns g - g_to ` set cs)" arbitrary: cur s cs r rule: less_induct)
  case less
  note ob = less.prems(1)
  note unf = findSubgraphRecursive.simps [of g dest cur trigger s cs]
  show ?case
  proof (cases "cur = trigger")
    case True
    then have "rfold addWithNodes cs (addNode trigger s) = Inr r" using less.prems(3) unfolding unf by simp
    then show ?thesis
      using addBranch_grows [OF assms(1,2) ob part_of_addNode(1) [OF less.prems(2) assms(1,3)]] by auto
  next
    case False
    then obtain y where y: "(trigger, y) \<in> (lane g dest trigger)\<^sup>*" "(y, cur) \<in> lane g dest trigger"
      using less.prems(4) by (metis rtranclE)
    then obtain p where p: "p \<in> graph_conns g" "g_to p = cur" "g_type p = Main" "y = g_from p" "y \<noteq> dest"
      by (auto simp: lane_def kept_rel_def simp del: set_jvals)
    show ?thesis
    proof (cases "list_ex (\<lambda>c. g_to c = cur) cs")
      case True
      let ?ps = "filter (\<lambda>c. g_to c = cur) (jvals (dg_connections g))"
      have par: "getDirectParentConnections g cur = Inr ?ps"
        using directParents_wf ob unfolding on_branch_def by blast
      have "p \<in> set ?ps" using p(1,2) by simp
      then have ne: "?ps \<noteq> []" by (auto simp del: set_filter)
      have "rfold addWithNodes cs s = Inr r"
        using less.prems(3) unfolding unf by (simp only: False par ne less.prems(5) True rbind_simps if_False if_True simp_thms)
      then show ?thesis using addBranch_grows [OF assms(1,2) ob less.prems(2)] by auto
    next
      case new: False
      have small: "card (g_to ` graph_conns g - g_to ` set (cs @ [p])) < card (g_to ` graph_conns g - g_to ` set cs)"
        using new p(2) by (intro branch_smaller [OF p(1)]) (auto simp: list_ex_iff)
      show ?thesis
      proof (rule findSubgraphRecursive_parent [OF assms ob less.prems(2,3) False new p(1,2,3)])
        fix t t' assume "part_of g t" "findSubgraphRecursive g dest (g_from p) trigger t (cs @ [p]) = Inr t'"
        from less.hyps [OF small on_branch_step [OF assms(1) ob p(1,2,3)] this] y(1) p(4,5)
        show "set cs \<subseteq> graph_conns t'" by simp
      qed
    qed
  qed
qed

lemma findSubgraphRecursive_reaches:
  assumes "graph_wf g" and "separable (graph_nodes g)" and "nodeExists g trigger"
    and c: "c \<in> graph_conns g" "g_type c = Main" "(g_from c, g_to c) \<in> lane g dest trigger"
      "(trigger, g_from c) \<in> (lane g dest trigger)\<^sup>*"
  shows "on_branch g dest cur cs \<Longrightarrow> part_of g s \<Longrightarrow> findSubgraphRecursive g dest cur trigger s cs = Inr r
    \<Longrightarrow> (cur, g_to c) \<in> (avoiding ((lane g dest trigger)\<inverse>) (g_to ` set cs))\<^sup>* \<Longrightarrow> cur \<notin> g_to ` set cs
    \<Longrightarrow> c \<in> graph_conns r"
proof (induction "card (g_to ` graph_conns g - g_to ` set cs)" arbitrary: cur s cs r rule: less_induct)
  case less
  let ?L = "lane g dest trigger"
  note ob = less.prems(1)
  have new: "\<not> list_ex (\<lambda>c. g_to c = cur) cs" using less.prems(5) by (auto simp: list_ex_iff)
  have nt: "cur \<noteq> trigger"
  proof
    assume "cur = trigger"
    with less.prems(4) have "g_to c = trigger"
      by (cases rule: converse_rtranclE) (auto simp: lane_def)
    then show False using c(3) by (simp add: lane_def)
  qed
  have "\<exists>p. p \<in> graph_conns g \<and> g_to p = cur \<and> g_type p = Main \<and>
      (\<forall>t t'. part_of g t \<longrightarrow> findSubgraphRecursive g dest (g_from p) trigger t (cs @ [p]) = Inr t' \<longrightarrow> {c} \<subseteq> graph_conns t')"
    using less.prems(4) unfolding rtrancl_avoiding_split [of cur "g_to c" "?L\<inverse>" "g_to ` set cs"]
  proof
    assume e: "g_to c = cur"
    have "{c} \<subseteq> graph_conns t'" if "part_of g t" "findSubgraphRecursive g dest (g_from c) trigger t (cs @ [c]) = Inr t'" for t t'
      using findSubgraphRecursive_keeps [OF assms(1,2,3) on_branch_step [OF assms(1) ob c(1) e c(2)] that c(4)] c(3)
      by (simp add: lane_def)
    then show ?thesis using c(1,2) e by blast
  next
    assume "\<exists>z. (cur, z) \<in> ?L\<inverse> \<and> z \<notin> insert cur (g_to ` set cs) \<and> (z, g_to c) \<in> (avoiding (?L\<inverse>) (insert cur (g_to ` set cs)))\<^sup>*"
    then obtain z where z: "(z, cur) \<in> ?L" "z \<notin> insert cur (g_to ` set cs)"
        "(z, g_to c) \<in> (avoiding (?L\<inverse>) (insert cur (g_to ` set cs)))\<^sup>*" by blast
    then obtain p where p: "p \<in> graph_conns g" "g_to p = cur" "g_type p = Main" "z = g_from p"
      by (auto simp: lane_def kept_rel_def simp del: set_jvals)
    have small: "card (g_to ` graph_conns g - g_to ` set (cs @ [p])) < card (g_to ` graph_conns g - g_to ` set cs)"
      using less.prems(5) p(2) by (intro branch_smaller [OF p(1)]) auto
    have tos: "g_to ` set (cs @ [p]) = insert cur (g_to ` set cs)" using p(2) by auto
    have "{c} \<subseteq> graph_conns t'" if "part_of g t" "findSubgraphRecursive g dest (g_from p) trigger t (cs @ [p]) = Inr t'" for t t'
      using less.hyps [OF small on_branch_step [OF assms(1) ob p(1,2,3)] that] z(2,3) p(4) unfolding tos by simp
    then show ?thesis using p(1,2,3) by blast
  qed
  then obtain p where p: "p \<in> graph_conns g" "g_to p = cur" "g_type p = Main"
      "\<And>t t'. part_of g t \<Longrightarrow> findSubgraphRecursive g dest (g_from p) trigger t (cs @ [p]) = Inr t' \<Longrightarrow> {c} \<subseteq> graph_conns t'"
    by blast
  show ?case
    using findSubgraphRecursive_parent [OF assms(1,2,3) ob less.prems(2,3) nt new p(1,2,3), of "{c}"] p(4) by blast
qed

subsection \<open>The sub nodes\<close>

text \<open>The connections of sub nodes that lead to a node.\<close>

definition sub_conns :: "DirectedGraph \<Rightarrow> INode \<Rightarrow> GraphConnection set" where
  "sub_conns g n = {c \<in> graph_conns g. g_type c \<noteq> Main \<and> (g_to c, n) \<in> (child_rel g)\<^sup>*}"

lemma addSubNodes_run:
  assumes "graph_wf g" and "separable (graph_nodes g)" and "part_of g s" and "nodeExists g n"
  shows "\<exists>s'. addSubNodes g n s = Inr s' \<and> part_of g s' \<and> graph_conns s' = graph_conns s \<union> sub_conns g n
    \<and> (\<forall>m. nodeExists s' m \<longrightarrow> nodeExists s m \<or> (\<exists>c \<in> sub_conns g n. m = g_from c \<or> m = g_to c))"
proof -
  obtain cs where cs: "getParentConnections g n = Inr cs" "distinct cs"
      "set cs = {c \<in> graph_conns g. (g_to c, n) \<in> (child_rel g)\<^sup>*}"
    by (rule getParentConnections_spec [OF assms(1,4)])
  let ?f = "\<lambda>c t. if g_type c = Main then Inr t else addWithNodes c t"
  have "\<exists>s'. rfold ?f ds s = Inr s' \<and> part_of g s' \<and> graph_conns s' = graph_conns s \<union> {c \<in> set ds. g_type c \<noteq> Main}
      \<and> (\<forall>m. nodeExists s' m \<longrightarrow> nodeExists s m \<or> (\<exists>c \<in> {c \<in> set ds. g_type c \<noteq> Main}. m = g_from c \<or> m = g_to c))"
    if "set ds \<subseteq> graph_conns g" "part_of g s" for ds s
    using that
  proof (induction ds arbitrary: s)
    case (Cons c ds)
    show ?case
    proof (cases "g_type c = Main")
      case True
      then show ?thesis using Cons.IH [of s] Cons.prems by (simp del: set_jvals) blast
    next
      case False
      obtain t where t: "addWithNodes c s = Inr t" "part_of g t" "graph_conns t = insert c (graph_conns s)"
          "\<forall>m. nodeExists t m \<longleftrightarrow> nodeExists s m \<or> m = g_from c \<or> m = g_to c"
        using part_of_addWithNodes [OF Cons.prems(2) assms(1,2), of c] Cons.prems(1) by auto
      obtain r where r: "rfold ?f ds t = Inr r" "part_of g r" "graph_conns r = graph_conns t \<union> {c \<in> set ds. g_type c \<noteq> Main}"
          "\<forall>m. nodeExists r m \<longrightarrow> nodeExists t m \<or> (\<exists>c \<in> {c \<in> set ds. g_type c \<noteq> Main}. m = g_from c \<or> m = g_to c)"
        using Cons.IH [OF _ t(2)] Cons.prems(1) by auto
      have "rfold ?f (c # ds) s = Inr r" using False t(1) r(1) by simp
      moreover have "{x \<in> set (c # ds). g_type x \<noteq> Main} = insert c {x \<in> set ds. g_type x \<noteq> Main}" using False by auto
      then have "graph_conns r = graph_conns s \<union> {x \<in> set (c # ds). g_type x \<noteq> Main}"
        unfolding r(3) t(3) by (simp only: Un_insert_left Un_insert_right)
      ultimately show ?thesis using r(2,4) t(4) False by (intro exI [of _ r]) (simp del: set_jvals, blast)
    qed
  qed (simp del: set_jvals)
  from this [of cs s] obtain s' where "rfold ?f cs s = Inr s'" "part_of g s'"
      "graph_conns s' = graph_conns s \<union> {c \<in> set cs. g_type c \<noteq> Main}"
      "\<forall>m. nodeExists s' m \<longrightarrow> nodeExists s m \<or> (\<exists>c \<in> {c \<in> set cs. g_type c \<noteq> Main}. m = g_from c \<or> m = g_to c)"
    using assms(3) cs(3) by (auto simp del: set_jvals)
  moreover have "{c \<in> set cs. g_type c \<noteq> Main} = sub_conns g n" unfolding sub_conns_def cs(3) by blast
  ultimately show ?thesis by (simp add: addSubNodes_def cs(1) del: set_jvals)
qed

lemma subNodes_run:
  assumes "graph_wf g" and "separable (graph_nodes g)"
  shows "part_of g s \<Longrightarrow> \<forall>n \<in> set ns. nodeExists g n \<Longrightarrow> \<exists>r. rfold (addSubNodes g) ns s = Inr r \<and> part_of g r
    \<and> graph_conns r = graph_conns s \<union> (\<Union>n \<in> set ns. sub_conns g n)
    \<and> (\<forall>m. nodeExists r m \<longrightarrow> nodeExists s m \<or> (\<exists>n \<in> set ns. \<exists>c \<in> sub_conns g n. m = g_from c \<or> m = g_to c))"
proof (induction ns arbitrary: s)
  case (Cons n ns)
  obtain t where t: "addSubNodes g n s = Inr t" "part_of g t" "graph_conns t = graph_conns s \<union> sub_conns g n"
      "\<forall>m. nodeExists t m \<longrightarrow> nodeExists s m \<or> (\<exists>c \<in> sub_conns g n. m = g_from c \<or> m = g_to c)"
    using addSubNodes_run [OF assms Cons.prems(1), of n] Cons.prems(2) by auto
  obtain r where r: "rfold (addSubNodes g) ns t = Inr r" "part_of g r"
      "graph_conns r = graph_conns t \<union> (\<Union>n \<in> set ns. sub_conns g n)"
      "\<forall>m. nodeExists r m \<longrightarrow> nodeExists t m \<or> (\<exists>n \<in> set ns. \<exists>c \<in> sub_conns g n. m = g_from c \<or> m = g_to c)"
    using Cons.IH [OF t(2)] Cons.prems(2) by auto
  have "graph_conns r = graph_conns s \<union> (\<Union>n \<in> set (n # ns). sub_conns g n)" unfolding r(3) t(3) by auto
  moreover have "rfold (addSubNodes g) (n # ns) s = Inr r" using t(1) r(1) by simp
  ultimately show ?case using r(2,4) t(4) by (intro exI [of _ r]) (simp del: set_jvals, blast)
qed (simp del: set_jvals)

text \<open>The nodes that the loop adds need no visit of their own.\<close>

lemma sub_conns_trans:
  assumes "c \<in> sub_conns g n" and "m = g_from c \<or> m = g_to c"
  shows "sub_conns g m \<subseteq> sub_conns g n"
proof -
  have c: "c \<in> graph_conns g" "(g_to c, n) \<in> (child_rel g)\<^sup>*" using assms(1) by (simp_all add: sub_conns_def del: set_jvals)
  have "(g_from c, g_to c) \<in> child_rel g" using c(1) by (auto simp: edge_rel_def simp del: set_jvals)
  then have "(m, n) \<in> (child_rel g)\<^sup>*" using assms(2) c(2) by (auto intro: converse_rtrancl_into_rtrancl)
  then show ?thesis unfolding sub_conns_def by (blast intro: rtrancl_trans)
qed

lemma subNodesLoop_run:
  assumes "graph_wf g" and "separable (graph_nodes g)" and "part_of g s"
  shows "\<exists>r. subNodesLoop g s = Inr r \<and> part_of g r \<and> graph_conns s \<subseteq> graph_conns r
      \<and> graph_conns r \<subseteq> graph_conns s \<union> {c. g_type c \<noteq> Main}
      \<and> (\<forall>n \<in> graph_nodes r. sub_conns g n \<subseteq> graph_conns r)"
proof -
  have ex: "nodeExists t n \<longleftrightarrow> n \<in> graph_nodes t" if "part_of g t" for t n
    using that graph_wf_node unfolding part_of_def by blast
  have "\<forall>n \<in> set (jvals (getNodes s)). nodeExists g n"
    using assms(3) ex [OF assms(3)] by (simp add: part_of_def getNodes_def)
  from subNodes_run [OF assms this] obtain r where r: "subNodesLoop g s = Inr r" "part_of g r"
      "graph_conns r = graph_conns s \<union> (\<Union>n \<in> graph_nodes s. sub_conns g n)"
      "\<forall>m. nodeExists r m \<longrightarrow> nodeExists s m \<or> (\<exists>n \<in> graph_nodes s. \<exists>c \<in> sub_conns g n. m = g_from c \<or> m = g_to c)"
    by (auto simp: subNodesLoop_def getNodes_def simp del: set_jvals)
  have "sub_conns g m \<subseteq> graph_conns r" if "m \<in> graph_nodes r" for m
  proof -
    have "nodeExists r m" using that ex [OF r(2)] by blast
    then have "\<exists>n \<in> graph_nodes s. sub_conns g m \<subseteq> sub_conns g n"
      using r(4) ex [OF assms(3)] sub_conns_trans by blast
    then show ?thesis unfolding r(3) by blast
  qed
  then show ?thesis using r unfolding sub_conns_def by blast
qed

text \<open>
  C34: the subgraph is a well-formed part of the graph.  It holds every \<open>Main\<close> connection on a walk over
  \<open>Main\<close> connections from the trigger to the destination that neither returns to the trigger nor passes through
  the destination, no \<open>Main\<close> connection from which the destination cannot be reached, and every connection of
  another type that leads to a node upstream of one of its nodes.
\<close>

theorem findSubgraph_contents:
  assumes "graph_wf g" and "separable (graph_nodes g)" and "nodeExists g destination" and "nodeExists g trigger"
  shows "\<exists>s. findSubgraph g destination trigger = Inr s \<and> graph_wf s \<and> graph_conns s \<subseteq> graph_conns g
    \<and> {c \<in> graph_conns g. g_type c = Main \<and> (trigger, g_from c) \<in> (lane g destination trigger)\<^sup>*
        \<and> (g_from c, g_to c) \<in> lane g destination trigger \<and> (g_to c, destination) \<in> (lane g destination trigger)\<^sup>*}
      \<subseteq> graph_conns s
    \<and> {c \<in> graph_conns s. g_type c = Main} \<subseteq> {c. (g_to c, destination) \<in> (main_rel g)\<^sup>*}
    \<and> (\<Union>n \<in> graph_nodes s. sub_conns g n) \<subseteq> graph_conns s"
proof -
  let ?L = "lane g destination trigger"
  have ob: "on_branch g destination destination []" using assms(3) by (simp add: on_branch_def)
  obtain s where s: "findSubgraphRecursive g destination destination trigger emptyGraph [] = Inr s" "part_of g s"
      "grows g destination emptyGraph s"
    using findSubgraphRecursive_run [OF assms(1,2,4) ob part_of_empty] by blast
  have all: "c \<in> graph_conns s" if "c \<in> graph_conns g" "g_type c = Main" "(trigger, g_from c) \<in> ?L\<^sup>*"
      "(g_from c, g_to c) \<in> ?L" "(g_to c, destination) \<in> ?L\<^sup>*" for c
  proof -
    have "(destination, g_to c) \<in> (avoiding (?L\<inverse>) (g_to ` set []))\<^sup>*" using that(5) by (simp add: rtrancl_converse)
    then show ?thesis
      using findSubgraphRecursive_reaches [OF assms(1,2,4) that(1,2,4,3) ob part_of_empty s(1)] by simp
  qed
  have only: "graph_conns s \<subseteq> {c. g_type c = Main \<and> (g_to c, destination) \<in> (main_rel g)\<^sup>*}"
  proof -
    have none: "graph_conns emptyGraph = {}" by (simp add: emptyGraph_def)
    show ?thesis using s(3) unfolding grows_def none Un_empty_left by (elim conjE) (erule order_trans, blast)
  qed
  obtain r where r: "subNodesLoop g s = Inr r" "part_of g r" "graph_conns s \<subseteq> graph_conns r"
      "graph_conns r \<subseteq> graph_conns s \<union> {c. g_type c \<noteq> Main}" "\<forall>n \<in> graph_nodes r. sub_conns g n \<subseteq> graph_conns r"
    using subNodesLoop_run [OF assms(1,2) s(2)] by auto
  have "findSubgraph g destination trigger = Inr r" by (simp add: findSubgraph_def s(1) r(1))
  moreover have "graph_wf r" "graph_conns r \<subseteq> graph_conns g" using r(2) by (simp_all add: part_of_def del: set_jvals)
  moreover have "{c \<in> graph_conns r. g_type c = Main} \<subseteq> {c. (g_to c, destination) \<in> (main_rel g)\<^sup>*}"
    using r(4) only by blast
  moreover have "{c \<in> graph_conns g. g_type c = Main \<and> (trigger, g_from c) \<in> ?L\<^sup>*
        \<and> (g_from c, g_to c) \<in> ?L \<and> (g_to c, destination) \<in> ?L\<^sup>*} \<subseteq> graph_conns r"
    using all r(3) by (intro subsetI, elim CollectE conjE) blast
  moreover have "(\<Union>n \<in> graph_nodes r. sub_conns g n) \<subseteq> graph_conns r" using r(5) by blast
  ultimately show ?thesis by (intro exI conjI)
qed

theorem findSubgraph_contents_witness:
  "\<exists>s. findSubgraph loop_graph (mk_node 2 ''B'') (mk_node 0 ''R'') = Inr s \<and> graph_wf s \<and> graph_conns s \<subseteq> graph_conns loop_graph
    \<and> {c \<in> graph_conns loop_graph. g_type c = Main
        \<and> (mk_node 0 ''R'', g_from c) \<in> (lane loop_graph (mk_node 2 ''B'') (mk_node 0 ''R''))\<^sup>*
        \<and> (g_from c, g_to c) \<in> lane loop_graph (mk_node 2 ''B'') (mk_node 0 ''R'')
        \<and> (g_to c, mk_node 2 ''B'') \<in> (lane loop_graph (mk_node 2 ''B'') (mk_node 0 ''R''))\<^sup>*}
      \<subseteq> graph_conns s
    \<and> {c \<in> graph_conns s. g_type c = Main} \<subseteq> {c. (g_to c, mk_node 2 ''B'') \<in> (main_rel loop_graph)\<^sup>*}
    \<and> (\<Union>n \<in> graph_nodes s. sub_conns loop_graph n) \<subseteq> graph_conns s"
  by (rule findSubgraph_contents [OF loop_graph_wf plain_loop_graph loop_graph_nodes(3,1)])

text \<open>
  the fourth rule of the search also keeps a branch that ends in a cycle the trigger does not lead to:
  the subgraph can contain nodes that cannot be reached from the trigger.
\<close>

theorem findSubgraph_keeps_island:
  "let T = mk_node 0 ''T''; D = mk_node 1 ''D''; X = mk_node 2 ''X''; Y = mk_node 3 ''Y'';
       g = graph_of [T, D, X, Y] [main_conn T D, main_conn X D, main_conn Y X, main_conn X Y]
   in graph_wf g \<and> getChildren g T = Inr [D]
     \<and> (case findSubgraph g D T of Inr s \<Rightarrow> nodeExists s X \<and> nodeExists s Y | Inl _ \<Rightarrow> False)"
  by code_simp

subsection \<open>Disabled nodes\<close>

text \<open>One disabled node: \<open>Main\<close> paths between the others are kept.\<close>

lemma filterDisabled_loop:
  assumes "separable N"
  shows "keyed N g \<Longrightarrow> \<forall>n \<in> set ns. nodeExists g n \<Longrightarrow> distinct (map n_name ns) \<Longrightarrow>
    \<exists>g'. rfold (\<lambda>node g. if is_disabled node
         then rbind (removeNode node True (\<lambda>c. g_type c \<noteq> Main) g) (\<lambda>(g', _). Inr g') else Inr g) ns g = Inr g'
      \<and> dg_nodes g' = filter (\<lambda>(k, _). k \<notin> n_name ` {n \<in> set ns. is_disabled n}) (dg_nodes g)
      \<and> (\<forall>u v. u \<notin> {n \<in> set ns. is_disabled n} \<longrightarrow> v \<notin> {n \<in> set ns. is_disabled n} \<longrightarrow>
          ((u, v) \<in> (main_rel g')\<^sup>+ \<longleftrightarrow> (u, v) \<in> (main_rel g)\<^sup>+))"
proof (induction ns arbitrary: g)
  case (Cons n ns)
  show ?case
  proof (cases "is_disabled n")
    case True
    obtain g1 news where g1: "removeNode n True (\<lambda>c. g_type c \<noteq> Main) g = Inr (g1, Some news)"
      using removeNode_returns Cons.prems(2) by (metis list.set_intros(1))
    note rc = removeNode_conns [OF Cons.prems(1) assms _ g1]
    have ex: "nodeExists g n" using Cons.prems(2) by simp
    have left: "\<forall>m \<in> set ns. nodeExists g1 m"
    proof
      fix m assume m: "m \<in> set ns"
      have "n_name n \<notin> n_name ` set ns" using Cons.prems(3) by simp
      then have "n_name m \<noteq> n_name n" using m by (metis image_eqI)
      then show "nodeExists g1 m" using Cons.prems(2) m rc(2) [OF ex] by (simp add: nodeExists_def jget_jdel)
    qed
    have dist: "distinct (map n_name ns)" using Cons.prems(3) by simp
    obtain g' where g': "rfold (\<lambda>node g. if is_disabled node
         then rbind (removeNode node True (\<lambda>c. g_type c \<noteq> Main) g) (\<lambda>(g', _). Inr g') else Inr g) ns g1 = Inr g'"
        "dg_nodes g' = filter (\<lambda>(k, _). k \<notin> n_name ` {n \<in> set ns. is_disabled n}) (dg_nodes g1)"
        "\<And>u v. u \<notin> {n \<in> set ns. is_disabled n} \<Longrightarrow> v \<notin> {n \<in> set ns. is_disabled n} \<Longrightarrow>
          ((u, v) \<in> (main_rel g')\<^sup>+ \<longleftrightarrow> (u, v) \<in> (main_rel g1)\<^sup>+)"
      using Cons.IH [OF rc(1) [OF ex] left dist] by blast
    have dis: "{m \<in> set (n # ns). is_disabled m} = insert n {m \<in> set ns. is_disabled m}" using True by auto
    have "dg_nodes g' = filter (\<lambda>(k, _). k \<notin> n_name ` {m \<in> set (n # ns). is_disabled m}) (dg_nodes g)"
      unfolding dis g'(2) rc(2) [OF ex] by (auto simp: AList.delete_eq split_def intro: filter_cong)
    moreover have "(u, v) \<in> (main_rel g')\<^sup>+ \<longleftrightarrow> (u, v) \<in> (main_rel g)\<^sup>+"
      if "u \<notin> {m \<in> set (n # ns). is_disabled m}" "v \<notin> {m \<in> set (n # ns). is_disabled m}" for u v
      using that g'(3) [of u v] bypass_trancl [OF rc(3) [OF ex], of u v] unfolding dis by blast
    moreover have "rfold (\<lambda>node g. if is_disabled node
         then rbind (removeNode node True (\<lambda>c. g_type c \<noteq> Main) g) (\<lambda>(g', _). Inr g') else Inr g) (n # ns) g = Inr g'"
      using True g1 g'(1) by simp
    ultimately show ?thesis by blast
  next
    case False
    then have dis: "{m \<in> set (n # ns). is_disabled m} = {m \<in> set ns. is_disabled m}" by auto
    show ?thesis using Cons.IH [OF Cons.prems(1)] Cons.prems(2,3) False unfolding dis by simp
  qed
qed simp

text \<open>
  C35: filtering leaves exactly the enabled nodes, in order, and between enabled nodes exactly the paths
  over \<open>Main\<close> connections the graph had.
\<close>

theorem filterDisabledNodes_paths:
  assumes "graph_wf g" and "separable (graph_nodes g)"
  shows "\<exists>g'. filterDisabledNodes g = Inr g'
    \<and> dg_nodes g' = filter (\<lambda>(_, n). \<not> is_disabled n) (dg_nodes g)
    \<and> {(u, v) \<in> (main_rel g')\<^sup>+. \<not> is_disabled u \<and> \<not> is_disabled v}
      = {(u, v) \<in> (main_rel g)\<^sup>+. \<not> is_disabled u \<and> \<not> is_disabled v}"
proof -
  let ?ns = "jvals (dg_nodes g)"
  have names: "map n_name ?ns = map fst (dg_nodes g)"
    using assms(1) by (auto simp: graph_wf_def jvals_def list_all_iff)
  have ex: "\<forall>n \<in> set ?ns. nodeExists g n" using graph_wf_node [OF assms(1)] by blast
  have dist: "distinct (map n_name ?ns)" unfolding names by (rule graph_wfD(1) [OF assms(1)])
  obtain g' where g': "rfold (\<lambda>node g. if is_disabled node
         then rbind (removeNode node True (\<lambda>c. g_type c \<noteq> Main) g) (\<lambda>(g', _). Inr g') else Inr g) ?ns g = Inr g'"
      "dg_nodes g' = filter (\<lambda>(k, _). k \<notin> n_name ` {n \<in> set ?ns. is_disabled n}) (dg_nodes g)"
      "\<forall>u v. u \<notin> {n \<in> set ?ns. is_disabled n} \<longrightarrow> v \<notin> {n \<in> set ?ns. is_disabled n} \<longrightarrow>
          ((u, v) \<in> (main_rel g')\<^sup>+ \<longleftrightarrow> (u, v) \<in> (main_rel g)\<^sup>+)"
    using filterDisabled_loop [OF assms(2) graph_wf_keyed [OF assms(1)] ex dist] by blast
  have "k \<notin> n_name ` {n \<in> set ?ns. is_disabled n} \<longleftrightarrow> \<not> is_disabled n" if "(k, n) \<in> set (dg_nodes g)" for k n
  proof -
    have n: "n \<in> set ?ns" "n_name n = k" using that assms(1) by (auto simp: graph_wf_def list_all_iff intro: rev_image_eqI)
    have "m = n" if "m \<in> set ?ns" "n_name m = k" for m
      using that n dist by (metis distinct_map inj_onD)
    then show ?thesis using n by blast
  qed
  then have "dg_nodes g' = filter (\<lambda>(_, n). \<not> is_disabled n) (dg_nodes g)"
    unfolding g'(2) by (intro filter_cong) auto
  moreover have "filterDisabledNodes g = Inr g'"
    using g'(1) by (simp add: filterDisabledNodes_def clone_wf [OF assms(1)] getNodes_def)
  moreover have "{(u, v) \<in> (main_rel g')\<^sup>+. \<not> is_disabled u \<and> \<not> is_disabled v}
      = {(u, v) \<in> (main_rel g)\<^sup>+. \<not> is_disabled u \<and> \<not> is_disabled v}"
    using g'(3) by blast
  ultimately show ?thesis by blast
qed

definition disabled_graph :: DirectedGraph where
  "disabled_graph = (let A = mk_node 0 ''A''; B = (mk_node 1 ''B'')\<lparr>n_disabled := Some True\<rparr>; C = mk_node 2 ''C''
     in graph_of [A, B, C] [main_conn A B, main_conn B C])"

theorem filterDisabledNodes_paths_witness:
  "\<exists>g'. filterDisabledNodes disabled_graph = Inr g'
    \<and> dg_nodes g' = filter (\<lambda>(_, n). \<not> is_disabled n) (dg_nodes disabled_graph)
    \<and> {(u, v) \<in> (main_rel g')\<^sup>+. \<not> is_disabled u \<and> \<not> is_disabled v}
      = {(u, v) \<in> (main_rel disabled_graph)\<^sup>+. \<not> is_disabled u \<and> \<not> is_disabled v}"
proof (rule filterDisabledNodes_paths)
  show "graph_wf disabled_graph" by code_simp
  have "graph_nodes disabled_graph = {mk_node 0 ''A'', (mk_node 1 ''B'')\<lparr>n_disabled := Some True\<rparr>, mk_node 2 ''C''}"
    by code_simp
  then show "separable (graph_nodes disabled_graph)"
    by (intro plain_separable) (auto simp: plain_def inj_on_def)
qed

subsection \<open>Start nodes on cycles\<close>

lemma cycles_of_one_start:
  assumes "\<forall>c \<in> set cs. s \<in> set c \<longrightarrow> depthFirstSearch g trigger (\<lambda>node. node \<in> set c) = Inr (Some (first c))"
    and "distinct (concat cs)"
  shows "\<exists>r. rfold (\<lambda>cycle N. if s \<in> set cycle then
             rbind (depthFirstSearch g trigger (\<lambda>node. node \<in> set cycle)) (\<lambda>firstNode.
               (case firstNode of None \<Rightarrow> Inl (AssertionError ''firstNode'') | Some first \<Rightarrow> Inr (sadd first (sdel s N))))
           else Inr N) cs N = Inr r
    \<and> set r = (if s \<in> \<Union> (set ` set cs) then set N - {s} else set N) \<union> first ` {c \<in> set cs. s \<in> set c}"
  using assms
proof (induction cs arbitrary: N)
  case (Cons c cs)
  have d: "distinct (concat cs)" "s \<in> set c \<Longrightarrow> s \<notin> \<Union> (set ` set cs)" using Cons.prems(2) by auto
  show ?case
  proof (cases "s \<in> set c")
    case True
    have none: "{b \<in> set (c # cs). s \<in> set b} = {c}" "{b \<in> set cs. s \<in> set b} = {}" using True d(2) by auto
    have dfs: "depthFirstSearch g trigger (\<lambda>node. node \<in> set c) = Inr (Some (first c))" using Cons.prems(1) True by simp
    from Cons.IH [OF _ d(1), of "sadd (first c) (sdel s N)"] Cons.prems(1)
    show ?thesis using True d(2) none by (auto simp: dfs)
  next
    case False
    then have "{b \<in> set (c # cs). s \<in> set b} = {b \<in> set cs. s \<in> set b}" by auto
    then show ?thesis using Cons.IH [OF _ d(1), of N] Cons.prems(1) False by simp
  qed
qed simp

lemma cycles_of_starts:
  assumes "\<forall>s \<in> set ss. \<forall>c \<in> set cs. s \<in> set c \<longrightarrow>
      depthFirstSearch g trigger (\<lambda>node. node \<in> set c) = Inr (Some (first c)) \<and> first c \<in> set c"
    and "distinct (concat cs)"
  shows "\<exists>r. rfold (\<lambda>s N. rfold (\<lambda>cycle N. if s \<in> set cycle then
             rbind (depthFirstSearch g trigger (\<lambda>node. node \<in> set cycle)) (\<lambda>firstNode.
               (case firstNode of None \<Rightarrow> Inl (AssertionError ''firstNode'') | Some first \<Rightarrow> Inr (sadd first (sdel s N))))
           else Inr N) cs N) ss N = Inr r
    \<and> set r = (set N - (set ss \<inter> \<Union> (set ` set cs))) \<union> first ` {c \<in> set cs. set ss \<inter> set c \<noteq> {}}"
  using assms(1)
proof (induction ss arbitrary: N)
  case (Cons s ss)
  obtain N1 where N1: "rfold (\<lambda>cycle N. if s \<in> set cycle then
             rbind (depthFirstSearch g trigger (\<lambda>node. node \<in> set cycle)) (\<lambda>firstNode.
               (case firstNode of None \<Rightarrow> Inl (AssertionError ''firstNode'') | Some first \<Rightarrow> Inr (sadd first (sdel s N))))
           else Inr N) cs N = Inr N1"
      "set N1 = (if s \<in> \<Union> (set ` set cs) then set N - {s} else set N) \<union> first ` {c \<in> set cs. s \<in> set c}"
    using cycles_of_one_start [OF _ assms(2), of s g trigger first N] Cons.prems by (meson list.set_intros(1))
  obtain r where r: "rfold (\<lambda>s N. rfold (\<lambda>cycle N. if s \<in> set cycle then
             rbind (depthFirstSearch g trigger (\<lambda>node. node \<in> set cycle)) (\<lambda>firstNode.
               (case firstNode of None \<Rightarrow> Inl (AssertionError ''firstNode'') | Some first \<Rightarrow> Inr (sadd first (sdel s N))))
           else Inr N) cs N) ss N1 = Inr r"
      "set r = (set N1 - (set ss \<inter> \<Union> (set ` set cs))) \<union> first ` {c \<in> set cs. set ss \<inter> set c \<noteq> {}}"
    using Cons.IH [of N1] Cons.prems by (meson list.set_intros(2))
  have stay: "first c \<in> set r" if c: "c \<in> set cs" "s \<in> set c" for c
  proof (cases "first c \<in> set ss")
    case True
    have "first c \<in> set c" using Cons.prems c by (meson list.set_intros(1))
    then have "set ss \<inter> set c \<noteq> {}" using True by blast
    then show ?thesis using c(1) unfolding r(2) by blast
  next
    case False
    have "first c \<in> set N1" using c unfolding N1(2) by blast
    then show ?thesis using False unfolding r(2) by blast
  qed
  have "set r = (set N - (set (s # ss) \<inter> \<Union> (set ` set cs))) \<union> first ` {c \<in> set cs. set (s # ss) \<inter> set c \<noteq> {}}"
  proof (rule set_eqI)
    fix x
    show "x \<in> set r \<longleftrightarrow> x \<in> (set N - (set (s # ss) \<inter> \<Union> (set ` set cs))) \<union> first ` {c \<in> set cs. set (s # ss) \<inter> set c \<noteq> {}}"
    proof
      assume "x \<in> set r"
      then show "x \<in> (set N - (set (s # ss) \<inter> \<Union> (set ` set cs))) \<union> first ` {c \<in> set cs. set (s # ss) \<inter> set c \<noteq> {}}"
        unfolding r(2) N1(2) by (auto split: if_splits)
    next
      assume "x \<in> (set N - (set (s # ss) \<inter> \<Union> (set ` set cs))) \<union> first ` {c \<in> set cs. set (s # ss) \<inter> set c \<noteq> {}}"
      then show "x \<in> set r" using stay unfolding r(2) N1(2) by auto
    qed
  qed
  then show ?case using N1(1) r(1) by simp
qed simp

text \<open>
  when the trigger reaches all start nodes, handling cycles succeeds.  Start nodes outside the
  components stay; the start nodes within a component are replaced by one node of it that the trigger reaches.
\<close>

theorem handleCycles_starts:
  assumes "graph_wf g" and "nodeExists g trigger" and "\<forall>s \<in> set startNodes. (trigger, s) \<in> (child_rel g)\<^sup>*"
  shows "\<exists>comps r first. getStronglyConnectedComponents g = Inr comps \<and> handleCycles g startNodes trigger = Inr r
    \<and> set r = (set startNodes - \<Union> (set ` set comps)) \<union> first ` {c \<in> set comps. set startNodes \<inter> set c \<noteq> {}}
    \<and> (\<forall>c \<in> set comps. set startNodes \<inter> set c \<noteq> {} \<longrightarrow> first c \<in> set c \<and> (trigger, first c) \<in> (child_rel g)\<^sup>*)"
proof -
  obtain comps where comps: "getStronglyConnectedComponents g = Inr comps" "distinct (concat comps)"
      "list_all (\<lambda>c. c \<noteq> [] \<and> set c \<subseteq> graph_nodes g \<and> mutually_reachable g c) comps"
    using strongly_connected_spec [OF assms(1)] by blast
  define first where "first c = (case depthFirstSearch g trigger (\<lambda>node. node \<in> set c) of
      Inr (Some n) \<Rightarrow> n | _ \<Rightarrow> trigger)" for c
  have first: "depthFirstSearch g trigger (\<lambda>node. node \<in> set c) = Inr (Some (first c)) \<and> first c \<in> set c
      \<and> (trigger, first c) \<in> (child_rel g)\<^sup>*" if s: "s \<in> set startNodes" "s \<in> set c" for s c
  proof -
    obtain found where f: "depthFirstSearch g trigger (\<lambda>node. node \<in> set c) = Inr found"
        "\<forall>n. found = Some n \<longrightarrow> n \<in> set c \<and> (trigger, n) \<in> (child_rel g)\<^sup>*"
        "found = None \<longleftrightarrow> (\<forall>n. (trigger, n) \<in> (child_rel g)\<^sup>* \<longrightarrow> n \<notin> set c)"
      using depthFirstSearch_spec [OF assms(1,2), of "\<lambda>node. node \<in> set c"] by blast
    then obtain n where "found = Some n" using assms(3) s by blast
    then show ?thesis using f(1,2) by (simp add: first_def)
  qed
  have all: "filter (\<lambda>cycle. length cycle \<ge> 1) comps = comps"
    using comps(3) by (auto simp: filter_id_conv list_all_iff Suc_le_eq)
  obtain r where r: "rfold (\<lambda>s N. rfold (\<lambda>cycle N. if s \<in> set cycle then
             rbind (depthFirstSearch g trigger (\<lambda>node. node \<in> set cycle)) (\<lambda>firstNode.
               (case firstNode of None \<Rightarrow> Inl (AssertionError ''firstNode'') | Some first \<Rightarrow> Inr (sadd first (sdel s N))))
           else Inr N) comps N) startNodes startNodes = Inr r"
      "set r = (set startNodes - (set startNodes \<inter> \<Union> (set ` set comps))) \<union> first ` {c \<in> set comps. set startNodes \<inter> set c \<noteq> {}}"
    using cycles_of_starts [OF _ comps(2), of startNodes g trigger first startNodes] first by blast
  have "\<exists>r. handleCycles g startNodes trigger = Inr r
      \<and> set r = (set startNodes - \<Union> (set ` set comps)) \<union> first ` {c \<in> set comps. set startNodes \<inter> set c \<noteq> {}}"
  proof (cases "comps = []")
    case False
    then have "handleCycles g startNodes trigger = Inr r"
      unfolding handleCycles_def comps(1) rbind_simps Let_def all using r(1) by simp
    then show ?thesis using r(2) by auto
  qed (simp add: handleCycles_def comps(1))
  then show ?thesis using comps(1) first by blast
qed

theorem handleCycles_starts_witness:
  "\<exists>comps r first. getStronglyConnectedComponents loop_graph = Inr comps
    \<and> handleCycles loop_graph [mk_node 0 ''R''] (mk_node 0 ''R'') = Inr r
    \<and> set r = (set [mk_node 0 ''R''] - \<Union> (set ` set comps)) \<union> first ` {c \<in> set comps. set [mk_node 0 ''R''] \<inter> set c \<noteq> {}}
    \<and> (\<forall>c \<in> set comps. set [mk_node 0 ''R''] \<inter> set c \<noteq> {}
        \<longrightarrow> first c \<in> set c \<and> (mk_node 0 ''R'', first c) \<in> (child_rel loop_graph)\<^sup>*)"
  by (rule handleCycles_starts [OF loop_graph_wf loop_graph_nodes(1)]) simp

end
