(* ===== verification/PartialRunData.thy ===== *)
theory PartialRunData
  imports GraphImport
begin

section \<open>Run data of partial executions\<close>

text \<open>
  The functions of \<open>partial-execution-utils\<close> that read and clean run data: \<open>getIncomingData\<close>,
  \<open>getNextExecutionIndex\<close>, \<open>cleanRunData\<close>, \<open>isDirty\<close>, \<open>findStartNodes\<close> and \<open>findTriggerForPartialExecution\<close>.
\<close>

subsection \<open>Incoming data\<close>

text \<open>\<open>runData[nodeName]?.at(runIndex)?.data?.[connectionType].at(outputIndex) ?? null\<close>: run data without an
  entry for the connection type throws.\<close>

definition getIncomingData :: "IRunData \<Rightarrow> string \<Rightarrow> int \<Rightarrow> NodeConnectionType \<Rightarrow> int \<Rightarrow> Items option res" where
  "getIncomingData runData nodeName runIndex connectionType outputIndex =
     (case jget runData nodeName of None \<Rightarrow> Inr None
      | Some runs \<Rightarrow> (case js_at runs runIndex of None \<Rightarrow> Inr None
        | Some taskData \<Rightarrow> (case t_data taskData of None \<Rightarrow> Inr None
          | Some data \<Rightarrow> (case jget data connectionType of None \<Rightarrow> Inl TypeError
            | Some outputs \<Rightarrow> Inr (case js_at outputs outputIndex of None \<Rightarrow> None | Some items \<Rightarrow> items)))))"

definition getRunIndexLength :: "IRunData \<Rightarrow> string \<Rightarrow> nat" where
  "getRunIndexLength runData nodeName = (case jget runData nodeName of None \<Rightarrow> 0 | Some runs \<Rightarrow> length runs)"

fun anyRunLoop :: "IRunData \<Rightarrow> string \<Rightarrow> NodeConnectionType \<Rightarrow> nat \<Rightarrow> nat list \<Rightarrow> (Items \<times> nat) option res" where
  "anyRunLoop runData nodeName connectionType outputIndex [] = Inr None"
| "anyRunLoop runData nodeName connectionType outputIndex (runIndex # rest) =
     rbind (getIncomingData runData nodeName (int runIndex) connectionType (int outputIndex)) (\<lambda>data.
       case data of
         Some (item # items) \<Rightarrow> Inr (Some (item # items, runIndex))
       | _ \<Rightarrow> anyRunLoop runData nodeName connectionType outputIndex rest)"

definition getIncomingDataFromAnyRun :: "IRunData \<Rightarrow> string \<Rightarrow> NodeConnectionType \<Rightarrow> nat \<Rightarrow> (Items \<times> nat) option res" where
  "getIncomingDataFromAnyRun runData nodeName connectionType outputIndex =
     anyRunLoop runData nodeName connectionType outputIndex [0..<getRunIndexLength runData nodeName]"

subsection \<open>The next execution index\<close>

definition getNextExecutionIndex :: "IRunData \<Rightarrow> nat" where
  "getNextExecutionIndex runData =
     (if runData = [] then 0
      else let previousIndices = List.map_filter t_executionIndex (concat (own_vals runData))
        in if previousIndices = [] then 0 else foldl max 0 previousIndices + 1)"

subsection \<open>Cleaning\<close>

definition cleanSubNodes :: "DirectedGraph \<Rightarrow> INode \<Rightarrow> IRunData \<Rightarrow> IRunData res" where
  "cleanSubNodes graph node newRunData = rbind (getParentConnections graph node) (\<lambda>subNodeConnections.
     Inr (fold (\<lambda>subNodeConnection rd. if g_type subNodeConnection = Main then rd
       else jdel (n_name (g_from subNodeConnection)) rd) subNodeConnections newRunData))"

definition cleanRunData :: "IRunData \<Rightarrow> DirectedGraph \<Rightarrow> INode list \<Rightarrow> IRunData res" where
  "cleanRunData runData graph nodesToClean =
     rbind (rfold (\<lambda>nodeToClean newRunData.
         let newRunData = jdel (n_name nodeToClean) newRunData
         in rbind (getChildren graph nodeToClean) (\<lambda>children.
           rfold (\<lambda>node rd. cleanSubNodes graph node (jdel (n_name node) rd)) (nodeToClean # children) newRunData))
       nodesToClean runData)
     (\<lambda>newRunData. Inr (fold (\<lambda>nodeName rd. if \<not> hasNode graph nodeName then jdel nodeName rd else rd)
       (own_keys newRunData) newRunData))"

subsection \<open>Start nodes\<close>

definition isDirty :: "INode \<Rightarrow> IRunData \<Rightarrow> IPinData \<Rightarrow> bool" where
  "isDirty node runData pinData =
     (if jget pinData (n_name node) \<noteq> None then False
      else if jget runData (n_name node) \<noteq> None then False
      else True)"

text \<open>
  \<open>startNodes\<close> is one set for the whole search, \<open>seen\<close> a copy per branch.  The loop over the outgoing
  connections is \<open>startLoop\<close>, with the recursive call inlined as \<open>startNode\<close>.
\<close>

definition splitInBatches :: string where
  "splitInBatches = ''n8n-nodes-base.splitInBatches''"

definition loopUnfinished :: "IRunData \<Rightarrow> INode \<Rightarrow> bool res" where
  "loopUnfinished runData current =
     (if n_type current = splitInBatches then
        rbind (getIncomingData runData (n_name current) (-1) Main 0) (\<lambda>nodeRunData.
          Inr (nodeRunData = None \<or> nodeRunData = Some []))
      else Inr False)"

definition hasOutput :: "IRunData \<Rightarrow> IPinData \<Rightarrow> GraphConnection \<Rightarrow> bool res" where
  "hasOutput runData pinData c =
     rbind (getIncomingDataFromAnyRun runData (n_name (g_from c)) (g_type c) (g_outputIndex c)) (\<lambda>nodeRunData.
       let hasNoRunData = (case nodeRunData of None \<Rightarrow> True | Some (data, _) \<Rightarrow> data = []);
           hasNoPinnedData = (jget pinData (n_name (g_from c)) = None)
       in Inr (\<not> (hasNoRunData \<and> hasNoPinnedData)))"

function findStartNodesRecursive :: "DirectedGraph \<Rightarrow> INode \<Rightarrow> INode \<Rightarrow> IRunData \<Rightarrow> IPinData \<Rightarrow> INode list \<Rightarrow> INode list
    \<Rightarrow> INode list res" where
  "findStartNodesRecursive graph current destination runData pinData startNodes seen =
     (if isDirty current runData pinData then Inr (sadd current startNodes)
      else if current = destination then Inr (sadd current startNodes)
      else rbind (loopUnfinished runData current) (\<lambda>unfinished.
        if unfinished then Inr (sadd current startNodes)
        else if current \<in> set seen then Inr startNodes
        else rbind (getDirectChildConnections graph current) (\<lambda>outGoingConnections.
          rfold (\<lambda>outGoingConnection startNodes.
            rbind (hasOutput runData pinData outGoingConnection) (\<lambda>follow.
              if \<not> follow then Inr startNodes
              else findStartNodesRecursive graph (g_to outGoingConnection) destination runData pinData startNodes
                (sadd current seen))) outGoingConnections startNodes)))"
  by pat_completeness auto

termination findStartNodesRecursive
proof (relation "measure (\<lambda>(graph, current, destination, runData, pinData, startNodes, seen).
    card (graph_nodes graph - set seen))", goal_cases)
  case 1
  show ?case by simp
next
  case (2 graph current destination runData pinData startNodes seen)
  then have "nodeExists graph current"
    by (auto simp: getDirectChildConnections_def split: if_splits)
  then have "current \<in> graph_nodes graph" by (auto simp: nodeExists_def dest!: jget_in_set intro: rev_image_eqI)
  then have "graph_nodes graph - set (sadd current seen) \<subset> graph_nodes graph - set seen"
    using 2 by auto
  then show ?case by (simp add: psubset_card_mono)
qed

definition findStartNodes :: "DirectedGraph \<Rightarrow> INode \<Rightarrow> INode \<Rightarrow> IPinData \<Rightarrow> IRunData \<Rightarrow> INode list res" where
  "findStartNodes graph trigger destination pinData runData =
     findStartNodesRecursive graph trigger destination runData pinData [] []"

declare findStartNodesRecursive.simps [simp del]

subsection \<open>The trigger of a partial execution\<close>

definition isTriggerNode :: "INodeType option \<Rightarrow> bool res" where
  "isTriggerNode nodeType = (case nodeType of None \<Rightarrow> Inl TypeError
     | Some nt \<Rightarrow> Inr (''trigger'' \<in> set (nt_group nt)))"

definition findAllParentTriggers :: "INodeTypes \<Rightarrow> Workflow \<Rightarrow> string \<Rightarrow> INode list res" where
  "findAllParentTriggers nodeTypes workflow destinationNodeName =
     rbind (rfold (\<lambda>name nodes. case getNode workflow name of None \<Rightarrow> Inl (AssertionError ''node'')
         | Some node \<Rightarrow> Inr (nodes @ [node]))
       (getParentNodes (w_connectionsByDestinationNode workflow) destinationNodeName (SelType Main) (-1)) [])
     (\<lambda>nodes. rfold (\<lambda>node kept. rbind (isTriggerNode (nodeTypes (n_type node) (n_typeVersion node))) (\<lambda>isTrigger.
         Inr (if isTrigger then kept @ [node] else kept))) nodes [])"

text \<open>
  The comparison function of the sort is not a consistent order; the result is the one the comment
  describes, webhooks first and in reverse order.
\<close>

definition webhooksFirst :: "INode list \<Rightarrow> INode list" where
  "webhooksFirst triggers = rev (filter (\<lambda>t. ends_with ''webhook'' (n_type t)) triggers)
     @ filter (\<lambda>t. \<not> ends_with ''webhook'' (n_type t)) triggers"

definition findTriggerForPartialExecution :: "INodeTypes \<Rightarrow> Workflow \<Rightarrow> string \<Rightarrow> IRunData \<Rightarrow> INode option res" where
  "findTriggerForPartialExecution nodeTypes workflow destinationNodeName runData =
     (case getNode workflow destinationNodeName of None \<Rightarrow> Inr None
      | Some destinationNode \<Rightarrow>
        rbind (isTriggerNode (nodeTypes (n_type destinationNode) (n_typeVersion destinationNode))) (\<lambda>isTrigger.
          if isTrigger \<and> \<not> is_disabled destinationNode then Inr (Some destinationNode)
          else rbind (findAllParentTriggers nodeTypes workflow destinationNodeName) (\<lambda>parents.
            let parentTriggers = filter (\<lambda>trigger. \<not> is_disabled trigger) parents
            in case find (\<lambda>trigger. jget runData (n_name trigger) \<noteq> None) parentTriggers of
              Some trigger \<Rightarrow> Inr (Some trigger)
            | None \<Rightarrow>
              let pinnedTriggers = webhooksFirst (filter (\<lambda>trigger. getPinDataOfNode workflow (n_name trigger) \<noteq> None) parentTriggers)
              in if pinnedTriggers \<noteq> [] then Inr (Some (hd pinnedTriggers))
              else let webhookTriggers = filter (\<lambda>trigger. ends_with ''webhook'' (n_type trigger)) parentTriggers
                in Inr (if webhookTriggers \<noteq> [] then Some (hd webhookTriggers) else arr_get parentTriggers 0))))"

subsection \<open>The next execution index is fresh\<close>

definition used_indices :: "IRunData \<Rightarrow> nat set" where
  "used_indices runData = {i. \<exists>(name, runs) \<in> set runData. \<exists>t \<in> set runs. t_executionIndex t = Some i}"

lemma foldl_max: "foldl max (a :: nat) xs = Max (insert a (set xs))"
proof (induction xs arbitrary: a)
  case (Cons x xs)
  then show ?case by (cases "xs = []") (simp_all add: max.assoc)
qed simp

lemma set_map_filter: "set (List.map_filter f xs) = {y. \<exists>x \<in> set xs. f x = Some y}"
  by (induction xs) (auto simp: List.map_filter_def split: option.splits)

text \<open>the next execution index is 0 without earlier indices, and one more than the largest otherwise.\<close>

theorem getNextExecutionIndex_fresh:
  "getNextExecutionIndex runData = (if used_indices runData = {} then 0 else Suc (Max (used_indices runData)))"
proof -
  let ?is = "List.map_filter t_executionIndex (concat (own_vals runData))"
  have s: "set ?is = used_indices runData"
    by (force simp: set_map_filter used_indices_def)
  then have e: "used_indices runData = {} \<longleftrightarrow> ?is = []" by (metis set_empty)
  have fin: "finite (used_indices runData)" using s by (metis finite_set)
  have "Max (insert 0 (used_indices runData)) = Max (used_indices runData)" if "used_indices runData \<noteq> {}"
    using Max_insert [OF fin that, of 0] by simp
  then show ?thesis using e by (auto simp: getNextExecutionIndex_def foldl_max s used_indices_def)
qed

subsection \<open>What cleaning removes\<close>

lemma rfold_Un:
  assumes "rfold f xs s = Inr r" and "\<And>x s s'. x \<in> set xs \<Longrightarrow> f x s = Inr s' \<Longrightarrow> A s' = A s \<union> F x"
  shows "A r = A s \<union> (\<Union>x \<in> set xs. F x)"
  using assms
proof (induction xs arbitrary: s)
  case (Cons x xs)
  then obtain s1 where s1: "f x s = Inr s1" "rfold f xs s1 = Inr r" by (auto simp: rbind_Inr_iff)
  have "A r = A s1 \<union> (\<Union>x \<in> set xs. F x)" by (rule Cons.IH [OF s1(2)]) (use Cons.prems(2) in simp)
  moreover have "A s1 = A s \<union> F x" by (rule Cons.prems(2) [OF _ s1(1)]) simp
  ultimately show ?case by auto
qed simp

lemma rfold_total:
  assumes "\<And>x s. x \<in> set xs \<Longrightarrow> \<exists>s'. f x s = Inr s'"
  shows "\<exists>r. rfold f xs s = Inr r"
  using assms
proof (induction xs arbitrary: s)
  case (Cons x xs)
  obtain s1 where "f x s = Inr s1" using Cons.prems [of x s] by auto
  then show ?case using Cons.IH [of s1] Cons.prems by simp
qed simp

text \<open>Removing the names of a set from run data.\<close>

definition without :: "string set \<Rightarrow> IRunData \<Rightarrow> IRunData" where
  "without N rd = filter (\<lambda>(name, _). name \<notin> N) rd"

lemma jdel_without: "jdel n (without N rd) = without (insert n N) rd"
  by (induction rd) (auto simp: without_def)

lemma without_empty [simp]: "without {} rd = rd"
  by (simp add: without_def)

lemma jget_without: "jget (without N rd) n = (if n \<in> N then None else jget rd n)"
  by (induction rd) (auto simp: without_def)

lemma keys_without: "fst ` set (without N rd) = fst ` set rd - N"
  by (force simp: without_def)

lemma fold_without:
  "fold (\<lambda>x rd. if P x then rd else jdel (f x) rd) xs (without N rd) = without (N \<union> f ` {x \<in> set xs. \<not> P x}) rd"
proof (induction xs arbitrary: N)
  case (Cons x xs)
  have "insert (f x) N \<union> f ` {y \<in> set xs. \<not> P y} = N \<union> f ` {y \<in> set (x # xs). \<not> P y}" if "\<not> P x" using that by auto
  moreover have "{y \<in> set xs. \<not> P y} = {y \<in> set (x # xs). \<not> P y}" if "P x" using that by auto
  ultimately show ?case using Cons.IH by (cases "P x") (simp_all add: jdel_without)
qed simp

lemma if_not_swap: "(if \<not> b then x else y) = (if b then y else x)"
  by simp

lemma jget_without_outside:
  "jget (without (N \<union> (\<lambda>x. x) ` {x \<in> set (own_keys (without N rd)). \<not> P x}) rd) name =
     (if P name \<and> name \<notin> N then jget rd name else None)"
proof (cases "name \<in> fst ` set rd")
  case False
  then have "jget rd name = None" by (simp add: map_of_eq_None_iff)
  then show ?thesis by (simp add: jget_without)
qed (auto simp: jget_without keys_without)

text \<open>A loop that keeps removing names that depend on the element only.\<close>

lemma rfold_without:
  assumes "\<And>x N. x \<in> set xs \<Longrightarrow> f x (without N rd) = Inr (without (N \<union> F x) rd)"
  shows "rfold f xs (without N rd) = Inr (without (N \<union> (\<Union>x \<in> set xs. F x)) rd)"
  using assms
proof (induction xs arbitrary: N)
  case (Cons x xs)
  have "f x (without N rd) = Inr (without (N \<union> F x) rd)" by (rule Cons.prems) simp
  moreover have "rfold f xs (without (N \<union> F x) rd) = Inr (without (N \<union> F x \<union> (\<Union>x \<in> set xs. F x)) rd)"
    by (rule Cons.IH) (rule Cons.prems, simp)
  ultimately show ?case by (simp add: Un_assoc)
qed simp

text \<open>The names cleaned for a node: itself and the nodes that lead to it over a final connection that is not \<open>Main\<close>.\<close>

definition cleaned_with :: "DirectedGraph \<Rightarrow> INode \<Rightarrow> string set" where
  "cleaned_with g m = insert (n_name m)
     {n_name (g_from c) | c. c \<in> graph_conns g \<and> g_type c \<noteq> Main \<and> (g_to c, m) \<in> (child_rel g)\<^sup>*}"

lemma rtrancl_nodeExists:
  assumes "graph_wf g" and "(n, m) \<in> (child_rel g)\<^sup>*" and "nodeExists g n"
  shows "nodeExists g m"
  using assms(2,3)
proof (induction rule: rtrancl_induct)
  case (step y z)
  then obtain c where "c \<in> graph_conns g" "z = g_to c" by (auto simp: edge_rel_def simp del: set_jvals)
  then show ?case using graph_wf_conn(2) [OF assms(1)] by blast
qed

lemma cleanSubNodes_without:
  assumes "graph_wf g" and "nodeExists g m"
  shows "cleanSubNodes g m (jdel (n_name m) (without N rd)) = Inr (without (N \<union> cleaned_with g m) rd)"
proof -
  obtain cs where cs: "getParentConnections g m = Inr cs" "distinct cs"
      "set cs = {c \<in> graph_conns g. (g_to c, m) \<in> (child_rel g)\<^sup>*}"
    by (rule getParentConnections_spec [OF assms])
  have "insert (n_name m) N \<union> (\<lambda>c. n_name (g_from c)) ` {c \<in> set cs. g_type c \<noteq> Main} = N \<union> cleaned_with g m"
  proof -
    have "insert a N \<union> f ` {c \<in> {c \<in> G. R c}. P c} = N \<union> insert a {f c | c. c \<in> G \<and> P c \<and> R c}"
      for a :: string and f P R and G :: "GraphConnection set" by auto
    then show ?thesis unfolding cs(3) cleaned_with_def .
  qed
  then show ?thesis by (simp only: cleanSubNodes_def cs(1) rbind_simps jdel_without fold_without)
qed

text \<open>
  C32: cleaning removes the run data of the given nodes and of everything downstream of them; of every node that
  has a connection other than \<open>Main\<close> from which connections of any type lead to one of these nodes, so also of the
  sub nodes of nodes upstream; and of nodes outside the graph.  It keeps all other run data.
\<close>

theorem cleanRunData_removes:
  assumes "graph_wf g" and "\<forall>n \<in> set nodesToClean. nodeExists g n"
  shows "\<exists>rd'. cleanRunData rd g nodesToClean = Inr rd' \<and> (\<forall>name. jget rd' name =
    (if hasNode g name \<and> (\<nexists>n m. n \<in> set nodesToClean \<and> (n, m) \<in> (child_rel g)\<^sup>* \<and> name \<in> cleaned_with g m)
     then jget rd name else None))"
proof -
  let ?clean = "\<lambda>n. \<Union>m \<in> {m. (n, m) \<in> (child_rel g)\<^sup>*}. cleaned_with g m"
  have one: "(let newRunData = jdel (n_name n) (without N rd) in rbind (getChildren g n) (\<lambda>children.
      rfold (\<lambda>node rd. cleanSubNodes g node (jdel (n_name node) rd)) (n # children) newRunData))
      = Inr (without (N \<union> ?clean n) rd)" if n: "n \<in> set nodesToClean" for n N
  proof -
    have ex: "nodeExists g n" using n assms(2) by blast
    obtain cs where cs: "getChildren g n = Inr cs" "distinct cs" "set cs = {m. (n, m) \<in> (child_rel g)\<^sup>+}"
      by (rule getChildren_spec [OF assms(1) ex])
    have all: "set (n # cs) = {m. (n, m) \<in> (child_rel g)\<^sup>*}" using cs(3) by (auto simp: rtrancl_eq_or_trancl)
    have "nodeExists g m" if "m \<in> set (n # cs)" for m
      using that ex rtrancl_nodeExists [OF assms(1)] unfolding all by blast
    then have "rfold (\<lambda>node rd. cleanSubNodes g node (jdel (n_name node) rd)) (n # cs) (without (insert (n_name n) N) rd)
        = Inr (without (insert (n_name n) N \<union> (\<Union>m \<in> set (n # cs). cleaned_with g m)) rd)"
      by (intro rfold_without cleanSubNodes_without [OF assms(1)])
    moreover have "insert (n_name n) N \<union> (\<Union>m \<in> set (n # cs). cleaned_with g m) = N \<union> ?clean n"
      unfolding all by (auto simp: cleaned_with_def)
    ultimately show ?thesis by (simp only: Let_def cs(1) rbind_simps jdel_without)
  qed
  let ?N = "\<Union>n \<in> set nodesToClean. ?clean n"
  have "cleanRunData rd g nodesToClean = Inr (fold (\<lambda>nodeName rd. if \<not> hasNode g nodeName then jdel nodeName rd else rd)
      (own_keys (without ?N rd)) (without ?N rd))"
    using rfold_without [of nodesToClean _ rd ?clean "{}", OF one] by (simp add: cleanRunData_def Let_def)
  also have "\<dots> = Inr (without (?N \<union> (\<lambda>x. x) ` {x \<in> set (own_keys (without ?N rd)). \<not> hasNode g x}) rd)"
    by (simp only: if_not_swap fold_without)
  finally have run: "cleanRunData rd g nodesToClean
      = Inr (without (?N \<union> (\<lambda>x. x) ` {x \<in> set (own_keys (without ?N rd)). \<not> hasNode g x}) rd)" .
  have mem: "name \<in> ?N \<longleftrightarrow> (\<exists>n m. n \<in> set nodesToClean \<and> (n, m) \<in> (child_rel g)\<^sup>* \<and> name \<in> cleaned_with g m)" for name
    by auto
  show ?thesis by (intro exI conjI, rule run) (simp only: jget_without_outside mem simp_thms)
qed

text \<open>A tool of an agent that is upstream of another agent.\<close>

definition agents_graph :: DirectedGraph where
  "agents_graph = (let R = mk_node 0 ''R''; A = mk_node 1 ''A''; B = mk_node 2 ''B''; T = mk_node 3 ''T'' in
     graph_of [R, A, B, T] [main_conn R A, main_conn A B, (main_conn T A)\<lparr>g_type := AiTool\<rparr>])"

lemma agents_graph_wf: "graph_wf agents_graph"
  by code_simp

lemma agents_graph_nodes:
  "nodeExists agents_graph (mk_node 0 ''R'')" "nodeExists agents_graph (mk_node 2 ''B'')"
  by code_simp+

definition agents_cleaned :: IRunData where
  "agents_cleaned = (case cleanRunData [(''R'', []), (''A'', []), (''B'', []), (''T'', []), (''Z'', [])] agents_graph [mk_node 2 ''B''] of
     Inr rd \<Rightarrow> rd | Inl e \<Rightarrow> [])"

text \<open>Cleaning the second agent also removes the run data of the first agent's tool.\<close>

lemma agents_cleaned_value: "agents_cleaned = [(''R'', []), (''A'', [])]"
  by code_simp

theorem cleanRunData_removes_witness:
  "\<not> (\<exists>n m. n \<in> set [mk_node 2 ''B''] \<and> (n, m) \<in> (child_rel agents_graph)\<^sup>* \<and> ''A'' \<in> cleaned_with agents_graph m)
    \<and> (\<exists>n m. n \<in> set [mk_node 2 ''B''] \<and> (n, m) \<in> (child_rel agents_graph)\<^sup>* \<and> ''T'' \<in> cleaned_with agents_graph m)"
proof -
  let ?rd = "[(''R'', []), (''A'', []), (''B'', []), (''T'', []), (''Z'', [])] :: IRunData"
  have run: "cleanRunData ?rd agents_graph [mk_node 2 ''B''] = Inr agents_cleaned" by code_simp
  have "\<forall>n \<in> set [mk_node 2 ''B'']. nodeExists agents_graph n" by (simp only: list.set ball_simps simp_thms agents_graph_nodes)
  from cleanRunData_removes [OF agents_graph_wf this, of ?rd] run
  have all: "jget agents_cleaned name = (if hasNode agents_graph name
      \<and> (\<nexists>n m. n \<in> set [mk_node 2 ''B''] \<and> (n, m) \<in> (child_rel agents_graph)\<^sup>* \<and> name \<in> cleaned_with agents_graph m)
      then jget ?rd name else None)" for name by auto
  have "hasNode agents_graph ''T''" by code_simp
  then show ?thesis using all [of "''A''"] all [of "''T''"] unfolding agents_cleaned_value
    by (auto split: if_splits)
qed

subsection \<open>Which start nodes are found\<close>

text \<open>A node at which a branch of the search ends with a start node.\<close>

definition is_start :: "INode \<Rightarrow> IRunData \<Rightarrow> IPinData \<Rightarrow> INode \<Rightarrow> bool" where
  "is_start destination runData pinData n \<longleftrightarrow>
     isDirty n runData pinData \<or> n = destination \<or> loopUnfinished runData n = Inr True"

text \<open>The connections the search follows: from nodes that end no branch, over outputs with data.\<close>

definition followed :: "DirectedGraph \<Rightarrow> INode \<Rightarrow> IRunData \<Rightarrow> IPinData \<Rightarrow> (INode \<times> INode) set" where
  "followed g destination runData pinData = {(g_from c, g_to c) | c. c \<in> graph_conns g
     \<and> \<not> is_start destination runData pinData (g_from c) \<and> hasOutput runData pinData c = Inr True}"

text \<open>
  Run data that the search can read: every run with data has an entry for the types of the connections that leave
  its node, and the runs of a loop node have one for \<open>Main\<close>.
\<close>

definition has_outputs :: "DirectedGraph \<Rightarrow> IRunData \<Rightarrow> bool" where
  "has_outputs g runData \<longleftrightarrow> (\<forall>(name, runs) \<in> set runData. \<forall>t \<in> set runs. \<forall>data. t_data t = Some data \<longrightarrow>
     (\<forall>c \<in> graph_conns g. n_name (g_from c) = name \<longrightarrow> jget data (g_type c) \<noteq> None)
     \<and> (\<forall>n \<in> graph_nodes g. n_name n = name \<longrightarrow> n_type n = splitInBatches \<longrightarrow> jget data Main \<noteq> None))"

lemma js_at_in_set: "js_at xs i = Some x \<Longrightarrow> x \<in> set xs"
  by (auto simp: js_at_def Let_def split: if_splits)

lemma getIncomingData_total:
  assumes "\<And>runs t data. jget rd name = Some runs \<Longrightarrow> t \<in> set runs \<Longrightarrow> t_data t = Some data \<Longrightarrow> jget data ty \<noteq> None"
  shows "\<exists>r. getIncomingData rd name i ty j = Inr r"
proof -
  have "jget data ty \<noteq> None" if "jget rd name = Some runs" "js_at runs i = Some t" "t_data t = Some data" for runs t data
    using assms that js_at_in_set by fast
  then show ?thesis by (fastforce simp: getIncomingData_def split: option.split)
qed

lemma anyRunLoop_total:
  assumes "\<And>i. \<exists>r. getIncomingData rd name (int i) ty (int j) = Inr r"
  shows "\<exists>r. anyRunLoop rd name ty j is = Inr r"
proof (induction "is")
  case (Cons i "is")
  obtain r where "getIncomingData rd name (int i) ty (int j) = Inr r" using assms by blast
  then show ?case using Cons by (auto split: option.split list.split)
qed simp

lemma has_outputsD:
  assumes "has_outputs g rd" and "jget rd name = Some runs" and "t \<in> set runs" and "t_data t = Some data"
  shows "n \<in> graph_nodes g \<Longrightarrow> n_name n = name \<Longrightarrow> n_type n = splitInBatches \<Longrightarrow> jget data Main \<noteq> None"
    and "c \<in> graph_conns g \<Longrightarrow> n_name (g_from c) = name \<Longrightarrow> jget data (g_type c) \<noteq> None"
  using assms jget_in_set [OF assms(2)] unfolding has_outputs_def by (fast, fast)

lemma loopUnfinished_total:
  assumes "has_outputs g rd" and "n \<in> graph_nodes g"
  shows "\<exists>b. loopUnfinished rd n = Inr b"
proof (cases "n_type n = splitInBatches")
  case True
  obtain r where "getIncomingData rd (n_name n) (-1) Main 0 = Inr r"
    using getIncomingData_total has_outputsD(1) [OF assms(1) _ _ _ assms(2) refl True] by metis
  then show ?thesis by (auto simp: loopUnfinished_def)
qed (auto simp: loopUnfinished_def intro: exI [of _ False])

lemma hasOutput_total:
  assumes "has_outputs g rd" and "c \<in> graph_conns g"
  shows "\<exists>b. hasOutput rd pin c = Inr b"
proof -
  have "\<exists>r. getIncomingData rd (n_name (g_from c)) (int i) (g_type c) (int (g_outputIndex c)) = Inr r" for i
    by (rule getIncomingData_total) (use has_outputsD(2) [OF assms(1) _ _ _ assms(2) refl] in blast)
  then obtain r where "getIncomingDataFromAnyRun rd (n_name (g_from c)) (g_type c) (g_outputIndex c) = Inr r"
    unfolding getIncomingDataFromAnyRun_def using anyRunLoop_total by blast
  then show ?thesis by (simp add: hasOutput_def Let_def)
qed

lemma findStartNodesRecursive_total:
  assumes "graph_wf g" and "has_outputs g rd" and "nodeExists g cur"
  shows "\<exists>r. findStartNodesRecursive g cur dest rd pin S seen = Inr r"
  using assms(3)
proof (induction "card (graph_nodes g - set seen)" arbitrary: cur S seen rule: less_induct)
  case less
  have node: "cur \<in> graph_nodes g" using graph_wf_node [OF assms(1)] less.prems by blast
  obtain b where b: "loopUnfinished rd cur = Inr b" using loopUnfinished_total [OF assms(2) node] by blast
  let ?cs = "filter (\<lambda>c. g_from c = cur) (jvals (dg_connections g))"
  show ?case
  proof (cases "isDirty cur rd pin \<or> cur = dest \<or> b \<or> cur \<in> set seen")
    case False
    have "cur \<in> graph_nodes g" using graph_wf_node [OF assms(1)] less.prems by blast
    then have small: "card (graph_nodes g - set (sadd cur seen)) < card (graph_nodes g - set seen)"
      using False by (intro psubset_card_mono) auto
    have "\<exists>r. rfold (\<lambda>c S. rbind (hasOutput rd pin c) (\<lambda>follow. if \<not> follow then Inr S
        else findStartNodesRecursive g (g_to c) dest rd pin S (sadd cur seen))) ?cs S = Inr r"
    proof (rule rfold_total)
      fix c S assume "c \<in> set ?cs"
      then have c: "c \<in> graph_conns g" by simp
      obtain h where h: "hasOutput rd pin c = Inr h" using hasOutput_total [OF assms(2) c] by blast
      obtain r where "findStartNodesRecursive g (g_to c) dest rd pin S (sadd cur seen) = Inr r"
        using less.hyps [OF small graph_wf_conn(2) [OF assms(1) c]] by blast
      then show "\<exists>s'. rbind (hasOutput rd pin c) (\<lambda>follow. if \<not> follow then Inr S
        else findStartNodesRecursive g (g_to c) dest rd pin S (sadd cur seen)) = Inr s'" using h by simp
    qed
    then show ?thesis
      using False b by (subst findStartNodesRecursive.simps) (simp add: directChildren_wf [OF less.prems])
  qed (subst findStartNodesRecursive.simps, auto simp: b)
qed

lemma findStartNodesRecursive_result:
  assumes "findStartNodesRecursive g cur dest rd pin S seen = Inr r"
    and "\<forall>n \<in> set seen. \<not> is_start dest rd pin n"
  shows "set r = set S \<union> (if cur \<in> set seen then {}
    else {n. is_start dest rd pin n \<and> (cur, n) \<in> (avoiding (followed g dest rd pin) (set seen))\<^sup>*})"
  using assms
proof (induction "card (graph_nodes g - set seen)" arbitrary: cur S seen r rule: less_induct)
  case less
  let ?st = "is_start dest rd pin" and ?E = "followed g dest rd pin"
  let ?cs = "filter (\<lambda>c. g_from c = cur) (jvals (dg_connections g))"
  let ?body = "\<lambda>c S. rbind (hasOutput rd pin c) (\<lambda>follow. if \<not> follow then Inr S
        else findStartNodesRecursive g (g_to c) dest rd pin S (sadd cur seen))"
  show ?case
  proof (cases "?st cur")
    case True
    then have "r = sadd cur S" "cur \<notin> set seen"
      using less.prems by (auto simp: findStartNodesRecursive.simps [of g cur] is_start_def split: if_splits)
    moreover have "n = cur" if "(cur, n) \<in> (avoiding ?E (set seen))\<^sup>*" for n
      using that
    proof (cases rule: converse_rtranclE)
      case (step z)
      then show ?thesis using True by (auto simp: followed_def)
    qed simp
    ultimately show ?thesis using True by auto
  next
    case False
    then have nd: "\<not> isDirty cur rd pin" "cur \<noteq> dest" "loopUnfinished rd cur \<noteq> Inr True" by (auto simp: is_start_def)
    show ?thesis
    proof (cases "cur \<in> set seen")
      case True
      then show ?thesis
        using less.prems(1) nd by (auto simp: findStartNodesRecursive.simps [of g cur] rbind_Inr_iff)
    next
      case new: False
      have ex: "nodeExists g cur" and run: "rfold ?body ?cs S = Inr r"
        using less.prems(1) nd new
        by (auto simp: findStartNodesRecursive.simps [of g cur] rbind_Inr_iff getDirectChildConnections_def split: if_splits)
      have "cur \<in> graph_nodes g" using ex by (auto simp: nodeExists_def dest!: jget_in_set intro: rev_image_eqI)
      then have small: "card (graph_nodes g - set (sadd cur seen)) < card (graph_nodes g - set seen)"
        using new by (intro psubset_card_mono) auto
      let ?F = "\<lambda>c. if hasOutput rd pin c = Inr True \<and> g_to c \<notin> set (sadd cur seen)
        then {n. ?st n \<and> (g_to c, n) \<in> (avoiding ?E (set (sadd cur seen)))\<^sup>*} else {}"
      have "set r = set S \<union> (\<Union>c \<in> set ?cs. ?F c)"
      proof (rule rfold_Un [OF run])
        fix c S s' assume "?body c S = Inr s'"
        then show "set s' = set S \<union> ?F c"
        proof -
          obtain h where h: "hasOutput rd pin c = Inr h"
              "(if \<not> h then Inr S else findStartNodesRecursive g (g_to c) dest rd pin S (sadd cur seen)) = Inr s'"
            using \<open>?body c S = Inr s'\<close> by (auto simp: rbind_Inr_iff)
          have none: "\<forall>n \<in> set (sadd cur seen). \<not> ?st n" using less.prems(2) False by simp
          show ?thesis
          proof (cases h)
            case True
            then have "findStartNodesRecursive g (g_to c) dest rd pin S (sadd cur seen) = Inr s'" using h(2) by simp
            from less.hyps [OF small this none] show ?thesis using h(1) True by simp
          qed (use h in simp)
        qed
      qed
      also have "(\<Union>c \<in> set ?cs. ?F c) = {n. ?st n \<and> (\<exists>z. (cur, z) \<in> ?E \<and> z \<notin> insert cur (set seen)
          \<and> (z, n) \<in> (avoiding ?E (insert cur (set seen)))\<^sup>*)}"
      proof -
        have e: "(cur, z) \<in> ?E \<longleftrightarrow> (\<exists>c \<in> set ?cs. hasOutput rd pin c = Inr True \<and> g_to c = z)" for z
          using False by (auto simp: followed_def simp del: set_jvals)
        show ?thesis unfolding e set_sadd by (rule set_eqI) (simp del: set_filter split: if_split cong: conj_cong, blast)
      qed
      also have "\<dots> = {n. ?st n \<and> (cur, n) \<in> (avoiding ?E (set seen))\<^sup>*}"
      proof (rule Collect_cong)
        fix n
        show "?st n \<and> (\<exists>z. (cur, z) \<in> ?E \<and> z \<notin> insert cur (set seen) \<and> (z, n) \<in> (avoiding ?E (insert cur (set seen)))\<^sup>*)
            \<longleftrightarrow> ?st n \<and> (cur, n) \<in> (avoiding ?E (set seen))\<^sup>*"
          unfolding rtrancl_avoiding_split [of cur n ?E "set seen"] using False by auto
      qed
      finally show ?thesis using new by simp
    qed
  qed
qed

text \<open>
  C33: from an existing trigger, when the run data has entries for the connections that leave its nodes, the
  search returns exactly the nodes that end a branch -- dirty, the destination, or a loop node without data on its
  first output -- and that are reached over outputs with data through nodes that end no branch.
\<close>

theorem findStartNodes_earliest:
  assumes "graph_wf g" and "nodeExists g trigger" and "has_outputs g runData"
  shows "\<exists>S. findStartNodes g trigger destination pinData runData = Inr S
    \<and> set S = {n. is_start destination runData pinData n \<and> (trigger, n) \<in> (followed g destination runData pinData)\<^sup>*}"
proof -
  obtain S where S: "findStartNodesRecursive g trigger destination runData pinData [] [] = Inr S"
    using findStartNodesRecursive_total [OF assms(1,3,2)] by blast
  then show ?thesis
    using findStartNodesRecursive_result [OF S] by (simp add: findStartNodes_def)
qed

text \<open>The trigger, the agent and its tool have run; the tool has data on its own output type only.\<close>

definition ran :: "NodeConnectionType \<Rightarrow> ITaskData list" where
  "ran type = [\<lparr>t_executionIndex = Some 0, t_source = [], t_executionStatus = None, t_data = Some [(type, [Some [item_of []]])],
     t_inputOverride = None, t_error = None, t_metadata = None, t_hints = []\<rparr>]"

definition agents_run :: IRunData where
  "agents_run = [(''R'', ran Main), (''T'', ran AiTool), (''A'', ran Main)]"

theorem findStartNodes_earliest_witness:
  "{n. is_start (mk_node 2 ''B'') agents_run [] n
      \<and> (mk_node 0 ''R'', n) \<in> (followed agents_graph (mk_node 2 ''B'') agents_run [])\<^sup>*} = {mk_node 2 ''B''}"
proof -
  have conns: "graph_conns agents_graph = {main_conn (mk_node 0 ''R'') (mk_node 1 ''A''), main_conn (mk_node 1 ''A'') (mk_node 2 ''B''),
      (main_conn (mk_node 3 ''T'') (mk_node 1 ''A''))\<lparr>g_type := AiTool\<rparr>}" by code_simp
  have nodes: "\<forall>n \<in> graph_nodes agents_graph. n_type n \<noteq> splitInBatches" by code_simp
  have "has_outputs agents_graph agents_run"
    using nodes unfolding has_outputs_def conns agents_run_def ran_def by (simp add: main_conn_def del: set_jvals)
  from findStartNodes_earliest [OF agents_graph_wf agents_graph_nodes(1) this, of "mk_node 2 ''B''" "[]"]
  obtain S where S: "findStartNodes agents_graph (mk_node 0 ''R'') (mk_node 2 ''B'') [] agents_run = Inr S"
      "set S = {n. is_start (mk_node 2 ''B'') agents_run [] n
      \<and> (mk_node 0 ''R'', n) \<in> (followed agents_graph (mk_node 2 ''B'') agents_run [])\<^sup>*}" by blast
  have "findStartNodes agents_graph (mk_node 0 ''R'') (mk_node 2 ''B'') [] agents_run = Inr [mk_node 2 ''B'']" by code_simp
  then show ?thesis using S by simp
qed

subsection \<open>Which trigger is chosen\<close>

definition upstream :: "Workflow \<Rightarrow> string \<Rightarrow> INode set" where
  "upstream w n = {t. \<exists>name. name \<in> set (getParentNodes (w_connectionsByDestinationNode w) n (SelType Main) (-1))
     \<and> getNode w name = Some t}"

definition enabled_trigger :: "INodeTypes \<Rightarrow> INode \<Rightarrow> bool" where
  "enabled_trigger nodeTypes t \<longleftrightarrow> isTriggerNode (nodeTypes (n_type t) (n_typeVersion t)) = Inr True \<and> \<not> is_disabled t"

lemma findAllParentTriggers_set:
  assumes "findAllParentTriggers nodeTypes w n = Inr ts"
  shows "set ts = {t \<in> upstream w n. isTriggerNode (nodeTypes (n_type t) (n_typeVersion t)) = Inr True}"
proof -
  let ?names = "getParentNodes (w_connectionsByDestinationNode w) n (SelType Main) (-1)"
  obtain ns where ns: "rfold (\<lambda>name nodes. case getNode w name of None \<Rightarrow> Inl (AssertionError ''node'')
         | Some node \<Rightarrow> Inr (nodes @ [node])) ?names [] = Inr ns"
      "rfold (\<lambda>node kept. rbind (isTriggerNode (nodeTypes (n_type node) (n_typeVersion node))) (\<lambda>isTrigger.
         Inr (if isTrigger then kept @ [node] else kept))) ns [] = Inr ts"
    using assms by (auto simp: findAllParentTriggers_def rbind_Inr_iff)
  have "set ns = set [] \<union> (\<Union>name \<in> set ?names. set_option (getNode w name))"
    by (rule rfold_Un [OF ns(1)]) (auto split: option.splits)
  moreover have "set ts = set [] \<union> (\<Union>t \<in> set ns. if isTriggerNode (nodeTypes (n_type t) (n_typeVersion t)) = Inr True then {t} else {})"
    by (rule rfold_Un [OF ns(2)]) (auto simp: rbind_Inr_iff)
  ultimately show ?thesis by (auto simp: upstream_def split: if_splits)
qed

lemma set_webhooksFirst [simp]: "set (webhooksFirst ts) = set ts"
  by (auto simp: webhooksFirst_def)

lemma arr_get_0: "arr_get xs 0 = (case xs of [] \<Rightarrow> None | x # _ \<Rightarrow> Some x)"
  by (cases xs) auto

text \<open>
  an execution starts at an enabled trigger that is the destination or upstream of it, and finds no
  trigger only when there is none; a trigger with run data is preferred.
\<close>

theorem findTrigger_choice:
  "case findTriggerForPartialExecution nodeTypes w dest rd of
     Inl e \<Rightarrow> True
   | Inr None \<Rightarrow> (case getNode w dest of None \<Rightarrow> True
       | Some d \<Rightarrow> {t \<in> insert d (upstream w dest). enabled_trigger nodeTypes t} = {})
   | Inr (Some t) \<Rightarrow> (case getNode w dest of None \<Rightarrow> False
       | Some d \<Rightarrow> t \<in> insert d (upstream w dest) \<and> enabled_trigger nodeTypes t
         \<and> (t = d \<or> jhas rd (n_name t)
            \<or> {t \<in> upstream w dest. enabled_trigger nodeTypes t \<and> jhas rd (n_name t)} = {}))"
proof (cases "findTriggerForPartialExecution nodeTypes w dest rd")
  case (Inr found)
  show ?thesis
  proof (cases "getNode w dest")
    case None
    then show ?thesis by (simp add: findTriggerForPartialExecution_def)
  next
    case (Some d)
    let ?trig = "\<lambda>t. isTriggerNode (nodeTypes (n_type t) (n_typeVersion t))"
    obtain b where b: "?trig d = Inr b"
      using Inr Some by (auto simp: findTriggerForPartialExecution_def rbind_Inr_iff)
    show ?thesis
    proof (cases "b \<and> \<not> is_disabled d")
      case True
      then show ?thesis using Some b by (simp add: findTriggerForPartialExecution_def enabled_trigger_def)
    next
      case False
      then obtain ts where ts: "findAllParentTriggers nodeTypes w dest = Inr ts"
        using Inr Some b by (auto simp: findTriggerForPartialExecution_def rbind_Inr_iff)
      define ps where "ps = filter (\<lambda>trigger. \<not> is_disabled trigger) ts"
      have ps: "set ps = {t \<in> upstream w dest. enabled_trigger nodeTypes t}"
        using findAllParentTriggers_set [OF ts] by (auto simp: ps_def enabled_trigger_def)
      define pinned where "pinned = webhooksFirst (filter (\<lambda>trigger. getPinDataOfNode w (n_name trigger) \<noteq> None) ps)"
      have pinned: "set pinned \<subseteq> set ps" by (auto simp: pinned_def)
      define hooks where "hooks = filter (\<lambda>trigger. ends_with ''webhook'' (n_type trigger)) ps"
      have run: "found = (case find (\<lambda>t. jget rd (n_name t) \<noteq> None) ps of Some t \<Rightarrow> Some t
         | None \<Rightarrow> if pinned \<noteq> [] then Some (hd pinned) else if hooks \<noteq> [] then Some (hd hooks) else arr_get ps 0)"
      proof -
        have "findTriggerForPartialExecution nodeTypes w dest rd = (case find (\<lambda>t. jget rd (n_name t) \<noteq> None) ps of
            Some t \<Rightarrow> Inr (Some t)
          | None \<Rightarrow> if pinned \<noteq> [] then Inr (Some (hd pinned))
              else Inr (if hooks \<noteq> [] then Some (hd hooks) else arr_get ps 0))"
          by (simp only: findTriggerForPartialExecution_def Some option.case b rbind_simps False if_False ts Let_def
              ps_def pinned_def hooks_def)
        then show ?thesis using Inr by (auto split: option.splits if_splits)
      qed
      have d: "\<not> enabled_trigger nodeTypes d" using False b by (auto simp: enabled_trigger_def)
      show ?thesis
      proof (cases found)
        case None
        then have "ps = []" using run by (auto simp: arr_get_0 split: option.splits if_splits list.splits)
        then show ?thesis using Inr None Some ps d by auto
      next
        case (Some t)
        have "t \<in> set ps"
          using run Some pinned hd_in_set [of pinned] hd_in_set [of hooks]
          by (auto simp: arr_get_0 hooks_def find_Some_iff split: option.splits if_splits list.splits)
        moreover have "jget rd (n_name t) \<noteq> None \<or> {t \<in> set ps. jget rd (n_name t) \<noteq> None} = {}"
        proof (cases "find (\<lambda>t. jget rd (n_name t) \<noteq> None) ps")
          case None
          then show ?thesis by (auto simp: find_None_iff)
        next
          case (Some u)
          then have "jget rd (n_name u) \<noteq> None" by (auto simp: find_Some_iff)
          moreover have "u = t" using Some run \<open>found = Some t\<close> by simp
          ultimately show ?thesis by simp
        qed
        ultimately show ?thesis using Inr Some \<open>getNode w dest = Some d\<close> ps by (auto simp: jhas_def)
      qed
    qed
  qed
qed simp

end
