(* ===== verification/PartialStack.thy ===== *)
theory PartialStack
  imports PartialRunData "HOL-Library.Multiset"
begin

section \<open>The execution stack of a partial execution\<close>

text \<open>
  \<open>getSourceDataGroups\<close>, which groups the incoming connections of a start node into sets with one
  connection per input, and \<open>recreateNodeExecutionStack\<close>, which builds the stack and the waiting tables.
  \<open>localeCompare\<close> is a parameter; \<open>Array.prototype.sort\<close> is a stable sort by the comparison function.
\<close>

subsection \<open>Sorting\<close>

text \<open>A later element moves before an earlier one only if the comparison function says so.\<close>

fun insort_by :: "('a \<Rightarrow> 'a \<Rightarrow> int) \<Rightarrow> 'a \<Rightarrow> 'a list \<Rightarrow> 'a list" where
  "insort_by cmp x [] = [x]"
| "insort_by cmp x (y # ys) = (if cmp y x < 0 then y # insort_by cmp x ys else x # y # ys)"

definition js_sort :: "('a \<Rightarrow> 'a \<Rightarrow> int) \<Rightarrow> 'a list \<Rightarrow> 'a list" where
  "js_sort cmp xs = foldr (insort_by cmp) xs []"

lemma mset_insort_by [simp]: "mset (insort_by cmp x xs) = add_mset x (mset xs)"
  by (induction xs) auto

lemma mset_js_sort [simp]: "mset (js_sort cmp xs) = mset xs"
  by (induction xs) (auto simp: js_sort_def)

lemma set_js_sort [simp]: "set (js_sort cmp xs) = set xs"
  by (metis mset_js_sort set_mset_mset)

subsection \<open>Groups of source data\<close>

definition sortByInputIndexThenByName :: "(string \<Rightarrow> string \<Rightarrow> int) \<Rightarrow> GraphConnection \<Rightarrow> GraphConnection \<Rightarrow> int" where
  "sortByInputIndexThenByName localeCompare connection1 connection2 =
     (if g_inputIndex connection1 = g_inputIndex connection2
      then localeCompare (n_name (g_from connection1)) (n_name (g_from connection2))
      else g_inputIndex connection1 - g_inputIndex connection2)"

record SourceConnectionGroup =
  sg_complete :: bool
  sg_connections :: "GraphConnection list"

definition newGroup :: SourceConnectionGroup where
  "newGroup = \<lparr>sg_complete = True, sg_connections = []\<rparr>"

text \<open>\<open>Math.min(..) - 1\<close>; without connections the value is not used.\<close>

definition beforeFirst :: "GraphConnection list \<Rightarrow> int" where
  "beforeFirst cs = (case map g_inputIndex cs of [] \<Rightarrow> 0 | i # is \<Rightarrow> foldl min i is) - 1"

function groupLoop :: "GraphConnection list \<Rightarrow> GraphConnection list \<Rightarrow> int \<Rightarrow> SourceConnectionGroup
    \<Rightarrow> SourceConnectionGroup list \<Rightarrow> SourceConnectionGroup list" where
  "groupLoop withData withoutData currentInputIndex currentGroup groups =
     (if withData = [] \<and> withoutData = [] then groups @ [currentGroup]
      else case find_index (\<lambda>c. g_inputIndex c = currentInputIndex + 1) withData of
        Some k \<Rightarrow> groupLoop (splice1 k withData) withoutData (currentInputIndex + 1)
          (currentGroup\<lparr>sg_connections := sg_connections currentGroup @ [withData ! k]\<rparr>) groups
      | None \<Rightarrow> (case find_index (\<lambda>c. g_inputIndex c = currentInputIndex + 1) withoutData of
          Some k \<Rightarrow> groupLoop withData (splice1 k withoutData) (currentInputIndex + 1)
            \<lparr>sg_complete = False, sg_connections = sg_connections currentGroup @ [withoutData ! k]\<rparr> groups
        | None \<Rightarrow> groupLoop withData withoutData (beforeFirst (withData @ withoutData)) newGroup (groups @ [currentGroup])))"
  by pat_completeness auto

lemma foldl_min: "foldl min (a :: int) xs \<in> insert a (set xs)"
  by (induction xs arbitrary: a) (auto simp: min_def)

lemma beforeFirst_in:
  assumes "cs \<noteq> []"
  shows "\<exists>c \<in> set cs. g_inputIndex c = beforeFirst cs + 1"
proof -
  obtain a as where cs: "cs = a # as" using assms by (cases cs) auto
  have "foldl min (g_inputIndex a) (map g_inputIndex as) \<in> g_inputIndex ` set cs"
    using foldl_min [of "g_inputIndex a" "map g_inputIndex as"] by (auto simp: cs)
  then show ?thesis by (auto simp: beforeFirst_def cs)
qed

termination groupLoop
proof (relation "measures [\<lambda>(ws, wos, i, cur, gs). length ws + length wos,
    \<lambda>(ws, wos, i, cur, gs). if \<exists>c \<in> set (ws @ wos). g_inputIndex c = i + 1 then 0 else 1]", goal_cases)
  case (2 ws wos i cur gs)
  have "\<exists>c \<in> set (ws @ wos). g_inputIndex c = beforeFirst (ws @ wos) + 1"
    by (rule beforeFirst_in) (use 2(1) in auto)
  moreover have "\<not> (\<exists>c \<in> set (ws @ wos). g_inputIndex c = i + 1)"
    using 2(2,3) by (auto simp: find_index_None)
  ultimately show ?case by auto
next
  case (3 ws wos i cur gs k)
  then show ?case using length_splice1 [of k wos] find_index_Some [OF 3(3)] by simp
next
  case (4 ws wos i cur gs k)
  then show ?case using length_splice1 [of k ws] find_index_Some [OF 4(2)] by simp
qed simp

declare groupLoop.simps [simp del]

definition hasSourceData :: "IRunData \<Rightarrow> IPinData \<Rightarrow> GraphConnection \<Rightarrow> bool" where
  "hasSourceData runData pinnedData connection \<longleftrightarrow>
     jget runData (n_name (g_from connection)) \<noteq> None \<or> jget pinnedData (n_name (g_from connection)) \<noteq> None"

definition getSourceDataGroups :: "(string \<Rightarrow> string \<Rightarrow> int) \<Rightarrow> DirectedGraph \<Rightarrow> INode \<Rightarrow> IRunData \<Rightarrow> IPinData
    \<Rightarrow> SourceConnectionGroup list" where
  "getSourceDataGroups localeCompare graph node runData pinnedData =
     (let connections = getConnections graph (Some node);
          withData = filter (hasSourceData runData pinnedData) connections;
          withoutData = filter (\<lambda>c. \<not> hasSourceData runData pinnedData c \<and> g_type c = Main) connections
      in if withData = [] \<and> withoutData = [] then []
         else let withData = js_sort (sortByInputIndexThenByName localeCompare) withData;
                  withoutData = js_sort (sortByInputIndexThenByName localeCompare) withoutData
           in groupLoop withData withoutData (beforeFirst (withData @ withoutData)) newGroup [])"

subsection \<open>The stack and the waiting tables\<close>

text \<open>
  \<open>addWaitingExecution\<close> and \<open>addWaitingExecutionSource\<close> write one slot, creating the objects on the way.  A
  negative index would be a property of the array that nothing reads.
\<close>

definition put_index :: "'a \<Rightarrow> int \<Rightarrow> 'a \<Rightarrow> 'a list \<Rightarrow> 'a list" where
  "put_index hole i v xs = (if i < 0 then xs else arr_put hole (nat i) v xs)"

definition putSlot :: "'a \<Rightarrow> string \<Rightarrow> nat \<Rightarrow> NodeConnectionType \<Rightarrow> int \<Rightarrow> 'a
    \<Rightarrow> (string, (nat, (NodeConnectionType, 'a list) jmap) jmap) jmap
    \<Rightarrow> (string, (nat, (NodeConnectionType, 'a list) jmap) jmap) jmap" where
  "putSlot hole nodeName runIndex inputType inputIndex v waiting =
     (let waitingObject = (case jget waiting nodeName of None \<Rightarrow> [] | Some w \<Rightarrow> w);
          taskData = (case jget waitingObject runIndex of None \<Rightarrow> [] | Some t \<Rightarrow> t);
          dataList = (case jget taskData inputType of None \<Rightarrow> [] | Some l \<Rightarrow> l)
      in jput nodeName (jput runIndex (jput inputType (put_index hole inputIndex v dataList) taskData) waitingObject) waiting)"

definition addWaitingExecution :: "string \<Rightarrow> nat \<Rightarrow> NodeConnectionType \<Rightarrow> int \<Rightarrow> Items slot
    \<Rightarrow> IWaitingForExecution \<Rightarrow> IWaitingForExecution" where
  "addWaitingExecution nodeName runIndex inputType inputIndex executionData waitingExecution =
     putSlot Hole nodeName runIndex inputType inputIndex executionData waitingExecution"

definition addWaitingExecutionSource :: "string \<Rightarrow> nat \<Rightarrow> NodeConnectionType \<Rightarrow> int \<Rightarrow> ISourceData option
    \<Rightarrow> IWaitingForExecutionSource \<Rightarrow> IWaitingForExecutionSource" where
  "addWaitingExecutionSource nodeName runIndex inputType inputIndex sourceData waitingExecutionSource =
     putSlot None nodeName runIndex inputType inputIndex sourceData waitingExecutionSource"

type_synonym RecreatedStack = "IExecuteData list \<times> IWaitingForExecution \<times> IWaitingForExecutionSource"

definition executeDataOf :: "INode \<Rightarrow> Items list \<Rightarrow> ISourceData option list option \<Rightarrow> IExecuteData" where
  "executeDataOf node incomingData incomingSourceData = \<lparr>e_node = node, e_data = [(Main, map Val incomingData)],
     e_source = map_option (\<lambda>l. [(Main, l)]) incomingSourceData, e_runIndex = None, e_metadata = None\<rparr>"

text \<open>One connection of a complete group: its data, if any, and its source.\<close>

definition completeSource :: "IRunData \<Rightarrow> IPinData \<Rightarrow> GraphConnection \<Rightarrow> Items list \<times> ISourceData option list
    \<Rightarrow> (Items list \<times> ISourceData option list) res" where
  "completeSource runData pinData incomingConnection = (\<lambda>(incomingData, sources).
     let sourceName = n_name (g_from incomingConnection);
         source = (\<lambda>runIndex. Some \<lparr>previousNode = sourceName,
           previousNodeOutput = Some (g_outputIndex incomingConnection), previousNodeRun = Some runIndex\<rparr>)
     in case jget pinData sourceName of
       Some items \<Rightarrow> Inr (incomingData @ [items], sources @ [source 0])
     | None \<Rightarrow> if jget runData sourceName = None then Inl (AssertionError ''runData'')
         else rbind (getIncomingDataFromAnyRun runData sourceName (g_type incomingConnection) (g_outputIndex incomingConnection))
           (\<lambda>nodeIncomingData. case nodeIncomingData of
               Some (items, runIndex) \<Rightarrow> Inr (incomingData @ [items], sources @ [source runIndex])
             | None \<Rightarrow> Inr (incomingData, sources @ [source 0])))"

text \<open>One connection of an incomplete group.\<close>

definition waitingSource :: "IRunData \<Rightarrow> string \<Rightarrow> nat \<Rightarrow> GraphConnection
    \<Rightarrow> IWaitingForExecution \<times> IWaitingForExecutionSource \<Rightarrow> (IWaitingForExecution \<times> IWaitingForExecutionSource) res" where
  "waitingSource runData nodeName nextRunIndex incomingConnection = (\<lambda>(waiting, waitingSrc).
     rbind (getIncomingDataFromAnyRun runData (n_name (g_from incomingConnection)) (g_type incomingConnection)
         (g_outputIndex incomingConnection))
       (\<lambda>nodeIncomingData. case nodeIncomingData of
           None \<Rightarrow> Inr (waiting, waitingSrc)
         | Some (items, _) \<Rightarrow> Inr
             (addWaitingExecution nodeName nextRunIndex (g_type incomingConnection) (g_inputIndex incomingConnection)
                (Val items) waiting,
              addWaitingExecutionSource nodeName nextRunIndex (g_type incomingConnection) (g_inputIndex incomingConnection)
                (Some \<lparr>previousNode = n_name (g_from incomingConnection),
                  previousNodeOutput = Some (g_outputIndex incomingConnection), previousNodeRun = Some nextRunIndex\<rparr>)
                waitingSrc)))"

definition recreateGroup :: "IRunData \<Rightarrow> IPinData \<Rightarrow> INode \<Rightarrow> SourceConnectionGroup \<Rightarrow> RecreatedStack \<Rightarrow> RecreatedStack res" where
  "recreateGroup runData pinData startNode sourceData = (\<lambda>(stack, waiting, waitingSrc).
     if sg_complete sourceData then
       rbind (rfold (completeSource runData pinData) (sg_connections sourceData) ([], [])) (\<lambda>(incomingData, sources).
         Inr (stack @ [executeDataOf startNode incomingData (Some sources)], waiting, waitingSrc))
     else let nextRunIndex = (case jget waiting (n_name startNode) of None \<Rightarrow> 0 | Some w \<Rightarrow> length w)
       in rbind (rfold (waitingSource runData (n_name startNode) nextRunIndex) (sg_connections sourceData) (waiting, waitingSrc))
         (\<lambda>(waiting, waitingSrc). Inr (stack, waiting, waitingSrc)))"

definition recreateStartNode :: "(string \<Rightarrow> string \<Rightarrow> int) \<Rightarrow> DirectedGraph \<Rightarrow> IRunData \<Rightarrow> IPinData \<Rightarrow> INode
    \<Rightarrow> RecreatedStack \<Rightarrow> RecreatedStack res" where
  "recreateStartNode localeCompare graph runData pinData startNode = (\<lambda>(stack, waiting, waitingSrc).
     rbind (getDirectParentConnections graph startNode) (\<lambda>parents.
       let incomingStartNodeConnections = filter (\<lambda>c. g_type c = Main) parents
       in if incomingStartNodeConnections = []
          then Inr (stack @ [executeDataOf startNode [[item_of []]] None], waiting, waitingSrc)
          else rfold (recreateGroup runData pinData startNode)
            (getSourceDataGroups localeCompare graph startNode runData pinData) (stack, waiting, waitingSrc)))"

definition recreateNodeExecutionStack :: "(string \<Rightarrow> string \<Rightarrow> int) \<Rightarrow> DirectedGraph \<Rightarrow> INode list \<Rightarrow> IRunData \<Rightarrow> IPinData
    \<Rightarrow> RecreatedStack res" where
  "recreateNodeExecutionStack localeCompare graph startNodes runData pinData =
     (if list_ex is_disabled (jvals (getNodes graph)) then Inl (AssertionError ''disabled'')
      else rfold (recreateStartNode localeCompare graph runData pinData) startNodes ([], [], []))"

subsection \<open>The groups\<close>

definition consecutive :: "GraphConnection list \<Rightarrow> bool" where
  "consecutive cs \<longleftrightarrow> map g_inputIndex cs = [g_inputIndex (hd cs)..g_inputIndex (hd cs) + int (length cs) - 1]"

lemma consecutive_Nil [simp]: "consecutive []"
  by (simp add: consecutive_def)

lemma consecutive_single [simp]: "consecutive [c]"
  by (simp add: consecutive_def)

lemma consecutive_last:
  assumes "consecutive cs" and "cs \<noteq> []"
  shows "g_inputIndex (last cs) + 1 = g_inputIndex (hd cs) + int (length cs)"
proof -
  have "g_inputIndex (last cs) = last (map g_inputIndex cs)" using assms(2) by (simp add: last_map)
  also have "\<dots> = g_inputIndex (hd cs) + int (length cs) - 1"
    using assms unfolding consecutive_def by (cases cs) (auto simp: upto_rec2)
  finally show ?thesis by simp
qed

lemma consecutive_snoc:
  assumes "consecutive cs" and "cs \<noteq> [] \<Longrightarrow> g_inputIndex c = g_inputIndex (last cs) + 1"
  shows "consecutive (cs @ [c])"
proof (cases "cs = []")
  case False
  then have "g_inputIndex c = g_inputIndex (hd cs) + int (length cs)"
    using assms consecutive_last by simp
  then show ?thesis using assms(1) False by (simp add: consecutive_def upto_rec2)
qed simp

text \<open>A group of the result.\<close>

definition group_ok :: "(GraphConnection \<Rightarrow> bool) \<Rightarrow> SourceConnectionGroup \<Rightarrow> bool" where
  "group_ok H gr \<longleftrightarrow> sg_connections gr \<noteq> [] \<and> consecutive (sg_connections gr)
     \<and> (sg_complete gr \<longleftrightarrow> list_all H (sg_connections gr))"

text \<open>The group being built: it ends at the current input, or a connection for the next input is left.\<close>

definition building_ok :: "(GraphConnection \<Rightarrow> bool) \<Rightarrow> GraphConnection list \<Rightarrow> int \<Rightarrow> SourceConnectionGroup \<Rightarrow> bool" where
  "building_ok H rest i gr \<longleftrightarrow> consecutive (sg_connections gr) \<and> (sg_complete gr \<longleftrightarrow> list_all H (sg_connections gr))
     \<and> (if sg_connections gr = [] then \<exists>c \<in> set rest. g_inputIndex c = i + 1
        else g_inputIndex (last (sg_connections gr)) = i)"

lemma building_ok_newGroup: "cs \<noteq> [] \<Longrightarrow> building_ok H cs (beforeFirst cs) newGroup"
  using beforeFirst_in [of cs] by (simp add: building_ok_def newGroup_def)

lemma building_ok_add:
  assumes "building_ok H rest i gr" and "g_inputIndex c = i + 1"
  shows "H c \<Longrightarrow> building_ok H rest' (i + 1) (gr\<lparr>sg_connections := sg_connections gr @ [c]\<rparr>)"
    and "\<not> H c \<Longrightarrow> building_ok H rest' (i + 1) \<lparr>sg_complete = False, sg_connections = sg_connections gr @ [c]\<rparr>"
proof -
  have "consecutive (sg_connections gr @ [c])"
    by (rule consecutive_snoc) (use assms in \<open>auto simp: building_ok_def\<close>)
  then show "H c \<Longrightarrow> building_ok H rest' (i + 1) (gr\<lparr>sg_connections := sg_connections gr @ [c]\<rparr>)"
    and "\<not> H c \<Longrightarrow> building_ok H rest' (i + 1) \<lparr>sg_complete = False, sg_connections = sg_connections gr @ [c]\<rparr>"
    using assms by (simp_all add: building_ok_def)
qed

lemma building_ok_done: "building_ok H rest i gr \<Longrightarrow> \<forall>c \<in> set rest. g_inputIndex c \<noteq> i + 1 \<Longrightarrow> group_ok H gr"
  by (auto simp: building_ok_def group_ok_def split: if_splits)

lemma mset_splice1: "k < length xs \<Longrightarrow> add_mset (xs ! k) (mset (splice1 k xs)) = mset xs"
proof (induction k arbitrary: xs)
  case 0
  then show ?case by (cases xs) simp_all
next
  case (Suc k)
  then show ?case by (cases xs) (auto simp: add_mset_commute)
qed

definition group_conns :: "SourceConnectionGroup list \<Rightarrow> GraphConnection list" where
  "group_conns groups = concat (map sg_connections groups)"

lemma groupLoop_groups:
  assumes "list_all H wd" and "list_all (\<lambda>c. \<not> H c) wod" and "building_ok H (wd @ wod) i gr" and "list_all (group_ok H) groups"
  shows "list_all (group_ok H) (groupLoop wd wod i gr groups)
    \<and> mset (group_conns (groupLoop wd wod i gr groups)) = mset (group_conns groups) + mset (sg_connections gr) + mset wd + mset wod"
  using assms
proof (induction wd wod i gr groups rule: groupLoop.induct)
  case (1 wd wod i gr groups)
  note unf = groupLoop.simps [of wd wod i gr groups]
  show ?case
  proof (cases "wd = [] \<and> wod = []")
    case True
    then have "group_ok H gr" using "1.prems"(3) by (intro building_ok_done [of H "[]" i]) auto
    moreover have "groupLoop wd wod i gr groups = groups @ [gr]" unfolding unf using True by simp
    ultimately show ?thesis using True "1.prems"(4) by (simp add: group_conns_def)
  next
    case ne: False
    show ?thesis
    proof (cases "find_index (\<lambda>c. g_inputIndex c = i + 1) wd")
      case (Some k)
      then have k: "k < length wd" "g_inputIndex (wd ! k) = i + 1" using find_index_Some by fastforce+
      have H: "H (wd ! k)" using "1.prems"(1) k(1) by (simp add: list_all_length)
      have "list_all H (splice1 k wd)" using "1.prems"(1) set_splice1_subset [of k wd] by (auto simp: list_all_iff)
      from "1.IH"(3) [OF ne Some this "1.prems"(2) building_ok_add(1) [OF "1.prems"(3) k(2) H] "1.prems"(4)]
      moreover have "groupLoop wd wod i gr groups = groupLoop (splice1 k wd) wod (i + 1)
          (gr\<lparr>sg_connections := sg_connections gr @ [wd ! k]\<rparr>) groups"
        by (simp only: unf ne Some if_False option.case)
      ultimately show ?thesis using mset_splice1 [OF k(1)] by simp
    next
      case none: None
      show ?thesis
      proof (cases "find_index (\<lambda>c. g_inputIndex c = i + 1) wod")
        case (Some k)
        then have k: "k < length wod" "g_inputIndex (wod ! k) = i + 1" using find_index_Some by fastforce+
        have H: "\<not> H (wod ! k)" using "1.prems"(2) k(1) by (simp add: list_all_length)
        have "list_all (\<lambda>c. \<not> H c) (splice1 k wod)"
          using "1.prems"(2) set_splice1_subset [of k wod] by (auto simp: list_all_iff)
        from "1.IH"(2) [OF ne none Some "1.prems"(1) this building_ok_add(2) [OF "1.prems"(3) k(2) H] "1.prems"(4)]
        moreover have "groupLoop wd wod i gr groups = groupLoop wd (splice1 k wod) (i + 1)
            \<lparr>sg_complete = False, sg_connections = sg_connections gr @ [wod ! k]\<rparr> groups"
          by (simp only: unf ne none Some if_False option.case)
        ultimately show ?thesis using mset_splice1 [OF k(1)] by simp
      next
        case None
        have "group_ok H gr"
          using "1.prems"(3) by (rule building_ok_done) (use none None in \<open>auto simp: find_index_None\<close>)
        then have "list_all (group_ok H) (groups @ [gr])" using "1.prems"(4) by simp
        from "1.IH"(1) [OF ne none None "1.prems"(1,2) building_ok_newGroup this] ne
        moreover have "groupLoop wd wod i gr groups
            = groupLoop wd wod (beforeFirst (wd @ wod)) newGroup (groups @ [gr])"
          by (simp only: unf ne none None if_False option.case)
        ultimately show ?thesis by (simp add: group_conns_def newGroup_def)
      qed
    qed
  qed
qed

text \<open>
  A group before the connections \<open>C\<close> of later groups: it starts at the lowest input that is left, goes on as long
  as there is a connection for the next input, and takes connections with data first.
\<close>

definition precedes :: "(GraphConnection \<Rightarrow> bool) \<Rightarrow> GraphConnection list \<Rightarrow> GraphConnection set \<Rightarrow> bool" where
  "precedes H gr C \<longleftrightarrow> (\<forall>c \<in> C. g_inputIndex (hd gr) \<le> g_inputIndex c \<and> g_inputIndex c \<noteq> g_inputIndex (last gr) + 1
     \<and> (\<forall>d \<in> set gr. g_inputIndex d = g_inputIndex c \<longrightarrow> H c \<longrightarrow> H d))"

definition in_order :: "(GraphConnection \<Rightarrow> bool) \<Rightarrow> SourceConnectionGroup list \<Rightarrow> bool" where
  "in_order H groups \<longleftrightarrow> sorted_wrt (\<lambda>a b. precedes H (sg_connections a) (set (sg_connections b))) groups"

text \<open>The group being built, before the connections that are left.\<close>

definition building :: "(GraphConnection \<Rightarrow> bool) \<Rightarrow> GraphConnection list \<Rightarrow> int \<Rightarrow> GraphConnection set \<Rightarrow> bool" where
  "building H gr i C \<longleftrightarrow> (\<forall>c \<in> C. (if gr = [] then i + 1 \<le> g_inputIndex c
       else g_inputIndex (hd gr) \<le> g_inputIndex c \<and> g_inputIndex (last gr) = i)
     \<and> (\<forall>d \<in> set gr. g_inputIndex d = g_inputIndex c \<longrightarrow> H c \<longrightarrow> H d))"

lemma foldl_min_le: "foldl min (a :: int) xs \<le> a \<and> (\<forall>x \<in> set xs. foldl min a xs \<le> x)"
proof (induction xs arbitrary: a)
  case (Cons x xs)
  show ?case using Cons [of "min a x"] by auto
qed simp

lemma beforeFirst_le: "c \<in> set cs \<Longrightarrow> beforeFirst cs + 1 \<le> g_inputIndex c"
  using foldl_min_le [of "g_inputIndex (hd cs)" "map g_inputIndex (tl cs)"]
  by (cases cs) (auto simp: beforeFirst_def)

lemma precedes_subset: "precedes H gr C \<Longrightarrow> D \<subseteq> C \<Longrightarrow> precedes H gr D"
  unfolding precedes_def by blast

lemma building_add:
  assumes "building H gr i C" and "D \<subseteq> C" and "c \<in> C" and "g_inputIndex c = i + 1"
    and "\<not> H c \<Longrightarrow> \<forall>d \<in> D. g_inputIndex d = g_inputIndex c \<longrightarrow> \<not> H d"
  shows "building H (gr @ [c]) (i + 1) D"
  unfolding building_def
proof (rule ballI, intro conjI)
  fix d assume "d \<in> D"
  then have d: "d \<in> C" using assms(2) by blast
  show "if gr @ [c] = [] then i + 1 + 1 \<le> g_inputIndex d
      else g_inputIndex (hd (gr @ [c])) \<le> g_inputIndex d \<and> g_inputIndex (last (gr @ [c])) = i + 1"
    using assms(1,3,4) d by (auto simp: building_def hd_append)
  show "\<forall>e \<in> set (gr @ [c]). g_inputIndex e = g_inputIndex d \<longrightarrow> H d \<longrightarrow> H e"
  proof
    fix e assume "e \<in> set (gr @ [c])"
    then consider "e \<in> set gr" | "e = c" by auto
    then show "g_inputIndex e = g_inputIndex d \<longrightarrow> H d \<longrightarrow> H e"
    proof cases
      case 1
      then show ?thesis using assms(1) d by (simp add: building_def)
    next
      case 2
      then show ?thesis using assms(5) \<open>d \<in> D\<close> by (cases "H c") auto
    qed
  qed
qed

lemma building_done:
  assumes "building H gr i C" and "\<forall>c \<in> C. g_inputIndex c \<noteq> i + 1" and "gr \<noteq> []"
  shows "precedes H gr C"
  unfolding precedes_def
proof (rule ballI, intro conjI)
  fix c assume "c \<in> C"
  then show "g_inputIndex (hd gr) \<le> g_inputIndex c" "\<forall>d \<in> set gr. g_inputIndex d = g_inputIndex c \<longrightarrow> H c \<longrightarrow> H d"
    using assms(1,3) by (auto simp: building_def)
  have "g_inputIndex (last gr) = i" using \<open>c \<in> C\<close> assms(1,3) by (auto simp: building_def)
  then show "g_inputIndex c \<noteq> g_inputIndex (last gr) + 1" using assms(2) \<open>c \<in> C\<close> by auto
qed

lemma in_order_snoc:
  "in_order H (groups @ [gr]) \<longleftrightarrow> in_order H groups \<and> (\<forall>a \<in> set groups. precedes H (sg_connections a) (set (sg_connections gr)))"
  by (auto simp: in_order_def sorted_wrt_append)

lemma groupLoop_in_order:
  assumes "list_all H wd" and "list_all (\<lambda>c. \<not> H c) wod"
    and "building_ok H (wd @ wod) i gr" and "building H (sg_connections gr) i (set wd \<union> set wod)"
    and "\<forall>a \<in> set groups. precedes H (sg_connections a) (set (sg_connections gr) \<union> set wd \<union> set wod)" and "in_order H groups"
  shows "in_order H (groupLoop wd wod i gr groups)"
  using assms
proof (induction wd wod i gr groups rule: groupLoop.induct)
  case (1 wd wod i gr groups)
  note unf = groupLoop.simps [of wd wod i gr groups]
  show ?case
  proof (cases "wd = [] \<and> wod = []")
    case True
    then have "groupLoop wd wod i gr groups = groups @ [gr]" unfolding unf by simp
    then show ?thesis using True "1.prems"(5,6) by (simp add: in_order_snoc)
  next
    case ne: False
    show ?thesis
    proof (cases "find_index (\<lambda>c. g_inputIndex c = i + 1) wd")
      case (Some k)
      then have k: "k < length wd" "g_inputIndex (wd ! k) = i + 1" using find_index_Some by fastforce+
      let ?gr = "gr\<lparr>sg_connections := sg_connections gr @ [wd ! k]\<rparr>"
      have sub: "set (splice1 k wd) \<subseteq> set wd" by (rule set_splice1_subset)
      have mem: "wd ! k \<in> set wd" and H: "H (wd ! k)" using "1.prems"(1) k(1) by (simp_all add: list_all_length)
      have wd: "list_all H (splice1 k wd)" using "1.prems"(1) sub by (auto simp: list_all_iff)
      have ok: "building_ok H (splice1 k wd @ wod) (i + 1) ?gr" by (rule building_ok_add(1) [OF "1.prems"(3) k(2) H])
      have b: "building H (sg_connections ?gr) (i + 1) (set (splice1 k wd) \<union> set wod)"
        using building_add [OF "1.prems"(4) _ _ k(2), of "set (splice1 k wd) \<union> set wod"] sub mem H by auto
      have before: "\<forall>a \<in> set groups. precedes H (sg_connections a) (set (sg_connections ?gr) \<union> set (splice1 k wd) \<union> set wod)"
      proof
        fix a assume "a \<in> set groups"
        then have "precedes H (sg_connections a) (set (sg_connections gr) \<union> set wd \<union> set wod)" using "1.prems"(5) by blast
        then show "precedes H (sg_connections a) (set (sg_connections ?gr) \<union> set (splice1 k wd) \<union> set wod)"
          by (rule precedes_subset) (use sub mem in auto)
      qed
      from "1.IH"(3) [OF ne Some wd "1.prems"(2) ok b before "1.prems"(6)]
      show ?thesis by (simp only: unf ne Some if_False option.case)
    next
      case none: None
      then have nowd: "\<forall>c \<in> set wd. g_inputIndex c \<noteq> i + 1" by (simp add: find_index_None)
      show ?thesis
      proof (cases "find_index (\<lambda>c. g_inputIndex c = i + 1) wod")
        case (Some k)
        then have k: "k < length wod" "g_inputIndex (wod ! k) = i + 1" using find_index_Some by fastforce+
        let ?gr = "\<lparr>sg_complete = False, sg_connections = sg_connections gr @ [wod ! k]\<rparr>"
        have sub: "set (splice1 k wod) \<subseteq> set wod" by (rule set_splice1_subset)
        have mem: "wod ! k \<in> set wod" and H: "\<not> H (wod ! k)" using "1.prems"(2) k(1) by (simp_all add: list_all_length)
        have wod: "list_all (\<lambda>c. \<not> H c) (splice1 k wod)" using "1.prems"(2) sub by (auto simp: list_all_iff)
        have ok: "building_ok H (wd @ splice1 k wod) (i + 1) ?gr" by (rule building_ok_add(2) [OF "1.prems"(3) k(2) H])
        have b: "building H (sg_connections ?gr) (i + 1) (set wd \<union> set (splice1 k wod))"
        proof -
          have "g_inputIndex d = g_inputIndex (wod ! k) \<longrightarrow> \<not> H d" if "d \<in> set wd \<union> set (splice1 k wod)" for d
          proof (cases "d \<in> set wd")
            case True
            then have "g_inputIndex d \<noteq> g_inputIndex (wod ! k)" using nowd k(2) by simp
            then show ?thesis by auto
          qed (use that wod in \<open>auto simp: list_all_iff\<close>)
          then show ?thesis
            using building_add [OF "1.prems"(4) _ _ k(2), of "set wd \<union> set (splice1 k wod)"] sub mem by auto
        qed
        have before: "\<forall>a \<in> set groups. precedes H (sg_connections a) (set (sg_connections ?gr) \<union> set wd \<union> set (splice1 k wod))"
        proof
          fix a assume "a \<in> set groups"
          then have "precedes H (sg_connections a) (set (sg_connections gr) \<union> set wd \<union> set wod)" using "1.prems"(5) by blast
          then show "precedes H (sg_connections a) (set (sg_connections ?gr) \<union> set wd \<union> set (splice1 k wod))"
            by (rule precedes_subset) (use sub mem in auto)
        qed
        from "1.IH"(2) [OF ne none Some "1.prems"(1) wod ok b before "1.prems"(6)]
        show ?thesis by (simp only: unf ne none Some if_False option.case)
      next
        case None
        then have no: "\<forall>c \<in> set wd \<union> set wod. g_inputIndex c \<noteq> i + 1" using nowd by (auto simp: find_index_None)
        have "sg_connections gr \<noteq> []" using "1.prems"(3) no by (auto simp: building_ok_def split: if_splits)
        with building_done [OF "1.prems"(4) no] have gr: "precedes H (sg_connections gr) (set wd \<union> set wod)" .
        have "wd @ wod \<noteq> []" using ne by auto
        then have ok: "building_ok H (wd @ wod) (beforeFirst (wd @ wod)) newGroup" by (rule building_ok_newGroup)
        have b: "building H (sg_connections newGroup) (beforeFirst (wd @ wod)) (set wd \<union> set wod)"
          using beforeFirst_le [of _ "wd @ wod"] by (auto simp: building_def newGroup_def)
        have before: "\<forall>a \<in> set (groups @ [gr]). precedes H (sg_connections a) (set (sg_connections newGroup) \<union> set wd \<union> set wod)"
        proof
          fix a assume "a \<in> set (groups @ [gr])"
          then have "precedes H (sg_connections a) (set wd \<union> set wod)"
            using "1.prems"(5) gr by (auto intro: precedes_subset)
          then show "precedes H (sg_connections a) (set (sg_connections newGroup) \<union> set wd \<union> set wod)" by (simp add: newGroup_def)
        qed
        have old: "in_order H (groups @ [gr])"
          unfolding in_order_snoc using "1.prems"(5,6) by (auto intro: precedes_subset)
        from "1.IH"(1) [OF ne none None "1.prems"(1,2) ok b before old]
        show ?thesis by (simp only: unf ne none None if_False option.case)
      qed
    qed
  qed
qed

text \<open>
  C36: the groups hold, each once, exactly the incoming connections with data and the \<open>Main\<close> ones without (other
  connections without data are left out).  No group is empty, its connections are for consecutive inputs, and it
  is complete exactly if all of them have data.  A group starts at the lowest input that later groups have, ends
  only when they have no connection for the next input, and for no input prefers a connection without data to one
  with data.
\<close>

theorem getSourceDataGroups_partition:
  "mset (group_conns (getSourceDataGroups localeCompare graph node runData pinnedData)) =
     mset (filter (\<lambda>c. g_to c = node \<and> (hasSourceData runData pinnedData c \<or> g_type c = Main)) (jvals (dg_connections graph)))
   \<and> list_all (group_ok (hasSourceData runData pinnedData)) (getSourceDataGroups localeCompare graph node runData pinnedData)
   \<and> in_order (hasSourceData runData pinnedData) (getSourceDataGroups localeCompare graph node runData pinnedData)"
proof -
  let ?H = "hasSourceData runData pinnedData"
  define cs where "cs = getConnections graph (Some node)"
  define wd wod where "wd = js_sort (sortByInputIndexThenByName localeCompare) (filter ?H cs)"
    and "wod = js_sort (sortByInputIndexThenByName localeCompare) (filter (\<lambda>c. \<not> ?H c \<and> g_type c = Main) cs)"
  have m: "mset wd + mset wod = mset (filter (\<lambda>c. g_to c = node \<and> (?H c \<or> g_type c = Main)) (jvals (dg_connections graph)))"
  proof -
    have "mset (filter ?H (filter P xs)) + mset (filter (\<lambda>c. \<not> ?H c \<and> g_type c = Main) (filter P xs))
        = mset (filter (\<lambda>c. P c \<and> (?H c \<or> g_type c = Main)) xs)" for P xs
      unfolding mset_filter by (rule multiset_eqI) auto
    then show ?thesis by (simp only: wd_def wod_def cs_def getConnections_def mset_js_sort option.case)
  qed
  have "filter ?H cs = [] \<longleftrightarrow> wd = []" "filter (\<lambda>c. \<not> ?H c \<and> g_type c = Main) cs = [] \<longleftrightarrow> wod = []"
    unfolding wd_def wod_def by (metis mset_js_sort mset_zero_iff)+
  then have run: "getSourceDataGroups localeCompare graph node runData pinnedData =
      (if wd = [] \<and> wod = [] then [] else groupLoop wd wod (beforeFirst (wd @ wod)) newGroup [])"
    by (simp add: getSourceDataGroups_def Let_def cs_def [symmetric] wd_def [symmetric] wod_def [symmetric])
  show ?thesis
  proof (cases "wd = [] \<and> wod = []")
    case True
    then show ?thesis using m by (simp add: run group_conns_def in_order_def)
  next
    case False
    have H: "list_all ?H wd" "list_all (\<lambda>c. \<not> ?H c) wod" by (auto simp: wd_def wod_def list_all_iff)
    have new: "building_ok ?H (wd @ wod) (beforeFirst (wd @ wod)) newGroup" by (rule building_ok_newGroup) (use False in auto)
    have "building ?H (sg_connections newGroup) (beforeFirst (wd @ wod)) (set wd \<union> set wod)"
      using beforeFirst_le [of _ "wd @ wod"] by (auto simp: building_def newGroup_def)
    then have "in_order ?H (groupLoop wd wod (beforeFirst (wd @ wod)) newGroup [])"
      by (intro groupLoop_in_order [OF H new]) (simp_all add: in_order_def)
    moreover from groupLoop_groups [OF H new, of "[]"] m
    have "mset (group_conns (groupLoop wd wod (beforeFirst (wd @ wod)) newGroup []))
        = mset (filter (\<lambda>c. g_to c = node \<and> (?H c \<or> g_type c = Main)) (jvals (dg_connections graph)))
      \<and> list_all (group_ok ?H) (groupLoop wd wod (beforeFirst (wd @ wod)) newGroup [])"
      by (simp add: group_conns_def newGroup_def)
    ultimately show ?thesis unfolding run if_not_P [OF False] by blast
  qed
qed

text \<open>
  a node with connections at inputs 0 and 2 only gets two groups, not one: the groups stop at an input
  without connection.
\<close>

theorem getSourceDataGroups_gap:
  "let A = mk_node 0 ''A''; B = mk_node 1 ''B''; N = mk_node 2 ''N'';
       g = graph_of [A, B, N] [main_conn A N, (main_conn B N)\<lparr>g_inputIndex := 2\<rparr>]
   in map (map g_inputIndex \<circ> sg_connections) (getSourceDataGroups (\<lambda>_ _. 0) g N [(''A'', []), (''B'', [])] []) = [[0], [2]]"
  by code_simp

subsection \<open>The waiting tables agree\<close>

text \<open>The places of a waiting table and which of them are filled.\<close>

definition table_shape :: "('a \<Rightarrow> bool) \<Rightarrow> (string, (nat, (NodeConnectionType, 'a list) jmap) jmap) jmap
    \<Rightarrow> (string, (nat, (NodeConnectionType, bool list) jmap) jmap) jmap" where
  "table_shape filled = map (\<lambda>(n, runs). (n, map (\<lambda>(r, types). (r, map (\<lambda>(t, xs). (t, map filled xs)) types)) runs))"

definition is_Val :: "'a slot \<Rightarrow> bool" where
  "is_Val x \<longleftrightarrow> (case x of Val y \<Rightarrow> True | _ \<Rightarrow> False)"

lemma is_Val_simps [simp]: "is_Val (Val x)" "\<not> is_Val Null" "\<not> is_Val Hole"
  by (simp_all add: is_Val_def)

definition same_places :: "IWaitingForExecution \<Rightarrow> IWaitingForExecutionSource \<Rightarrow> bool" where
  "same_places waiting waitingSrc \<longleftrightarrow> table_shape is_Val waiting = table_shape (\<lambda>x. x \<noteq> None) waitingSrc"

lemma map_snd_jput: "map (\<lambda>(k, v). (k, f v)) (jput k v m) = jput k (f v) (map (\<lambda>(k, v). (k, f v)) m)"
  by (induction m) auto

lemma map_put_index: "map f (put_index h i v xs) = put_index (f h) i (f v) (map f xs)"
  by (simp add: put_index_def arr_put_def map_update)

lemma table_shape_putSlot:
  "table_shape P (putSlot hole n r t i x a) = putSlot (P hole) n r t i (P x) (table_shape P a)"
  unfolding putSlot_def table_shape_def Let_def map_snd_jput map_put_index
  by (simp add: jget_map_snd split: option.split)

lemma keys_putSlot: "fst ` set (putSlot hole n r t i x m) = insert n (fst ` set m)"
  by (simp add: putSlot_def Let_def dom_update)

definition tables_ok :: "INode list \<Rightarrow> IWaitingForExecution \<times> IWaitingForExecutionSource \<Rightarrow> bool" where
  "tables_ok startNodes = (\<lambda>(waiting, waitingSrc). same_places waiting waitingSrc
     \<and> fst ` set waiting \<subseteq> n_name ` set startNodes)"

lemma waitingSource_ok:
  assumes "waitingSource rd (n_name n) r c t = Inr t'" and "n \<in> set startNodes" and "tables_ok startNodes t"
  shows "tables_ok startNodes t'"
proof -
  obtain w ws where t: "t = (w, ws)" by (cases t)
  obtain d where d: "getIncomingDataFromAnyRun rd (n_name (g_from c)) (g_type c) (g_outputIndex c) = Inr d"
    using assms(1) by (auto simp: t waitingSource_def rbind_Inr_iff)
  show ?thesis
  proof (cases d)
    case None
    then show ?thesis using assms(1,3) by (simp add: t d waitingSource_def)
  next
    case (Some p)
    then obtain items i where p: "d = Some (items, i)" by (cases p) simp
    have "\<exists>src. t' = (putSlot Hole (n_name n) r (g_type c) (g_inputIndex c) (Val items) w,
        putSlot None (n_name n) r (g_type c) (g_inputIndex c) (Some src) ws)"
      using assms(1) by (auto simp: t d p waitingSource_def addWaitingExecution_def addWaitingExecutionSource_def)
    then obtain src where "t' = (putSlot Hole (n_name n) r (g_type c) (g_inputIndex c) (Val items) w,
        putSlot None (n_name n) r (g_type c) (g_inputIndex c) (Some src) ws)" ..
    then show ?thesis
      using assms(2,3) by (simp add: t tables_ok_def keys_putSlot same_places_def table_shape_putSlot)
  qed
qed

definition recreated_ok :: "INode list \<Rightarrow> RecreatedStack \<Rightarrow> bool" where
  "recreated_ok startNodes = (\<lambda>(stack, waiting, waitingSrc).
     e_node ` set stack \<subseteq> set startNodes \<and> tables_ok startNodes (waiting, waitingSrc))"

lemma recreateGroup_ok:
  assumes "recreateGroup rd pin n gr t = Inr t'" and "n \<in> set startNodes" and "recreated_ok startNodes t"
  shows "recreated_ok startNodes t'"
proof -
  obtain stack w ws where t: "t = (stack, w, ws)" by (cases t)
  show ?thesis
  proof (cases "sg_complete gr")
    case True
    then show ?thesis
      using assms by (auto simp: t recreateGroup_def rbind_Inr_iff recreated_ok_def executeDataOf_def image_subset_iff)
  next
    case False
    then obtain w' ws' where w: "rfold (waitingSource rd (n_name n)
        (case jget w (n_name n) of None \<Rightarrow> 0 | Some w \<Rightarrow> length w)) (sg_connections gr) (w, ws) = Inr (w', ws')"
        "t' = (stack, w', ws')"
      using assms(1) by (auto simp: t recreateGroup_def Let_def rbind_Inr_iff)
    have "tables_ok startNodes (w', ws')"
      by (rule rfold_invariant [OF w(1)]) (use assms(2,3) waitingSource_ok in \<open>auto simp: t recreated_ok_def\<close>)
    then show ?thesis using assms(3) by (simp add: t w(2) recreated_ok_def)
  qed
qed

lemma recreateStartNode_ok:
  assumes "recreateStartNode lc g rd pin n t = Inr t'" and "n \<in> set startNodes" and "recreated_ok startNodes t"
  shows "recreated_ok startNodes t'"
proof -
  obtain stack w ws where t: "t = (stack, w, ws)" by (cases t)
  obtain ps where ps: "getDirectParentConnections g n = Inr ps"
    using assms(1) by (auto simp: t recreateStartNode_def rbind_Inr_iff)
  show ?thesis
  proof (cases "filter (\<lambda>c. g_type c = Main) ps = []")
    case True
    then have "t' = (stack @ [executeDataOf n [[item_of []]] None], w, ws)"
      using assms(1) by (simp add: t recreateStartNode_def ps)
    then show ?thesis using assms(2,3) by (simp add: t recreated_ok_def executeDataOf_def)
  next
    case False
    have "recreateStartNode lc g rd pin n t = rfold (recreateGroup rd pin n) (getSourceDataGroups lc g n rd pin) t"
      unfolding t recreateStartNode_def by (simp only: prod.case ps rbind_simps Let_def False if_False)
    then have "rfold (recreateGroup rd pin n) (getSourceDataGroups lc g n rd pin) t = Inr t'" using assms(1) by simp
    then show ?thesis using assms(3) by (rule rfold_invariant) (rule recreateGroup_ok [OF _ assms(2)])
  qed
qed

text \<open>
  the stack holds start nodes only, and the two waiting tables have the same places, with data
  exactly where there is a source, for names of start nodes; a disabled node makes the call fail.
\<close>

theorem recreateNodeExecutionStack_tables:
  "case recreateNodeExecutionStack localeCompare graph startNodes runData pinData of
     Inl e \<Rightarrow> True
   | Inr (stack, waiting, waitingSrc) \<Rightarrow> list_all (\<lambda>n. \<not> is_disabled n) (jvals (dg_nodes graph))
      \<and> e_node ` set stack \<subseteq> set startNodes
      \<and> same_places waiting waitingSrc \<and> fst ` set waiting \<subseteq> n_name ` set startNodes"
proof (cases "recreateNodeExecutionStack localeCompare graph startNodes runData pinData")
  case (Inr t)
  obtain stack w ws where t: "t = (stack, w, ws)" by (cases t)
  have e: "list_all (\<lambda>n. \<not> is_disabled n) (jvals (dg_nodes graph))"
    using Inr by (auto simp: recreateNodeExecutionStack_def getNodes_def list_ex_iff list_all_iff split: if_splits)
  have run: "rfold (recreateStartNode localeCompare graph runData pinData) startNodes ([], [], []) = Inr t"
    using Inr by (simp add: recreateNodeExecutionStack_def split: if_splits)
  have "recreated_ok startNodes t"
    by (rule rfold_invariant [OF run _ recreateStartNode_ok]) (simp_all add: recreated_ok_def tables_ok_def same_places_def table_shape_def)
  then show ?thesis using Inr e by (simp add: t recreated_ok_def tables_ok_def)
qed simp

end
