(* ===== verification/ExtractableGraph.thy ===== *)
theory ExtractableGraph
  imports ConnectedNodes
begin

section \<open>Extracting a selection of nodes\<close>

text \<open>
  \<open>packages/workflow/src/graph/graph-utils.ts\<close>: the adjacency list of a workflow, and the check that a
  selection of nodes can be moved into a sub-workflow.  A \<open>Set\<close> of connection objects is a list: the
  objects of a workflow are distinct, and equal records stay apart.
\<close>

type_synonym AdjacencyList = "(string, IConnection list) jmap"

datatype ExtractableError =
    InputEdgeToNonRoot string
  | MultipleInputNodes "string list"
  | OutputEdgeFromNonLeaf string
  | MultipleOutputNodes "string list"
  | NoContinuousPath string string

definition adjacent :: "AdjacencyList \<Rightarrow> string \<Rightarrow> IConnection list" where
  "adjacent adjacencyList n = (case jget adjacencyList n of None \<Rightarrow> [] | Some tos \<Rightarrow> tos)"

definition getInputEdges :: "string list \<Rightarrow> AdjacencyList \<Rightarrow> (string \<times> IConnection) list" where
  "getInputEdges graphIds adjacencyList = concat (map (\<lambda>(from, tos).
     if from \<in> set graphIds then []
     else concat (map (\<lambda>to. if c_node to \<in> set graphIds then [(from, to)] else []) tos)) adjacencyList)"

definition getOutputEdges :: "string list \<Rightarrow> AdjacencyList \<Rightarrow> (string \<times> IConnection) list" where
  "getOutputEdges graphIds adjacencyList = concat (map (\<lambda>(from, tos).
     if from \<notin> set graphIds then []
     else concat (map (\<lambda>to. if c_node to \<notin> set graphIds then [(from, to)] else []) tos)) adjacencyList)"

definition intersection :: "'a list \<Rightarrow> 'a list \<Rightarrow> 'a list" where
  "intersection a b = fold (\<lambda>x result. if x \<in> set b then sadd x result else result) a []"

definition union_set :: "'a list \<Rightarrow> 'a list \<Rightarrow> 'a list" where
  "union_set a b = fold sadd b (fold sadd a [])"

definition difference :: "'a list \<Rightarrow> 'a list \<Rightarrow> 'a list" where
  "difference minuend subtrahend = fold sdel subtrahend minuend"

definition main_targets :: "AdjacencyList \<Rightarrow> (IConnection \<Rightarrow> bool) \<Rightarrow> string \<Rightarrow> string list" where
  "main_targets adjacencyList P n =
     set_of_list (map c_node (filter (\<lambda>x. c_type x = Main \<and> P x) (adjacent adjacencyList n)))"

definition getRootNodes :: "string list \<Rightarrow> AdjacencyList \<Rightarrow> string list" where
  "getRootNodes graphIds adjacencyList =
     (let innerNodes = fold (\<lambda>nodeId innerNodes.
         union_set innerNodes (main_targets adjacencyList (\<lambda>x. c_node x \<noteq> nodeId) nodeId)) graphIds []
      in difference graphIds innerNodes)"

definition getLeafNodes :: "string list \<Rightarrow> AdjacencyList \<Rightarrow> string list" where
  "getLeafNodes graphIds adjacencyList = fold (\<lambda>nodeId result.
     if intersection (main_targets adjacencyList (\<lambda>x. c_node x \<noteq> nodeId) nodeId) graphIds = []
     then sadd nodeId result else result) graphIds []"

subsection \<open>Paths\<close>

text \<open>The stack of \<open>hasPath\<close> has its top at the head.  A node on it twice is expanded twice.\<close>

definition unseen :: "AdjacencyList \<Rightarrow> string list \<Rightarrow> string list \<Rightarrow> nat" where
  "unseen adjacencyList paths seen =
     card ((set paths \<union> c_node ` set (concat (jvals adjacencyList))) - set seen)"

lemma intersection_set [simp]: "set (intersection a b) = set a \<inter> set b"
  using js_set.elems_fold_ins_if [of "\<lambda>x. x \<in> set b" a "[]"] by (auto simp: intersection_def)

lemma union_set_set [simp]: "set (union_set a b) = set a \<union> set b"
  by (auto simp: union_set_def js_set.elems_fold_ins)

lemma difference_set [simp]: "set (difference a b) = set a - set b"
  by (simp add: difference_def js_set.elems_fold_rem)

lemma set_main_targets [simp]:
  "set (main_targets adjacencyList P n) = c_node ` {x \<in> set (adjacent adjacencyList n). c_type x = Main \<and> P x}"
  by (auto simp: main_targets_def)

lemma adjacent_in: "set (adjacent adjacencyList n) \<subseteq> set (concat (jvals adjacencyList))"
  using jget_in_set [of adjacencyList n] by (force simp: adjacent_def split: option.split)

function pathLoop :: "string \<Rightarrow> AdjacencyList \<Rightarrow> string list \<Rightarrow> string list \<Rightarrow> bool" where
  "pathLoop end adjacencyList paths seen = (case paths of
      [] \<Rightarrow> False
    | nxt # rest \<Rightarrow> if nxt = end then True
        else let seen' = sadd nxt seen
          in pathLoop end adjacencyList (rev (difference (main_targets adjacencyList (\<lambda>_. True) nxt) seen') @ rest) seen')"
  by pat_completeness auto

termination pathLoop
proof (relation "measures [\<lambda>(end, adj, paths, seen). unseen adj paths seen,
    \<lambda>(end, adj, paths, seen). case paths of [] \<Rightarrow> 0 | nxt # rest \<Rightarrow> if nxt \<in> set seen then Suc (length paths) else 0]", goal_cases)
  case (2 "end" adj paths seen nxt rest seen')
  let ?new = "rev (difference (main_targets adj (\<lambda>_. True) nxt) seen')"
  let ?U = "c_node ` set (concat (jvals adj))"
  have new: "set ?new \<subseteq> ?U - set seen'" using adjacent_in [of adj nxt] by auto
  have seen': "set seen' = insert nxt (set seen)" using 2(3) by simp
  have sub: "(set (?new @ rest) \<union> ?U) - set seen' \<subseteq> (set paths \<union> ?U) - set seen"
    using new 2(1) seen' by auto
  show ?case
  proof (cases "nxt \<in> set seen")
    case False
    then have "(set (?new @ rest) \<union> ?U) - set seen' \<subset> (set paths \<union> ?U) - set seen"
      using sub 2(1) seen' by auto
    then have "unseen adj (?new @ rest) seen' < unseen adj paths seen"
      unfolding unseen_def by (intro psubset_card_mono) auto
    then show ?thesis by simp
  next
    case True
    have le: "unseen adj (?new @ rest) seen' \<le> unseen adj paths seen"
      unfolding unseen_def by (intro card_mono sub) auto
    have "(case ?new @ rest of [] \<Rightarrow> 0 | t # r \<Rightarrow> if t \<in> set seen' then Suc (length (?new @ rest)) else 0)
        < Suc (length paths)"
    proof (cases ?new)
      case Nil
      then show ?thesis using 2(1) by (auto split: list.split)
    next
      case (Cons a as)
      then have "a \<notin> set seen'" using new by auto
      then show ?thesis using Cons by simp
    qed
    then show ?thesis using le True 2(1) by (simp add: le_less)
  qed
qed simp

declare pathLoop.simps [simp del]

definition hasPath :: "string \<Rightarrow> string \<Rightarrow> AdjacencyList \<Rightarrow> bool" where
  "hasPath start end adjacencyList = pathLoop end adjacencyList [start] []"

definition addOrCreate :: "string \<Rightarrow> IConnection \<Rightarrow> AdjacencyList \<Rightarrow> AdjacencyList" where
  "addOrCreate k v result = jput k (adjacent result k @ [v]) result"

definition buildAdjacencyList :: "IConnections \<Rightarrow> AdjacencyList" where
  "buildAdjacencyList connectionsBySourceNode =
     fold (\<lambda>(sourceNode, types). fold (\<lambda>(type, slots). fold (\<lambda>cs. fold (addOrCreate sourceNode) (or_empty cs)) slots) types)
       (own_entries connectionsBySourceNode) []"

text \<open>\<open>start && end\<close>: an empty name counts as missing.\<close>

definition truthy_name :: "string option \<Rightarrow> bool" where
  "truthy_name s \<longleftrightarrow> s \<noteq> None \<and> s \<noteq> Some []"

definition parseExtractableSubgraphSelection :: "string list \<Rightarrow> AdjacencyList
    \<Rightarrow> ExtractableError list + (string option \<times> string option)" where
  "parseExtractableSubgraphSelection graphIds adjacencyList =
     (let inputNodes = set_of_list (map (c_node \<circ> snd) (filter (\<lambda>x. c_type (snd x) = Main) (getInputEdges graphIds adjacencyList)));
          roots = getRootNodes graphIds adjacencyList;
          rootNodes = (if roots = [] \<and> length inputNodes = 1 then inputNodes else roots);
          errors1 = map InputEdgeToNonRoot (difference inputNodes rootNodes);
          rootInputNodes = intersection rootNodes inputNodes;
          errors2 = (if length rootInputNodes > 1 then [MultipleInputNodes rootInputNodes] else []);
          outputNodes = set_of_list (map fst (filter (\<lambda>x. c_type (snd x) = Main) (getOutputEdges graphIds adjacencyList)));
          leaves = getLeafNodes graphIds adjacencyList;
          leafNodes = (if leaves = [] \<and> length outputNodes = 1 then outputNodes else leaves);
          errors3 = map OutputEdgeFromNonLeaf (difference outputNodes leafNodes);
          leafOutputNodes = intersection leafNodes outputNodes;
          errors4 = (if length leafOutputNodes > 1 then [MultipleOutputNodes leafOutputNodes] else []);
          start = arr_get rootInputNodes 0;
          end = arr_get leafOutputNodes 0;
          errors5 = (if truthy_name start \<and> truthy_name end \<and> \<not> hasPath (the start) (the end) adjacencyList
            then [NoContinuousPath (the start) (the end)] else []);
          errors = errors1 @ errors2 @ errors3 @ errors4 @ errors5
      in if errors \<noteq> [] then Inl errors else Inr (start, end))"

subsection \<open>What a path is\<close>

definition main_edges :: "AdjacencyList \<Rightarrow> (string \<times> string) set" where
  "main_edges adjacencyList = {(a, c_node x) | a x. x \<in> set (adjacent adjacencyList a) \<and> c_type x = Main}"

lemma rtrancl_leaves:
  assumes "(a, b) \<in> E\<^sup>*" and "a \<in> S" and "b \<notin> S"
  shows "\<exists>x y. x \<in> S \<and> (x, y) \<in> E \<and> y \<notin> S \<and> (a, x) \<in> E\<^sup>*"
  using assms(1,3)
proof (induction rule: rtrancl_induct)
  case base
  then show ?case using assms(2) by blast
next
  case (step y z)
  then show ?case by (cases "y \<in> S") blast+
qed

text \<open>The loop: everything left to find is reachable from the stack, as expanded nodes have their targets there.\<close>

lemma pathLoop_correct:
  assumes "\<forall>a \<in> set seen. a \<noteq> end \<and> (\<forall>b. (a, b) \<in> main_edges adj \<longrightarrow> b \<in> set seen \<union> set paths)"
    and "start \<in> set seen \<union> set paths" and "\<forall>a \<in> set seen \<union> set paths. (start, a) \<in> (main_edges adj)\<^sup>*"
  shows "pathLoop end adj paths seen \<longleftrightarrow> (start, end) \<in> (main_edges adj)\<^sup>*"
  using assms
proof (induction "end" adj paths seen rule: pathLoop.induct)
  case (1 "end" adj paths seen)
  note unf = pathLoop.simps [of "end" adj paths seen]
  show ?case
  proof (cases paths)
    case Nil
    have "(start, end) \<notin> (main_edges adj)\<^sup>*"
    proof
      assume p: "(start, end) \<in> (main_edges adj)\<^sup>*"
      have "start \<in> set seen" "end \<notin> set seen" using "1.prems"(1,2) Nil by auto
      from rtrancl_leaves [OF p this] show False using "1.prems"(1) Nil by auto
    qed
    then show ?thesis by (subst unf) (simp add: Nil)
  next
    case (Cons nxt rest)
    show ?thesis
    proof (cases "nxt = end")
      case True
      then show ?thesis using "1.prems"(3) Cons by (subst unf) simp
    next
      case False
      define seen' where "seen' = sadd nxt seen"
      define paths' where "paths' = rev (difference (main_targets adj (\<lambda>_. True) nxt) seen') @ rest"
      have edges: "(nxt, b) \<in> main_edges adj \<longleftrightarrow> b \<in> set (main_targets adj (\<lambda>_. True) nxt)" for b
        by (auto simp: main_edges_def)
      have sets: "set seen' = insert nxt (set seen)"
          "set paths' = {b. (nxt, b) \<in> main_edges adj} - set seen' \<union> set rest"
        unfolding paths'_def edges by (auto simp: seen'_def)
      have inv: "\<forall>a \<in> set seen'. a \<noteq> end \<and> (\<forall>b. (a, b) \<in> main_edges adj \<longrightarrow> b \<in> set seen' \<union> set paths')"
        unfolding sets using "1.prems"(1) False Cons by auto
      have st: "start \<in> set seen' \<union> set paths'" unfolding sets using "1.prems"(2) Cons by auto
      have nxt: "(start, nxt) \<in> (main_edges adj)\<^sup>*" using "1.prems"(3) Cons by auto
      have reach: "\<forall>a \<in> set seen' \<union> set paths'. (start, a) \<in> (main_edges adj)\<^sup>*"
        unfolding sets using "1.prems"(3) Cons nxt by (auto intro: rtrancl_into_rtrancl)
      have "pathLoop end adj paths seen = pathLoop end adj paths' seen'"
        using False by (subst unf) (simp add: Cons Let_def seen'_def paths'_def)
      moreover have "pathLoop end adj paths' seen' \<longleftrightarrow> (start, end) \<in> (main_edges adj)\<^sup>*"
        unfolding paths'_def seen'_def
        by (rule "1.IH" [OF Cons False refl, folded seen'_def paths'_def, unfolded seen'_def paths'_def])
          (use inv st reach in \<open>simp_all only: paths'_def seen'_def\<close>)
      ultimately show ?thesis by simp
    qed
  qed
qed

lemma hasPath_iff: "hasPath start end adj \<longleftrightarrow> (start, end) \<in> (main_edges adj)\<^sup>*"
  unfolding hasPath_def by (rule pathLoop_correct) auto

text \<open>the path search returns, and answers whether a path of \<open>Main\<close> connections exists.\<close>

theorem hasPath_reachable: "hasPath start end adjacencyList \<longleftrightarrow> (start, end) \<in> (main_edges adjacencyList)\<^sup>*"
  by (rule hasPath_iff)

subsection \<open>Accepted selections\<close>

lemma adjacent_jwf: "jwf adj \<Longrightarrow> (a, tos) \<in> set adj \<Longrightarrow> adjacent adj a = tos"
  by (simp add: adjacent_def)

lemma adjacent_entry: "x \<in> set (adjacent adj a) \<Longrightarrow> \<exists>tos. (a, tos) \<in> set adj \<and> x \<in> set tos"
  using jget_in_set [of adj a] by (cases "jget adj a") (auto simp: adjacent_def)

lemma main_edges_entries:
  assumes "jwf adj"
  shows "(a, b) \<in> main_edges adj \<longleftrightarrow> (\<exists>tos x. (a, tos) \<in> set adj \<and> x \<in> set tos \<and> c_type x = Main \<and> c_node x = b)"
  using adjacent_jwf [OF assms] adjacent_entry by (auto simp: main_edges_def) blast

lemma input_targets:
  assumes "jwf adj"
  shows "(c_node \<circ> snd) ` {x \<in> set (getInputEdges ids adj). c_type (snd x) = Main}
    = {b \<in> set ids. \<exists>a. a \<notin> set ids \<and> (a, b) \<in> main_edges adj}"
  unfolding main_edges_entries [OF assms] getInputEdges_def by (force split: if_splits)

lemma output_sources:
  assumes "jwf adj"
  shows "fst ` {x \<in> set (getOutputEdges ids adj). c_type (snd x) = Main}
    = {a \<in> set ids. \<exists>b. b \<notin> set ids \<and> (a, b) \<in> main_edges adj}"
  unfolding main_edges_entries [OF assms] getOutputEdges_def by (force split: if_splits)

lemma only_element:
  assumes "set xs = A" and "length xs \<le> 1"
  shows "set_option (arr_get xs 0) = A"
  using assms by (cases xs) auto

text \<open>
  C37: of the \<open>Main\<close> connections: an accepted selection has at most one node that connections from outside lead to,
  the start, and at most one from which connections lead out, the end; if it has both, a path leads from the start
  to the end.  Connections of other types are not restricted.
\<close>

theorem parseExtractable_sound:
  assumes "jwf adjacencyList" and "parseExtractableSubgraphSelection graphIds adjacencyList = Inr (start, end)"
  shows "{b \<in> set graphIds. \<exists>a. a \<notin> set graphIds \<and> (a, b) \<in> main_edges adjacencyList} = set_option start
    \<and> {a \<in> set graphIds. \<exists>b. b \<notin> set graphIds \<and> (a, b) \<in> main_edges adjacencyList} = set_option end
    \<and> (truthy_name start \<and> truthy_name end \<longrightarrow> (the start, the end) \<in> (main_edges adjacencyList)\<^sup>*)"
proof -
  define ins where "ins = set_of_list (map (c_node \<circ> snd) (filter (\<lambda>x. c_type (snd x) = Main) (getInputEdges graphIds adjacencyList)))"
  define outs where "outs = set_of_list (map fst (filter (\<lambda>x. c_type (snd x) = Main) (getOutputEdges graphIds adjacencyList)))"
  define roots where "roots = (if getRootNodes graphIds adjacencyList = [] \<and> length ins = 1 then ins
    else getRootNodes graphIds adjacencyList)"
  define leaves where "leaves = (if getLeafNodes graphIds adjacencyList = [] \<and> length outs = 1 then outs
    else getLeafNodes graphIds adjacencyList)"
  have "difference ins roots = [] \<and> \<not> length (intersection roots ins) > 1 \<and> difference outs leaves = []
      \<and> \<not> length (intersection leaves outs) > 1
      \<and> \<not> (truthy_name start \<and> truthy_name end \<and> \<not> hasPath (the start) (the end) adjacencyList)
      \<and> start = arr_get (intersection roots ins) 0 \<and> end = arr_get (intersection leaves outs) 0"
    using assms(2) unfolding parseExtractableSubgraphSelection_def Let_def ins_def [symmetric] outs_def [symmetric]
      roots_def [symmetric] leaves_def [symmetric]
    by (auto split: if_splits)
  note parts = this
  have "set (difference ins roots) = {}" "set (difference outs leaves) = {}" using parts by simp_all
  then have sub: "set ins \<subseteq> set roots" "set outs \<subseteq> set leaves" by auto
  have "set_option start = set ins"
    using parts sub(1) only_element [of "intersection roots ins" "set ins"] by (auto simp: Int_absorb1)
  moreover have "set_option end = set outs"
    using parts sub(2) only_element [of "intersection leaves outs" "set outs"] by (auto simp: Int_absorb1)
  moreover have "set ins = {b \<in> set graphIds. \<exists>a. a \<notin> set graphIds \<and> (a, b) \<in> main_edges adjacencyList}"
    using input_targets [OF assms(1), of graphIds] by (simp add: ins_def)
  moreover have "set outs = {a \<in> set graphIds. \<exists>b. b \<notin> set graphIds \<and> (a, b) \<in> main_edges adjacencyList}"
    using output_sources [OF assms(1), of graphIds] by (simp add: outs_def)
  moreover have "truthy_name start \<and> truthy_name end \<longrightarrow> (the start, the end) \<in> (main_edges adjacencyList)\<^sup>*"
    using parts hasPath_iff by blast
  ultimately show ?thesis by (simp only: simp_thms)
qed

theorem parseExtractable_sound_witness:
  "{b \<in> set [''B'']. \<exists>a. a \<notin> set [''B''] \<and> (a, b) \<in> main_edges (buildAdjacencyList triangle)} = {''B''}
    \<and> {a \<in> set [''B'']. \<exists>b. b \<notin> set [''B''] \<and> (a, b) \<in> main_edges (buildAdjacencyList triangle)} = {''B''}
    \<and> (''B'', ''B'') \<in> (main_edges (buildAdjacencyList triangle))\<^sup>*"
proof -
  have "jwf (buildAdjacencyList triangle)"
      "parseExtractableSubgraphSelection [''B''] (buildAdjacencyList triangle) = Inr (Some ''B'', Some ''B'')"
    by code_simp+
  from parseExtractable_sound [OF this] show ?thesis by (simp add: truthy_name_def)
qed

end
