(* ===== verification/EngineState.thy ===== *)
theory EngineState
  imports WorkflowSearch PartialStack
begin

section \<open>The state of an execution\<close>

text \<open>
  The class \<open>WorkflowExecute\<close> of \<open>packages/core/src/execution-engine/workflow-execute.ts\<close>: the fields of
  \<open>runExecutionData\<close> and of the object that an execution reads and writes, as a record, and the helpers on
  the waiting tables.  The workflow belongs to the state, since its node objects are changed by the run.
  Items, run data and metadata are values: a later change of an item that two places share is not seen.
  The registry of node types is the parameter \<open>nodeTypes\<close>.
\<close>

record Engine =
  x_workflow :: Workflow
  x_status :: ExecutionStatus
  x_timedOut :: bool
  x_destinationNode :: "IDestinationNode option"
  x_runNodeFilter :: "string list option"
  x_runData :: IRunData
  x_pinData :: "IPinData option"
  x_lastNodeExecuted :: "string option"
  x_error :: "ExecutionError option"
  x_stack :: "IExecuteData list"
  x_metadata :: "(string, ITaskMetadata list) jmap"
  x_waiting :: IWaitingForExecution
  x_waitingSource :: IWaitingForExecutionSource
  x_waitTill :: "int option"
  x_executionIndex :: nat

definition createRunExecutionData :: "IDestinationNode option \<Rightarrow> string list option \<Rightarrow> IRunData \<Rightarrow> IPinData option
    \<Rightarrow> RecreatedStack \<Rightarrow> Engine \<Rightarrow> Engine" where
  "createRunExecutionData destinationNode runNodeFilter runData pinData = (\<lambda>(stack, waiting, waitingSource) x.
     x\<lparr>x_destinationNode := destinationNode, x_runNodeFilter := runNodeFilter, x_runData := runData,
       x_pinData := pinData, x_lastNodeExecuted := None, x_error := None, x_stack := stack, x_metadata := [],
       x_waiting := waiting, x_waitingSource := waitingSource, x_waitTill := None\<rparr>)"

text \<open>A new object with the default data of the constructor, for a workflow.\<close>

definition newExecution :: "Workflow \<Rightarrow> Engine" where
  "newExecution w = \<lparr>x_workflow = w, x_status = StNew, x_timedOut = False, x_destinationNode = None,
     x_runNodeFilter = None, x_runData = [], x_pinData = None, x_lastNodeExecuted = None, x_error = None,
     x_stack = [], x_metadata = [], x_waiting = [], x_waitingSource = [], x_waitTill = None, x_executionIndex = 0\<rparr>"

subsection \<open>Settings and connections\<close>

definition isV1 :: "Workflow \<Rightarrow> bool" where
  "isV1 w \<longleftrightarrow> jget (w_settings w) ''executionOrder'' = Some (JStr ''v1'')"

definition isLegacyExecutionOrder :: "Workflow \<Rightarrow> bool" where
  "isLegacyExecutionOrder w \<longleftrightarrow> jget (w_settings w) ''executionOrder'' \<noteq> Some (JStr ''v1'')"

lemma legacy_iff: "isLegacyExecutionOrder w \<longleftrightarrow> \<not> isV1 w"
  by (simp add: isV1_def isLegacyExecutionOrder_def)

text \<open>\<open>connectionsByDestinationNode[name]?.main ?? []\<close>\<close>

definition mainInputs :: "Workflow \<Rightarrow> string \<Rightarrow> NodeInputConnections" where
  "mainInputs w n = (case main_connections (w_connectionsByDestinationNode w) n of None \<Rightarrow> [] | Some slots \<Rightarrow> slots)"

text \<open>\<open>connectionsByDestinationNode[name].main[0] ?? []\<close>: a name without \<open>main\<close> entry throws.\<close>

definition firstInputs :: "Workflow \<Rightarrow> string \<Rightarrow> IConnection list res" where
  "firstInputs w n = (case main_connections (w_connectionsByDestinationNode w) n of
      None \<Rightarrow> Inl TypeError
    | Some slots \<Rightarrow> Inr (case arr_get slots 0 of None \<Rightarrow> [] | Some cs \<Rightarrow> or_empty cs))"

definition parentsOf :: "Workflow \<Rightarrow> string \<Rightarrow> string list" where
  "parentsOf w n = getParentNodes (w_connectionsByDestinationNode w) n (SelType Main) (-1)"

definition childrenOf :: "Workflow \<Rightarrow> string \<Rightarrow> string list" where
  "childrenOf w n = getChildNodes (w_connectionsBySourceNode w) n (SelType Main) (-1)"

subsection \<open>Reading slots\<close>

text \<open>\<open>xs[i]\<close>: past the end is \<open>undefined\<close>, as in a hole.\<close>

definition slot_at :: "'a slot list \<Rightarrow> nat \<Rightarrow> 'a slot" where
  "slot_at xs i = (case arr_get xs i of None \<Rightarrow> Hole | Some x \<Rightarrow> x)"

fun slot_option :: "'a slot \<Rightarrow> 'a option" where
  "slot_option (Val x) = Some x"
| "slot_option Null = None"
| "slot_option Hole = None"

fun slot_map :: "('a \<Rightarrow> 'b) \<Rightarrow> 'a slot \<Rightarrow> 'b slot" where
  "slot_map f (Val x) = Val (f x)"
| "slot_map f Null = Null"
| "slot_map f Hole = Hole"

lemma slot_option_Some [simp]: "slot_option x = Some y \<longleftrightarrow> x = Val y"
  by (cases x) auto

lemma is_Val_slot_map [simp]: "is_Val (slot_map f x) = is_Val x"
  by (cases x) auto

lemma is_Val_iff: "is_Val x \<longleftrightarrow> (\<exists>y. x = Val y)"
  by (cases x) auto

subsection \<open>Empty connections\<close>

text \<open>The items a connection delivers in a run, \<open>None\<close> if any step of the path is missing.\<close>

definition deliveredItems :: "IRunData \<Rightarrow> nat \<Rightarrow> IConnection \<Rightarrow> Items option option" where
  "deliveredItems runData runIndex inputConnection =
     (case jget runData (c_node inputConnection) of None \<Rightarrow> None
      | Some runs \<Rightarrow> (case arr_get runs runIndex of None \<Rightarrow> None
        | Some task \<Rightarrow> (case t_data task of None \<Rightarrow> None
          | Some data \<Rightarrow> (case jget data Main of None \<Rightarrow> None
            | Some outputs \<Rightarrow> arr_get outputs (c_index inputConnection)))))"

text \<open>An output that is \<open>null\<close> passes the test for \<open>undefined\<close> and its length throws.\<close>

fun incomingConnectionIsEmpty :: "IRunData \<Rightarrow> IConnection list \<Rightarrow> nat \<Rightarrow> bool res" where
  "incomingConnectionIsEmpty runData [] runIndex = Inr True"
| "incomingConnectionIsEmpty runData (inputConnection # rest) runIndex =
     (case deliveredItems runData runIndex inputConnection of
        None \<Rightarrow> incomingConnectionIsEmpty runData rest runIndex
      | Some None \<Rightarrow> Inl TypeError
      | Some (Some items) \<Rightarrow> if items = [] then incomingConnectionIsEmpty runData rest runIndex else Inr False)"

subsection \<open>The waiting tables\<close>

definition tableRuns :: "(string, (nat, 'd) jmap) jmap \<Rightarrow> string \<Rightarrow> (nat, 'd) jmap" where
  "tableRuns t nodeName = (case jget t nodeName of None \<Rightarrow> [] | Some runs \<Rightarrow> runs)"

definition setRun :: "string \<Rightarrow> nat \<Rightarrow> 'd \<Rightarrow> (string, (nat, 'd) jmap) jmap \<Rightarrow> (string, (nat, 'd) jmap) jmap" where
  "setRun nodeName runIndex d t = jput nodeName (jput runIndex d (tableRuns t nodeName)) t"

text \<open>\<open>Object.keys\<close> of the runs: array indexes, so ascending.\<close>

definition runKeys :: "(nat, 'd) jmap \<Rightarrow> nat list" where
  "runKeys runs = sort (map fst runs)"

definition prepareWaitingToExecution :: "string \<Rightarrow> nat \<Rightarrow> nat \<Rightarrow> Engine \<Rightarrow> Engine" where
  "prepareWaitingToExecution nodeName numberOfConnections runIndex x =
     x\<lparr>x_waiting := setRun nodeName runIndex [(Main, replicate numberOfConnections Null)] (x_waiting x),
       x_waitingSource := setRun nodeName runIndex [(Main, replicate numberOfConnections None)] (x_waitingSource x)\<rparr>"

text \<open>\<open>table[nodeName][runIndex].main\<close>: each missing step throws.\<close>

definition waitingMain :: "(string, (nat, (NodeConnectionType, 'a list) jmap) jmap) jmap \<Rightarrow> string \<Rightarrow> nat \<Rightarrow> 'a list res" where
  "waitingMain t nodeName runIndex = (case jget (tableRuns t nodeName) runIndex of
      None \<Rightarrow> Inl TypeError
    | Some data \<Rightarrow> (case jget data Main of None \<Rightarrow> Inl TypeError | Some xs \<Rightarrow> Inr xs))"

definition setWaitingMain :: "string \<Rightarrow> nat \<Rightarrow> 'a list \<Rightarrow> (string, (nat, (NodeConnectionType, 'a list) jmap) jmap) jmap
    \<Rightarrow> (string, (nat, (NodeConnectionType, 'a list) jmap) jmap) jmap" where
  "setWaitingMain nodeName runIndex xs t =
     setRun nodeName runIndex (jput Main xs (case jget (tableRuns t nodeName) runIndex of None \<Rightarrow> [] | Some d \<Rightarrow> d)) t"

text \<open>\<open>delete table[nodeName][runIndex]\<close>, and the node's entry with its last run.\<close>

definition delRun :: "string \<Rightarrow> nat \<Rightarrow> (string, (nat, 'd) jmap) jmap \<Rightarrow> (string, (nat, 'd) jmap) jmap" where
  "delRun nodeName runIndex t = jput nodeName (jdel runIndex (tableRuns t nodeName)) t"

definition removeWaiting :: "string \<Rightarrow> nat \<Rightarrow> Engine \<Rightarrow> Engine" where
  "removeWaiting nodeName runIndex x =
     (let waiting = delRun nodeName runIndex (x_waiting x);
          waitingSource = delRun nodeName runIndex (x_waitingSource x)
      in if tableRuns waiting nodeName = []
         then x\<lparr>x_waiting := jdel nodeName waiting, x_waitingSource := jdel nodeName waitingSource\<rparr>
         else x\<lparr>x_waiting := waiting, x_waitingSource := waitingSource\<rparr>)"

subsection \<open>Pushing on the stack\<close>

definition enqueue :: "IExecuteData \<Rightarrow> Engine \<Rightarrow> Engine" where
  "enqueue item x = x\<lparr>x_stack := (if isV1 (x_workflow x) then item # x_stack x else x_stack x @ [item])\<rparr>"

text \<open>\<open>workflow.nodes[name]\<close>.  A missing node is pushed as \<open>undefined\<close> and fails when the item is read; here at once.\<close>

definition nodeOf :: "Workflow \<Rightarrow> string \<Rightarrow> INode res" where
  "nodeOf w n = (case jget (w_nodes w) n of None \<Rightarrow> Inl TypeError | Some node \<Rightarrow> Inr node)"

text \<open>\<open>outputIndex || undefined\<close>\<close>

definition or_undefined :: "nat \<Rightarrow> nat option" where
  "or_undefined i = (if i = 0 then None else Some i)"

definition sourceOf :: "string \<Rightarrow> nat \<Rightarrow> nat \<Rightarrow> ISourceData" where
  "sourceOf parentNodeName outputIndex runIndex = \<lparr>previousNode = parentNodeName,
     previousNodeOutput = or_undefined outputIndex, previousNodeRun = or_undefined runIndex\<rparr>"

end
