(* ===== verification/EngineSchedule.thy ===== *)
theory EngineSchedule
  imports EngineState
begin

section \<open>Scheduling a node\<close>

text \<open>
  \<open>addNodeToBeExecuted\<close>: a node with one main input goes to the stack at once; a node with several waits
  in the waiting tables until each input has been written.  The method is split where its code has blocks:
  the choice of the waiting entry, the writing, the check, the scan of the other inputs in the legacy
  execution order, and the tail that both paths share.
\<close>

subsection \<open>The waiting entry\<close>

text \<open>The first run whose entry has no data for the input (\<open>!main[index]\<close>; an empty array counts as data).\<close>

fun freeRun :: "(nat, ITaskDataInputs) jmap \<Rightarrow> nat \<Rightarrow> nat list \<Rightarrow> nat option res" where
  "freeRun runs inputIndex [] = Inr None"
| "freeRun runs inputIndex (k # ks) = (case Option.bind (jget runs k) (\<lambda>d. jget d Main) of
      None \<Rightarrow> Inl TypeError
    | Some xs \<Rightarrow> if is_Val (slot_at xs inputIndex) then freeRun runs inputIndex ks else Inr (Some k))"

definition createWaitingNode :: "string \<Rightarrow> Engine \<Rightarrow> Engine" where
  "createWaitingNode nodeName x = (if jhas (x_waiting x) nodeName then x
     else x\<lparr>x_waiting := jput nodeName [] (x_waiting x), x_waitingSource := jput nodeName [] (x_waitingSource x)\<rparr>)"

definition chooseRun :: "string \<Rightarrow> nat \<Rightarrow> Engine \<Rightarrow> (nat \<times> Engine) res" where
  "chooseRun nodeName inputIndex x =
     (let runs = tableRuns (x_waiting x) nodeName
      in rbind (freeRun runs inputIndex (runKeys runs)) (\<lambda>found. case found of
           Some k \<Rightarrow> Inr (k, x)
         | None \<Rightarrow> Inr (length runs, prepareWaitingToExecution nodeName (length (mainInputs (x_workflow x) nodeName)) (length runs) x)))"

text \<open>Writing the data and its source; \<open>None\<close> for the data is the case \<open>nodeSuccessData === null\<close>.\<close>

definition writeWaiting :: "string \<Rightarrow> nat \<Rightarrow> nat \<Rightarrow> Items slot \<Rightarrow> ISourceData option \<Rightarrow> Engine \<Rightarrow> Engine res" where
  "writeWaiting nodeName runIndex inputIndex data source x =
     rbind (waitingMain (x_waiting x) nodeName runIndex) (\<lambda>xs.
     rbind (waitingMain (x_waitingSource x) nodeName runIndex) (\<lambda>sources.
       Inr (x\<lparr>x_waiting := setWaitingMain nodeName runIndex (arr_put Hole inputIndex data xs) (x_waiting x),
         x_waitingSource := setWaitingMain nodeName runIndex (arr_put None inputIndex source sources) (x_waitingSource x)\<rparr>)))"

text \<open>The check stops at \<open>null\<close> only: a hole counts as found.\<close>

definition allDataFound :: "Items slot list \<Rightarrow> bool" where
  "allDataFound xs \<longleftrightarrow> Null \<notin> set xs"

subsection \<open>The legacy scan\<close>

text \<open>The nodes on the outputs of the parent.\<close>

definition checkOutputNodes :: "Workflow \<Rightarrow> string \<Rightarrow> string list res" where
  "checkOutputNodes w parentNodeName = (case jget (w_connectionsBySourceNode w) parentNodeName of
      None \<Rightarrow> Inl TypeError
    | Some types \<Rightarrow> Inr (case jget types Main of None \<Rightarrow> []
        | Some slots \<Rightarrow> concat (map (\<lambda>cs. map c_node (or_empty cs)) slots)))"

text \<open>Walking up from the input node: \<open>None\<close> when a parent is processed anyway.\<close>

fun nodeToAddLoop :: "Engine \<Rightarrow> string list \<Rightarrow> string \<Rightarrow> string list \<Rightarrow> string option \<Rightarrow> string option" where
  "nodeToAddLoop x outputNodes inputNode [] nodeToAdd = nodeToAdd"
| "nodeToAddLoop x outputNodes inputNode (parentNode # rest) nodeToAdd =
     (if inputNode \<noteq> parentNode \<and> parentNode \<in> set outputNodes then None
      else if parentNode \<in> (n_name \<circ> e_node) ` set (x_stack x) then None
      else if jhas (x_runData x) parentNode then nodeToAdd
      else nodeToAddLoop x outputNodes inputNode rest (Some parentNode))"

definition emptyItemData :: ITaskDataInputs where
  "emptyItemData = [(Main, [Val [item_of []]])]"

text \<open>The length of \<open>nodeSuccessData[outputIndex]\<close> is 0; \<open>null\<close> and \<open>undefined\<close> throw.\<close>

definition slotIsEmpty :: "Items slot \<Rightarrow> bool res" where
  "slotIsEmpty s = (case s of Val items \<Rightarrow> Inr (items = []) | _ \<Rightarrow> Inl TypeError)"

definition addParent :: "string \<Rightarrow> nat \<Rightarrow> nat \<Rightarrow> Items slot \<Rightarrow> string option \<Rightarrow> Engine \<Rightarrow> Engine res" where
  "addParent parentNodeName outputIndex runIndex data nodeToAdd x =
     rbind (case nodeToAdd of None \<Rightarrow> Inr None
       | Some n \<Rightarrow> if parentNodeName \<in> set (parentsOf (x_workflow x) n)
           then rbind (slotIsEmpty data) (\<lambda>e. Inr (if e then None else nodeToAdd)) else Inr nodeToAdd)
       (\<lambda>nodeToAdd. case nodeToAdd of None \<Rightarrow> Inr x
         | Some n \<Rightarrow> rbind (if \<not> jhas (w_connectionsByDestinationNode (x_workflow x)) n then Inr True
               else rbind (firstInputs (x_workflow x) n) (\<lambda>cs. incomingConnectionIsEmpty (x_runData x) cs runIndex))
             (\<lambda>addEmptyItem. if \<not> addEmptyItem then Inr x
               else rbind (nodeOf (x_workflow x) n) (\<lambda>node. Inr (enqueue \<lparr>e_node = node, e_data = emptyItemData,
                 e_source = Some [(Main, [Some (sourceOf parentNodeName outputIndex runIndex)])],
                 e_runIndex = None, e_metadata = None\<rparr> x))))"

definition scanInput :: "string \<Rightarrow> nat \<Rightarrow> nat \<Rightarrow> Items slot \<Rightarrow> string list \<Rightarrow> IConnection \<Rightarrow> Engine \<Rightarrow> Engine res" where
  "scanInput parentNodeName outputIndex runIndex data outputNodes inputData x =
     (if c_node inputData = parentNodeName then Inr x
      else rbind (if c_node inputData \<in> set outputNodes
          then rbind (firstInputs (x_workflow x) (c_node inputData)) (\<lambda>cs.
            rbind (incomingConnectionIsEmpty (x_runData x) cs runIndex) (\<lambda>e. Inr (\<not> e)))
          else Inr False)
        (\<lambda>addedAnyway. if addedAnyway then Inr x
          else if c_node inputData \<in> (n_name \<circ> e_node) ` set (x_stack x) then Inr x
          else if jhas (x_runData x) (c_node inputData) then Inr x
          else if \<not> isLegacyExecutionOrder (x_workflow x) then Inr x
          else let parentNodes = rev (parentsOf (x_workflow x) (c_node inputData) @ [c_node inputData])
            in addParent parentNodeName outputIndex runIndex data
              (nodeToAddLoop x outputNodes (c_node inputData) parentNodes (Some (c_node inputData))) x))"

definition scanInputs :: "string \<Rightarrow> string \<Rightarrow> nat \<Rightarrow> nat \<Rightarrow> Items slot \<Rightarrow> Engine \<Rightarrow> Engine res" where
  "scanInputs nodeName parentNodeName outputIndex runIndex data x =
     rbind (checkOutputNodes (x_workflow x) parentNodeName) (\<lambda>outputNodes.
       rfold (scanInput parentNodeName outputIndex runIndex data outputNodes)
         (concat (map or_empty (mainInputs (x_workflow x) nodeName))) x)"

subsection \<open>The method\<close>

text \<open>
  The end of the method for a node whose data is incomplete: the entry is built anew from its main data and
  sources, so data of other connection types is dropped.
\<close>

definition keepWaiting :: "string \<Rightarrow> nat \<Rightarrow> nat \<Rightarrow> Items slot \<Rightarrow> Engine \<Rightarrow> Engine res" where
  "keepWaiting nodeName runIndex inputIndex data x =
     rbind (waitingMain (x_waiting x) nodeName runIndex) (\<lambda>xs.
     rbind (waitingMain (x_waitingSource x) nodeName runIndex) (\<lambda>sources.
       Inr (x\<lparr>x_waiting := setRun nodeName runIndex [(Main, arr_put Hole inputIndex data xs)] (x_waiting x),
         x_waitingSource := setRun nodeName runIndex [(Main, sources)] (x_waitingSource x)\<rparr>)))"

definition startWaiting :: "string \<Rightarrow> nat \<Rightarrow> Engine \<Rightarrow> Engine res" where
  "startWaiting nodeName runIndex x = (case jget (tableRuns (x_waiting x) nodeName) runIndex of
      None \<Rightarrow> Inl TypeError
    | Some data \<Rightarrow> rbind (nodeOf (x_workflow x) nodeName) (\<lambda>node.
        Inr (removeWaiting nodeName runIndex (enqueue \<lparr>e_node = node, e_data = data,
          e_source = jget (tableRuns (x_waitingSource x) nodeName) runIndex, e_runIndex = None, e_metadata = None\<rparr> x))))"

definition addToMulti :: "IConnection \<Rightarrow> nat \<Rightarrow> string \<Rightarrow> Items slot list option \<Rightarrow> nat \<Rightarrow> Engine \<Rightarrow> Engine res" where
  "addToMulti connectionData outputIndex parentNodeName nodeSuccessData runIndex x =
     (let nodeName = c_node connectionData; inputIndex = c_index connectionData;
          nodeWasWaiting = jhas (x_waiting x) nodeName;
          data = (case nodeSuccessData of None \<Rightarrow> Null | Some outputs \<Rightarrow> slot_at outputs outputIndex);
          source = (if nodeSuccessData = None then None else Some (sourceOf parentNodeName outputIndex runIndex))
      in rbind (chooseRun nodeName inputIndex (createWaitingNode nodeName x)) (\<lambda>(waitingNodeIndex, x).
         rbind (writeWaiting nodeName waitingNodeIndex inputIndex data source x) (\<lambda>x.
         rbind (waitingMain (x_waiting x) nodeName waitingNodeIndex) (\<lambda>xs.
           if allDataFound xs then startWaiting nodeName waitingNodeIndex x
           else rbind (if nodeWasWaiting then Inr x
               else scanInputs nodeName parentNodeName outputIndex runIndex data x)
             (keepWaiting nodeName waitingNodeIndex inputIndex data)))))"

definition addNodeToBeExecuted :: "IConnection \<Rightarrow> nat \<Rightarrow> string \<Rightarrow> Items slot list option \<Rightarrow> nat \<Rightarrow> nat option
    \<Rightarrow> ITaskMetadata option \<Rightarrow> Engine \<Rightarrow> Engine res" where
  "addNodeToBeExecuted connectionData outputIndex parentNodeName nodeSuccessData runIndex newRunIndex metadata x =
     (if length (mainInputs (x_workflow x) (c_node connectionData)) > 1
      then addToMulti connectionData outputIndex parentNodeName nodeSuccessData runIndex x
      else rbind (nodeOf (x_workflow x) (c_node connectionData)) (\<lambda>node.
        Inr (enqueue \<lparr>e_node = node,
          e_data = [(Main, replicate (c_index connectionData) Null @
            [case nodeSuccessData of None \<Rightarrow> Null | Some outputs \<Rightarrow> slot_at outputs outputIndex])],
          e_source = Some [(Main, [Some (sourceOf parentNodeName outputIndex runIndex)])],
          e_runIndex = newRunIndex, e_metadata = metadata\<rparr> x)))"

end
