(* ===== verification/EngineNode.thy ===== *)
theory EngineNode
  imports EngineSchedule
begin

section \<open>Running one node\<close>

text \<open>
  \<open>runNode\<close> and what is done with its result: the dispatch on the node type, disabled nodes, \<open>executeOnce\<close>,
  the pairing of output items with input items, the error output.  The implementations of the nodes are
  the argument \<open>call\<close>: what a call returns, throws or requests, and what it does to the execution.
\<close>

type_synonym NodeOutputs = "Items slot list"

datatype NodeCallKind = CallExecute | CallCustomOperation | CallPoll | CallTrigger | CallDeclarative

record EngineResponse =
  er_actionResponses :: "(ITaskData \<times> ExecuteNodeAction) list"
  er_metadata :: json

definition makeEngineResponse :: EngineResponse where
  "makeEngineResponse = \<lparr>er_actionResponses = [], er_metadata = JObj []\<rparr>"

record NodeCall =
  nc_kind :: NodeCallKind
  nc_executeData :: IExecuteData
  nc_runIndex :: nat
  nc_connectionInputData :: Items
  nc_inputData :: ITaskDataInputs
  nc_subNodeResults :: "EngineResponse option"

text \<open>\<open>None\<close> as data is \<open>null\<close> or \<open>undefined\<close>; \<open>o_closeErrors\<close> are the errors with which close functions failed.\<close>

datatype NodeOutcome =
    Threw ExecutionError
  | Returned "NodeOutputs option"
  | Requested EngineRequest

record NodeCallResult =
  o_outcome :: NodeOutcome
  o_hints :: "string list"
  o_closeErrors :: "ExecutionError list"
  o_waitTill :: "int option"
  o_metadata :: "ITaskMetadata option"
  o_records :: "IRunData \<Rightarrow> IRunData"

subsection \<open>Preparing the call\<close>

definition getCustomOperation :: "INode \<Rightarrow> INodeType \<Rightarrow> bool" where
  "getCustomOperation node type = (case nt_customOperations type of
      None \<Rightarrow> False
    | Some customOperations \<Rightarrow>
        (case (case n_forceCustomOperation node of
            Some (resource, operation) \<Rightarrow> (Some resource, Some operation)
          | None \<Rightarrow> (jget (n_parameters node) ''resource'', jget (n_parameters node) ''operation'')) of
          (Some (JStr resource), Some (JStr operation)) \<Rightarrow> (case jget customOperations resource of
              None \<Rightarrow> False
            | Some operations \<Rightarrow> operation \<in> set operations)
        | _ \<Rightarrow> False))"

definition handleDisabledNode :: "ITaskDataInputs \<Rightarrow> NodeOutputs option" where
  "handleDisabledNode inputData = (case jget inputData Main of
      None \<Rightarrow> None
    | Some [] \<Rightarrow> None
    | Some (first # _) \<Rightarrow> if first = Null then None else Some [first])"

definition hasItems :: "Items slot \<Rightarrow> bool" where
  "hasItems s \<longleftrightarrow> (case s of Val items \<Rightarrow> items \<noteq> [] | _ \<Rightarrow> False)"

text \<open>\<open>None\<close> is \<open>null\<close>: there is nothing to execute with.\<close>

definition prepareConnectionInputData :: "Workflow \<Rightarrow> INodeType \<Rightarrow> bool \<Rightarrow> ITaskDataInputs \<Rightarrow> Items option" where
  "prepareConnectionInputData w nodeType customOperation inputData =
     (if nt_execute nodeType \<or> customOperation \<or> (\<not> nt_poll nodeType \<and> \<not> nt_trigger nodeType \<and> \<not> nt_webhook nodeType)
      then (case jget inputData Main of
          None \<Rightarrow> None
        | Some [] \<Rightarrow> None
        | Some (first # rest) \<Rightarrow>
            let connectionInputData = (if isV1 w then (case find hasItems (first # rest) of Some s \<Rightarrow> s | None \<Rightarrow> first) else first)
            in if hasItems connectionInputData then slot_option connectionInputData else None)
      else Some [])"

text \<open>The error to throw again, if the node was the last one and failed.\<close>

definition rethrowLastNodeError :: "Engine \<Rightarrow> INode \<Rightarrow> ExecutionError option" where
  "rethrowLastNodeError x node =
     (if x_lastNodeExecuted x = Some (n_name node)
      then (case x_error x of None \<Rightarrow> None
        | Some e \<Rightarrow> if er_name e = Some ''NodeOperationError'' \<or> er_name e = Some ''NodeApiError'' then Some e
            else Some \<lparr>er_name = None, er_message = er_message e\<rparr>)
      else None)"

definition handleExecuteOnce :: "INode \<Rightarrow> ITaskDataInputs \<Rightarrow> ITaskDataInputs" where
  "handleExecuteOnce node inputData = (if n_executeOnce node = Some True
     then map (\<lambda>(t, inputs). (t, map (slot_map (take 1)) inputs)) inputData else inputData)"

subsection \<open>The kinds of nodes\<close>

text \<open>What a call leads to: an answer, a request, or an error.\<close>

datatype RunResponse = RunData "NodeOutputs option" "string list" | RunRequest EngineRequest | RunError ExecutionError

definition executeNode :: "NodeCallResult \<Rightarrow> RunResponse" where
  "executeNode r = (case o_outcome r of
      Threw e \<Rightarrow> RunError e
    | Requested request \<Rightarrow> RunRequest request
    | Returned data \<Rightarrow> (case o_closeErrors r of [] \<Rightarrow> RunData data (o_hints r) | e # _ \<Rightarrow> RunError e))"

text \<open>The other kinds take the data of the call, without hints.\<close>

definition plainCall :: "NodeCallResult \<Rightarrow> RunResponse" where
  "plainCall r = (case o_outcome r of
      Threw e \<Rightarrow> RunError e
    | Requested request \<Rightarrow> RunData None []
    | Returned data \<Rightarrow> RunData data [])"

definition passThrough :: "ITaskDataInputs \<Rightarrow> NodeOutputs option" where
  "passThrough inputData = jget inputData Main"

text \<open>In manual mode an empty answer of the trigger is \<open>null\<close>.\<close>

definition triggerCall :: "NodeCallResult \<Rightarrow> RunResponse" where
  "triggerCall r = (case plainCall r of RunData (Some []) h \<Rightarrow> RunData None h | response \<Rightarrow> response)"

definition typeError :: ExecutionError where
  "typeError = \<lparr>er_name = None, er_message = ''TypeError''\<rparr>"

text \<open>
  Before a call nothing changes, so the plan of \<open>runNode\<close> is a function: an error, the answer without a
  call, or the call to make and what to do with its result.
\<close>

datatype RunPlan = NoCall RunResponse | DoCall NodeCall

definition runNodePlan :: "INodeTypes \<Rightarrow> bool \<Rightarrow> Engine \<Rightarrow> IExecuteData \<Rightarrow> nat \<Rightarrow> EngineResponse option \<Rightarrow> RunPlan" where
  "runNodePlan nodeTypes manual x executionData runIndex subNodeResults =
     (let node = e_node executionData; inputData = e_data executionData in
      if n_disabled node = Some True then NoCall (RunData (handleDisabledNode inputData) [])
      else case nodeTypes (n_type node) (n_typeVersion node) of
        None \<Rightarrow> NoCall (RunError typeError)
      | Some nodeType \<Rightarrow>
          let customOperation = getCustomOperation node nodeType in
          (case prepareConnectionInputData (x_workflow x) nodeType customOperation inputData of
             None \<Rightarrow> NoCall (RunData None [])
           | Some connectionInputData \<Rightarrow> (case rethrowLastNodeError x node of
               Some e \<Rightarrow> NoCall (RunError e)
             | None \<Rightarrow>
                 let inputData = handleExecuteOnce node inputData;
                     call = (\<lambda>kind. DoCall \<lparr>nc_kind = kind, nc_executeData = executionData, nc_runIndex = runIndex,
                       nc_connectionInputData = connectionInputData, nc_inputData = inputData,
                       nc_subNodeResults = subNodeResults\<rparr>);
                     pass = NoCall (RunData (passThrough inputData) [])
                 in if nt_execute nodeType \<or> customOperation
                    then call (if customOperation then CallCustomOperation else CallExecute)
                    else if nt_poll nodeType then (if manual then call CallPoll else pass)
                    else if nt_trigger nodeType then (if manual then call CallTrigger else pass)
                    else if nt_webhook nodeType \<and> \<not> nt_requestDefaults nodeType then pass
                    else call CallDeclarative)))"

definition callResponse :: "NodeCallKind \<Rightarrow> NodeCallResult \<Rightarrow> RunResponse" where
  "callResponse kind r = (case kind of
      CallExecute \<Rightarrow> executeNode r
    | CallCustomOperation \<Rightarrow> executeNode r
    | CallTrigger \<Rightarrow> triggerCall r
    | _ \<Rightarrow> plainCall r)"

text \<open>What a call does to the execution besides its answer.\<close>

definition mergeMetadata :: "ITaskMetadata option \<Rightarrow> ITaskMetadata \<Rightarrow> ITaskMetadata" where
  "mergeMetadata old new = (case old of None \<Rightarrow> new | Some m \<Rightarrow>
     \<lparr>md_preserveSourceOverwrite = (if md_preserveSourceOverwrite new = None then md_preserveSourceOverwrite m
        else md_preserveSourceOverwrite new),
      md_nodeWasResumed = (if md_nodeWasResumed new = None then md_nodeWasResumed m else md_nodeWasResumed new),
      md_subNodeExecutionData = (if md_subNodeExecutionData new = None then md_subNodeExecutionData m
        else md_subNodeExecutionData new),
      md_other = fold (\<lambda>(k, v). jput k v) (md_other new) (md_other m)\<rparr>)"

definition callEffects :: "NodeCallResult \<Rightarrow> IExecuteData \<times> Engine \<Rightarrow> IExecuteData \<times> Engine" where
  "callEffects r = (\<lambda>(executionData, x).
     (case o_metadata r of None \<Rightarrow> executionData
        | Some m \<Rightarrow> executionData\<lparr>e_metadata := Some (mergeMetadata (e_metadata executionData) m)\<rparr>,
      x\<lparr>x_runData := o_records r (x_runData x),
        x_waitTill := (case o_waitTill r of None \<Rightarrow> x_waitTill x | Some t \<Rightarrow> Some t)\<rparr>))"

text \<open>One call of \<open>runNode\<close>: \<open>attempt\<close> counts the calls of the implementation during one step.\<close>

type_synonym Calls = "nat \<Rightarrow> NodeCall \<Rightarrow> NodeCallResult"

definition runNode :: "INodeTypes \<Rightarrow> bool \<Rightarrow> Calls \<Rightarrow> nat \<Rightarrow> nat \<Rightarrow> EngineResponse option \<Rightarrow> IExecuteData \<times> Engine
    \<Rightarrow> RunResponse \<times> IExecuteData \<times> Engine" where
  "runNode nodeTypes manual calls attempt runIndex subNodeResults = (\<lambda>(executionData, x).
     case runNodePlan nodeTypes manual x executionData runIndex subNodeResults of
       NoCall response \<Rightarrow> (response, executionData, x)
     | DoCall c \<Rightarrow> (callResponse (nc_kind c) (calls attempt c), callEffects (calls attempt c) (executionData, x)))"

subsection \<open>Reading results\<close>

definition defined_at :: "(string, json) jmap \<Rightarrow> string \<Rightarrow> bool" where
  "defined_at j k \<longleftrightarrow> (case jget j k of None \<Rightarrow> False | Some v \<Rightarrow> v \<noteq> JUndefined)"

definition truthy_at :: "(string, json) jmap \<Rightarrow> string \<Rightarrow> bool" where
  "truthy_at j k \<longleftrightarrow> (case jget j k of None \<Rightarrow> False | Some v \<Rightarrow> json_truthy v)"

text \<open>\<open>data?.[0]?.[0]\<close>\<close>

definition firstItem :: "NodeOutputs option \<Rightarrow> INodeExecutionData option" where
  "firstItem data = (case data of Some (Val (item # _) # _) \<Rightarrow> Some item | _ \<Rightarrow> None)"

definition nodeFailed :: "RunResponse \<Rightarrow> bool" where
  "nodeFailed response = (case response of
      RunData data _ \<Rightarrow> (case firstItem data of None \<Rightarrow> False | Some item \<Rightarrow> defined_at (i_json item) ''error'')
    | _ \<Rightarrow> False)"

subsection \<open>Pairing items\<close>

datatype PairMode = PairSingle | PairSame | PairNone

definition pairedAt :: "nat \<Rightarrow> INodeExecutionData \<Rightarrow> INodeExecutionData" where
  "pairedAt i item = item\<lparr>i_pairedItem := Some (PairedOne \<lparr>pi_item = i, pi_input = None, pi_sourceOverwrite = None\<rparr>)\<rparr>"

text \<open>The flag says that the loop over all outputs was left.\<close>

fun assignItems :: "PairMode \<Rightarrow> nat \<Rightarrow> Items \<Rightarrow> Items \<times> bool" where
  "assignItems m index [] = ([], False)"
| "assignItems m index (item # rest) =
     (if i_pairedItem item \<noteq> None then (case assignItems m (Suc index) rest of (r, b) \<Rightarrow> (item # r, b))
      else case m of
        PairSingle \<Rightarrow> (case assignItems m (Suc index) rest of (r, b) \<Rightarrow> (pairedAt 0 item # r, b))
      | PairSame \<Rightarrow> (case assignItems m (Suc index) rest of (r, b) \<Rightarrow> (pairedAt index item # r, b))
      | PairNone \<Rightarrow> (item # rest, True))"

fun assignOutputs :: "PairMode \<Rightarrow> NodeOutputs \<Rightarrow> NodeOutputs res" where
  "assignOutputs m [] = Inr []"
| "assignOutputs m (Null # rest) = rbind (assignOutputs m rest) (\<lambda>r. Inr (Null # r))"
| "assignOutputs m (Hole # rest) = Inl TypeError"
| "assignOutputs m (Val items # rest) = (case assignItems m 0 items of
      (items', True) \<Rightarrow> Inr (Val items' # rest)
    | (items', False) \<Rightarrow> rbind (assignOutputs m rest) (\<lambda>r. Inr (Val items' # r)))"

definition slotLength :: "Items slot \<Rightarrow> nat option" where
  "slotLength s = map_option length (slot_option s)"

definition pairMode :: "NodeOutputs \<Rightarrow> Items slot list \<Rightarrow> PairMode res" where
  "pairMode outputs main =
     (let single = (length main = 1 \<and> slotLength (slot_at main 0) = Some 1)
      in if length outputs = 1 \<and> length main = 1
         then (case slot_at outputs 0 of
             Val items \<Rightarrow> Inr (if single then PairSingle
               else if slotLength (slot_at main 0) = Some (length items) then PairSame else PairNone)
           | _ \<Rightarrow> Inl TypeError)
         else Inr (if single then PairSingle else PairNone))"

definition assignPairedItems :: "NodeOutputs option \<Rightarrow> IExecuteData \<Rightarrow> NodeOutputs option res" where
  "assignPairedItems nodeSuccessData executionData = (case nodeSuccessData of
      None \<Rightarrow> Inr None
    | Some [] \<Rightarrow> Inr (Some [])
    | Some outputs \<Rightarrow> (case jget (e_data executionData) Main of
        None \<Rightarrow> Inl TypeError
      | Some main \<Rightarrow> rbind (pairMode outputs main) (\<lambda>m. rbind (assignOutputs m outputs) (\<lambda>r. Inr (Some r)))))"

text \<open>\<open>alwaysOutputData\<close>: an empty item that is paired with every input item.\<close>

definition allInputItems :: "Items slot list \<Rightarrow> IPairedItemData list" where
  "allInputItems main = concat (map (\<lambda>(inputIndex, s). case s of
      Val items \<Rightarrow> map (\<lambda>itemIndex. \<lparr>pi_item = itemIndex, pi_input = Some inputIndex, pi_sourceOverwrite = None\<rparr>)
        [0..<length items]
    | _ \<Rightarrow> []) (enumerate 0 main))"

definition alwaysOutput :: "IExecuteData \<Rightarrow> NodeOutputs option \<Rightarrow> NodeOutputs option res" where
  "alwaysOutput executionData nodeSuccessData =
     (if firstItem nodeSuccessData = None \<and> n_alwaysOutputData (e_node executionData) = Some True
      then (case jget (e_data executionData) Main of
          None \<Rightarrow> Inl TypeError
        | Some main \<Rightarrow> Inr (Some (arr_put Hole 0
            (Val [\<lparr>i_json = [], i_error = None, i_pairedItem = Some (PairedMany (allInputItems main))\<rparr>])
            (case nodeSuccessData of None \<Rightarrow> [] | Some outputs \<Rightarrow> outputs))))
      else Inr nodeSuccessData)"

subsection \<open>The error output\<close>

text \<open>An item counts as failed by its \<open>error\<close>, or by an \<open>error\<close> that its json holds alone or with a message.\<close>

definition isErrorItem :: "INodeExecutionData \<Rightarrow> bool" where
  "isErrorItem item \<longleftrightarrow> (case i_error item of Some e \<Rightarrow> json_truthy e | None \<Rightarrow> False)
     \<or> (truthy_at (i_json item) ''error'' \<and> length (i_json item) = 1)
     \<or> (truthy_at (i_json item) ''error'' \<and> truthy_at (i_json item) ''message'' \<and> length (i_json item) = 2)"

definition pairedItemData :: "INodeExecutionData \<Rightarrow> IPairedItemData option" where
  "pairedItemData item = (case i_pairedItem item of
      Some (PairedOne p) \<Rightarrow> Some p
    | Some (PairedMany (p # _)) \<Rightarrow> Some p
    | _ \<Rightarrow> None)"

type_synonym GetPairedItem = "string \<Rightarrow> ISourceData \<Rightarrow> IPairedItemData \<Rightarrow> INodeExecutionData option"

definition errorItem :: "GetPairedItem \<Rightarrow> IExecuteData \<Rightarrow> INodeExecutionData \<Rightarrow> INodeExecutionData res" where
  "errorItem getPairedItem executionData item = (case (e_source executionData, pairedItemData item) of
      (Some source, Some p) \<Rightarrow> (case jget source Main of
          None \<Rightarrow> Inl TypeError
        | Some sources \<Rightarrow> (case arr_get sources (case pi_input p of None \<Rightarrow> 0 | Some i \<Rightarrow> i) of
            Some (Some sourceData) \<Rightarrow> (case getPairedItem (previousNode sourceData) sourceData p of
                None \<Rightarrow> Inr item
              | Some paired \<Rightarrow> Inr (item\<lparr>i_json := fold (\<lambda>(k, v). jput k v) (i_json item) (i_json paired)\<rparr>))
          | _ \<Rightarrow> Inl TypeError))
    | _ \<Rightarrow> Inr item)"

text \<open>One output: the successful items, and the failed ones added to those so far.\<close>

fun splitItems :: "GetPairedItem \<Rightarrow> IExecuteData \<Rightarrow> Items \<Rightarrow> Items \<Rightarrow> (Items \<times> Items) res" where
  "splitItems gp executionData [] errorItems = Inr ([], errorItems)"
| "splitItems gp executionData (item # items) errorItems =
     (if isErrorItem item
      then rbind (errorItem gp executionData item) (\<lambda>e. splitItems gp executionData items (errorItems @ [e]))
      else rbind (splitItems gp executionData items errorItems) (\<lambda>(s, es). Inr (item # s, es)))"

definition splitOutput :: "GetPairedItem \<Rightarrow> IExecuteData \<Rightarrow> nat \<Rightarrow> NodeOutputs \<times> Items \<Rightarrow> (NodeOutputs \<times> Items) res" where
  "splitOutput gp executionData outputIndex = (\<lambda>(nodeSuccessData, errorItems).
     rbind (splitItems gp executionData (case slot_at nodeSuccessData outputIndex of Val items \<Rightarrow> items | _ \<Rightarrow> []) errorItems)
       (\<lambda>(successItems, errorItems). Inr (arr_put Hole outputIndex (Val successItems) nodeSuccessData, errorItems)))"

definition handleNodeErrorOutput :: "INodeTypes \<Rightarrow> (INode \<Rightarrow> INodeType \<Rightarrow> NodeConnectionType list) \<Rightarrow> GetPairedItem
    \<Rightarrow> IExecuteData \<Rightarrow> NodeOutputs \<Rightarrow> NodeOutputs res" where
  "handleNodeErrorOutput nodeTypes getNodeOutputs gp executionData nodeSuccessData =
     (case nodeTypes (n_type (e_node executionData)) (n_typeVersion (e_node executionData)) of
        None \<Rightarrow> Inl TypeError
      | Some nodeType \<Rightarrow>
          let outputs = length (filter (\<lambda>t. t = Main) (getNodeOutputs (e_node executionData) nodeType))
          in rbind (rfold (splitOutput gp executionData) [0..<outputs - 1] (nodeSuccessData, []))
            (\<lambda>(nodeSuccessData, errorItems).
              Inr (if outputs = 0 then nodeSuccessData
                else arr_put Hole (outputs - 1) (Val errorItems) nodeSuccessData)))"

end
