(* ===== verification/EngineItems.thy ===== *)
theory EngineItems
  imports EngineNode
begin

section \<open>The items of a node's outputs\<close>

text \<open>What pairing and the error output make of the items.\<close>

subsection \<open>Pairing\<close>

text \<open>An output item is unchanged, or it had no pairing and is paired with an item of the only input.\<close>

definition paired_from :: "Items slot list \<Rightarrow> INodeExecutionData \<Rightarrow> INodeExecutionData \<Rightarrow> bool" where
  "paired_from main item item' \<longleftrightarrow> item' = item
     \<or> (i_pairedItem item = None \<and> (\<exists>items i. main = [Val items] \<and> i < length items \<and> item' = pairedAt i item))"

definition same_slots :: "('a \<Rightarrow> 'a \<Rightarrow> bool) \<Rightarrow> 'a list slot \<Rightarrow> 'a list slot \<Rightarrow> bool" where
  "same_slots R s t \<longleftrightarrow> (case (s, t) of (Val xs, Val ys) \<Rightarrow> list_all2 R xs ys | (Null, Null) \<Rightarrow> True | (Hole, Hole) \<Rightarrow> True | _ \<Rightarrow> False)"

lemma same_slots_simps [simp]:
  "same_slots R (Val xs) t \<longleftrightarrow> (\<exists>ys. t = Val ys \<and> list_all2 R xs ys)"
  "same_slots R Null t \<longleftrightarrow> t = Null" "same_slots R Hole t \<longleftrightarrow> t = Hole"
  by (cases t; simp add: same_slots_def)+

lemma paired_from_refl [simp]: "paired_from main item item"
  by (simp add: paired_from_def)

lemma list_all2_paired_refl: "list_all2 (paired_from main) xs xs"
  by (simp add: list_all2_same)

lemma assignItems_paired:
  assumes "assignItems m index items = (items', b)"
    and "m = PairSingle \<Longrightarrow> \<exists>inp. main = [Val inp] \<and> 0 < length inp"
    and "m = PairSame \<Longrightarrow> \<exists>inp. main = [Val inp] \<and> index + length items \<le> length inp"
  shows "list_all2 (paired_from main) items items'"
  using assms
proof (induction m index items arbitrary: items' b rule: assignItems.induct)
  case (2 m index item rest)
  show ?case
  proof (cases "i_pairedItem item = None")
    case False
    obtain r c where r: "assignItems m (Suc index) rest = (r, c)" by (metis surj_pair)
    have "list_all2 (paired_from main) rest r" by (rule "2.IH"(1) [OF False r]) (use "2.prems" in auto)
    then show ?thesis using "2.prems"(1) False r by auto
  next
    case True
    show ?thesis
    proof (cases m)
      case PairSingle
      obtain r c where r: "assignItems m (Suc index) rest = (r, c)" by (metis surj_pair)
      have "list_all2 (paired_from main) rest r"
        by (rule "2.IH"(2) [of r c]) (use "2.prems" True PairSingle r in auto)
      moreover have "paired_from main item (pairedAt 0 item)"
        using "2.prems"(2) True PairSingle by (auto simp: paired_from_def)
      ultimately show ?thesis using "2.prems"(1) True PairSingle r by auto
    next
      case PairSame
      obtain r c where r: "assignItems m (Suc index) rest = (r, c)" by (metis surj_pair)
      have "list_all2 (paired_from main) rest r"
        by (rule "2.IH"(3) [of r c]) (use "2.prems" True PairSame r in auto)
      moreover obtain inp where "main = [Val inp]" "index < length inp" using "2.prems"(3) [OF PairSame] by auto
      then have "paired_from main item (pairedAt index item)" unfolding paired_from_def using True by blast
      ultimately show ?thesis using "2.prems"(1) True PairSame r by auto
    next
      case PairNone
      then show ?thesis using "2.prems"(1) True list_all2_paired_refl by auto
    qed
  qed
qed simp

lemma assignOutputs_paired:
  assumes "assignOutputs m outputs = Inr outputs'"
    and "m = PairSingle \<Longrightarrow> \<exists>inp. main = [Val inp] \<and> 0 < length inp"
    and "m = PairSame \<Longrightarrow> \<exists>inp items. main = [Val inp] \<and> outputs = [Val items] \<and> length items \<le> length inp"
  shows "list_all2 (same_slots (paired_from main)) outputs outputs'"
  using assms
proof (induction m outputs arbitrary: outputs' rule: assignOutputs.induct)
  case (2 m rest)
  then show ?case by (auto simp: rbind_Inr_iff)
next
  case (4 m items rest)
  obtain r b where r: "assignItems m 0 items = (r, b)" by (metis surj_pair)
  have first: "list_all2 (paired_from main) items r"
    by (rule assignItems_paired [OF r]) (use "4.prems" in auto)
  have same: "list_all2 (same_slots (paired_from main)) rest rest"
    unfolding list_all2_same
  proof
    fix x
    show "same_slots (paired_from main) x x" using list_all2_paired_refl by (cases x) auto
  qed
  show ?case
  proof (cases b)
    case True
    then show ?thesis using "4.prems"(1) r first same by auto
  next
    case False
    then obtain rs where rs: "assignOutputs m rest = Inr rs" "outputs' = Val r # rs"
      using "4.prems"(1) r by (auto simp: rbind_Inr_iff)
    have "list_all2 (same_slots (paired_from main)) rest rs"
    proof (cases "m = PairSame")
      case True
      then have "rest = []" using "4.prems"(3) by auto
      then show ?thesis using rs(1) by simp
    next
      case False
      show ?thesis by (rule "4.IH" [OF r [symmetric] _ rs(1)]) (use "4.prems"(2) False \<open>\<not> b\<close> in auto)
    qed
    then show ?thesis using first by (simp add: rs(2))
  qed
qed auto

lemma slotLength_Some: "slotLength s = Some k \<longleftrightarrow> (\<exists>items. s = Val items \<and> length items = k)"
  by (cases s) (auto simp: slotLength_def)

lemma single_slot: "length main = 1 \<Longrightarrow> main = [slot_at main 0]"
  by (cases main) (auto simp: slot_at_def)

text \<open>
  C8: pairing changes only items that have no pairing yet, and pairs them with an item that the node's only
  input really has; all outputs keep their number of items, and outputs without data stay without.
\<close>

theorem assignPairedItems_valid:
  assumes "assignPairedItems (Some outputs) executionData = Inr result"
  shows "\<exists>outputs'. result = Some outputs' \<and> (outputs = [] \<and> outputs' = []
    \<or> (\<exists>main. jget (e_data executionData) Main = Some main \<and> list_all2 (same_slots (paired_from main)) outputs outputs'))"
proof (cases outputs)
  case Nil
  then show ?thesis using assms by (auto simp: assignPairedItems_def)
next
  case (Cons s ss)
  obtain main m outputs' where main: "jget (e_data executionData) Main = Some main" and m: "pairMode outputs main = Inr m"
    and r: "assignOutputs m outputs = Inr outputs'" "result = Some outputs'"
    using assms by (auto simp: assignPairedItems_def Cons rbind_Inr_iff split: option.splits)
  have "list_all2 (same_slots (paired_from main)) outputs outputs'"
  proof (rule assignOutputs_paired [OF r(1)])
    assume "m = PairSingle"
    then have "length main = 1" "slotLength (slot_at main 0) = Some 1"
      using m by (auto simp: pairMode_def Let_def split: if_splits slot.splits)
    then obtain inp where "slot_at main 0 = Val inp" "length inp = 1" by (auto simp: slotLength_Some)
    then show "\<exists>inp. main = [Val inp] \<and> 0 < length inp" using single_slot [OF \<open>length main = 1\<close>] by auto
  next
    assume "m = PairSame"
    then obtain items where l: "length outputs = 1" "length main = 1" "slot_at outputs 0 = Val items"
        "slotLength (slot_at main 0) = Some (length items)"
      using m by (auto simp: pairMode_def Let_def split: if_splits slot.splits)
    then obtain inp where "slot_at main 0 = Val inp" "length inp = length items" by (auto simp: slotLength_Some)
    then show "\<exists>inp items. main = [Val inp] \<and> outputs = [Val items] \<and> length items \<le> length inp"
      using single_slot [OF l(1)] single_slot [OF l(2)] l(3) by auto
  qed
  then show ?thesis using main r(2) by blast
qed

subsection \<open>The error output\<close>

definition itemsAt :: "NodeOutputs \<Rightarrow> nat \<Rightarrow> Items" where
  "itemsAt outputs i = (case slot_at outputs i of Val items \<Rightarrow> items | _ \<Rightarrow> [])"

lemma splitItems_result:
  assumes "splitItems gp d items es = Inr (ss, es')"
  shows "ss = filter (\<lambda>i. \<not> isErrorItem i) items
    \<and> (\<exists>new. es' = es @ new \<and> list_all2 (\<lambda>i e. errorItem gp d i = Inr e) (filter isErrorItem items) new)"
  using assms
proof (induction gp d items es arbitrary: ss rule: splitItems.induct)
  case (2 gp d item items es)
  show ?case
  proof (cases "isErrorItem item")
    case True
    then obtain e where e: "errorItem gp d item = Inr e" "splitItems gp d items (es @ [e]) = Inr (ss, es')"
      using "2.prems" by (auto simp: rbind_Inr_iff)
    from "2.IH"(1) [OF True e] obtain new where "ss = filter (\<lambda>i. \<not> isErrorItem i) items"
        "es' = (es @ [e]) @ new" "list_all2 (\<lambda>i e. errorItem gp d i = Inr e) (filter isErrorItem items) new" by blast
    then show ?thesis using True e(1) by (auto intro!: exI [of _ "e # new"])
  next
    case False
    then obtain rest where "splitItems gp d items es = Inr (rest, es')" "ss = item # rest"
      using "2.prems" by (auto simp: rbind_Inr_iff)
    then show ?thesis using "2.IH"(2) [OF False] False by auto
  qed
qed simp

lemma slot_at_arr_put: "slot_at (arr_put Hole i v xs) j = (if j = i then v else slot_at xs j)"
  by (cases "j < length xs") (auto simp: slot_at_def arr_get_arr_put, auto simp: arr_get_def)

lemma itemsAt_arr_put: "itemsAt (arr_put Hole i v xs) j = (if j = i then case v of Val items \<Rightarrow> items | _ \<Rightarrow> [] else itemsAt xs j)"
  by (simp add: itemsAt_def slot_at_arr_put)

lemma splitOutputs_result:
  assumes "rfold (splitOutput gp d) [0..<n] (outputs, []) = Inr (outputs', es)"
  shows "(\<forall>j. slot_at outputs' j = (if j < n then Val (filter (\<lambda>i. \<not> isErrorItem i) (itemsAt outputs j)) else slot_at outputs j))
    \<and> list_all2 (\<lambda>i e. errorItem gp d i = Inr e) (filter isErrorItem (concat (map (itemsAt outputs) [0..<n]))) es"
  using assms
proof (induction n arbitrary: outputs' es)
  case (Suc n)
  obtain o1 e1 where prev: "rfold (splitOutput gp d) [0..<n] (outputs, []) = Inr (o1, e1)"
    and now: "splitOutput gp d n (o1, e1) = Inr (outputs', es)"
    using Suc.prems by (auto simp: rfold_append rbind_Inr_iff)
  note IH = Suc.IH [OF prev]
  have n: "itemsAt o1 n = itemsAt outputs n" using IH by (simp add: itemsAt_def)
  obtain ss where ss: "splitItems gp d (itemsAt outputs n) e1 = Inr (ss, es)" "outputs' = arr_put Hole n (Val ss) o1"
    using now by (auto simp: splitOutput_def rbind_Inr_iff itemsAt_def [symmetric] n)
  from splitItems_result [OF ss(1)] obtain new where new: "ss = filter (\<lambda>i. \<not> isErrorItem i) (itemsAt outputs n)"
      "es = e1 @ new" "list_all2 (\<lambda>i e. errorItem gp d i = Inr e) (filter isErrorItem (itemsAt outputs n)) new" by blast
  show ?case
    using IH new by (auto simp: ss(2) slot_at_arr_put less_Suc_eq intro: list_all2_appendI)
qed simp

text \<open>
  C7: with the error output, each success output keeps its successful items in their order, the last main
  output gets all failed items of the others, in order and each with the json of its input item added where
  that is known, and further outputs stay.
\<close>

theorem handleNodeErrorOutput_partition:
  assumes "nodeTypes (n_type (e_node executionData)) (n_typeVersion (e_node executionData)) = Some nodeType"
    and "length (filter (\<lambda>t. t = Main) (getNodeOutputs (e_node executionData) nodeType)) = Suc m"
    and "handleNodeErrorOutput nodeTypes getNodeOutputs gp executionData outputs = Inr outputs'"
  shows "\<exists>es. list_all2 (\<lambda>i e. errorItem gp executionData i = Inr e) (filter isErrorItem (concat (map (itemsAt outputs) [0..<m]))) es
    \<and> (\<forall>j. slot_at outputs' j = (if j < m then Val (filter (\<lambda>i. \<not> isErrorItem i) (itemsAt outputs j))
        else if j = m then Val es else slot_at outputs j))"
proof -
  obtain o1 es where r: "rfold (splitOutput gp executionData) [0..<m] (outputs, []) = Inr (o1, es)"
      "outputs' = arr_put Hole m (Val es) o1"
    using assms by (auto simp: handleNodeErrorOutput_def rbind_Inr_iff Let_def)
  from splitOutputs_result [OF r(1)] show ?thesis
    by (intro exI [of _ es]) (auto simp: r(2) slot_at_arr_put)
qed

subsection \<open>Instances\<close>

definition two_items :: IExecuteData where
  "two_items = \<lparr>e_node = mk_node 0 ''N'', e_data = [(Main, [Val [item_of [], item_of []]])], e_source = None,
     e_runIndex = None, e_metadata = None\<rparr>"

theorem assignPairedItems_valid_witness:
  "list_all2 (same_slots (paired_from [Val [item_of [], item_of []]])) [Val [item_of [], item_of []]]
     [Val [pairedAt 0 (item_of []), pairedAt 1 (item_of [])]]"
proof -
  have "assignPairedItems (Some [Val [item_of [], item_of []]]) two_items
      = Inr (Some [Val [pairedAt 0 (item_of []), pairedAt 1 (item_of [])]])" by code_simp
  from assignPairedItems_valid [OF this] show ?thesis by (simp add: two_items_def)
qed

definition failed_item :: INodeExecutionData where
  "failed_item = item_of [(''error'', JStr ''x'')]"

theorem handleNodeErrorOutput_partition_witness:
  "\<exists>es. list_all2 (\<lambda>i e. errorItem (\<lambda>_ _ _. None) two_items i = Inr e) [failed_item] es
    \<and> slot_at [Val [item_of []], Val [failed_item]] 0 = Val [item_of []] \<and> slot_at [Val [item_of []], Val [failed_item]] 1 = Val es"
proof -
  have "no_types (n_type (e_node two_items)) (n_typeVersion (e_node two_items))
      = Some (the (no_types (n_type (e_node two_items)) (n_typeVersion (e_node two_items))))" by code_simp
  moreover have "length (filter (\<lambda>t. t = Main) [Main, Main]) = Suc 1" by simp
  moreover have "handleNodeErrorOutput no_types (\<lambda>_ _. [Main, Main]) (\<lambda>_ _ _. None) two_items [Val [item_of [], failed_item]]
      = Inr [Val [item_of []], Val [failed_item]]" by code_simp
  ultimately have "\<exists>es. list_all2 (\<lambda>i e. errorItem (\<lambda>_ _ _. None) two_items i = Inr e)
        (filter isErrorItem (concat (map (itemsAt [Val [item_of [], failed_item]]) [0..<1]))) es
      \<and> (\<forall>j. slot_at [Val [item_of []], Val [failed_item]] j = (if j < 1
          then Val (filter (\<lambda>i. \<not> isErrorItem i) (itemsAt [Val [item_of [], failed_item]] j))
          else if j = 1 then Val es else slot_at [Val [item_of [], failed_item]] j))"
    by (rule handleNodeErrorOutput_partition)
  moreover have "filter isErrorItem (concat (map (itemsAt [Val [item_of [], failed_item]]) [0..<1])) = [failed_item]"
    by code_simp
  ultimately obtain es where es: "list_all2 (\<lambda>i e. errorItem (\<lambda>_ _ _. None) two_items i = Inr e) [failed_item] es"
    and slots: "\<forall>j. slot_at [Val [item_of []], Val [failed_item]] j = (if j < 1
          then Val (filter (\<lambda>i. \<not> isErrorItem i) (itemsAt [Val [item_of [], failed_item]] j))
          else if j = 1 then Val es else slot_at [Val [item_of [], failed_item]] j)" by auto
  have "slot_at [Val [item_of []], Val [failed_item]] 1 = Val es" using spec [OF slots, of 1] by simp
  moreover have "slot_at [Val [item_of []], Val [failed_item]] 0 = Val [item_of []]" by code_simp
  ultimately show ?thesis using es by blast
qed

end
