(* ===== verification/EngineTables.thy ===== *)
theory EngineTables
  imports EngineSchedule
begin

section \<open>The waiting tables are kept in order\<close>

text \<open>
  The invariant of the waiting tables: both have the same entries, an entry has main data and main sources,
  at least one place per input of its node, and misses the data of some input; only nodes with several
  inputs wait, and no node has an empty table.
\<close>

named_theorems table_simps \<open>lookups in the waiting tables after an update\<close>

definition entry :: "(string, (nat, 'd) jmap) jmap \<Rightarrow> string \<Rightarrow> nat \<Rightarrow> 'd option" where
  "entry t n r = jget (tableRuns t n) r"

lemma entry_setRun [table_simps]: "entry (setRun n r d t) n' r' = (if n' = n \<and> r' = r then Some d else entry t n' r')"
  by (auto simp: entry_def setRun_def tableRuns_def update_conv')

lemma entry_delRun [table_simps]: "entry (delRun n r t) n' r' = (if n' = n \<and> r' = r then None else entry t n' r')"
  by (auto simp: entry_def delRun_def tableRuns_def update_conv' delete_conv')

lemma entry_jdel [table_simps]: "entry (jdel n t) n' r' = (if n' = n then None else entry t n' r')"
  by (simp add: entry_def tableRuns_def delete_conv')

lemma entry_new [table_simps]: "\<not> jhas t n \<Longrightarrow> entry (jput n [] t) n' r' = entry t n' r'"
  by (auto simp: entry_def tableRuns_def update_conv' jhas_def split: option.split)

lemma jhas_jput [table_simps]: "jhas (jput k v m) k' \<longleftrightarrow> k' = k \<or> jhas m k'"
  by (simp add: jhas_def update_conv')

lemma jhas_jdel [table_simps]: "jhas (jdel k m) k' \<longleftrightarrow> k' \<noteq> k \<and> jhas m k'"
  by (simp add: jhas_def delete_conv')

lemma jhas_setRun [table_simps]: "jhas (setRun n r d t) n' \<longleftrightarrow> n' = n \<or> jhas t n'"
  by (simp add: setRun_def table_simps)

lemma jhas_delRun [table_simps]: "jhas (delRun n r t) n' \<longleftrightarrow> n' = n \<or> jhas t n'"
  by (simp add: delRun_def table_simps)

lemma setWaitingMain_setRun:
  "entry t n r = Some d \<Longrightarrow> setWaitingMain n r xs t = setRun n r (jput Main xs d) t"
  by (simp add: setWaitingMain_def entry_def)

lemma waitingMain_entry:
  "waitingMain t n r = Inr xs \<longleftrightarrow> (\<exists>d. entry t n r = Some d \<and> jget d Main = Some xs)"
  by (auto simp: waitingMain_def entry_def split: option.splits)

lemma jget_setRun_nonempty: "jget (setRun n r d t) n' \<noteq> Some [] \<longleftrightarrow> n' = n \<or> jget t n' \<noteq> Some []"
  using AList.update_nonempty [of r d "tableRuns t n"] by (auto simp: setRun_def update_conv')

definition entry_ok :: "Workflow \<Rightarrow> string \<Rightarrow> ITaskDataInputs option \<Rightarrow> ITaskDataConnectionsSource option \<Rightarrow> bool" where
  "entry_ok w n d s = (case (d, s) of
      (None, None) \<Rightarrow> True
    | (Some data, Some source) \<Rightarrow> (case (jget data Main, jget source Main) of
        (Some xs, Some ss) \<Rightarrow> Null \<in> set xs \<and> 1 < length (mainInputs w n) \<and> length (mainInputs w n) \<le> length xs
      | _ \<Rightarrow> False)
    | _ \<Rightarrow> False)"

definition agree :: "Engine \<Rightarrow> bool" where
  "agree x \<longleftrightarrow> (\<forall>n. jhas (x_waiting x) n = jhas (x_waitingSource x) n)"

definition tables_wf :: "Engine \<Rightarrow> bool" where
  "tables_wf x \<longleftrightarrow> agree x \<and> (\<forall>n. jget (x_waiting x) n \<noteq> Some [])
     \<and> (\<forall>n r. entry_ok (x_workflow x) n (entry (x_waiting x) n r) (entry (x_waitingSource x) n r))"

text \<open>The tables while one entry, of node \<open>n\<close> and run \<open>k\<close>, is worked on: it need not miss an input.\<close>

definition main_entry :: "Engine \<Rightarrow> string \<Rightarrow> nat \<Rightarrow> Items slot list \<Rightarrow> bool" where
  "main_entry x n k xs \<longleftrightarrow> (\<exists>d s ss. entry (x_waiting x) n k = Some d \<and> jget d Main = Some xs
     \<and> entry (x_waitingSource x) n k = Some s \<and> jget s Main = Some ss)"

definition pending :: "string \<Rightarrow> nat \<Rightarrow> Items slot list \<Rightarrow> Engine \<Rightarrow> bool" where
  "pending n k xs x \<longleftrightarrow> agree x \<and> (\<forall>n'. jget (x_waiting x) n' \<noteq> Some [])
     \<and> (\<forall>n' r. \<not> (n' = n \<and> r = k) \<longrightarrow>
          entry_ok (x_workflow x) n' (entry (x_waiting x) n' r) (entry (x_waitingSource x) n' r))
     \<and> main_entry x n k xs \<and> 1 < length (mainInputs (x_workflow x) n) \<and> length (mainInputs (x_workflow x) n) \<le> length xs"

lemma entry_ok_simps [simp]:
  "entry_ok w n None s \<longleftrightarrow> s = None"
  "entry_ok w n (Some data) None \<longleftrightarrow> False"
  "entry_ok w n (Some data) (Some source) \<longleftrightarrow> (\<exists>xs ss. jget data Main = Some xs \<and> jget source Main = Some ss
     \<and> Null \<in> set xs \<and> 1 < length (mainInputs w n) \<and> length (mainInputs w n) \<le> length xs)"
  by (auto simp: entry_ok_def split: option.split)

lemma pending_complete:
  assumes "pending n k xs x" and "Null \<in> set xs"
  shows "tables_wf x"
proof -
  have "entry_ok (x_workflow x) n' (entry (x_waiting x) n' r) (entry (x_waitingSource x) n' r)" for n' r
    using assms by (cases "n' = n \<and> r = k") (auto simp: pending_def main_entry_def)
  then show ?thesis using assms(1) by (simp add: pending_def tables_wf_def)
qed

lemma tables_wf_entry:
  assumes "tables_wf x" and "entry (x_waiting x) n k = Some d"
  shows "\<exists>xs. jget d Main = Some xs \<and> Null \<in> set xs \<and> pending n k xs x"
proof -
  have "entry_ok (x_workflow x) n (Some d) (entry (x_waitingSource x) n k)"
    using assms unfolding tables_wf_def by metis
  then obtain xs s ss where "jget d Main = Some xs" "Null \<in> set xs" "1 < length (mainInputs (x_workflow x) n)"
      "length (mainInputs (x_workflow x) n) \<le> length xs" "entry (x_waitingSource x) n k = Some s" "jget s Main = Some ss"
    by (cases "entry (x_waitingSource x) n k") auto
  then show ?thesis using assms unfolding tables_wf_def pending_def main_entry_def by auto
qed

subsection \<open>The operations on the tables\<close>

lemma length_arr_put: "length xs \<le> length (arr_put h i v xs)"
  by (simp add: arr_put_def)

lemma pending_prepare:
  assumes "agree x" and "\<forall>n' r. entry_ok (x_workflow x) n' (entry (x_waiting x) n' r) (entry (x_waitingSource x) n' r)"
    and "\<forall>n'. n' \<noteq> n \<longrightarrow> jget (x_waiting x) n' \<noteq> Some []" and "1 < length (mainInputs (x_workflow x) n)"
  shows "pending n k (replicate (length (mainInputs (x_workflow x) n)) Null)
    (prepareWaitingToExecution n (length (mainInputs (x_workflow x) n)) k x)"
  using assms unfolding pending_def agree_def main_entry_def prepareWaitingToExecution_def
  by (auto simp: table_simps jget_setRun_nonempty)

lemma pending_write:
  assumes "pending n k xs x" and "writeWaiting n k i v s x = Inr x'"
  shows "pending n k (arr_put Hole i v xs) x'"
proof -
  obtain d e ss where d: "entry (x_waiting x) n k = Some d" "jget d Main = Some xs"
      "entry (x_waitingSource x) n k = Some e" "jget e Main = Some ss"
    using assms(1) by (auto simp: pending_def main_entry_def)
  then have x': "x' = x\<lparr>x_waiting := setRun n k (jput Main (arr_put Hole i v xs) d) (x_waiting x),
      x_waitingSource := setRun n k (jput Main (arr_put None i s ss) e) (x_waitingSource x)\<rparr>"
    using assms(2) by (auto simp: writeWaiting_def rbind_Inr_iff waitingMain_entry setWaitingMain_setRun)
  show ?thesis
    using assms(1) length_arr_put [of xs Hole i v] unfolding x' pending_def agree_def main_entry_def
    by (auto simp: table_simps jget_setRun_nonempty update_conv')
qed

lemma pending_keep:
  assumes "pending n k xs x" and "keepWaiting n k i v x = Inr x'"
  shows "pending n k (arr_put Hole i v xs) x'"
proof -
  obtain d e ss where d: "entry (x_waiting x) n k = Some d" "jget d Main = Some xs"
      "entry (x_waitingSource x) n k = Some e" "jget e Main = Some ss"
    using assms(1) by (auto simp: pending_def main_entry_def)
  then have x': "x' = x\<lparr>x_waiting := setRun n k [(Main, arr_put Hole i v xs)] (x_waiting x),
      x_waitingSource := setRun n k [(Main, ss)] (x_waitingSource x)\<rparr>"
    using assms(2) by (auto simp: keepWaiting_def rbind_Inr_iff waitingMain_entry)
  show ?thesis
    using assms(1) length_arr_put [of xs Hole i v] unfolding x' pending_def agree_def main_entry_def
    by (auto simp: table_simps jget_setRun_nonempty)
qed

lemma tableRuns_empty: "tableRuns t n = [] \<Longrightarrow> entry t n r = None"
  by (simp add: entry_def)

lemma tables_wf_remove:
  assumes "pending n k xs x"
  shows "tables_wf (removeWaiting n k x)"
proof -
  let ?w = "delRun n k (x_waiting x)" and ?s = "delRun n k (x_waitingSource x)"
  have other: "entry_ok (x_workflow x) n' (entry ?w n' r) (entry ?s n' r)" for n' r
    using assms by (auto simp: pending_def table_simps)
  have runs: "jget ?w n' = Some [] \<Longrightarrow> n' = n \<and> tableRuns ?w n = []" for n'
    using assms by (auto simp: pending_def delRun_def update_conv' tableRuns_def split: if_splits)
  have agree: "jhas ?w n' = jhas ?s n'" for n'
    using assms by (simp add: pending_def agree_def table_simps)
  show ?thesis
  proof (cases "tableRuns ?w n = []")
    case True
    have "entry_ok (x_workflow x) n' (entry (jdel n ?w) n' r) (entry (jdel n ?s) n' r)" for n' r
      using other [of n' r] by (simp add: entry_jdel)
    moreover have "jget (jdel n ?w) n' \<noteq> Some []" for n'
      using runs [of n'] by (auto simp: delete_conv')
    ultimately show ?thesis
      using True agree by (auto simp: removeWaiting_def Let_def tables_wf_def agree_def table_simps)
  next
    case False
    then show ?thesis
      using other agree runs by (auto simp: removeWaiting_def Let_def tables_wf_def agree_def)
  qed
qed

end
