(* ===== verification/EngineRequests.thy ===== *)
theory EngineRequests
  imports EngineNode
begin

section \<open>Requests of a node to the engine\<close>

text \<open>
  \<open>requests-response.ts\<close> and \<open>handleEngineRequest\<close>: a node such as an agent asks the engine to run other
  nodes, and is run again with their results.  An exception keeps what was done before it, so the result is
  paired with the state.
\<close>

record NodeToBeExecuted =
  tb_inputConnectionData :: IConnection
  tb_parentOutputIndex :: nat
  tb_parentNode :: string
  tb_parentOutputData :: "NodeOutputs option"
  tb_runIndex :: nat
  tb_nodeRunIndex :: nat
  tb_metadata :: ITaskMetadata

text \<open>Changing a node object changes it wherever it is referred to.\<close>

definition changeNode :: "nat \<Rightarrow> (INode \<Rightarrow> INode) \<Rightarrow> Engine \<Rightarrow> Engine" where
  "changeNode oid f x = (let g = (\<lambda>node. if n_oid node = oid then f node else node) in
     x\<lparr>x_workflow := (x_workflow x)\<lparr>w_nodes := map (\<lambda>(name, node). (name, g node)) (w_nodes (x_workflow x))\<rparr>,
       x_stack := map (\<lambda>item. item\<lparr>e_node := g (e_node item)\<rparr>) (x_stack x)\<rparr>)"

definition metadataOf :: "bool option \<Rightarrow> bool option \<Rightarrow> SubNodeExecutionData option \<Rightarrow> ITaskMetadata" where
  "metadataOf preserve resumed sub = \<lparr>md_preserveSourceOverwrite = preserve, md_nodeWasResumed = resumed,
     md_subNodeExecutionData = sub, md_other = []\<rparr>"

text \<open>\<open>executionData.source?.main?.[i]\<close>\<close>

definition sourceAt :: "IExecuteData \<Rightarrow> nat \<Rightarrow> ISourceData option" where
  "sourceAt executionData i = (case e_source executionData of None \<Rightarrow> None
     | Some source \<Rightarrow> (case jget source Main of None \<Rightarrow> None
       | Some sources \<Rightarrow> (case arr_get sources i of None \<Rightarrow> None | Some s \<Rightarrow> s)))"

text \<open>\<open>executionData.data.main?.[0]?.[itemIndex]\<close>\<close>

definition inputItem :: "IExecuteData \<Rightarrow> nat \<Rightarrow> INodeExecutionData option" where
  "inputItem executionData itemIndex = (case jget (e_data executionData) Main of None \<Rightarrow> None
     | Some main \<Rightarrow> (case slot_at main 0 of Val items \<Rightarrow> arr_get items itemIndex | _ \<Rightarrow> None))"

definition requestItem :: "IExecuteData \<Rightarrow> INode \<Rightarrow> nat \<Rightarrow> ExecuteNodeAction \<Rightarrow> INodeExecutionData" where
  "requestItem executionData currentNode runIndex action =
     (let parentSourceData = sourceAt executionData runIndex;
          parentOutputIndex = (case Option.bind parentSourceData previousNodeOutput of None \<Rightarrow> 0 | Some i \<Rightarrow> i);
          parentRunIndex = (case Option.bind parentSourceData previousNodeRun of None \<Rightarrow> 0 | Some i \<Rightarrow> i);
          parentSourceNode = (case parentSourceData of None \<Rightarrow> n_name currentNode | Some s \<Rightarrow> previousNode s);
          agentInputData = inputItem executionData (case a_itemIndex action of None \<Rightarrow> 0 | Some i \<Rightarrow> i);
          agentJson = (case agentInputData of None \<Rightarrow> [] | Some item \<Rightarrow> i_json item)
      in \<lparr>i_json = jput ''toolCallId'' (JStr (a_id action)) (fold (\<lambda>(k, v). jput k v) (a_input action) agentJson),
          i_error = None,
          i_pairedItem = Some (PairedOne \<lparr>pi_item = parentRunIndex, pi_input = Some parentOutputIndex,
            pi_sourceOverwrite = Some \<lparr>previousNode = parentSourceNode, previousNodeOutput = Some parentOutputIndex,
              previousNodeRun = Some parentRunIndex\<rparr>\<rparr>)\<rparr>)"

definition placeholderTask :: "INodeExecutionData \<Rightarrow> ITaskData" where
  "placeholderTask item = \<lparr>t_executionIndex = Some 0, t_source = [], t_executionStatus = None, t_data = None,
     t_inputOverride = Some [(AiTool, [Some [item]])], t_error = None, t_metadata = None, t_hints = []\<rparr>"

definition runsOf :: "IRunData \<Rightarrow> string \<Rightarrow> ITaskData list" where
  "runsOf runData name = (case jget runData name of None \<Rightarrow> [] | Some runs \<Rightarrow> runs)"

definition prepareAction :: "INode \<Rightarrow> nat \<Rightarrow> IExecuteData \<Rightarrow> ExecuteNodeAction \<Rightarrow> INode \<Rightarrow> Engine
    \<Rightarrow> NodeToBeExecuted \<times> (ExecuteNodeAction \<times> string \<times> nat) \<times> Engine" where
  "prepareAction currentNode runIndex executionData action node x =
     (let x = changeNode (n_oid node) (\<lambda>n. n\<lparr>n_rewireOutputLogTo := Some (a_type action)\<rparr>) x;
          item = requestItem executionData currentNode runIndex action;
          nodeRunIndex = length (runsOf (x_runData x) (n_name node))
      in (\<lparr>tb_inputConnectionData = \<lparr>c_node = a_nodeName action, c_type = a_type action, c_index = 0\<rparr>,
           tb_parentOutputIndex = 0, tb_parentNode = n_name currentNode, tb_parentOutputData = Some [Val [item]],
           tb_runIndex = runIndex, tb_nodeRunIndex = nodeRunIndex, tb_metadata = metadataOf (Some True) None None\<rparr>,
          (action, a_nodeName action, nodeRunIndex),
          x\<lparr>x_runData := jput (n_name node) (runsOf (x_runData x) (n_name node) @ [placeholderTask item]) (x_runData x)\<rparr>))"

fun prepareRequestedNodesForExecution :: "INode \<Rightarrow> nat \<Rightarrow> IExecuteData \<Rightarrow> ExecuteNodeAction list \<Rightarrow> Engine
    \<Rightarrow> (NodeToBeExecuted list \<times> (ExecuteNodeAction \<times> string \<times> nat) list) res \<times> Engine" where
  "prepareRequestedNodesForExecution currentNode runIndex executionData [] x = (Inr ([], []), x)"
| "prepareRequestedNodesForExecution currentNode runIndex executionData (action # actions) x =
     (case getNode (x_workflow x) (a_nodeName action) of
        None \<Rightarrow> (Inl (UnexpectedError (''Workflow does not contain a node with the name of '' @ a_nodeName action)), x)
      | Some node \<Rightarrow> (case prepareAction currentNode runIndex executionData action node x of (nodeData, entry, x) \<Rightarrow>
          (case prepareRequestedNodesForExecution currentNode runIndex executionData actions x of (r, x) \<Rightarrow>
            (rbind r (\<lambda>(nodes, entries). Inr (nodeData # nodes, entry # entries)), x))))"

definition prepareRequestingNodeForResuming :: "IExecuteData \<Rightarrow> (IConnection \<times> string) option" where
  "prepareRequestingNodeForResuming executionData = (case sourceAt executionData 0 of
      None \<Rightarrow> None
    | Some s \<Rightarrow> if previousNode s = [] then None
        else Some (\<lparr>c_node = n_name (e_node executionData), c_type = AiTool, c_index = 0\<rparr>, previousNode s))"

definition handleRequest :: "INode \<Rightarrow> EngineRequest \<Rightarrow> nat \<Rightarrow> IExecuteData \<Rightarrow> Engine \<Rightarrow> NodeToBeExecuted list res \<times> Engine" where
  "handleRequest currentNode request runIndex executionData x =
     (case prepareRequestedNodesForExecution currentNode runIndex executionData (rq_actions request) x of (r, x) \<Rightarrow>
       (rbind r (\<lambda>(nodesToBeExecuted, actions). case prepareRequestingNodeForResuming executionData of
            None \<Rightarrow> Inr []
          | Some (connectionData, parentNode) \<Rightarrow>
              Inr (\<lparr>tb_inputConnectionData = connectionData, tb_parentOutputIndex = 0, tb_parentNode = parentNode,
                tb_parentOutputData = jget (e_data executionData) Main, tb_runIndex = runIndex,
                tb_nodeRunIndex = runIndex, tb_metadata = metadataOf None (Some True)
                  (Some \<lparr>sn_actions = actions, sn_metadata = rq_metadata request\<rparr>)\<rparr> # nodesToBeExecuted)), x))"

text \<open>\<open>None\<close> as output data is \<open>undefined\<close>, which throws when it is indexed.\<close>

definition addRequested :: "NodeToBeExecuted \<Rightarrow> Engine \<Rightarrow> Engine res" where
  "addRequested n x = (if tb_parentOutputData n = None then Inl TypeError
     else addNodeToBeExecuted (tb_inputConnectionData n) (tb_parentOutputIndex n) (tb_parentNode n)
       (tb_parentOutputData n) (tb_runIndex n) (Some (tb_nodeRunIndex n)) (Some (tb_metadata n)) x)"

definition handleEngineRequest :: "INode \<Rightarrow> EngineRequest \<Rightarrow> nat \<Rightarrow> IExecuteData \<Rightarrow> Engine \<Rightarrow> js_error option \<times> Engine" where
  "handleEngineRequest currentNode request runIndex executionData x =
     (case handleRequest currentNode request runIndex executionData x of
        (Inl e, x) \<Rightarrow> (Some e, x)
      | (Inr nodesToBeExecuted, x) \<Rightarrow> (case rfold addRequested nodesToBeExecuted x of
          Inl e \<Rightarrow> (Some e, x)
        | Inr x \<Rightarrow> (None, x)))"

text \<open>The results for the node that asked are added to those collected so far in the step.\<close>

definition addSubNodeResults :: "SubNodeExecutionData \<Rightarrow> IRunData \<Rightarrow> EngineResponse \<Rightarrow> EngineResponse" where
  "addSubNodeResults sub runData response = \<lparr>er_actionResponses = er_actionResponses response
     @ List.map_filter (\<lambda>(action, nodeName, runIndex).
         map_option (\<lambda>task. (task, action)) (arr_get (runsOf runData nodeName) runIndex)) (sn_actions sub),
     er_metadata = sn_metadata sub\<rparr>"

end
