(* ===== verification/EngineTry.thy ===== *)
theory EngineTry
  imports EngineRequests
begin

section \<open>Running a node with retries\<close>

text \<open>
  The \<open>for\<close> loop over the tries in \<open>processRunExecutionData\<close>, with the \<open>while\<close> loop that runs a node again
  whose first item holds an error.  Both count with \<open>tryIndex\<close>; the model counts the tries that remain.
  The constant context of a step is the record \<open>StepContext\<close>.
\<close>

record StepContext =
  sc_nodeTypes :: INodeTypes
  sc_manual :: bool
  sc_getNodeOutputs :: "INode \<Rightarrow> INodeType \<Rightarrow> NodeConnectionType list"
  sc_getPairedItem :: GetPairedItem
  sc_calls :: Calls
  sc_node :: INode
  sc_runIndex :: nat

record Try =
  tr_engine :: Engine
  tr_data :: IExecuteData
  tr_output :: "NodeOutputs option"
  tr_error :: "ExecutionError option"
  tr_hints :: "string list"
  tr_responses :: EngineResponse
  tr_calls :: nat

text \<open>\<open>Math.min(5, Math.max(2, node.maxTries || 3))\<close>\<close>

definition maxTriesOf :: "INode \<Rightarrow> int" where
  "maxTriesOf node = (if n_retryOnFail node = Some True
     then min 5 (max 2 (case n_maxTries node of None \<Rightarrow> 3 | Some n \<Rightarrow> if n = 0 then 3 else n)) else 1)"

definition waitBetweenTriesOf :: "INode \<Rightarrow> int" where
  "waitBetweenTriesOf node = (if n_retryOnFail node = Some True
     then min 5000 (max 0 (case n_waitBetweenTries node of None \<Rightarrow> 1000 | Some n \<Rightarrow> if n = 0 then 1000 else n)) else 0)"

definition runNodeTry :: "StepContext \<Rightarrow> EngineResponse option \<Rightarrow> Try \<Rightarrow> RunResponse \<times> Try" where
  "runNodeTry c response t =
     (case runNode (sc_nodeTypes c) (sc_manual c) (sc_calls c) (tr_calls t) (sc_runIndex c) response (tr_data t, tr_engine t) of
        (r, executionData, x) \<Rightarrow> (r, t\<lparr>tr_data := executionData, tr_engine := x, tr_calls := Suc (tr_calls t)\<rparr>))"

text \<open>The \<open>while\<close> loop: the tries that remain, the answer, the state.  A call that throws does not count yet.\<close>

fun runAgain :: "StepContext \<Rightarrow> nat \<Rightarrow> RunResponse \<Rightarrow> Try \<Rightarrow> nat \<times> RunResponse \<times> Try" where
  "runAgain c 0 response t = (0, response, t)"
| "runAgain c (Suc n) response t =
     (if nodeFailed response
      then (case runNodeTry c None t of
          (RunError e, t) \<Rightarrow> (Suc n, RunError e, t)
        | (response, t) \<Rightarrow> runAgain c n response t)
      else (Suc n, response, t))"

text \<open>The error the engine keeps of an exception: its own properties and the message.\<close>

fun toExecutionError :: "js_error \<Rightarrow> ExecutionError" where
  "toExecutionError (NamedError name message) = \<lparr>er_name = Some name, er_message = message\<rparr>"
| "toExecutionError (AssertionError message) = \<lparr>er_name = None, er_message = message\<rparr>"
| "toExecutionError TypeError = typeError"
| "toExecutionError (UserError message) = \<lparr>er_name = None, er_message = message\<rparr>"
| "toExecutionError (ApplicationError message) = \<lparr>er_name = None, er_message = message\<rparr>"
| "toExecutionError (UnexpectedError message) = \<lparr>er_name = None, er_message = message\<rparr>"
| "toExecutionError (OperationalError message) = \<lparr>er_name = None, er_message = message\<rparr>"

datatype TryEnd = TryBreak Try | TryContinue Engine | TryThrew ExecutionError Try

definition catching :: "'a res \<Rightarrow> Try \<Rightarrow> ('a \<Rightarrow> TryEnd) \<Rightarrow> TryEnd" where
  "catching r t f = (case r of Inl e \<Rightarrow> TryThrew (toExecutionError e) t | Inr v \<Rightarrow> f v)"

text \<open>The end of a try: pairing, \<open>lastNodeExecuted\<close>, \<open>alwaysOutputData\<close>, and what \<open>null\<close> leads to.\<close>

definition finishTry :: "Try \<Rightarrow> TryEnd" where
  "finishTry t = catching (assignPairedItems (tr_output t) (tr_data t)) t (\<lambda>output.
     let x = (if output = None then tr_engine t
           else (tr_engine t)\<lparr>x_lastNodeExecuted := Some (n_name (e_node (tr_data t)))\<rparr>);
         t = t\<lparr>tr_output := output, tr_engine := x\<rparr>
     in catching (alwaysOutput (tr_data t) output) t (\<lambda>output.
       let t = t\<lparr>tr_output := output\<rparr>
       in if output = None \<and> x_waitTill x = None then TryContinue x else TryBreak t))"

definition pinnedItems :: "Engine \<Rightarrow> INode \<Rightarrow> Items option" where
  "pinnedItems x node = (case x_pinData x of
      None \<Rightarrow> None
    | Some pinData \<Rightarrow> if n_disabled node = Some True then None else jget pinData (n_name node))"

definition collectResponses :: "Try \<Rightarrow> Try" where
  "collectResponses t = (case Option.bind (e_metadata (tr_data t)) md_subNodeExecutionData of
      None \<Rightarrow> t
    | Some sub \<Rightarrow> t\<lparr>tr_responses := addSubNodeResults sub (x_runData (tr_engine t)) (tr_responses t)\<rparr>)"

text \<open>The item that runs refers to its node object, so it sees the change a request made to it.\<close>

definition refreshNode :: "Engine \<Rightarrow> IExecuteData \<Rightarrow> IExecuteData" where
  "refreshNode x item = (case jget (w_nodes (x_workflow x)) (n_name (e_node item)) of
      None \<Rightarrow> item
    | Some node \<Rightarrow> if n_oid node = n_oid (e_node item)
        then item\<lparr>e_node := (e_node item)\<lparr>n_rewireOutputLogTo := n_rewireOutputLogTo node\<rparr>\<rparr> else item)"

text \<open>What the last answer of \<open>runNode\<close> leads to.\<close>

definition handleRunResult :: "StepContext \<Rightarrow> RunResponse \<Rightarrow> Try \<Rightarrow> TryEnd" where
  "handleRunResult c response t = (case response of
      RunError e \<Rightarrow> TryThrew e t
    | RunRequest request \<Rightarrow>
        (case handleEngineRequest (sc_node c) request (sc_runIndex c) (tr_data t) (tr_engine t) of
           (Some e, x) \<Rightarrow> TryThrew (toExecutionError e) (t\<lparr>tr_engine := x, tr_data := refreshNode x (tr_data t)\<rparr>)
         | (None, x) \<Rightarrow> TryContinue x)
    | RunData data hints \<Rightarrow>
        let t = t\<lparr>tr_output := data, tr_hints := tr_hints t @ hints\<rparr>
        in catching (case data of
              Some outputs \<Rightarrow> if n_onError (e_node (tr_data t)) = Some ContinueErrorOutput
                then rbind (handleNodeErrorOutput (sc_nodeTypes c) (sc_getNodeOutputs c) (sc_getPairedItem c) (tr_data t) outputs)
                  (\<lambda>outputs. Inr (Some outputs)) else Inr data
            | None \<Rightarrow> Inr None) t
          (\<lambda>output. finishTry (t\<lparr>tr_output := output\<rparr>)))"

definition runTry :: "StepContext \<Rightarrow> nat \<Rightarrow> Try \<Rightarrow> nat \<times> TryEnd" where
  "runTry c n t = (case pinnedItems (tr_engine t) (sc_node c) of
      Some items \<Rightarrow> (n, finishTry (t\<lparr>tr_output := Some [Val items]\<rparr>))
    | None \<Rightarrow> let t = collectResponses t in
        (case runNodeTry c (Some (tr_responses t)) t of (response, t) \<Rightarrow>
          (case runAgain c n response t of (n, response, t) \<Rightarrow> (n, handleRunResult c response t))))"

text \<open>The \<open>for\<close> loop: \<open>n\<close> tries remain after this one.\<close>

lemma runAgain_le: "fst (runAgain c n response t) \<le> n"
  by (induction c n response t rule: runAgain.induct) (auto split: prod.split RunResponse.split)

lemma runTry_le: "fst (runTry c n t) \<le> n"
proof (cases "pinnedItems (tr_engine t) (sc_node c)")
  case None
  then show ?thesis
    using runAgain_le [of c n] by (simp add: runTry_def Let_def split: prod.split) (metis fst_conv)
qed (simp add: runTry_def)

datatype TriesEnd = TriesDone Try | TriesContinue Engine

function tryLoop :: "StepContext \<Rightarrow> nat \<Rightarrow> Try \<Rightarrow> TriesEnd" where
  "tryLoop c n t = (case runTry c n t of
      (n', TryBreak t') \<Rightarrow> TriesDone t'
    | (n', TryContinue x) \<Rightarrow> TriesContinue x
    | (n', TryThrew e t') \<Rightarrow>
        let t'' = t'\<lparr>tr_engine := (tr_engine t')\<lparr>x_lastNodeExecuted := Some (n_name (e_node (tr_data t')))\<rparr>, tr_error := Some e\<rparr>
        in case n' of 0 \<Rightarrow> TriesDone t'' | Suc m \<Rightarrow> tryLoop c m (t''\<lparr>tr_error := None\<rparr>))"
  by pat_completeness auto

termination tryLoop
proof (relation "measure (\<lambda>(c, n, t). n)", goal_cases)
  case (2 c n t r n' e t' t'' m)
  have "fst (runTry c n t) = Suc m" using 2 by (metis fst_conv)
  then show ?case using runTry_le [of c n t] by simp
qed simp

declare tryLoop.simps [simp del]

end
