(* ===== verification/EngineLoop.thy ===== *)
theory EngineLoop
  imports EngineTry
begin

section \<open>The execution loop\<close>

text \<open>
  One iteration of the loop in \<open>processRunExecutionData\<close>: take an item from the stack, run the node, store the
  result, schedule the nodes after it, and release waiting nodes when the stack is empty.  What the iteration
  reads from outside is the record \<open>Env\<close>.  Hooks, logging and times are left out.
\<close>

record Env =
  en_nodeTypes :: INodeTypes
  en_manual :: bool
  en_timeout :: bool
  en_getNodeOutputs :: "INode \<Rightarrow> INodeType \<Rightarrow> NodeConnectionType list"
  en_getPairedItem :: GetPairedItem
  en_requiredInputs :: "INode \<Rightarrow> string \<Rightarrow> RequiredInputs option"
  en_calls :: Calls

record Loop =
  l_engine :: Engine
  l_lastTry :: string
  l_error :: "ExecutionError option"

datatype StepResult = Running Loop | Finished Loop | Crashed Engine js_error

definition onCrash :: "Engine \<Rightarrow> 'a res \<Rightarrow> ('a \<Rightarrow> StepResult) \<Rightarrow> StepResult" where
  "onCrash x r f = (case r of Inl e \<Rightarrow> Crashed x e | Inr v \<Rightarrow> f v)"

subsection \<open>Taking an item\<close>

definition hasSourceOverwrite :: "INodeExecutionData \<Rightarrow> ISourceData option" where
  "hasSourceOverwrite item = (case i_pairedItem item of Some (PairedOne p) \<Rightarrow> pi_sourceOverwrite p | _ \<Rightarrow> None)"

definition pairInput :: "bool \<Rightarrow> nat \<Rightarrow> nat \<Rightarrow> INodeExecutionData \<Rightarrow> INodeExecutionData" where
  "pairInput isToolExecution inputIndex itemIndex item = item\<lparr>i_pairedItem := Some (PairedOne
     \<lparr>pi_item = itemIndex, pi_input = or_undefined inputIndex,
      pi_sourceOverwrite = (if isToolExecution then hasSourceOverwrite item else None)\<rparr>)\<rparr>"

definition pairInputs :: "IExecuteData \<Rightarrow> IExecuteData" where
  "pairInputs executionData =
     (let isToolExecution = (Option.bind (e_metadata executionData) md_preserveSourceOverwrite = Some True)
      in executionData\<lparr>e_data := map (\<lambda>(t, inputs). (t, map (\<lambda>(inputIndex, input).
          slot_map (\<lambda>items. map (\<lambda>(itemIndex, item). pairInput isToolExecution inputIndex itemIndex item)
            (enumerate 0 items)) input) (enumerate 0 inputs))) (e_data executionData)\<rparr>)"

definition runIndexOf :: "Engine \<Rightarrow> IExecuteData \<Rightarrow> nat" where
  "runIndexOf x executionData = (case e_runIndex executionData of
      Some i \<Rightarrow> i
    | None \<Rightarrow> length (runsOf (x_runData x) (n_name (e_node executionData))))"

definition currentTry :: "string \<Rightarrow> nat \<Rightarrow> string" where
  "currentTry name runIndex = name @ '':'' @ nat_string runIndex"

definition outsideFilter :: "Engine \<Rightarrow> string \<Rightarrow> bool" where
  "outsideFilter x name \<longleftrightarrow> (case x_runNodeFilter x of None \<Rightarrow> False | Some names \<Rightarrow> name \<notin> set names)"

text \<open>Whether the node can run; if not, the item goes back to the end of the stack.\<close>

fun ensureLoop :: "IExecuteData \<Rightarrow> nat list \<Rightarrow> Engine \<Rightarrow> (bool \<times> Engine) res" where
  "ensureLoop executionData [] x = Inr (True, x)"
| "ensureLoop executionData (connectionIndex # rest) x =
     rbind (getHighestNode (x_workflow x) (n_name (e_node executionData)) (Some connectionIndex) []) (\<lambda>(highestNodes, _).
       let later = Inr (False, x\<lparr>x_stack := x_stack x @ [executionData]\<rparr>)
       in if highestNodes = [] then Inr (True, x)
          else case jget (e_data executionData) Main of
            None \<Rightarrow> later
          | Some main \<Rightarrow>
              if isLegacyExecutionOrder (x_workflow x)
                \<and> (length main < connectionIndex \<or> slot_at main connectionIndex = Null)
              then later else ensureLoop executionData rest x)"

definition ensureInputData :: "IExecuteData \<Rightarrow> Engine \<Rightarrow> (bool \<times> Engine) res" where
  "ensureInputData executionData x =
     ensureLoop executionData [0..<length (mainInputs (x_workflow x) (n_name (e_node executionData)))] x"

subsection \<open>The result of a node\<close>

definition continuesOnError :: "INode \<Rightarrow> bool" where
  "continuesOnError node \<longleftrightarrow> n_continueOnFail node = Some True
     \<or> n_onError node = Some ContinueRegularOutput \<or> n_onError node = Some ContinueErrorOutput"

text \<open>The input of a failed node that is passed on.\<close>

definition passedOn :: "IExecuteData \<Rightarrow> NodeOutputs option \<Rightarrow> NodeOutputs option" where
  "passedOn executionData output = (case jget (e_data executionData) Main of
      Some (first # _) \<Rightarrow> if first = Null then output else Some [first]
    | _ \<Rightarrow> output)"

text \<open>\<open>error.message\<close> of a value.\<close>

fun messageOf :: "json \<Rightarrow> json res" where
  "messageOf JNull = Inl TypeError"
| "messageOf JUndefined = Inl TypeError"
| "messageOf (JObj kvs) = Inr (case jget kvs ''message'' of None \<Rightarrow> JUndefined | Some v \<Rightarrow> v)"
| "messageOf v = Inr JUndefined"

definition mergeError :: "INodeExecutionData \<Rightarrow> INodeExecutionData res" where
  "mergeError item =
     (if defined_at (i_json item) ''$error'' \<and> defined_at (i_json item) ''$json''
      then case jget (i_json item) ''$error'' of None \<Rightarrow> Inr item
        | Some e \<Rightarrow> rbind (messageOf e) (\<lambda>m. Inr (item\<lparr>i_error := Some e, i_json := [(''error'', m)]\<rparr>))
      else case i_error item of None \<Rightarrow> Inr item
        | Some e \<Rightarrow> rbind (messageOf e) (\<lambda>m. Inr (item\<lparr>i_json := [(''error'', m)]\<rparr>)))"

definition mergeOutput :: "Items slot \<Rightarrow> Items slot res" where
  "mergeOutput output = (case output of
      Val items \<Rightarrow> rbind (rfold (\<lambda>item done. rbind (mergeError item) (\<lambda>i. Inr (done @ [i]))) items []) (\<lambda>items. Inr (Val items))
    | _ \<Rightarrow> Inl TypeError)"

definition mergeErrors :: "NodeOutputs option \<Rightarrow> NodeOutputs res" where
  "mergeErrors output = (case output of
      None \<Rightarrow> Inl TypeError
    | Some outputs \<Rightarrow> rfold (\<lambda>s done. rbind (mergeOutput s) (\<lambda>v. Inr (done @ [v]))) outputs [])"

definition taskDataOf :: "nat \<Rightarrow> Try \<Rightarrow> ITaskData" where
  "taskDataOf executionIndex t = \<lparr>t_executionIndex = Some executionIndex,
     t_source = (case e_source (tr_data t) of None \<Rightarrow> [] | Some source \<Rightarrow>
       (case jget source Main of None \<Rightarrow> [] | Some sources \<Rightarrow> sources)),
     t_executionStatus = Some (if tr_error t \<noteq> None then StError
       else if x_waitTill (tr_engine t) = None then StSuccess else StWaiting),
     t_data = None, t_inputOverride = None, t_error = tr_error t, t_metadata = e_metadata (tr_data t),
     t_hints = tr_hints t\<rparr>"

text \<open>\<open>Object.assign(currentTaskData, taskData)\<close>: an absent error or override leaves the old one.\<close>

definition assignTask :: "ITaskData \<Rightarrow> ITaskData \<Rightarrow> ITaskData" where
  "assignTask old new = new\<lparr>t_error := (if t_error new = None then t_error old else t_error new),
     t_inputOverride := (if t_inputOverride new = None then t_inputOverride old else t_inputOverride new)\<rparr>"

definition storeTask :: "string \<Rightarrow> nat \<Rightarrow> ITaskData \<Rightarrow> IRunData \<Rightarrow> IRunData" where
  "storeTask name runIndex task runData =
     (let runs = runsOf runData name
      in jput name (case arr_get runs runIndex of
          None \<Rightarrow> runs @ [task]
        | Some old \<Rightarrow> runs[runIndex := assignTask old task]) runData)"

definition pushTask :: "string \<Rightarrow> ITaskData \<Rightarrow> IRunData \<Rightarrow> IRunData" where
  "pushTask name task runData = jput name (runsOf runData name @ [task]) runData"

text \<open>The data of the task, under the connection type to which the node's log is rewired.\<close>

definition withData :: "INode \<Rightarrow> nat \<Rightarrow> NodeOutputs \<Rightarrow> IRunData \<Rightarrow> ITaskData \<Rightarrow> ITaskData" where
  "withData node runIndex output runData task =
     (let items = map slot_option output in
      case n_rewireOutputLogTo node of
        None \<Rightarrow> task\<lparr>t_data := Some [(Main, items)]\<rparr>
      | Some type \<Rightarrow> task\<lparr>t_data := Some [(type, items)],
          t_inputOverride := Some (case arr_get (runsOf runData (n_name node)) runIndex of
            None \<Rightarrow> [] | Some old \<Rightarrow> (case t_inputOverride old of None \<Rightarrow> [] | Some v \<Rightarrow> v))\<rparr>)"

subsection \<open>Scheduling the nodes after it\<close>

definition outgoing :: "Workflow \<Rightarrow> string \<Rightarrow> (nat \<times> IConnection) list" where
  "outgoing w name = (case main_connections (w_connectionsBySourceNode w) name of
      None \<Rightarrow> []
    | Some slots \<Rightarrow> concat (map (\<lambda>(outputIndex, cs). map (Pair outputIndex) (or_empty cs)) (enumerate 0 slots)))"

text \<open>Whether an output goes to a connection: it has items, or it leads to a later input in the legacy order.\<close>

definition delivers :: "Workflow \<Rightarrow> NodeOutputs \<Rightarrow> nat \<times> IConnection \<Rightarrow> bool" where
  "delivers w output = (\<lambda>(outputIndex, connectionData). case slot_at output outputIndex of
      Val items \<Rightarrow> items \<noteq> [] \<or> (c_index connectionData > 0 \<and> isLegacyExecutionOrder w)
    | _ \<Rightarrow> False)"

definition checkedTarget :: "Workflow \<Rightarrow> IConnection \<Rightarrow> unit res" where
  "checkedTarget w connectionData = (if jhas (w_nodes w) (c_node connectionData) then Inr ()
     else Inl (ApplicationError ''Destination node not found''))"

definition positionOf :: "Workflow \<Rightarrow> IConnection \<Rightarrow> int \<times> int" where
  "positionOf w connectionData = (case getNode w (c_node connectionData) of None \<Rightarrow> (0, 0) | Some node \<Rightarrow> n_position node)"

text \<open>The comparison of the sort: further down first, then further right.\<close>

definition comparePositions :: "int \<times> int \<Rightarrow> int \<times> int \<Rightarrow> int" where
  "comparePositions a b = (if snd a < snd b then 1 else if snd a > snd b then -1 else if fst a > fst b then -1 else 0)"

definition addChild :: "string \<Rightarrow> NodeOutputs \<Rightarrow> nat \<Rightarrow> nat \<times> IConnection \<Rightarrow> Engine \<Rightarrow> Engine res" where
  "addChild name output runIndex = (\<lambda>(outputIndex, connectionData).
     addNodeToBeExecuted connectionData outputIndex name (Some output) runIndex None None)"

definition scheduleLegacy :: "string \<Rightarrow> NodeOutputs \<Rightarrow> nat \<Rightarrow> Engine \<Rightarrow> Engine res" where
  "scheduleLegacy name output runIndex x = rfold (\<lambda>oc x.
     rbind (checkedTarget (x_workflow x) (snd oc)) (\<lambda>_.
       if delivers (x_workflow x) output oc then addChild name output runIndex oc x else Inr x))
     (outgoing (x_workflow x) name) x"

definition nodesToAdd :: "Workflow \<Rightarrow> string \<Rightarrow> NodeOutputs \<Rightarrow> (nat \<times> IConnection) list res" where
  "nodesToAdd w name output = rfold (\<lambda>oc nodes. rbind (checkedTarget w (snd oc)) (\<lambda>_.
     Inr (if delivers w output oc then nodes @ [oc] else nodes))) (outgoing w name) []"

definition sortByPosition :: "Workflow \<Rightarrow> (nat \<times> IConnection) list \<Rightarrow> (nat \<times> IConnection) list" where
  "sortByPosition w = js_sort (\<lambda>a b. comparePositions (positionOf w (snd a)) (positionOf w (snd b)))"

definition scheduleV1 :: "string \<Rightarrow> NodeOutputs \<Rightarrow> nat \<Rightarrow> Engine \<Rightarrow> Engine res" where
  "scheduleV1 name output runIndex x = rbind (nodesToAdd (x_workflow x) name output) (\<lambda>nodes.
     rfold (addChild name output runIndex) (sortByPosition (x_workflow x) nodes) x)"

definition scheduleChildren :: "string \<Rightarrow> NodeOutputs \<Rightarrow> nat \<Rightarrow> Engine \<Rightarrow> Engine res" where
  "scheduleChildren name output runIndex x = (if isV1 (x_workflow x) then scheduleV1 name output runIndex x
     else scheduleLegacy name output runIndex x)"

end
