(* ===== verification/EngineStep.thy ===== *)
theory EngineStep
  imports EngineLoop
begin

section \<open>Waiting nodes and the step of the loop\<close>

subsection \<open>Releasing a waiting node\<close>

text \<open>\<open>requiredInputs\<close> counts in the new execution order only; an expression is evaluated.\<close>

definition requiredInputsOf :: "Env \<Rightarrow> Workflow \<Rightarrow> INode \<Rightarrow> INodeType \<Rightarrow> RequiredInputs option" where
  "requiredInputsOf env w node nodeType = (if isV1 w
     then (case nt_requiredInputs nodeType of Some (ReqExpr e) \<Rightarrow> en_requiredInputs env node e | r \<Rightarrow> r)
     else None)"

definition requiresAll :: "RequiredInputs option \<Rightarrow> INodeType \<Rightarrow> bool" where
  "requiresAll required nodeType = (case required of
      Some (ReqList l) \<Rightarrow> length l = nt_inputs nodeType
    | Some (ReqCount n) \<Rightarrow> n = nt_inputs nodeType
    | _ \<Rightarrow> False)"

text \<open>The inputs whose slot is neither \<open>null\<close> nor a hole.\<close>

definition inputsWithData :: "Items slot list \<Rightarrow> nat list" where
  "inputsWithData main = map fst (filter (\<lambda>(i, s). is_Val s) (enumerate 0 main))"

definition requiredMissing :: "RequiredInputs option \<Rightarrow> Items slot list \<Rightarrow> bool" where
  "requiredMissing required main = (case required of
      Some (ReqList l) \<Rightarrow> \<not> set l \<subseteq> set (inputsWithData main)
    | Some (ReqCount n) \<Rightarrow> length (inputsWithData main) < n
    | _ \<Rightarrow> False)"

definition emptyForMissing :: "Items slot list \<Rightarrow> Items slot list" where
  "emptyForMissing main = map (\<lambda>s. if s = Null then Val [] else s) main"

definition anyItems :: "Items slot list \<Rightarrow> bool" where
  "anyItems main \<longleftrightarrow> list_ex hasItems main"

text \<open>The first run in the order of strings, in which \<open>"10"\<close> comes before \<open>"2"\<close>.\<close>

definition firstRunIndex :: "(nat, 'd) jmap \<Rightarrow> nat option" where
  "firstRunIndex runs = (case sort_key nat_string (runKeys runs) of [] \<Rightarrow> None | k # _ \<Rightarrow> Some k)"

text \<open>What is done with one waiting node: nothing, the start of the node, or the removal of an entry without items.\<close>

datatype Release = Skip | Start IExecuteData nat | Drop nat

definition releaseOf :: "Env \<Rightarrow> string list \<Rightarrow> Engine \<Rightarrow> string \<Rightarrow> Release res" where
  "releaseOf env waitingNodes x nodeName = (case getNode (x_workflow x) nodeName of
      None \<Rightarrow> Inr Skip
    | Some node \<Rightarrow> (case en_nodeTypes env (n_type node) (n_typeVersion node) of
        None \<Rightarrow> Inl TypeError
      | Some nodeType \<Rightarrow>
          let required = requiredInputsOf env (x_workflow x) node nodeType
          in if requiresAll required nodeType then Inr Skip
             else if set (parentsOf (x_workflow x) nodeName) \<inter> set waitingNodes \<noteq> {} then Inr Skip
             else case firstRunIndex (tableRuns (x_waiting x) nodeName) of
               None \<Rightarrow> Inl TypeError
             | Some runIndex \<Rightarrow> rbind (waitingMain (x_waiting x) nodeName runIndex) (\<lambda>main.
                 if requiredMissing required main then Inr Skip
                 else let taskDataMain = emptyForMissing main
                   in if anyItems taskDataMain
                      then Inr (Start \<lparr>e_node = node,
                        e_data = [(Main, taskDataMain @ replicate (nt_inputs nodeType - length taskDataMain) (Val []))],
                        e_source = jget (tableRuns (x_waitingSource x) nodeName) runIndex,
                        e_runIndex = None, e_metadata = None\<rparr> runIndex)
                      else Inr (Drop runIndex))))"

definition waitingEntries :: "Engine \<Rightarrow> nat" where
  "waitingEntries x = sum_list (map (length \<circ> snd) (x_waiting x))"

lemma firstRunIndex_in: "firstRunIndex runs = Some k \<Longrightarrow> k \<in> fst ` set runs"
proof -
  assume "firstRunIndex runs = Some k"
  then obtain ks where "sort_key nat_string (runKeys runs) = k # ks"
    by (auto simp: firstRunIndex_def split: list.splits)
  then have "k \<in> set (sort_key nat_string (runKeys runs))" by (metis list.set_intros(1))
  then show ?thesis by (simp add: runKeys_def)
qed

lemma Drop_in:
  assumes "releaseOf env names x n = Inr (Drop k)"
  shows "k \<in> fst ` set (tableRuns (x_waiting x) n)"
  using assms firstRunIndex_in
  by (auto simp: releaseOf_def Let_def rbind_Inr_iff split: option.splits if_splits)

lemma length_jdel: "k \<in> fst ` set m \<Longrightarrow> length (jdel k m) < length m"
  by (auto simp: AList.delete_eq intro: length_filter_less)

lemma sum_jput:
  fixes f :: "'v \<Rightarrow> nat"
  assumes "jget m k = Some w" and "f v < f w"
  shows "sum_list (map (f \<circ> snd) (jput k v m)) < sum_list (map (f \<circ> snd) m)"
  using assms(1)
proof (induction m)
  case (Cons e m)
  then show ?case using assms(2) by (cases e) (auto split: if_splits)
qed simp

lemma sum_jdel: "sum_list (map (f \<circ> snd) (jdel k m)) \<le> sum_list (map (f \<circ> snd) m)" for f :: "'v \<Rightarrow> nat"
  by (induction m) (auto simp: AList.delete_eq)

lemma removeWaiting_less:
  assumes "k \<in> fst ` set (tableRuns (x_waiting x) n)"
  shows "waitingEntries (removeWaiting n k x) < waitingEntries x"
proof -
  obtain runs where runs: "jget (x_waiting x) n = Some runs" "tableRuns (x_waiting x) n = runs"
    using assms by (cases "jget (x_waiting x) n") (auto simp: tableRuns_def)
  have "length (jdel k runs) < length runs" using length_jdel assms runs(2) by metis
  then have lt: "sum_list (map (length \<circ> snd) (delRun n k (x_waiting x))) < waitingEntries x"
    unfolding delRun_def runs(2) waitingEntries_def by (rule sum_jput [OF runs(1)])
  then show ?thesis
    using sum_jdel [of length n "delRun n k (x_waiting x)"]
    by (auto simp: removeWaiting_def Let_def waitingEntries_def)
qed

text \<open>The loop starts again from the beginning when an entry without items was removed.\<close>

function releaseLoop :: "Env \<Rightarrow> string list \<Rightarrow> string list \<Rightarrow> Engine \<Rightarrow> Engine res" where
  "releaseLoop env waitingNodes names x = (case names of
      [] \<Rightarrow> Inr x
    | nodeName # rest \<Rightarrow> (case releaseOf env waitingNodes x nodeName of
        Inl e \<Rightarrow> Inl e
      | Inr Skip \<Rightarrow> releaseLoop env waitingNodes rest x
      | Inr (Start item runIndex) \<Rightarrow> Inr (removeWaiting nodeName runIndex (x\<lparr>x_stack := x_stack x @ [item]\<rparr>))
      | Inr (Drop runIndex) \<Rightarrow>
          let x' = removeWaiting nodeName runIndex x; waitingNodes' = own_keys (x_waiting x')
          in releaseLoop env waitingNodes' waitingNodes' x'))"
  by pat_completeness auto

termination releaseLoop
  by (relation "measures [\<lambda>(env, ws, names, x). waitingEntries x, \<lambda>(env, ws, names, x). length names]")
    (auto dest!: Drop_in intro: removeWaiting_less)

declare releaseLoop.simps [simp del]

definition releaseWaiting :: "Env \<Rightarrow> Engine \<Rightarrow> Engine res" where
  "releaseWaiting env x = (let waitingNodes = own_keys (x_waiting x)
     in if x_stack x = [] \<and> waitingNodes \<noteq> [] then releaseLoop env waitingNodes waitingNodes x else Inr x)"

subsection \<open>After the tries\<close>

definition stopsAt :: "Engine \<Rightarrow> string \<Rightarrow> bool" where
  "stopsAt x name \<longleftrightarrow> (case x_destinationNode x of None \<Rightarrow> False | Some d \<Rightarrow> d_nodeName d = name)"

text \<open>The node is done: its data is stored, and the loop goes on, stops at the destination, or waits.\<close>

definition storeAndGoOn :: "Env \<Rightarrow> string \<Rightarrow> nat \<Rightarrow> ITaskData \<Rightarrow> NodeOutputs option \<Rightarrow> Try \<Rightarrow> StepResult" where
  "storeAndGoOn env lastTry runIndex task output t =
     (let x = tr_engine t; node = e_node (tr_data t); name = n_name node
      in onCrash x (mergeErrors output) (\<lambda>output.
         let task = withData node runIndex output (x_runData x) task;
             x = x\<lparr>x_runData := storeTask name runIndex task (x_runData x)\<rparr>;
             goOn = (\<lambda>x. Running \<lparr>l_engine = x, l_lastTry = lastTry, l_error = tr_error t\<rparr>)
         in if x_waitTill x \<noteq> None
            then Finished \<lparr>l_engine = x\<lparr>x_stack := tr_data t # x_stack x\<rparr>, l_lastTry = lastTry, l_error = tr_error t\<rparr>
            else if stopsAt x name then goOn x
            else onCrash x (scheduleChildren name output runIndex x) (\<lambda>x.
              onCrash x (releaseWaiting env x) goOn)))"

definition afterTries :: "Env \<Rightarrow> string \<Rightarrow> nat \<Rightarrow> nat \<Rightarrow> Try \<Rightarrow> StepResult" where
  "afterTries env lastTry runIndex executionIndex t =
     (let name = n_name (e_node (tr_data t));
          x = tr_engine t;
          x = (if jhas (x_runData x) name then x else x\<lparr>x_runData := jput name [] (x_runData x)\<rparr>);
          t = t\<lparr>tr_engine := x\<rparr>;
          task = taskDataOf executionIndex t
      in case tr_error t of
          None \<Rightarrow> storeAndGoOn env lastTry runIndex task (tr_output t) t
        | Some e \<Rightarrow>
            if continuesOnError (e_node (tr_data t))
            then storeAndGoOn env lastTry runIndex task (passedOn (tr_data t) (tr_output t)) t
            else Finished \<lparr>l_engine = x\<lparr>x_runData := pushTask name task (x_runData x),
                x_stack := tr_data t # x_stack x\<rparr>, l_lastTry = lastTry, l_error = Some e\<rparr>)"

subsection \<open>The step\<close>

definition contextOf :: "Env \<Rightarrow> INode \<Rightarrow> nat \<Rightarrow> StepContext" where
  "contextOf env node runIndex = \<lparr>sc_nodeTypes = en_nodeTypes env, sc_manual = en_manual env,
     sc_getNodeOutputs = en_getNodeOutputs env, sc_getPairedItem = en_getPairedItem env,
     sc_calls = en_calls env, sc_node = node, sc_runIndex = runIndex\<rparr>"

definition startTry :: "Engine \<Rightarrow> IExecuteData \<Rightarrow> Try" where
  "startTry x executionData = \<lparr>tr_engine = x, tr_data = executionData, tr_output = None, tr_error = None,
     tr_hints = [], tr_responses = makeEngineResponse, tr_calls = 0\<rparr>"

definition runItem :: "Env \<Rightarrow> string \<Rightarrow> nat \<Rightarrow> nat \<Rightarrow> IExecuteData \<Rightarrow> Engine \<Rightarrow> StepResult" where
  "runItem env lastTry runIndex executionIndex executionData x =
     (let node = e_node executionData
      in case tryLoop (contextOf env node runIndex) (nat (maxTriesOf node) - 1) (startTry x executionData) of
        TriesContinue x \<Rightarrow> Running \<lparr>l_engine = x, l_lastTry = lastTry, l_error = None\<rparr>
      | TriesDone t \<Rightarrow> afterTries env lastTry runIndex executionIndex t)"

definition step :: "Env \<Rightarrow> Loop \<Rightarrow> StepResult" where
  "step env l =
     (let x = l_engine l in
      case x_stack x of
        [] \<Rightarrow> Finished l
      | item # rest \<Rightarrow>
          let x = (if en_timeout env then x\<lparr>x_status := StCanceled, x_timedOut := True\<rparr> else x)
          in if x_status x = StCanceled then Finished (l\<lparr>l_engine := x\<rparr>)
             else let executionIndex = x_executionIndex x;
                  x = x\<lparr>x_stack := rest, x_executionIndex := Suc executionIndex\<rparr>;
                  executionData = pairInputs item;
                  name = n_name (e_node executionData);
                  runIndex = runIndexOf x executionData;
                  thisTry = currentTry name runIndex
               in if thisTry = l_lastTry l
                  then Crashed x (ApplicationError ''Stopped execution because it seems to be in an endless loop'')
                  else if outsideFilter x name then Running \<lparr>l_engine = x, l_lastTry = l_lastTry l, l_error = None\<rparr>
                  else onCrash x (ensureInputData executionData x) (\<lambda>(hasInputData, x).
                    if \<not> hasInputData then Running \<lparr>l_engine = x, l_lastTry = thisTry, l_error = None\<rparr>
                    else runItem env (l_lastTry l) runIndex executionIndex executionData x))"

subsection \<open>An environment for examples\<close>

definition plain_result :: "NodeOutcome \<Rightarrow> NodeCallResult" where
  "plain_result outcome = \<lparr>o_outcome = outcome, o_hints = [], o_closeErrors = [], o_waitTill = None,
     o_metadata = None, o_records = (\<lambda>runData. runData)\<rparr>"

definition stack_item :: "INode \<Rightarrow> IExecuteData" where
  "stack_item node = \<lparr>e_node = node, e_data = emptyItemData, e_source = None, e_runIndex = None, e_metadata = None\<rparr>"

definition test_env :: "Calls \<Rightarrow> Env" where
  "test_env calls = \<lparr>en_nodeTypes = no_types, en_manual = False, en_timeout = False, en_getNodeOutputs = (\<lambda>_ _. [Main]),
     en_getPairedItem = (\<lambda>_ _ _. None), en_requiredInputs = (\<lambda>_ _. None), en_calls = calls\<rparr>"

end
