(* ===== verification/EngineRun.thy ===== *)
theory EngineRun
  imports EngineStep PartialGraph
begin

section \<open>Starting and ending an execution\<close>

text \<open>
  What happens before the loop of \<open>processRunExecutionData\<close> (\<open>run\<close>, \<open>runPartialWorkflow2\<close>, the checks and the
  state of an execution that waited), the loop as a relation, and what is made of its end.  The validation of
  node parameters (\<open>getNodeParametersIssues\<close>) is a parameter.
\<close>

subsection \<open>Before the loop\<close>

type_synonym Issues = "INode \<Rightarrow> INodeType \<Rightarrow> string list \<Rightarrow> json option"

definition checkNodes :: "Workflow \<Rightarrow> string option \<Rightarrow> IDestinationNode option \<Rightarrow> string list" where
  "checkNodes w startNode destinationNode = (case destinationNode of
      Some d \<Rightarrow> parentsOf w (d_nodeName d) @ (if d_mode d = Inclusive then [d_nodeName d] else [])
    | None \<Rightarrow> (case startNode of
        Some s \<Rightarrow> if s = [] then [] else childrenOf w s @ [s]
      | None \<Rightarrow> []))"

text \<open>\<open>None\<close> when there are no issues.\<close>

definition checkReadyForExecution :: "INodeTypes \<Rightarrow> Issues \<Rightarrow> Workflow \<Rightarrow> string option \<Rightarrow> IDestinationNode option \<Rightarrow> string list
    \<Rightarrow> (string, json) jmap option res" where
  "checkReadyForExecution nodeTypes parameterIssues w startNode destinationNode pinDataNodeNames =
     rbind (rfold (\<lambda>nodeName workflowIssues.
         rbind (nodeOf w nodeName) (\<lambda>node.
           if n_disabled node = Some True then Inr workflowIssues
           else case (case nodeTypes (n_type node) (n_typeVersion node) of
               None \<Rightarrow> Some (JObj [(''typeUnknown'', JBool True)])
             | Some nodeType \<Rightarrow> parameterIssues node nodeType pinDataNodeNames) of
             None \<Rightarrow> Inr workflowIssues
           | Some nodeIssues \<Rightarrow> Inr (jput (n_name node) nodeIssues workflowIssues)))
         (checkNodes w startNode destinationNode) [])
       (\<lambda>workflowIssues. Inr (if workflowIssues = [] then None else Some workflowIssues))"

definition checkForWorkflowIssues :: "INodeTypes \<Rightarrow> Issues \<Rightarrow> Engine \<Rightarrow> unit res" where
  "checkForWorkflowIssues nodeTypes parameterIssues x =
     rbind (checkReadyForExecution nodeTypes parameterIssues (x_workflow x)
         (case x_stack x of [] \<Rightarrow> None | item # _ \<Rightarrow> Some (n_name (e_node item))) (x_destinationNode x)
         (case x_pinData x of None \<Rightarrow> [] | Some pinData \<Rightarrow> own_keys pinData))
       (\<lambda>issues. case issues of None \<Rightarrow> Inr ()
         | Some _ \<Rightarrow> Inl (NamedError ''WorkflowHasIssuesError'' ''The workflow has issues and cannot be executed for that reason. Please fix them first.''))"

text \<open>An execution that waited: the node on top of the stack is disabled, and its last run forgotten.\<close>

definition handleWaitingState :: "Engine \<Rightarrow> Engine res" where
  "handleWaitingState x = (if x_waitTill x = None then Inr x
     else case (x_stack x, x_lastNodeExecuted x) of
       (item # _, Some lastNodeExecuted) \<Rightarrow> (case jget (x_runData x) lastNodeExecuted of
           None \<Rightarrow> Inl TypeError
         | Some runs \<Rightarrow> Inr (changeNode (n_oid (e_node item)) (\<lambda>n. n\<lparr>n_disabled := Some True\<rparr>)
             (x\<lparr>x_waitTill := None, x_runData := jput lastNodeExecuted (butlast runs) (x_runData x)\<rparr>)))
     | _ \<Rightarrow> Inl TypeError)"

definition setupExecution :: "Engine \<Rightarrow> Engine" where
  "setupExecution x = x\<lparr>x_status := StRunning\<rparr>"

definition beginLoop :: "INodeTypes \<Rightarrow> Issues \<Rightarrow> Engine \<Rightarrow> Loop res" where
  "beginLoop nodeTypes parameterIssues x = (let x = setupExecution x in
     rbind (checkForWorkflowIssues nodeTypes parameterIssues x) (\<lambda>_.
     rbind (handleWaitingState x) (\<lambda>x. Inr \<lparr>l_engine = x, l_lastTry = [], l_error = None\<rparr>)))"

subsection \<open>The loop\<close>

definition updateTaskStatusesToCancelled :: "IRunData \<Rightarrow> IRunData" where
  "updateTaskStatusesToCancelled = map (\<lambda>(nodeName, tasks). (nodeName, map (\<lambda>task.
     if t_executionStatus task = Some StRunning then task\<lparr>t_executionStatus := Some StCanceled\<rparr> else task) tasks))"

definition cancel :: "Engine \<Rightarrow> Engine" where
  "cancel x = x\<lparr>x_status := StCanceled, x_runData := updateTaskStatusesToCancelled (x_runData x)\<rparr>"

inductive loop_step :: "Loop \<Rightarrow> Loop \<Rightarrow> bool" where
  iterate: "step env l = Running l' \<Longrightarrow> loop_step l l'"
| canceled: "loop_step l (l\<lparr>l_engine := cancel (l_engine l)\<rparr>)"

inductive_cases loop_stepE: "loop_step l l'"

text \<open>The iterations of a run with the given readings of the environment.\<close>

fun iterateLoop :: "Env list \<Rightarrow> Loop \<Rightarrow> StepResult" where
  "iterateLoop [] l = Running l"
| "iterateLoop (env # envs) l = (case step env l of Running l' \<Rightarrow> iterateLoop envs l' | r \<Rightarrow> r)"

subsection \<open>After the loop\<close>

definition moveNodeMetadata :: "(string, ITaskMetadata list) jmap \<Rightarrow> IRunData \<Rightarrow> IRunData" where
  "moveNodeMetadata metadata runData = fold (\<lambda>(nodeName, entries). fold (\<lambda>(index, metaRunData) runData.
       case jget runData nodeName of None \<Rightarrow> runData
       | Some runs \<Rightarrow> (case arr_get runs index of None \<Rightarrow> runData
         | Some task \<Rightarrow> jput nodeName (runs[index := task\<lparr>t_metadata := Some (mergeMetadata (t_metadata task) metaRunData)\<rparr>]) runData))
       (enumerate 0 entries)) (own_entries metadata) runData"

record IRun =
  r_data :: Engine
  r_status :: ExecutionStatus
  r_finished :: bool
  r_waitTill :: "int option"

definition statusOf :: "ExecutionError option \<Rightarrow> int option \<Rightarrow> ExecutionStatus" where
  "statusOf executionError waitTill = (case executionError of
      Some e \<Rightarrow> if str_includes (er_message e) ''canceled''
          \<or> (case er_name e of None \<Rightarrow> False | Some name \<Rightarrow> str_includes name ''Cancelled'') then StCanceled else StError
    | None \<Rightarrow> if waitTill \<noteq> None then StWaiting else StSuccess)"

definition processSuccessExecution :: "ExecutionError option \<Rightarrow> Engine \<Rightarrow> IRun" where
  "processSuccessExecution executionError x =
     (let status = statusOf executionError (x_waitTill x);
          x = x\<lparr>x_status := status, x_runData := moveNodeMetadata (x_metadata x) (x_runData x)\<rparr>;
          x = (if executionError = None then x else x\<lparr>x_error := executionError\<rparr>)
      in \<lparr>r_data = x, r_status = status, r_finished = (executionError = None \<and> x_waitTill x = None),
          r_waitTill = (if executionError = None then x_waitTill x else None)\<rparr>)"

definition cancelledError :: "bool \<Rightarrow> ExecutionError" where
  "cancelledError timedOut = (if timedOut
     then \<lparr>er_name = Some ''TimeoutExecutionCancelledError'', er_message = ''The execution was cancelled because it timed out''\<rparr>
     else \<lparr>er_name = Some ''ManualExecutionCancelledError'', er_message = ''The execution was cancelled manually''\<rparr>)"

definition afterLoop :: "Loop \<Rightarrow> IRun" where
  "afterLoop l = (let x = l_engine l in
     if x_status x = StCanceled \<and> l_error l = None then processSuccessExecution (Some (cancelledError (x_timedOut x))) x
     else processSuccessExecution (l_error l) x)"

definition afterCrash :: "Engine \<Rightarrow> js_error \<Rightarrow> IRun" where
  "afterCrash x e = \<lparr>r_data = x\<lparr>x_error := Some (toExecutionError e),
       x_runData := moveNodeMetadata (x_metadata x) (x_runData x)\<rparr>,
     r_status = x_status x, r_finished = False, r_waitTill = None\<rparr>"

subsection \<open>Starting a whole workflow\<close>

definition runStart :: "INodeTypes \<Rightarrow> Workflow \<Rightarrow> INode option \<Rightarrow> IDestinationNode option \<Rightarrow> IPinData option
    \<Rightarrow> ITaskDataInputs option \<Rightarrow> Engine \<Rightarrow> Engine res" where
  "runStart nodeTypes w startNode destinationNode pinData triggerData x =
     rbind (case startNode of Some n \<Rightarrow> Inr (Some n)
       | None \<Rightarrow> getStartNode nodeTypes w (map_option d_nodeName destinationNode)) (\<lambda>startNode.
     case startNode of
       None \<Rightarrow> Inl (ApplicationError ''No node to start the workflow from could be found'')
     | Some node \<Rightarrow>
         let runNodeFilter = map_option (\<lambda>d. parentsOf w (d_nodeName d)
               @ (if d_mode d = Inclusive then [d_nodeName d] else [])) destinationNode;
             item = \<lparr>e_node = node, e_data = (case triggerData of None \<Rightarrow> emptyItemData | Some data \<Rightarrow> data),
               e_source = None, e_runIndex = None, e_metadata = None\<rparr>
         in Inr (createRunExecutionData destinationNode runNodeFilter [] pinData ([item], [], [])
              (x\<lparr>x_workflow := w, x_status := StRunning\<rparr>)))"

subsection \<open>Starting a part of a workflow\<close>

definition isTool :: "INodeType \<Rightarrow> (string, json) jmap \<Rightarrow> bool" where
  "isTool nodeType parameters =
     (if str_includes (nt_name nodeType) ''vectorStore'' then jget parameters ''mode'' = Some (JStr ''retrieve-as-tool'')
      else case nt_outputs nodeType of
        None \<Rightarrow> False
      | Some outputs \<Rightarrow> (case dropWhile (\<lambda>output. case output of OutputType t \<Rightarrow> False | OutputConfiguration t \<Rightarrow> t \<noteq> AiTool) outputs of
          [] \<Rightarrow> False
        | OutputType t # _ \<Rightarrow> t = AiTool
        | OutputConfiguration t # _ \<Rightarrow> True))"

record PartialInput =
  pa_runData :: IRunData
  pa_pinData :: IPinData
  pa_dirtyNodeNames :: "string list"
  pa_destinationNode :: IDestinationNode
  pa_agentRequest :: "(string \<times> json) option"

definition parametersOf :: "Workflow \<Rightarrow> WorkflowParameters" where
  "parametersOf w = \<lparr>wp_id = w_id w, wp_name = w_name w, wp_nodes = [], wp_connections = [],
     wp_active = w_active w, wp_settings = w_settings w, wp_staticData = unwrap_all (o_data (w_staticData w)), wp_pinData = w_pinData w\<rparr>"

definition namesOf :: "DirectedGraph \<Rightarrow> string list" where
  "namesOf g = map n_name (jvals (getNodes g))"

text \<open>A node without parents: the subgraph below it, and the stack, are all that is needed.\<close>

definition startSingle :: "(string \<Rightarrow> string \<Rightarrow> int) \<Rightarrow> INode \<Rightarrow> IDestinationNode \<Rightarrow> DirectedGraph \<Rightarrow> PartialInput
    \<Rightarrow> (DirectedGraph \<times> IRunData \<times> RecreatedStack) res" where
  "startSingle localeCompare destination destinationNode graph p =
     rbind (filterDisabledNodes graph) (\<lambda>filtered.
     rbind (findSubgraph filtered destination destination) (\<lambda>graph.
     rbind (cleanRunData (pa_runData p) graph [destination]) (\<lambda>runData.
     rbind (recreateNodeExecutionStack localeCompare graph [destination] runData (pa_pinData p)) (\<lambda>recreated.
       Inr (graph, runData, recreated)))))"

text \<open>The trigger, or the closest parent that has run data.\<close>

definition chooseTrigger :: "INodeTypes \<Rightarrow> Workflow \<Rightarrow> string \<Rightarrow> IRunData \<Rightarrow> INode res" where
  "chooseTrigger nodeTypes w destinationName runData =
     rbind (findTriggerForPartialExecution nodeTypes w destinationName runData) (\<lambda>trigger. case trigger of
       Some t \<Rightarrow> Inr t
     | None \<Rightarrow> (case find (jhas runData) (parentsOf w destinationName) of
         None \<Rightarrow> Inl (UserError ''Connect a trigger to run this node'')
       | Some nodeName \<Rightarrow> (case getNode w nodeName of
           None \<Rightarrow> Inl (UserError ''Connect a trigger to run this node'')
         | Some node \<Rightarrow> Inr node)))"

definition startParts :: "(string \<Rightarrow> string \<Rightarrow> int) \<Rightarrow> INode \<Rightarrow> INode \<Rightarrow> DirectedGraph \<Rightarrow> PartialInput
    \<Rightarrow> (DirectedGraph \<times> IRunData \<times> RecreatedStack) res" where
  "startParts localeCompare trigger destination graph p =
     rbind (filterDisabledNodes graph) (\<lambda>filtered.
     rbind (findSubgraph filtered destination trigger) (\<lambda>graph.
     rbind (cleanRunData (pa_runData p) graph (getNodesByNames graph (pa_dirtyNodeNames p))) (\<lambda>runData.
     rbind (findStartNodes graph trigger destination (pa_pinData p) runData) (\<lambda>startNodes.
     rbind (handleCycles graph startNodes trigger) (\<lambda>startNodes.
     rbind (cleanRunData runData graph startNodes) (\<lambda>runData.
     rbind (recreateNodeExecutionStack localeCompare graph startNodes runData (pa_pinData p)) (\<lambda>recreated.
       Inr (graph, runData, recreated))))))))"

definition runPartialWorkflow2 :: "INodeTypes \<Rightarrow> (INodeType \<Rightarrow> INode \<Rightarrow> (string, json) jmap option) \<Rightarrow> (string \<Rightarrow> string \<Rightarrow> int)
    \<Rightarrow> nat \<Rightarrow> Workflow \<Rightarrow> PartialInput \<Rightarrow> Engine \<Rightarrow> Engine res" where
  "runPartialWorkflow2 nodeTypes getNodeParameters localeCompare newOid w p x =
     (let destinationNode = pa_destinationNode p in
      case getNode w (d_nodeName destinationNode) of
        None \<Rightarrow> Inl (AssertionError ''Could not find the destination node in the workflow.'')
      | Some destination \<Rightarrow> rbind (fromWorkflow w) (\<lambda>graph.
          case nodeTypes (n_type destination) (n_typeVersion destination) of
            None \<Rightarrow> Inl TypeError
          | Some destinationNodeType \<Rightarrow>
              let full = (\<lambda>w destination destinationNode graph.
                rbind (chooseTrigger nodeTypes w (d_nodeName destinationNode) (pa_runData p)) (\<lambda>trigger.
                rbind (startParts localeCompare trigger destination graph p) (\<lambda>(graph, runData, recreated).
                  Inr (createRunExecutionData (Some destinationNode) (Some (namesOf graph)) runData (Some (pa_pinData p))
                    recreated (x\<lparr>x_workflow := w, x_status := StRunning, x_executionIndex := getNextExecutionIndex runData\<rparr>)))))
              in if isTool destinationNodeType (n_parameters destination)
                 then rbind (rewireGraph newOid destination graph (pa_agentRequest p)) (\<lambda>(_, graph).
                   rbind (toWorkflow nodeTypes getNodeParameters (parametersOf w) graph) (\<lambda>w.
                   case getNode w TOOL_EXECUTOR_NODE_NAME of
                     None \<Rightarrow> Inl (OperationalError ''ToolExecutor can not be found'')
                   | Some executor \<Rightarrow>
                       full w executor \<lparr>d_nodeName = n_name executor, d_mode = Inclusive\<rparr> graph))
                 else rbind (getDirectParentConnections graph destination) (\<lambda>parents.
                   if parents = []
                   then rbind (startSingle localeCompare destination destinationNode graph p) (\<lambda>(graph, runData, recreated).
                     rbind (toWorkflow nodeTypes getNodeParameters (parametersOf w) graph) (\<lambda>w.
                       Inr (createRunExecutionData (Some destinationNode) (Some (namesOf graph)) runData (Some (pa_pinData p))
                         recreated (x\<lparr>x_workflow := w, x_status := StRunning\<rparr>))))
                   else full w destination destinationNode graph)))"

end
