(* ===== verification/EngineInvariant.thy ===== *)
theory EngineInvariant
  imports EngineTables EngineRun
begin

section \<open>The invariant of an execution\<close>

text \<open>
  Together with the order of the waiting tables: the items of the stack refer to node objects of the
  workflow.  Each operation keeps both, whatever the nodes return; the locale \<open>transition_system\<close> carries
  the invariant to all states a run can reach.
\<close>

definition named_nodes :: "Workflow \<Rightarrow> bool" where
  "named_nodes w \<longleftrightarrow> (\<forall>name node. jget (w_nodes w) name = Some node \<longrightarrow> n_name node = name)"

definition in_workflow :: "Workflow \<Rightarrow> INode \<Rightarrow> bool" where
  "in_workflow w node \<longleftrightarrow> jget (w_nodes w) (n_name node) = Some node"

definition engine_ok :: "Engine \<Rightarrow> bool" where
  "engine_ok x \<longleftrightarrow> tables_wf x \<and> named_nodes (x_workflow x) \<and> (\<forall>item \<in> set (x_stack x). in_workflow (x_workflow x) (e_node item))"

definition stack_ok :: "Engine \<Rightarrow> bool" where
  "stack_ok x \<longleftrightarrow> named_nodes (x_workflow x) \<and> (\<forall>item \<in> set (x_stack x). in_workflow (x_workflow x) (e_node item))"

lemma engine_ok_iff: "engine_ok x \<longleftrightarrow> tables_wf x \<and> stack_ok x"
  by (auto simp: engine_ok_def stack_ok_def)

text \<open>Changes of other fields do not matter.\<close>

lemma tables_wf_cong:
  "x_workflow x = x_workflow y \<Longrightarrow> x_waiting x = x_waiting y \<Longrightarrow> x_waitingSource x = x_waitingSource y \<Longrightarrow>
     tables_wf x = tables_wf y"
  by (simp add: tables_wf_def agree_def)

lemma pending_cong:
  "x_workflow x = x_workflow y \<Longrightarrow> x_waiting x = x_waiting y \<Longrightarrow> x_waitingSource x = x_waitingSource y \<Longrightarrow>
     pending n k xs x = pending n k xs y"
  by (simp add: pending_def agree_def main_entry_def)

lemma stack_ok_cong: "x_workflow x = x_workflow y \<Longrightarrow> x_stack x = x_stack y \<Longrightarrow> stack_ok x = stack_ok y"
  by (simp add: stack_ok_def)

lemma engine_ok_cong:
  "x_workflow x = x_workflow y \<Longrightarrow> x_waiting x = x_waiting y \<Longrightarrow> x_waitingSource x = x_waitingSource y \<Longrightarrow>
     x_stack x = x_stack y \<Longrightarrow> engine_ok x = engine_ok y"
  by (simp add: engine_ok_iff tables_wf_cong [of x y] stack_ok_cong [of x y])

lemma enqueue_fields [simp]:
  "x_workflow (enqueue item x) = x_workflow x" "x_waiting (enqueue item x) = x_waiting x"
  "x_waitingSource (enqueue item x) = x_waitingSource x" "set (x_stack (enqueue item x)) = insert item (set (x_stack x))"
  by (auto simp: enqueue_def)

lemma nodeOf_in_workflow: "named_nodes w \<Longrightarrow> nodeOf w n = Inr node \<Longrightarrow> in_workflow w node"
  by (auto simp: nodeOf_def named_nodes_def in_workflow_def split: option.splits)

lemma stack_ok_enqueue: "stack_ok x \<Longrightarrow> in_workflow (x_workflow x) (e_node item) \<Longrightarrow> stack_ok (enqueue item x)"
  by (auto simp: stack_ok_def)

subsection \<open>Scheduling a node\<close>

definition same_tables :: "Engine \<Rightarrow> Engine \<Rightarrow> bool" where
  "same_tables x y \<longleftrightarrow> x_workflow y = x_workflow x \<and> x_waiting y = x_waiting x \<and> x_waitingSource y = x_waitingSource x"

lemma addParent_ok:
  assumes "addParent p i r v c x = Inr x'" and "stack_ok x"
  shows "same_tables x x' \<and> stack_ok x'"
proof -
  obtain c' where *: "(case c' of None \<Rightarrow> Inr x
       | Some n \<Rightarrow> rbind (if \<not> jhas (w_connectionsByDestinationNode (x_workflow x)) n then Inr True
             else rbind (firstInputs (x_workflow x) n) (\<lambda>cs. incomingConnectionIsEmpty (x_runData x) cs r))
           (\<lambda>addEmptyItem. if \<not> addEmptyItem then Inr x
             else rbind (nodeOf (x_workflow x) n) (\<lambda>node. Inr (enqueue \<lparr>e_node = node, e_data = emptyItemData,
               e_source = Some [(Main, [Some (sourceOf p i r)])], e_runIndex = None, e_metadata = None\<rparr> x)))) = Inr x'"
    using assms(1) unfolding addParent_def rbind_Inr_iff by blast
  show ?thesis
  proof (cases "x' = x")
    case True
    then show ?thesis using assms(2) by (simp add: same_tables_def)
  next
    case False
    then obtain n node item where "nodeOf (x_workflow x) n = Inr node" "x' = enqueue item x" "e_node item = node"
      using * by (cases c') (fastforce simp: rbind_Inr_iff split: if_splits)+
    then show ?thesis
      using assms(2) nodeOf_in_workflow by (auto simp: same_tables_def stack_ok_def)
  qed
qed

lemma scanInput_ok:
  assumes "scanInput p i r v outs c x = Inr x'" and "stack_ok x"
  shows "same_tables x x' \<and> stack_ok x'"
  using assms addParent_ok [of p i r v _ x x']
  by (auto simp: scanInput_def rbind_Inr_iff Let_def same_tables_def split: if_splits)

lemma scanInputs_ok:
  assumes "scanInputs n p i r v x = Inr x'" and "stack_ok x"
  shows "same_tables x x' \<and> stack_ok x'"
proof -
  obtain outs where run: "rfold (scanInput p i r v outs) (concat (map or_empty (mainInputs (x_workflow x) n))) x = Inr x'"
    using assms(1) by (auto simp: scanInputs_def rbind_Inr_iff)
  show ?thesis
    by (rule rfold_invariant [OF run]) (use assms(2) scanInput_ok in \<open>auto simp: same_tables_def\<close>)
qed

lemma agree_create: "agree x \<Longrightarrow> agree (createWaitingNode n x)"
  by (auto simp: createWaitingNode_def agree_def table_simps)

lemma create_entries [simp]:
  "agree x \<Longrightarrow> entry (x_waiting (createWaitingNode n x)) n' r = entry (x_waiting x) n' r"
  "agree x \<Longrightarrow> entry (x_waitingSource (createWaitingNode n x)) n' r = entry (x_waitingSource x) n' r"
  by (auto simp: createWaitingNode_def table_simps agree_def)

lemma create_fields [simp]:
  "x_workflow (createWaitingNode n x) = x_workflow x" "x_stack (createWaitingNode n x) = x_stack x"
  "x_runData (createWaitingNode n x) = x_runData x"
  by (simp_all add: createWaitingNode_def)

lemma create_known: "jhas (x_waiting x) n \<Longrightarrow> createWaitingNode n x = x"
  by (simp add: createWaitingNode_def)

lemma create_other: "n' \<noteq> n \<Longrightarrow> jget (x_waiting (createWaitingNode n x)) n' = jget (x_waiting x) n'"
  by (simp add: createWaitingNode_def update_conv')

lemma freeRun_in:
  "freeRun runs i ks = Inr (Some k) \<Longrightarrow> k \<in> set ks \<and> (\<exists>d. jget runs k = Some d)"
  by (induction ks) (auto simp: bind_eq_Some_conv split: option.splits if_splits)

lemma chooseRun_ok:
  assumes "chooseRun n i (createWaitingNode n x) = Inr (k, x')" and "tables_wf x" and "1 < length (mainInputs (x_workflow x) n)"
  shows "\<exists>xs. pending n k xs x'" and "x_workflow x' = x_workflow x" and "x_stack x' = x_stack x"
proof -
  let ?x = "createWaitingNode n x"
  have agr: "agree x" using assms(2) by (simp add: tables_wf_def)
  obtain f where f: "freeRun (tableRuns (x_waiting ?x) n) i (runKeys (tableRuns (x_waiting ?x) n)) = Inr f"
    and c: "(case f of Some k \<Rightarrow> Inr (k, ?x) | None \<Rightarrow> Inr (length (tableRuns (x_waiting ?x) n),
      prepareWaitingToExecution n (length (mainInputs (x_workflow ?x) n)) (length (tableRuns (x_waiting ?x) n)) ?x)) = (Inr (k, x') :: (nat \<times> Engine) res)"
    using assms(1) unfolding chooseRun_def Let_def rbind_Inr_iff by blast
  show "\<exists>xs. pending n k xs x'"
  proof (cases f)
    case (Some k')
    have "k' = k" "x' = ?x" using c by (simp_all add: Some)
    then obtain d where d: "jget (tableRuns (x_waiting ?x) n) k = Some d" "x' = ?x"
      using freeRun_in [OF f [unfolded Some]] by blast
    then have e: "entry (x_waiting x) n k = Some d"
      using create_entries(1) [OF agr, of n n k] by (simp add: entry_def)
    then have "jhas (x_waiting x) n" by (auto simp: entry_def tableRuns_def jhas_def split: option.splits)
    then have "?x = x" by (rule create_known)
    then show ?thesis using tables_wf_entry [OF assms(2) e] d(2) by auto
  next
    case None
    have "pending n (length (tableRuns (x_waiting ?x) n)) (replicate (length (mainInputs (x_workflow ?x) n)) Null)
        (prepareWaitingToExecution n (length (mainInputs (x_workflow ?x) n)) (length (tableRuns (x_waiting ?x) n)) ?x)"
    proof (rule pending_prepare)
      show "agree ?x" by (rule agree_create [OF agr])
      show "\<forall>n' r. entry_ok (x_workflow ?x) n' (entry (x_waiting ?x) n' r) (entry (x_waitingSource ?x) n' r)"
        using assms(2) by (simp add: tables_wf_def agr)
      show "\<forall>n'. n' \<noteq> n \<longrightarrow> jget (x_waiting ?x) n' \<noteq> Some []"
        using assms(2) by (simp add: tables_wf_def create_other)
      show "1 < length (mainInputs (x_workflow ?x) n)" using assms(3) by simp
    qed
    then show ?thesis using c None by auto
  qed
  show "x_workflow x' = x_workflow x" "x_stack x' = x_stack x"
    using c by (auto simp: prepareWaitingToExecution_def split: option.splits)
qed

lemma writeWaiting_fields:
  "writeWaiting n k i v s x = Inr x' \<Longrightarrow> x_workflow x' = x_workflow x \<and> x_stack x' = x_stack x"
  by (auto simp: writeWaiting_def rbind_Inr_iff)

lemma keepWaiting_fields:
  "keepWaiting n k i v x = Inr x' \<Longrightarrow> x_workflow x' = x_workflow x \<and> x_stack x' = x_stack x"
  by (auto simp: keepWaiting_def rbind_Inr_iff)

lemma removeWaiting_fields [simp]:
  "x_workflow (removeWaiting n k x) = x_workflow x" "x_stack (removeWaiting n k x) = x_stack x"
  by (simp_all add: removeWaiting_def Let_def)

lemma pending_main: "pending n k xs x \<Longrightarrow> waitingMain (x_waiting x) n k = Inr ys \<longleftrightarrow> ys = xs"
  by (auto simp: pending_def main_entry_def waitingMain_entry)

lemma startWaiting_ok:
  assumes "startWaiting n k x = Inr x'" and "pending n k xs x" and "stack_ok x"
  shows "tables_wf x' \<and> stack_ok x' \<and> x_workflow x' = x_workflow x"
proof -
  obtain d node where x': "x' = removeWaiting n k (enqueue \<lparr>e_node = node, e_data = d,
      e_source = jget (tableRuns (x_waitingSource x) n) k, e_runIndex = None, e_metadata = None\<rparr> x)"
    and node: "nodeOf (x_workflow x) n = Inr node"
    using assms(1) by (auto simp: startWaiting_def rbind_Inr_iff split: option.splits)
  have "tables_wf (removeWaiting n k (enqueue item x))" for item
    by (rule tables_wf_remove [of _ _ xs]) (use assms(2) in \<open>simp add: pending_cong [of "enqueue item x" x]\<close>)
  moreover have "in_workflow (x_workflow x) node"
    using assms(3) node nodeOf_in_workflow by (auto simp: stack_ok_def)
  ultimately show ?thesis
    using assms(3) unfolding x' by (auto simp: stack_ok_def)
qed

lemma set_arr_put_same: "Null \<in> set (arr_put Hole i v xs) \<Longrightarrow> Null \<in> set (arr_put Hole i v (arr_put Hole i v xs))"
  by (auto simp: arr_put_def list_update_append)

lemma addToMulti_ok:
  assumes "addToMulti c i p d r x = Inr x'" and "engine_ok x" and "1 < length (mainInputs (x_workflow x) (c_node c))"
  shows "engine_ok x' \<and> x_workflow x' = x_workflow x"
proof -
  define v where "v = (case d of None \<Rightarrow> Null | Some outputs \<Rightarrow> slot_at outputs i)"
  obtain k x1 where c1: "chooseRun (c_node c) (c_index c) (createWaitingNode (c_node c) x) = Inr (k, x1)"
    and "(\<exists>x2 ys. writeWaiting (c_node c) k (c_index c) v (if d = None then None else Some (sourceOf p i r)) x1 = Inr x2
      \<and> waitingMain (x_waiting x2) (c_node c) k = Inr ys
      \<and> (if allDataFound ys then startWaiting (c_node c) k x2
         else rbind (if jhas (x_waiting x) (c_node c) then Inr x2 else scanInputs (c_node c) p i r v x2)
           (keepWaiting (c_node c) k (c_index c) v)) = Inr x')"
    using assms(1) unfolding addToMulti_def Let_def rbind_Inr_iff v_def by (auto simp: rbind_Inr_iff)
  then obtain x2 ys where c2: "writeWaiting (c_node c) k (c_index c) v (if d = None then None else Some (sourceOf p i r)) x1 = Inr x2"
    and ys: "waitingMain (x_waiting x2) (c_node c) k = Inr ys"
    and c3: "(if allDataFound ys then startWaiting (c_node c) k x2
       else rbind (if jhas (x_waiting x) (c_node c) then Inr x2 else scanInputs (c_node c) p i r v x2)
         (keepWaiting (c_node c) k (c_index c) v)) = Inr x'" by blast
  have x: "tables_wf x" "stack_ok x" using assms(2) by (simp_all add: engine_ok_iff)
  obtain xs where "pending (c_node c) k xs x1" using chooseRun_ok(1) [OF c1 x(1) assms(3)] by blast
  then have p2: "pending (c_node c) k (arr_put Hole (c_index c) v xs) x2" by (rule pending_write [OF _ c2])
  then have ys': "ys = arr_put Hole (c_index c) v xs" using ys pending_main by blast
  have w2: "x_workflow x2 = x_workflow x" "x_stack x2 = x_stack x"
    using chooseRun_ok(2,3) [OF c1 x(1) assms(3)] writeWaiting_fields [OF c2] by simp_all
  have s2: "stack_ok x2" using x(2) w2 by (simp add: stack_ok_def)
  show ?thesis
  proof (cases "allDataFound ys")
    case True
    then show ?thesis using c3 startWaiting_ok [OF _ p2 s2] w2 by (simp add: engine_ok_iff)
  next
    case False
    then obtain x3 where c4: "(if jhas (x_waiting x) (c_node c) then Inr x2 else scanInputs (c_node c) p i r v x2) = Inr x3"
      and c5: "keepWaiting (c_node c) k (c_index c) v x3 = Inr x'"
      using c3 by (auto simp: rbind_Inr_iff)
    have x3: "same_tables x2 x3 \<and> stack_ok x3"
      using c4 scanInputs_ok [of "c_node c" p i r v x2 x3] s2
      by (cases "jhas (x_waiting x) (c_node c)") (simp_all add: same_tables_def)
    then have "pending (c_node c) k ys x3"
      using p2 ys' pending_cong [of x3 x2] by (simp add: same_tables_def)
    then have "pending (c_node c) k (arr_put Hole (c_index c) v ys) x'" by (rule pending_keep [OF _ c5])
    moreover have "Null \<in> set (arr_put Hole (c_index c) v ys)"
      using False set_arr_put_same unfolding ys' allDataFound_def by auto
    ultimately have "tables_wf x'" by (rule pending_complete)
    moreover have "stack_ok x'" "x_workflow x' = x_workflow x"
      using keepWaiting_fields [OF c5] x3 w2 by (auto simp: same_tables_def stack_ok_def)
    ultimately show ?thesis by (simp add: engine_ok_iff)
  qed
qed

lemma addNodeToBeExecuted_ok:
  assumes "addNodeToBeExecuted c i p d r nr md x = Inr x'" and "engine_ok x"
  shows "engine_ok x' \<and> x_workflow x' = x_workflow x"
proof (cases "1 < length (mainInputs (x_workflow x) (c_node c))")
  case True
  then show ?thesis using assms addToMulti_ok by (simp add: addNodeToBeExecuted_def)
next
  case False
  then obtain node where node: "nodeOf (x_workflow x) (c_node c) = Inr node"
    using assms(1) by (cases "nodeOf (x_workflow x) (c_node c)") (auto simp: addNodeToBeExecuted_def)
  then obtain item where item: "e_node item = node" "x' = enqueue item x"
    using assms(1) False node unfolding addNodeToBeExecuted_def
    by (simp del: enqueue_fields) (metis IExecuteData.select_convs(1))
  then have "in_workflow (x_workflow x) (e_node item)"
    using assms(2) nodeOf_in_workflow node by (auto simp: engine_ok_def)
  then show ?thesis
    using assms(2) item(2) stack_ok_enqueue by (auto simp: engine_ok_iff tables_wf_cong [of "enqueue item x" x])
qed


subsection \<open>Requests\<close>

lemma changeNode_fields [simp]:
  "x_waiting (changeNode oid f x) = x_waiting x" "x_waitingSource (changeNode oid f x) = x_waitingSource x"
  "x_runData (changeNode oid f x) = x_runData x"
  by (simp_all add: changeNode_def Let_def)

lemma mainInputs_nodes [simp]: "mainInputs (w\<lparr>w_nodes := ns\<rparr>) n = mainInputs w n"
  by (simp add: mainInputs_def)

lemma entry_ok_nodes [simp]: "entry_ok (w\<lparr>w_nodes := ns\<rparr>) n d s = entry_ok w n d s"
  unfolding entry_ok_def mainInputs_nodes ..

lemma changeNode_ok:
  assumes "engine_ok x" and name: "\<And>n. n_name (f n) = n_name n"
  shows "engine_ok (changeNode oid f x)"
proof -
  let ?g = "\<lambda>node. if n_oid node = oid then f node else node"
  have g: "n_name (?g n) = n_name n" for n by (simp add: name)
  have look: "jget (w_nodes (x_workflow (changeNode oid f x))) n = map_option ?g (jget (w_nodes (x_workflow x)) n)" for n
    by (simp add: changeNode_def Let_def jget_map_snd)
  have "named_nodes (x_workflow (changeNode oid f x))"
    using assms(1) name by (auto simp: named_nodes_def engine_ok_def look)
  moreover have "in_workflow (x_workflow (changeNode oid f x)) (?g n)" if "in_workflow (x_workflow x) n" for n
    using that g unfolding in_workflow_def look g by simp
  then have "\<forall>item \<in> set (x_stack (changeNode oid f x)). in_workflow (x_workflow (changeNode oid f x)) (e_node item)"
    using assms(1) by (auto simp: engine_ok_def changeNode_def Let_def)
  moreover have "tables_wf (changeNode oid f x)"
    using assms(1) by (simp add: engine_ok_def tables_wf_def agree_def changeNode_def Let_def)
  ultimately show ?thesis by (simp add: engine_ok_def)
qed

lemma prepareRequested_ok:
  "prepareRequestedNodesForExecution n r d actions x = (res, x') \<Longrightarrow> engine_ok x \<Longrightarrow> engine_ok x'"
proof (induction n r d actions x arbitrary: res rule: prepareRequestedNodesForExecution.induct)
  case (2 n r d action actions x)
  show ?case
  proof (cases "getNode (x_workflow x) (a_nodeName action)")
    case (Some node)
    obtain nd en x1 where p: "prepareAction n r d action node x = (nd, en, x1)" by (metis prod_cases3)
    obtain res' x2 where r: "prepareRequestedNodesForExecution n r d actions x1 = (res', x2)" by (metis surj_pair)
    have x2: "x2 = x'" using 2(2) by (simp add: Some p r)
    have "engine_ok (changeNode (n_oid node) (\<lambda>n. n\<lparr>n_rewireOutputLogTo := Some (a_type action)\<rparr>) x)"
      by (rule changeNode_ok [OF 2(3)]) simp
    then have "engine_ok x1"
      using p by (auto simp: prepareAction_def Let_def engine_ok_iff tables_wf_def agree_def stack_ok_def)
    then show ?thesis using 2(1) [OF Some p [symmetric] refl r [unfolded x2]] by simp
  qed (use 2 in auto)
qed simp

lemma addRequested_ok: "addRequested n x = Inr x' \<Longrightarrow> engine_ok x \<Longrightarrow> engine_ok x'"
  using addNodeToBeExecuted_ok by (auto simp: addRequested_def split: if_splits)

lemma handleEngineRequest_ok:
  assumes "handleEngineRequest n rq r d x = (e, x')" and "engine_ok x"
  shows "engine_ok x'"
proof -
  obtain res x1 where h: "handleRequest n rq r d x = (res, x1)" by (metis surj_pair)
  obtain res' where "prepareRequestedNodesForExecution n r d (rq_actions rq) x = (res', x1)"
    using h by (auto simp: handleRequest_def split: prod.splits)
  then have x1: "engine_ok x1" using prepareRequested_ok assms(2) by blast
  show ?thesis
  proof (cases res)
    case (Inl err)
    then show ?thesis using assms(1) h x1 by (simp add: handleEngineRequest_def)
  next
    case (Inr nodes)
    show ?thesis
    proof (cases "rfold addRequested nodes x1")
      case (Inl err)
      then show ?thesis using assms(1) h x1 Inr by (simp add: handleEngineRequest_def)
    next
      case (Inr x2)
      then have "engine_ok x2"
        by (rule rfold_invariant [where I = engine_ok]) (use x1 addRequested_ok in auto)
      then show ?thesis using assms(1) h \<open>res = Inr nodes\<close> Inr by (simp add: handleEngineRequest_def)
    qed
  qed
qed


subsection \<open>The tries of a node\<close>

text \<open>The item that runs refers to a node of the workflow throughout.\<close>

definition try_ok :: "Try \<Rightarrow> bool" where
  "try_ok t \<longleftrightarrow> engine_ok (tr_engine t) \<and> in_workflow (x_workflow (tr_engine t)) (e_node (tr_data t))"

lemma callEffects_fields:
  "callEffects r (d, x) = (d', x') \<Longrightarrow> e_node d' = e_node d \<and> x_workflow x' = x_workflow x \<and> x_stack x' = x_stack x
     \<and> x_waiting x' = x_waiting x \<and> x_waitingSource x' = x_waitingSource x"
  by (auto simp: callEffects_def split: option.splits)

lemma runNode_fields:
  assumes "runNode nt m calls k r sub (d, x) = (res, d', x')"
  shows "e_node d' = e_node d \<and> x_workflow x' = x_workflow x \<and> x_stack x' = x_stack x
     \<and> x_waiting x' = x_waiting x \<and> x_waitingSource x' = x_waitingSource x"
proof (cases "runNodePlan nt m x d r sub")
  case (DoCall c)
  then show ?thesis using assms callEffects_fields [of "calls k c" d x d' x'] by (simp add: runNode_def)
qed (use assms in \<open>simp add: runNode_def\<close>)

lemma runNodeTry_ok:
  assumes "runNodeTry c sub t = (res, t')" and "try_ok t"
  shows "try_ok t'"
proof -
  obtain res' d x where r: "runNode (sc_nodeTypes c) (sc_manual c) (sc_calls c) (tr_calls t) (sc_runIndex c) sub (tr_data t, tr_engine t)
      = (res', d, x)" by (metis prod_cases3)
  then have t': "t' = t\<lparr>tr_data := d, tr_engine := x, tr_calls := Suc (tr_calls t)\<rparr>"
    using assms(1) by (simp add: runNodeTry_def)
  show ?thesis
    using runNode_fields [OF r] assms(2) by (simp add: try_ok_def t' engine_ok_cong [of x "tr_engine t"])
qed

lemma runAgain_ok: "runAgain c n res t = (n', res', t') \<Longrightarrow> try_ok t \<Longrightarrow> try_ok t'"
proof (induction c n res t rule: runAgain.induct)
  case (2 c n res t)
  show ?case
  proof (cases "nodeFailed res")
    case True
    obtain res1 t1 where r: "runNodeTry c None t = (res1, t1)" by (metis surj_pair)
    then have t1: "try_ok t1" using runNodeTry_ok 2 by blast
    show ?thesis
    proof (cases res1)
      case (RunError e)
      then show ?thesis using "2.prems"(1) True r t1 by simp
    next
      case (RunData a b)
      then show ?thesis using 2 True r t1 by simp
    next
      case (RunRequest a)
      then show ?thesis using 2 True r t1 by simp
    qed
  qed (use 2 in auto)
qed auto

fun end_ok :: "TryEnd \<Rightarrow> bool" where
  "end_ok (TryBreak t) = try_ok t"
| "end_ok (TryContinue x) = engine_ok x"
| "end_ok (TryThrew e t) = try_ok t"

lemma catching_ok: "try_ok t \<Longrightarrow> (\<And>v. r = Inr v \<Longrightarrow> end_ok (f v)) \<Longrightarrow> end_ok (catching r t f)"
  by (cases r) (auto simp: catching_def)

lemma try_ok_output [simp]: "try_ok (t\<lparr>tr_output := out\<rparr>) = try_ok t" "try_ok (t\<lparr>tr_hints := h\<rparr>) = try_ok t"
  "try_ok (t\<lparr>tr_error := e\<rparr>) = try_ok t" "try_ok (t\<lparr>tr_responses := rs\<rparr>) = try_ok t"
  by (simp_all add: try_ok_def)

lemma try_ok_engine:
  assumes "try_ok t" and "x_workflow x = x_workflow (tr_engine t)" "x_waiting x = x_waiting (tr_engine t)"
    "x_waitingSource x = x_waitingSource (tr_engine t)" "x_stack x = x_stack (tr_engine t)"
  shows "try_ok (t\<lparr>tr_engine := x\<rparr>)" and "engine_ok x"
  using assms engine_ok_cong [of x "tr_engine t"] by (simp_all add: try_ok_def)

lemma finishTry_ok:
  assumes "try_ok t"
  shows "end_ok (finishTry t)"
  unfolding finishTry_def Let_def
proof (rule catching_ok [OF assms])
  fix out :: "NodeOutputs option"
  let ?x = "if out = None then tr_engine t else (tr_engine t)\<lparr>x_lastNodeExecuted := Some (n_name (e_node (tr_data t)))\<rparr>"
  have t1: "try_ok (t\<lparr>tr_output := out, tr_engine := ?x\<rparr>)" "engine_ok ?x"
    using try_ok_engine [of "t\<lparr>tr_output := out\<rparr>" ?x] assms by simp_all
  show "end_ok (catching (alwaysOutput (tr_data (t\<lparr>tr_output := out, tr_engine := ?x\<rparr>)) out) (t\<lparr>tr_output := out, tr_engine := ?x\<rparr>)
      (\<lambda>output. if output = None \<and> x_waitTill ?x = None then TryContinue ?x
        else TryBreak (t\<lparr>tr_output := out, tr_engine := ?x, tr_output := output\<rparr>)))"
    by (rule catching_ok [OF t1(1)]) (use t1 in \<open>auto simp: try_ok_def\<close>)
qed

text \<open>Requests change where the log of a node goes, and nothing else of it.\<close>

definition unwired :: "INode \<Rightarrow> INode" where
  "unwired node = node\<lparr>n_rewireOutputLogTo := None\<rparr>"

definition same_nodes :: "Workflow \<Rightarrow> Workflow \<Rightarrow> bool" where
  "same_nodes w w' \<longleftrightarrow> (\<forall>name. map_option unwired (jget (w_nodes w') name) = map_option unwired (jget (w_nodes w) name))"

lemma same_nodes_trans: "same_nodes a b \<Longrightarrow> same_nodes b c \<Longrightarrow> same_nodes a c"
  by (simp add: same_nodes_def)

lemma unwired_eq: "unwired m = unwired n \<Longrightarrow> n\<lparr>n_rewireOutputLogTo := n_rewireOutputLogTo m\<rparr> = m \<and> n_oid m = n_oid n \<and> n_name m = n_name n"
  by (cases m; cases n) (simp add: unwired_def)

lemma same_nodes_change:
  assumes "\<And>n. unwired (f n) = unwired n"
  shows "same_nodes (x_workflow x) (x_workflow (changeNode oid f x))"
  unfolding same_nodes_def
proof
  fix name
  show "map_option unwired (jget (w_nodes (x_workflow (changeNode oid f x))) name)
      = map_option unwired (jget (w_nodes (x_workflow x)) name)"
    using assms by (cases "jget (w_nodes (x_workflow x)) name") (simp_all add: changeNode_def Let_def jget_map_snd)
qed

lemma in_workflow_refresh:
  assumes "same_nodes w (x_workflow x)" and "in_workflow w (e_node d)"
  shows "in_workflow (x_workflow x) (e_node (refreshNode x d))"
proof -
  have "map_option unwired (jget (w_nodes (x_workflow x)) (n_name (e_node d))) = Some (unwired (e_node d))"
    using assms by (simp add: same_nodes_def in_workflow_def)
  then obtain m where m: "jget (w_nodes (x_workflow x)) (n_name (e_node d)) = Some m" "unwired m = unwired (e_node d)"
    by (auto simp: map_option_eq_Some)
  from unwired_eq [OF m(2)] show ?thesis by (simp add: refreshNode_def m(1) in_workflow_def)
qed

lemma prepareRequested_nodes:
  "prepareRequestedNodesForExecution n r d actions x = (res, x') \<Longrightarrow> same_nodes (x_workflow x) (x_workflow x')"
proof (induction n r d actions x arbitrary: res rule: prepareRequestedNodesForExecution.induct)
  case (2 n r d action actions x)
  show ?case
  proof (cases "getNode (x_workflow x) (a_nodeName action)")
    case (Some node)
    obtain nd en x1 where p: "prepareAction n r d action node x = (nd, en, x1)" by (metis prod_cases3)
    obtain res' x2 where r: "prepareRequestedNodesForExecution n r d actions x1 = (res', x2)" by (metis surj_pair)
    have x2: "x2 = x'" using 2(2) by (simp add: Some p r)
    have "x_workflow x1 = x_workflow (changeNode (n_oid node) (\<lambda>n. n\<lparr>n_rewireOutputLogTo := Some (a_type action)\<rparr>) x)"
      using p by (auto simp: prepareAction_def Let_def)
    then have "same_nodes (x_workflow x) (x_workflow x1)"
      using same_nodes_change [of "\<lambda>n. n\<lparr>n_rewireOutputLogTo := Some (a_type action)\<rparr>"] by (simp add: unwired_def)
    then show ?thesis using 2(1) [OF Some p [symmetric] refl r [unfolded x2]] same_nodes_trans by blast
  qed (use 2 in \<open>auto simp: same_nodes_def\<close>)
qed (simp add: same_nodes_def)

lemma handleEngineRequest_nodes:
  assumes "handleEngineRequest n rq r d x = (Some e, x')" and "engine_ok x"
  shows "same_nodes (x_workflow x) (x_workflow x')"
proof -
  obtain res x1 where h: "handleRequest n rq r d x = (res, x1)" by (metis surj_pair)
  obtain res' where "prepareRequestedNodesForExecution n r d (rq_actions rq) x = (res', x1)"
    using h by (auto simp: handleRequest_def split: prod.splits)
  then have "same_nodes (x_workflow x) (x_workflow x1)" by (rule prepareRequested_nodes)
  moreover have "x' = x1" using assms(1) h by (auto simp: handleEngineRequest_def split: sum.splits)
  ultimately show ?thesis by simp
qed

lemma handleRunResult_ok:
  assumes "try_ok t"
  shows "end_ok (handleRunResult c res t)"
proof (cases res)
  case (RunData data hints)
  have "try_ok (t\<lparr>tr_output := data, tr_hints := tr_hints t @ hints\<rparr>)" using assms by simp
  then show ?thesis
    unfolding handleRunResult_def RunData RunResponse.case Let_def
    by (rule catching_ok) (rule finishTry_ok, use assms in simp)
next
  case (RunRequest rq)
  obtain e x where h: "handleEngineRequest (sc_node c) rq (sc_runIndex c) (tr_data t) (tr_engine t) = (e, x)" by (metis surj_pair)
  have eng: "engine_ok (tr_engine t)" using assms by (simp add: try_ok_def)
  have x: "engine_ok x" by (rule handleEngineRequest_ok [OF h eng])
  show ?thesis
  proof (cases e)
    case None
    then show ?thesis using h x by (simp add: handleRunResult_def RunRequest)
  next
    case (Some err)
    have "in_workflow (x_workflow x) (e_node (refreshNode x (tr_data t)))"
      by (rule in_workflow_refresh [OF handleEngineRequest_nodes [OF h [unfolded Some] eng]])
        (use assms in \<open>simp add: try_ok_def\<close>)
    then show ?thesis using h x Some by (simp add: handleRunResult_def RunRequest try_ok_def)
  qed
qed (use assms in \<open>simp add: handleRunResult_def\<close>)

lemma runTry_ok:
  assumes "try_ok t"
  shows "end_ok (snd (runTry c n t))"
proof (cases "pinnedItems (tr_engine t) (sc_node c)")
  case (Some items)
  then show ?thesis using assms finishTry_ok by (simp add: runTry_def)
next
  case None
  let ?t = "collectResponses t"
  have t0: "try_ok ?t" using assms by (auto simp: collectResponses_def split: option.split)
  obtain res t1 where r: "runNodeTry c (Some (tr_responses ?t)) ?t = (res, t1)" by (metis surj_pair)
  obtain n' res' t2 where a: "runAgain c n res t1 = (n', res', t2)" by (metis prod_cases3)
  have "try_ok t2" using runAgain_ok [OF a runNodeTry_ok [OF r t0]] .
  then show ?thesis using None r a handleRunResult_ok by (simp add: runTry_def Let_def)
qed

fun tries_ok :: "TriesEnd \<Rightarrow> bool" where
  "tries_ok (TriesDone t) = try_ok t"
| "tries_ok (TriesContinue x) = engine_ok x"

lemma tryLoop_ok: "try_ok t \<Longrightarrow> tries_ok (tryLoop c n t)"
proof (induction c n t rule: tryLoop.induct)
  case (1 c n t)
  note unf = tryLoop.simps [of c n t]
  obtain n' r where run: "runTry c n t = (n', r)" by (metis surj_pair)
  have r: "end_ok r" using runTry_ok [OF "1.prems", of c n] by (simp add: run)
  show ?case
  proof (cases r)
    case (TryBreak t')
    then show ?thesis using r by (subst unf) (simp add: run)
  next
    case (TryContinue x)
    then show ?thesis using r by (subst unf) (simp add: run)
  next
    case (TryThrew e t')
    define t'' where "t'' = t'\<lparr>tr_engine := (tr_engine t')\<lparr>x_lastNodeExecuted := Some (n_name (e_node (tr_data t')))\<rparr>, tr_error := Some e\<rparr>"
    have t'': "try_ok t''"
      using r try_ok_engine(1) [of t' "(tr_engine t')\<lparr>x_lastNodeExecuted := Some (n_name (e_node (tr_data t')))\<rparr>"]
      by (simp add: TryThrew t''_def)
    show ?thesis
    proof (cases n')
      case 0
      then show ?thesis using t'' by (subst unf) (simp add: run TryThrew Let_def t''_def)
    next
      case (Suc m)
      have "tries_ok (tryLoop c m (t''\<lparr>tr_error := None\<rparr>))"
        by (rule "1.IH" [OF run [symmetric] TryThrew t''_def Suc]) (use t'' in simp)
      then show ?thesis by (subst unf) (simp add: run TryThrew Let_def t''_def Suc)
    qed
  qed
qed

end
