(* ===== verification/TransitionSystem.thy ===== *)
theory TransitionSystem
  imports Main
begin

section \<open>Transition systems\<close>

text \<open>The interface of a component with states and steps: an invariant holds in all states that runs reach.\<close>

locale transition_system =
  fixes step :: "'s \<Rightarrow> 's \<Rightarrow> bool"
    and inv :: "'s \<Rightarrow> bool"
  assumes inv_step: "step s s' \<Longrightarrow> inv s \<Longrightarrow> inv s'"
begin

lemma inv_reachable: "step\<^sup>*\<^sup>* s s' \<Longrightarrow> inv s \<Longrightarrow> inv s'"
  by (induction rule: rtranclp_induct) (auto intro: inv_step)

lemma inv_initial: "init s \<Longrightarrow> (\<And>s. init s \<Longrightarrow> inv s) \<Longrightarrow> step\<^sup>*\<^sup>* s s' \<Longrightarrow> inv s'"
  using inv_reachable by blast

end

end
