(* ===== verification/EngineReach.thy ===== *)
theory EngineReach
  imports EngineInvariant TransitionSystem
begin

section \<open>The states a run reaches\<close>

text \<open>The invariant of \<open>EngineInvariant\<close> for the step of the loop and for the states that runs start with.\<close>

subsection \<open>Scheduling the children and releasing waiting nodes\<close>

lemma scheduleChildren_ok:
  assumes "scheduleChildren n out r x = Inr x'" and "engine_ok x"
  shows "engine_ok x'"
proof -
  have add: "addChild n out r oc y = Inr y' \<Longrightarrow> engine_ok y \<Longrightarrow> engine_ok y'" for oc y y'
    using addNodeToBeExecuted_ok by (auto simp: addChild_def split: prod.splits)
  show ?thesis
  proof (cases "isV1 (x_workflow x)")
    case True
    then obtain nodes where "rfold (addChild n out r) nodes x = Inr x'"
      using assms(1) by (auto simp: scheduleChildren_def scheduleV1_def rbind_Inr_iff)
    then show ?thesis by (rule rfold_invariant [where I = engine_ok]) (use assms(2) add in auto)
  next
    case False
    then have "scheduleLegacy n out r x = Inr x'" using assms(1) by (simp add: scheduleChildren_def)
    then show ?thesis
      unfolding scheduleLegacy_def
      by (rule rfold_invariant [where I = engine_ok])
        (use assms(2) add in \<open>auto simp: rbind_Inr_iff split: if_splits\<close>)
  qed
qed

lemma releaseOf_entry:
  assumes "releaseOf env names x n = Inr r" and "r = Start item k \<or> r = Drop k"
  shows "\<exists>d. entry (x_waiting x) n k = Some d" and "r = Start item k \<Longrightarrow> getNode (x_workflow x) n = Some (e_node item)"
  using assms
  by (auto simp: releaseOf_def Let_def rbind_Inr_iff waitingMain_entry split: option.splits if_splits)

lemma remove_entry_ok:
  assumes "engine_ok x" and "entry (x_waiting x) n k = Some d"
    and "x_workflow y = x_workflow x" "x_waiting y = x_waiting x" "x_waitingSource y = x_waitingSource x" and "stack_ok y"
  shows "engine_ok (removeWaiting n k y)"
proof -
  obtain xs where "pending n k xs x" using tables_wf_entry [of x n k d] assms(1,2) unfolding engine_ok_iff by blast
  then have "tables_wf (removeWaiting n k y)" using pending_cong [OF assms(3-5)] by (blast intro: tables_wf_remove)
  then show ?thesis using assms(6) by (simp add: engine_ok_iff stack_ok_def)
qed

lemma releaseLoop_ok: "releaseLoop env ws names x = Inr x' \<Longrightarrow> engine_ok x \<Longrightarrow> engine_ok x'"
proof (induction env ws names x rule: releaseLoop.induct)
  case (1 env ws names x)
  show ?case
  proof (cases names)
    case Nil
    then show ?thesis using "1.prems" by (simp add: releaseLoop.simps [of env ws "[]" x])
  next
    case (Cons n rest)
    note unf = releaseLoop.simps [of env ws "n # rest" x]
    show ?thesis
    proof (cases "releaseOf env ws x n")
      case (Inl e)
      then show ?thesis using "1.prems"(1) by (simp add: unf Cons)
    next
      case (Inr r)
      show ?thesis
      proof (cases r)
        case Skip
        then have "releaseLoop env ws rest x = Inr x'" using "1.prems"(1) Inr by (simp add: unf Cons)
        then show ?thesis using "1.IH"(1) [OF Cons Inr Skip] "1.prems"(2) by blast
      next
        case (Start item k)
        have x': "x' = removeWaiting n k (x\<lparr>x_stack := x_stack x @ [item]\<rparr>)"
          using "1.prems"(1) Inr by (simp add: unf Cons Start)
        obtain d where d: "entry (x_waiting x) n k = Some d" "getNode (x_workflow x) n = Some (e_node item)"
          using releaseOf_entry [OF Inr] Start by blast
        have "in_workflow (x_workflow x) (e_node item)"
          using d(2) "1.prems"(2) by (auto simp: engine_ok_def named_nodes_def in_workflow_def getNode_def)
        then have "stack_ok (x\<lparr>x_stack := x_stack x @ [item]\<rparr>)"
          using "1.prems"(2) by (auto simp: engine_ok_def stack_ok_def)
        then show ?thesis unfolding x' by (intro remove_entry_ok [OF "1.prems"(2) d(1)]) simp_all
      next
        case (Drop k)
        define y where "y = removeWaiting n k x"
        obtain d where d: "entry (x_waiting x) n k = Some d" using releaseOf_entry(1) [OF Inr] Drop by blast
        have "engine_ok y"
          unfolding y_def using "1.prems"(2) by (intro remove_entry_ok [OF "1.prems"(2) d]) (auto simp: engine_ok_iff)
        moreover have "releaseLoop env (own_keys (x_waiting y)) (own_keys (x_waiting y)) y = Inr x'"
          using "1.prems"(1) Inr by (simp add: unf Cons Drop Let_def y_def)
        ultimately show ?thesis using "1.IH"(2) [OF Cons Inr Drop y_def refl] by blast
      qed
    qed
  qed
qed

lemma releaseWaiting_ok: "releaseWaiting env x = Inr x' \<Longrightarrow> engine_ok x \<Longrightarrow> engine_ok x'"
  using releaseLoop_ok by (auto simp: releaseWaiting_def Let_def split: if_splits)

subsection \<open>The step\<close>

fun result_ok :: "StepResult \<Rightarrow> bool" where
  "result_ok (Running l) = engine_ok (l_engine l)"
| "result_ok (Finished l) = engine_ok (l_engine l)"
| "result_ok (Crashed x e) = engine_ok x"

lemma onCrash_ok: "engine_ok x \<Longrightarrow> (\<And>v. r = Inr v \<Longrightarrow> result_ok (f v)) \<Longrightarrow> result_ok (onCrash x r f)"
  by (cases r) (auto simp: onCrash_def)

lemma engine_ok_fields [simp]:
  "engine_ok (x\<lparr>x_runData := rd\<rparr>) = engine_ok x" "engine_ok (x\<lparr>x_status := st\<rparr>) = engine_ok x"
  "engine_ok (x\<lparr>x_timedOut := b\<rparr>) = engine_ok x" "engine_ok (x\<lparr>x_waitTill := wt\<rparr>) = engine_ok x"
  by (rule engine_ok_cong; simp)+

lemma engine_ok_push:
  "engine_ok x \<Longrightarrow> in_workflow (x_workflow x) (e_node item) \<Longrightarrow> engine_ok (x\<lparr>x_stack := item # x_stack x\<rparr>)"
  by (auto simp: engine_ok_iff stack_ok_def tables_wf_cong [of "x\<lparr>x_stack := _\<rparr>" x])

lemma goOn_ok:
  "engine_ok x \<Longrightarrow> result_ok (onCrash x (scheduleChildren n out r x) (\<lambda>x. onCrash x (releaseWaiting env x)
     (\<lambda>x. Running \<lparr>l_engine = x, l_lastTry = lst, l_error = e\<rparr>)))"
  by (auto intro!: onCrash_ok) (metis scheduleChildren_ok releaseWaiting_ok)+

lemma storeAndGoOn_ok:
  assumes "try_ok t"
  shows "result_ok (storeAndGoOn env lst r task out t)"
  unfolding storeAndGoOn_def Let_def
proof (rule onCrash_ok)
  show x: "engine_ok (tr_engine t)" using assms by (simp add: try_ok_def)
  fix out'
  let ?x = "(tr_engine t)\<lparr>x_runData := storeTask (n_name (e_node (tr_data t))) r
    (withData (e_node (tr_data t)) r out' (x_runData (tr_engine t)) task) (x_runData (tr_engine t))\<rparr>"
  have x': "engine_ok ?x" using x by simp
  have "in_workflow (x_workflow ?x) (e_node (tr_data t))" using assms by (simp add: try_ok_def)
  with x' have "engine_ok (?x\<lparr>x_stack := tr_data t # x_stack ?x\<rparr>)" by (rule engine_ok_push)
  then show "result_ok (if x_waitTill ?x \<noteq> None
      then Finished \<lparr>l_engine = ?x\<lparr>x_stack := tr_data t # x_stack ?x\<rparr>, l_lastTry = lst, l_error = tr_error t\<rparr>
      else if stopsAt ?x (n_name (e_node (tr_data t)))
      then Running \<lparr>l_engine = ?x, l_lastTry = lst, l_error = tr_error t\<rparr>
      else onCrash ?x (scheduleChildren (n_name (e_node (tr_data t))) out' r ?x) (\<lambda>x.
        onCrash x (releaseWaiting env x) (\<lambda>x. Running \<lparr>l_engine = x, l_lastTry = lst, l_error = tr_error t\<rparr>)))"
    using x' goOn_ok [OF x'] by simp
qed

lemma afterTries_ok:
  assumes "try_ok t"
  shows "result_ok (afterTries env lst r i t)"
proof -
  let ?n = "n_name (e_node (tr_data t))"
  define y where "y = (if jhas (x_runData (tr_engine t)) ?n then tr_engine t
    else (tr_engine t)\<lparr>x_runData := jput ?n [] (x_runData (tr_engine t))\<rparr>)"
  have y: "engine_ok y" "x_workflow y = x_workflow (tr_engine t)" using assms by (simp_all add: y_def try_ok_def)
  then have t': "try_ok (t\<lparr>tr_engine := y\<rparr>)" using assms by (simp add: try_ok_def)
  have "engine_ok (y\<lparr>x_runData := rd, x_stack := tr_data t # x_stack y\<rparr>)" for rd
    using engine_ok_push [of "y\<lparr>x_runData := rd\<rparr>" "tr_data t"] y assms by (simp add: try_ok_def)
  then show ?thesis
    using storeAndGoOn_ok [OF t'] unfolding afterTries_def Let_def y_def [symmetric]
    by (auto split: option.split)
qed

lemma ensureLoop_result:
  "ensureLoop d is x = Inr (b, x') \<Longrightarrow> x' = x \<or> x' = x\<lparr>x_stack := x_stack x @ [d]\<rparr>"
  by (induction d "is" x rule: ensureLoop.induct) (auto simp: rbind_Inr_iff Let_def split: if_splits option.splits)

lemma ensureInputData_ok:
  assumes "ensureInputData d x = Inr (b, x')" and "engine_ok x" and "in_workflow (x_workflow x) (e_node d)"
  shows "engine_ok x' \<and> x_workflow x' = x_workflow x"
proof -
  have "engine_ok (x\<lparr>x_stack := x_stack x @ [d]\<rparr>)"
    using assms(2,3) by (auto simp: engine_ok_iff stack_ok_def tables_wf_cong [of "x\<lparr>x_stack := _\<rparr>" x])
  then show ?thesis using ensureLoop_result [OF assms(1) [unfolded ensureInputData_def]] assms(2) by auto
qed

lemma runItem_ok:
  assumes "engine_ok x" and "in_workflow (x_workflow x) (e_node d)"
  shows "result_ok (runItem env lst r i d x)"
proof -
  have "try_ok (startTry x d)" using assms by (simp add: startTry_def try_ok_def)
  from tryLoop_ok [OF this, of "contextOf env (e_node d) r" "nat (maxTriesOf (e_node d)) - 1"]
  show ?thesis
    unfolding runItem_def Let_def
    by (cases "tryLoop (contextOf env (e_node d) r) (nat (maxTriesOf (e_node d)) - 1) (startTry x d)")
      (simp_all add: afterTries_ok)
qed

lemma pairInputs_node [simp]: "e_node (pairInputs d) = e_node d" "e_metadata (pairInputs d) = e_metadata d"
    "e_runIndex (pairInputs d) = e_runIndex d" "e_source (pairInputs d) = e_source d"
  by (simp_all add: pairInputs_def Let_def)

lemma step_ok:
  assumes "engine_ok (l_engine l)"
  shows "result_ok (step env l)"
proof (cases "x_stack (l_engine l)")
  case Nil
  then show ?thesis using assms by (simp add: step_def Let_def)
next
  case (Cons item rest)
  define x where "x = (if en_timeout env then (l_engine l)\<lparr>x_status := StCanceled, x_timedOut := True\<rparr> else l_engine l)"
  define y where "y = x\<lparr>x_stack := rest, x_executionIndex := Suc (x_executionIndex x)\<rparr>"
  define thisTry where "thisTry = currentTry (n_name (e_node item)) (runIndexOf y (pairInputs item))"
  have x: "engine_ok x" "x_stack x = item # rest"
    using assms Cons by (simp_all add: x_def)
  have y: "engine_ok y" "in_workflow (x_workflow y) (e_node (pairInputs item))"
    using x tables_wf_cong [of y x] by (auto simp: y_def engine_ok_iff stack_ok_def)
  define go where "go = (if thisTry = l_lastTry l
      then Crashed y (ApplicationError ''Stopped execution because it seems to be in an endless loop'')
      else if outsideFilter y (n_name (e_node item)) then Running \<lparr>l_engine = y, l_lastTry = l_lastTry l, l_error = None\<rparr>
      else onCrash y (ensureInputData (pairInputs item) y) (\<lambda>(hasInputData, z).
        if \<not> hasInputData then Running \<lparr>l_engine = z, l_lastTry = thisTry, l_error = None\<rparr>
        else runItem env (l_lastTry l) (runIndexOf y (pairInputs item)) (x_executionIndex x) (pairInputs item) z))"
  have "result_ok go"
  proof -
    have "result_ok (onCrash y (ensureInputData (pairInputs item) y) (\<lambda>(hasInputData, z).
        if \<not> hasInputData then Running \<lparr>l_engine = z, l_lastTry = thisTry, l_error = None\<rparr>
        else runItem env (l_lastTry l) (runIndexOf y (pairInputs item)) (x_executionIndex x) (pairInputs item) z))"
    proof (rule onCrash_ok [OF y(1)], goal_cases)
      case (1 v)
      obtain h z where v: "v = (h, z)" by (cases v)
      have "engine_ok z \<and> x_workflow z = x_workflow y" by (rule ensureInputData_ok [OF 1 [unfolded v] y])
      then show ?case using runItem_ok [of z "pairInputs item"] y(2) by (simp add: v)
    qed
    then show ?thesis using y(1) by (simp add: go_def)
  qed
  moreover have "step env l = (if x_status x = StCanceled then Finished (l\<lparr>l_engine := x\<rparr>) else go)"
    unfolding step_def Let_def x_def [symmetric] go_def thisTry_def y_def Cons list.case pairInputs_node ..
  ultimately show ?thesis using x(1) by simp
qed

subsection \<open>All states\<close>

lemma loop_step_ok: "loop_step l l' \<Longrightarrow> engine_ok (l_engine l) \<Longrightarrow> engine_ok (l_engine l')"
proof (elim loop_stepE)
  fix env
  assume "engine_ok (l_engine l)" "step env l = Running l'"
  then show ?thesis using step_ok [of l env] by simp
next
  assume "engine_ok (l_engine l)" "l' = l\<lparr>l_engine := cancel (l_engine l)\<rparr>"
  then show ?thesis by (simp add: cancel_def)
qed

interpretation engine: transition_system loop_step "\<lambda>l. engine_ok (l_engine l)"
  by unfold_locales (rule loop_step_ok)

lemma runStart_ok:
  assumes "runStart nt w startNode dest pin trig x0 = Inr x" and "named_nodes w"
    and "\<And>n. startNode = Some n \<Longrightarrow> in_workflow w n"
  shows "engine_ok x"
proof -
  obtain node where start: "(case startNode of Some n \<Rightarrow> Inr (Some n) | None \<Rightarrow> getStartNode nt w (map_option d_nodeName dest))
      = Inr (Some node)"
    and x: "x_workflow x = w" "map e_node (x_stack x) = [node]" "x_waiting x = []" "x_waitingSource x = []"
    using assms(1) by (auto simp: runStart_def rbind_Inr_iff Let_def createRunExecutionData_def split: option.splits)
  have "in_workflow w node"
  proof (cases startNode)
    case None
    then obtain n where "getNode w n = Some node" using start getStartNode_enabled by fastforce
    then show ?thesis using assms(2) by (auto simp: named_nodes_def in_workflow_def getNode_def)
  next
    case (Some n)
    then show ?thesis using start assms(3) by simp
  qed
  moreover have "e_node ` set (x_stack x) = {node}" using x(2) by (metis image_set list.set)
  ultimately have "\<forall>item \<in> set (x_stack x). in_workflow w (e_node item)"
    by (metis image_eqI singletonD)
  then show ?thesis
    using assms(2) x by (simp add: engine_ok_def tables_wf_def agree_def entry_def tableRuns_def jhas_def)
qed

lemma beginLoop_ok:
  assumes "beginLoop nt issues x = Inr l" and "engine_ok x"
  shows "engine_ok (l_engine l)"
proof -
  let ?x = "setupExecution x"
  have x: "engine_ok ?x" using assms(2) by (simp add: setupExecution_def)
  have h: "handleWaitingState ?x = Inr (l_engine l)"
    using assms(1) by (auto simp: beginLoop_def Let_def rbind_Inr_iff)
  show ?thesis
  proof (cases "x_waitTill ?x = None")
    case True
    then show ?thesis using h x by (simp add: handleWaitingState_def)
  next
    case False
    then obtain oid rd where "changeNode oid (\<lambda>n. n\<lparr>n_disabled := Some True\<rparr>)
        (?x\<lparr>x_waitTill := None, x_runData := rd\<rparr>) = l_engine l"
      using h by (auto simp: handleWaitingState_def split: list.splits option.splits)
    moreover have "engine_ok (?x\<lparr>x_waitTill := None, x_runData := rd\<rparr>)" using x by simp
    ultimately show ?thesis using changeNode_ok [of "?x\<lparr>x_waitTill := None, x_runData := rd\<rparr>" "\<lambda>n. n\<lparr>n_disabled := Some True\<rparr>" oid] by simp
  qed
qed

text \<open>
  C1: in every state a run of a workflow reaches, whatever its nodes do, the items of the stack refer to
  nodes of the workflow, and the waiting tables are in order: both have the same entries, and an entry is
  for a node with several inputs, has a place for each of them and misses the data of one at least.
\<close>

theorem engine_invariant:
  assumes "named_nodes w" and "\<And>n. startNode = Some n \<Longrightarrow> in_workflow w n"
    and "runStart nodeTypes w startNode destinationNode pinData triggerData x0 = Inr x"
    and "beginLoop nodeTypes parameterIssues x = Inr l0" and "loop_step\<^sup>*\<^sup>* l0 l"
  shows "(\<forall>item \<in> set (x_stack (l_engine l)). in_workflow (x_workflow (l_engine l)) (e_node item)) \<and> tables_wf (l_engine l)"
  using engine.inv_reachable [OF assms(5) beginLoop_ok [OF assms(4) runStart_ok [OF assms(3,1,2)]]]
  by (simp add: engine_ok_def)

definition echo_env :: Env where
  "echo_env = test_env (\<lambda>k c. plain_result (Returned (Some [Val [item_of []]])))"

text \<open>The error of a node that continues on error stays set if it was the last node: the run ends as failed.\<close>

lemma continued_failure_ends_in_error:
  "case step (test_env (\<lambda>k c. plain_result (Threw \<lparr>er_name = None, er_message = ''x''\<rparr>)))
       \<lparr>l_engine = (newExecution single_workflow)\<lparr>x_stack :=
          [stack_item ((mk_node 0 ''N'')\<lparr>n_onError := Some ContinueRegularOutput\<rparr>)]\<rparr>, l_lastTry = [], l_error = None\<rparr> of
     Running l \<Rightarrow> x_stack (l_engine l) = [] \<and> r_status (afterLoop l) = StError
   | _ \<Rightarrow> False"
  by code_simp

definition chain_start :: Engine where
  "chain_start = (case runStart no_types chain_workflow (Some (mk_node 0 ''A'')) None None None (newExecution chain_workflow) of
     Inr x \<Rightarrow> x | Inl e \<Rightarrow> newExecution chain_workflow)"

definition chain_loop :: Loop where
  "chain_loop = (case beginLoop no_types (\<lambda>_ _ _. None) chain_start of
     Inr l \<Rightarrow> l | Inl e \<Rightarrow> \<lparr>l_engine = chain_start, l_lastTry = [], l_error = None\<rparr>)"

definition chain_next :: Loop where
  "chain_next = (case step echo_env chain_loop of Running l \<Rightarrow> l | _ \<Rightarrow> chain_loop)"

theorem engine_invariant_witness:
  "map (n_name \<circ> e_node) (x_stack (l_engine chain_next)) = [''B''] \<and> tables_wf (l_engine chain_next)
    \<and> list_all (\<lambda>item. in_workflow (x_workflow (l_engine chain_next)) (e_node item)) (x_stack (l_engine chain_next))"
proof -
  have "named_nodes chain_workflow" by (simp add: named_nodes_def chain_workflow_def mk_node_def)
  moreover have "\<And>n. Some (mk_node 0 ''A'') = Some n \<Longrightarrow> in_workflow chain_workflow n"
    by (auto simp: in_workflow_def chain_workflow_def mk_node_def)
  moreover have "runStart no_types chain_workflow (Some (mk_node 0 ''A'')) None None None (newExecution chain_workflow) = Inr chain_start"
    by code_simp
  moreover have "beginLoop no_types (\<lambda>_ _ _. None) chain_start = Inr chain_loop" by code_simp
  moreover have "loop_step\<^sup>*\<^sup>* chain_loop chain_next"
  proof -
    have "step echo_env chain_loop = Running chain_next" by code_simp
    then show ?thesis by (intro r_into_rtranclp iterate)
  qed
  ultimately have "(\<forall>item \<in> set (x_stack (l_engine chain_next)). in_workflow (x_workflow (l_engine chain_next)) (e_node item))
      \<and> tables_wf (l_engine chain_next)"
    by (rule engine_invariant)
  moreover have "map (n_name \<circ> e_node) (x_stack (l_engine chain_next)) = [''B'']" by code_simp
  ultimately show ?thesis by (simp add: list_all_iff)
qed

end
