(* ===== verification/EngineJoin.thy ===== *)
theory EngineJoin
  imports EngineInvariant
begin

section \<open>Joining the inputs of a node\<close>

text \<open>
  The specification of a node with several inputs, in the new execution order: the entries of its waiting
  table are partial tuples of inputs; data goes to the first tuple that misses its input, or to a new one;
  a tuple without missing input leaves the table for the top of the stack.
\<close>

definition mainOf :: "Engine \<Rightarrow> string \<Rightarrow> nat \<Rightarrow> Items slot list option" where
  "mainOf x n k = Option.bind (entry (x_waiting x) n k) (\<lambda>d. jget d Main)"

text \<open>The tuple that takes data for input \<open>i\<close>: run \<open>k\<close> with content \<open>xs\<close>.\<close>

definition takes :: "Engine \<Rightarrow> string \<Rightarrow> nat \<Rightarrow> nat \<Rightarrow> Items slot list \<Rightarrow> bool" where
  "takes x n i k xs \<longleftrightarrow>
     (mainOf x n k = Some xs \<and> \<not> is_Val (slot_at xs i) \<and> (\<forall>k' < k. \<forall>ys. mainOf x n k' = Some ys \<longrightarrow> is_Val (slot_at ys i)))
   \<or> ((\<forall>k' ys. mainOf x n k' = Some ys \<longrightarrow> is_Val (slot_at ys i)) \<and> k = length (tableRuns (x_waiting x) n)
      \<and> mainOf x n k = None \<and> xs = replicate (length (mainInputs (x_workflow x) n)) Null)"

lemma freeRun_scan:
  "freeRun runs i ks = Inr f \<Longrightarrow> sorted ks \<Longrightarrow> distinct ks \<Longrightarrow> case f of
     None \<Rightarrow> \<forall>k \<in> set ks. \<forall>ys. Option.bind (jget runs k) (\<lambda>d. jget d Main) = Some ys \<longrightarrow> is_Val (slot_at ys i)
   | Some k \<Rightarrow> (\<exists>ys. Option.bind (jget runs k) (\<lambda>d. jget d Main) = Some ys \<and> \<not> is_Val (slot_at ys i)) \<and> k \<in> set ks
      \<and> (\<forall>k' \<in> set ks. k' < k \<longrightarrow> (\<forall>ys. Option.bind (jget runs k') (\<lambda>d. jget d Main) = Some ys \<longrightarrow> is_Val (slot_at ys i)))"
proof (induction ks)
  case (Cons k ks)
  obtain xs where xs: "Option.bind (jget runs k) (\<lambda>d. jget d Main) = Some xs"
    using Cons.prems(1) by (auto split: option.splits)
  show ?case
  proof (cases "is_Val (slot_at xs i)")
    case True
    then have "freeRun runs i ks = Inr f" using Cons.prems(1) xs by simp
    from Cons.IH [OF this] show ?thesis using Cons.prems xs True by (cases f) auto
  next
    case False
    then have "f = Some k" using Cons.prems(1) xs by simp
    then show ?thesis using Cons.prems(2) xs False by auto
  qed
qed auto

lemma mainOf_runs: "mainOf x n k = Option.bind (jget (tableRuns (x_waiting x) n) k) (\<lambda>d. jget d Main)"
  by (simp add: mainOf_def entry_def)

lemma takes_unique:
  assumes "takes x n i k xs" and "takes x n i k' xs'"
  shows "k' = k \<and> xs' = xs"
proof -
  consider "k < k'" | "k' < k" | "k = k'" by linarith
  then show ?thesis using assms by cases (auto simp: takes_def)
qed

text \<open>A run is chosen that the specification allows, provided the number of a new run is not in use.\<close>

lemma chooseRun_takes:
  assumes "chooseRun n i (createWaitingNode n x) = Inr (k, x')" and "tables_wf x"
    and "jwf (tableRuns (x_waiting x) n)" and "takes x n i k0 xs"
  shows "k = k0 \<and> mainOf x' n k = Some xs \<and> (\<forall>n' r. n' \<noteq> n \<or> r \<noteq> k \<longrightarrow> entry (x_waiting x') n' r = entry (x_waiting x) n' r)
    \<and> x_stack x' = x_stack x \<and> x_workflow x' = x_workflow x"
proof -
  let ?x = "createWaitingNode n x" and ?runs = "tableRuns (x_waiting x) n"
  have agr: "agree x" using assms(2) by (simp add: tables_wf_def)
  have runs: "tableRuns (x_waiting ?x) n = ?runs"
    by (auto simp: createWaitingNode_def tableRuns_def update_conv' jhas_def split: option.split)
  obtain f where f: "freeRun ?runs i (runKeys ?runs) = Inr f"
    and c: "(case f of Some k \<Rightarrow> Inr (k, ?x) | None \<Rightarrow> Inr (length ?runs,
      prepareWaitingToExecution n (length (mainInputs (x_workflow x) n)) (length ?runs) ?x)) = (Inr (k, x') :: (nat \<times> Engine) res)"
    using assms(1) unfolding chooseRun_def Let_def rbind_Inr_iff runs create_fields by blast
  have keys: "sorted (runKeys ?runs)" "distinct (runKeys ?runs)" "set (runKeys ?runs) = fst ` set ?runs"
    using assms(3) by (simp_all add: runKeys_def)
  have known: "mainOf x n r = Some ys \<Longrightarrow> r \<in> set (runKeys ?runs)" for r ys
    unfolding mainOf_runs keys(3) by (auto simp: bind_eq_Some_conv dest!: jget_in_set intro: rev_image_eqI)
  note scan = freeRun_scan [OF f keys(1,2), folded mainOf_runs]
  show ?thesis
  proof (cases f)
    case (Some k')
    then have k: "k' = k" "x' = ?x" using c by simp_all
    obtain ys where ys: "mainOf x n k = Some ys" "\<not> is_Val (slot_at ys i)" using scan by (auto simp: Some k(1))
    moreover have "\<forall>k' < k. \<forall>ys. mainOf x n k' = Some ys \<longrightarrow> is_Val (slot_at ys i)"
      using scan known by (auto simp: Some k(1))
    ultimately have "takes x n i k ys" by (simp add: takes_def)
    then have "k = k0 \<and> xs = ys" using takes_unique [OF assms(4)] by simp
    then show ?thesis using ys(1) k(2) agr by (simp add: mainOf_def)
  next
    case None
    then have k: "k = length ?runs" "x' = prepareWaitingToExecution n (length (mainInputs (x_workflow x) n)) k ?x"
      using c by auto
    have all: "\<forall>r ys. mainOf x n r = Some ys \<longrightarrow> is_Val (slot_at ys i)" using scan known by (auto simp: None)
    then have "k0 = k \<and> xs = replicate (length (mainInputs (x_workflow x) n)) Null"
      using assms(4) k(1) by (auto simp: takes_def)
    then show ?thesis
      using agr by (auto simp: k(2) prepareWaitingToExecution_def mainOf_def table_simps)
  qed
qed

lemma scanInput_v1:
  "isV1 (x_workflow x) \<Longrightarrow> scanInput p o' r v outs c x = Inr x' \<Longrightarrow> x' = x"
  by (auto simp: scanInput_def rbind_Inr_iff legacy_iff split: if_splits)

lemma scanInputs_v1:
  assumes "isV1 (x_workflow x)" and "scanInputs n p o' r v x = Inr x'"
  shows "x' = x"
proof -
  obtain outs where run: "rfold (scanInput p o' r v outs) (concat (map or_empty (mainInputs (x_workflow x) n))) x = Inr x'"
    using assms(2) by (auto simp: scanInputs_def rbind_Inr_iff)
  show ?thesis by (rule rfold_invariant [OF run]) (use assms(1) scanInput_v1 in auto)
qed

lemma entry_removeWaiting:
  "entry (x_waiting (removeWaiting n k x)) n' r = (if n' = n \<and> r = k then None else entry (x_waiting x) n' r)"
proof (cases "tableRuns (delRun n k (x_waiting x)) n = []")
  case True
  have "entry (x_waiting x) n r' = None" if "r' \<noteq> k" for r'
    using tableRuns_empty [OF True, of r'] that by (simp add: table_simps)
  then show ?thesis using True by (auto simp: removeWaiting_def Let_def table_simps)
qed (simp add: removeWaiting_def Let_def table_simps)

lemma mainOf_write:
  assumes "writeWaiting n k i v s x = Inr x'" and "mainOf x n k = Some xs"
  shows "mainOf x' n k = Some (arr_put Hole i v xs)
    \<and> (\<forall>n' r. n' \<noteq> n \<or> r \<noteq> k \<longrightarrow> entry (x_waiting x') n' r = entry (x_waiting x) n' r)"
  using assms
  by (auto simp: writeWaiting_def rbind_Inr_iff waitingMain_entry mainOf_def bind_eq_Some_conv setWaitingMain_def
      table_simps update_conv')

lemma mainOf_keep:
  assumes "keepWaiting n k i v x = Inr x'" and "mainOf x n k = Some xs"
  shows "mainOf x' n k = Some (arr_put Hole i v xs)
    \<and> (\<forall>n' r. n' \<noteq> n \<or> r \<noteq> k \<longrightarrow> entry (x_waiting x') n' r = entry (x_waiting x) n' r)"
  using assms
  by (auto simp: keepWaiting_def rbind_Inr_iff waitingMain_entry mainOf_def bind_eq_Some_conv table_simps)

lemma arr_put_twice: "arr_put h i v (arr_put h i v xs) = arr_put h i v xs"
  by (simp add: arr_put_def list_update_append)

text \<open>
  C2: in the new execution order, data for an input of a node with several inputs goes to the tuple named by
  \<open>takes\<close>: the first waiting run in which this input is free, or a new run, provided the number the new run gets
  (the count of waiting runs) is not in use; without that the data of a waiting run is lost, as the lemma
  \<open>addNodeToBeExecuted_loses_data\<close> shows.  A completed tuple is moved to the top of the stack, an incomplete one
  stays, and all other entries of the waiting table are as before.
\<close>

theorem addNodeToBeExecuted_join:
  assumes "isV1 (x_workflow x)" and "engine_ok x" and "1 < length (mainInputs (x_workflow x) n)"
    and "jwf (tableRuns (x_waiting x) n)" and "takes x n i k xs"
    and "addNodeToBeExecuted \<lparr>c_node = n, c_type = Main, c_index = i\<rparr> outputIndex parentName (Some output) runIndex
      newRunIndex metadata x = Inr x'"
  shows "(\<forall>n' r. n' \<noteq> n \<or> r \<noteq> k \<longrightarrow> entry (x_waiting x') n' r = entry (x_waiting x) n' r)
    \<and> (let ys = arr_put Hole i (slot_at output outputIndex) xs
       in if Null \<in> set ys then mainOf x' n k = Some ys \<and> x_stack x' = x_stack x
          else entry (x_waiting x') n k = None \<and> (\<exists>item. x_stack x' = item # x_stack x
            \<and> jget (e_data item) Main = Some ys \<and> n_name (e_node item) = n))"
proof -
  let ?v = "slot_at output outputIndex" and ?s = "Some (sourceOf parentName outputIndex runIndex)"
  define ys where "ys = arr_put Hole i ?v xs"
  have x: "tables_wf x" using assms(2) by (simp add: engine_ok_def)
  have multi: "addToMulti \<lparr>c_node = n, c_type = Main, c_index = i\<rparr> outputIndex parentName (Some output) runIndex x = Inr x'"
    using assms(3,6) by (simp add: addNodeToBeExecuted_def)
  then obtain k1 x1 where c1: "chooseRun n i (createWaitingNode n x) = Inr (k1, x1)"
    and "(\<exists>x2 zs. writeWaiting n k1 i ?v ?s x1 = Inr x2 \<and> waitingMain (x_waiting x2) n k1 = Inr zs
      \<and> (if allDataFound zs then startWaiting n k1 x2
         else rbind (if jhas (x_waiting x) n then Inr x2 else scanInputs n parentName outputIndex runIndex ?v x2)
           (keepWaiting n k1 i ?v)) = Inr x')"
    unfolding addToMulti_def Let_def rbind_Inr_iff IConnection.select_convs option.case option.distinct if_False
    by (auto simp: rbind_Inr_iff)
  then obtain x2 zs where c2: "writeWaiting n k1 i ?v ?s x1 = Inr x2" and zs: "waitingMain (x_waiting x2) n k1 = Inr zs"
    and c3: "(if allDataFound zs then startWaiting n k1 x2
       else rbind (if jhas (x_waiting x) n then Inr x2 else scanInputs n parentName outputIndex runIndex ?v x2)
         (keepWaiting n k1 i ?v)) = Inr x'" by blast
  have t: "k1 = k" "mainOf x1 n k = Some xs" "\<And>n' r. n' \<noteq> n \<or> r \<noteq> k \<Longrightarrow> entry (x_waiting x1) n' r = entry (x_waiting x) n' r"
      "x_stack x1 = x_stack x" "x_workflow x1 = x_workflow x"
    using chooseRun_takes [OF c1 x assms(4,5)] by auto
  have w: "mainOf x2 n k = Some ys" "\<And>n' r. n' \<noteq> n \<or> r \<noteq> k \<Longrightarrow> entry (x_waiting x2) n' r = entry (x_waiting x) n' r"
    using mainOf_write [OF c2 [unfolded t(1)] t(2)] t(3) by (auto simp: ys_def)
  have f: "x_stack x2 = x_stack x" "x_workflow x2 = x_workflow x" using writeWaiting_fields [OF c2] t by simp_all
  have zs': "zs = ys" using zs w(1) by (auto simp: waitingMain_entry mainOf_def t(1))
  show ?thesis
  proof (cases "Null \<in> set ys")
    case True
    then obtain x3 where c4: "(if jhas (x_waiting x) n then Inr x2 else scanInputs n parentName outputIndex runIndex ?v x2) = Inr x3"
      and c5: "keepWaiting n k i ?v x3 = Inr x'"
      using c3 by (auto simp: rbind_Inr_iff allDataFound_def zs' t(1))
    have "x3 = x2" using c4 scanInputs_v1 [of x2] assms(1) f(2) by (auto split: if_splits)
    with mainOf_keep [OF c5] w(1) have "mainOf x' n k = Some ys"
        "\<And>n' r. n' \<noteq> n \<or> r \<noteq> k \<Longrightarrow> entry (x_waiting x') n' r = entry (x_waiting x) n' r"
      using w(2) arr_put_twice by (auto simp: ys_def)
    moreover have "x_stack x' = x_stack x" using keepWaiting_fields [OF c5] \<open>x3 = x2\<close> f(1) by simp
    ultimately show ?thesis using True by (simp add: ys_def [symmetric] Let_def)
  next
    case False
    then have "startWaiting n k x2 = Inr x'" using c3 by (simp add: allDataFound_def zs' t(1))
    then obtain d node where d: "jget (tableRuns (x_waiting x2) n) k = Some d" "nodeOf (x_workflow x2) n = Inr node"
      and x': "x' = removeWaiting n k (enqueue \<lparr>e_node = node, e_data = d,
        e_source = jget (tableRuns (x_waitingSource x2) n) k, e_runIndex = None, e_metadata = None\<rparr> x2)"
      by (auto simp: startWaiting_def rbind_Inr_iff split: option.splits)
    have "jget d Main = Some ys" using w(1) d(1) by (simp add: mainOf_def entry_def)
    moreover have "n_name node = n"
      using d(2) assms(2) f(2) by (auto simp: nodeOf_def engine_ok_def named_nodes_def split: option.splits)
    ultimately show ?thesis
      using False w(2) assms(1) f unfolding x'
      by (auto simp: entry_removeWaiting ys_def [symmetric] Let_def enqueue_def)
  qed
qed

subsection \<open>A join of two branches\<close>

definition main_to :: "string \<Rightarrow> nat \<Rightarrow> IConnection" where
  "main_to n i = \<lparr>c_node = n, c_type = Main, c_index = i\<rparr>"

text \<open>A workflow in which \<open>M\<close> has one input from each of the given nodes.\<close>

definition join_workflow :: "string list \<Rightarrow> Workflow" where
  "join_workflow parents = chain_workflow\<lparr>w_settings := [(''executionOrder'', JStr ''v1'')],
     w_nodes := (''M'', mk_node 0 ''M'') # map (\<lambda>(i, p). (p, mk_node (Suc i) p)) (enumerate 0 parents),
     w_connectionsBySourceNode := map (\<lambda>(i, p). (p, [(Main, [Some [main_to ''M'' i]])])) (enumerate 0 parents),
     w_connectionsByDestinationNode := [(''M'', [(Main, map (\<lambda>p. Some [main_to p 0]) parents)])]\<rparr>"

definition item_named :: "string \<Rightarrow> INodeExecutionData" where
  "item_named v = item_of [(''v'', JStr v)]"

text \<open>\<open>parent\<close> delivers one item to input \<open>i\<close> of \<open>M\<close>.\<close>

definition deliver :: "string \<times> nat \<times> string \<Rightarrow> Engine \<Rightarrow> Engine res" where
  "deliver = (\<lambda>(parent, i, v). addNodeToBeExecuted (main_to ''M'' i) 0 parent (Some [Val [item_named v]]) 0 None None)"

theorem addNodeToBeExecuted_join_witness:
  "let x = newExecution (join_workflow [''A'', ''B'']) in case deliver (''A'', 0, ''a'') x of
     Inl e \<Rightarrow> False
   | Inr x' \<Rightarrow> mainOf x' ''M'' 0 = Some [Val [item_named ''a''], Null] \<and> x_stack x' = x_stack x"
proof -
  define x where "x = newExecution (join_workflow [''A'', ''B''])"
  obtain x' where x': "deliver (''A'', 0, ''a'') x = Inr x'"
  proof (cases "deliver (''A'', 0, ''a'') x")
    case (Inl e)
    moreover have "case deliver (''A'', 0, ''a'') (newExecution (join_workflow [''A'', ''B''])) of Inl e \<Rightarrow> False | Inr x' \<Rightarrow> True"
      by code_simp
    ultimately show ?thesis by (simp add: x_def)
  qed
  have "isV1 (x_workflow x)" "1 < length (mainInputs (x_workflow x) ''M'')" "jwf (tableRuns (x_waiting x) ''M'')"
    unfolding x_def by code_simp+
  moreover have "engine_ok x"
    by (auto simp: x_def engine_ok_def newExecution_def tables_wf_def agree_def entry_def tableRuns_def jhas_def
        named_nodes_def join_workflow_def enumerate_eq_zip numeral_2_eq_2 split: if_splits)
  moreover have "takes x ''M'' 0 0 [Null, Null]"
    by (simp add: takes_def mainOf_def entry_def tableRuns_def x_def newExecution_def mainInputs_def main_connections_def
        join_workflow_def numeral_2_eq_2)
  moreover have "addNodeToBeExecuted \<lparr>c_node = ''M'', c_type = Main, c_index = 0\<rparr> 0 ''A'' (Some [Val [item_named ''a'']]) 0 None None x = Inr x'"
    using x' by (simp add: deliver_def main_to_def)
  ultimately have "mainOf x' ''M'' 0 = Some [Val [item_named ''a''], Null] \<and> x_stack x' = x_stack x"
    using addNodeToBeExecuted_join [of x "''M''" 0 0 "[Null, Null]" 0 "''A''" "[Val [item_named ''a'']]" 0 None None x']
    by (simp add: arr_put_def slot_at_def Let_def)
  then show ?thesis using x' by (simp add: x_def Let_def)
qed

text \<open>The items anywhere in the stack or in the waiting table.\<close>

definition slots_of :: "ITaskDataInputs \<Rightarrow> Items slot list" where
  "slots_of d = concat (map snd d)"

definition held_items :: "Engine \<Rightarrow> Items" where
  "held_items x = concat (List.map_filter slot_option (concat (map (slots_of \<circ> e_data) (x_stack x))
     @ concat (map (\<lambda>(n, runs). concat (map (slots_of \<circ> snd) runs)) (x_waiting x))))"

text \<open>
  data of a waiting node can be lost.  \<open>A\<close> delivers \<open>a1\<close> and \<open>a2\<close>, which wait as runs 0 and 1, and
  \<open>B\<close> delivers \<open>b1\<close>, which completes run 0.  For the next data of \<open>A\<close> the number of a new run is the number
  of entries, which is 1 and in use: \<open>a2\<close> is overwritten.
\<close>

theorem addNodeToBeExecuted_loses_data:
  "case rfold deliver [(''A'', 0, ''a1''), (''A'', 0, ''a2''), (''B'', 1, ''b1''), (''A'', 0, ''a3'')]
       (newExecution (join_workflow [''A'', ''B''])) of
     Inl e \<Rightarrow> False
   | Inr x \<Rightarrow> held_items x = [item_named ''a1'', item_named ''b1'', item_named ''a3'']"
  by code_simp

subsection \<open>A partial execution that starts too early\<close>

definition join_graph :: "string list \<Rightarrow> DirectedGraph" where
  "join_graph parents = graph_of (map (\<lambda>(name, node). node) (w_nodes (join_workflow parents)))
     (map (\<lambda>(i, p). \<lparr>g_from = mk_node (Suc i) p, g_to = mk_node 0 ''M'', g_type = Main, g_outputIndex = 0, g_inputIndex = int i\<rparr>)
       (enumerate 0 parents))"

definition done_run :: "Items \<Rightarrow> ITaskData" where
  "done_run items = \<lparr>t_executionIndex = Some 0, t_source = [], t_executionStatus = Some StSuccess,
     t_data = Some [(Main, [Some items])], t_inputOverride = None, t_error = None, t_metadata = None, t_hints = []\<rparr>"

text \<open>
  the entry that a partial execution recreates has places only up to the last input with data.  With
  three inputs of which the first has data, the data of the second one starts the node, without the third.
\<close>

theorem recreated_entry_starts_early:
  "case recreateNodeExecutionStack (\<lambda>_ _. 0) (join_graph [''A'', ''B'', ''C'']) [mk_node 0 ''M'']
       [(''A'', [done_run [item_named ''a'']])] [] of
     Inl e \<Rightarrow> False
   | Inr (stack, waiting, sources) \<Rightarrow>
       (case deliver (''B'', 1, ''b'') ((newExecution (join_workflow [''A'', ''B'', ''C'']))\<lparr>x_waiting := waiting, x_waitingSource := sources\<rparr>) of
          Inl e \<Rightarrow> False
        | Inr x \<Rightarrow> stack = [] \<and> map (\<lambda>item. (n_name (e_node item), e_data item)) (x_stack x)
            = [(''M'', [(Main, [Val [item_named ''a''], Val [item_named ''b'']])])])"
  by code_simp

end
