(* ===== verification/EngineProgress.thy ===== *)
theory EngineProgress
  imports EngineReach EngineJoin
begin

section \<open>Progress of waiting nodes\<close>

text \<open>What \<open>releaseWaiting\<close> leaves behind: waiting nodes are started one at a time, until only blocked ones are left.\<close>

subsection \<open>When the stack runs empty\<close>

text \<open>
  Why a waiting node is not started: it does not exist, all its inputs are required, a parent waits too,
  or a required input of its first run has no data.
\<close>

definition blocked :: "Env \<Rightarrow> Engine \<Rightarrow> string \<Rightarrow> bool" where
  "blocked env x n \<longleftrightarrow> (case getNode (x_workflow x) n of
      None \<Rightarrow> True
    | Some node \<Rightarrow> (case en_nodeTypes env (n_type node) (n_typeVersion node) of
        None \<Rightarrow> False
      | Some nodeType \<Rightarrow>
          requiresAll (requiredInputsOf env (x_workflow x) node nodeType) nodeType
          \<or> (\<exists>p \<in> set (parentsOf (x_workflow x) n). jhas (x_waiting x) p)
          \<or> (\<exists>k main. firstRunIndex (tableRuns (x_waiting x) n) = Some k \<and> waitingMain (x_waiting x) n k = Inr main
              \<and> requiredMissing (requiredInputsOf env (x_workflow x) node nodeType) main)))"

lemma Skip_blocked:
  assumes "releaseOf env (own_keys (x_waiting x)) x n = Inr Skip"
  shows "blocked env x n"
proof (cases "getNode (x_workflow x) n")
  case (Some node)
  show ?thesis
  proof (cases "en_nodeTypes env (n_type node) (n_typeVersion node)")
    case None
    then show ?thesis using assms Some by (simp add: releaseOf_def)
  next
    case (Some nodeType)
    note node = \<open>getNode (x_workflow x) n = Some node\<close> Some
    let ?req = "requiredInputsOf env (x_workflow x) node nodeType"
    show ?thesis
    proof (cases "requiresAll ?req nodeType \<or> set (parentsOf (x_workflow x) n) \<inter> set (own_keys (x_waiting x)) \<noteq> {}")
      case True
      then show ?thesis using node by (auto simp: blocked_def jhas_iff)
    next
      case False
      then have "(case firstRunIndex (tableRuns (x_waiting x) n) of
               None \<Rightarrow> Inl TypeError
             | Some runIndex \<Rightarrow> rbind (waitingMain (x_waiting x) n runIndex) (\<lambda>main.
                 if requiredMissing ?req main then Inr Skip
                 else let taskDataMain = emptyForMissing main
                   in if anyItems taskDataMain
                      then Inr (Start \<lparr>e_node = node,
                        e_data = [(Main, taskDataMain @ replicate (nt_inputs nodeType - length taskDataMain) (Val []))],
                        e_source = jget (tableRuns (x_waitingSource x) n) runIndex,
                        e_runIndex = None, e_metadata = None\<rparr> runIndex)
                      else Inr (Drop runIndex))) = Inr Skip"
        using assms unfolding releaseOf_def node option.case Let_def by (simp only: de_Morgan_disj if_False not_not simp_thms)
      then obtain k main where "firstRunIndex (tableRuns (x_waiting x) n) = Some k" "waitingMain (x_waiting x) n k = Inr main"
          "requiredMissing ?req main"
        by (auto simp: rbind_Inr_iff Let_def split: option.splits if_splits)
      then show ?thesis using node by (auto simp: blocked_def)
    qed
  qed
qed (simp add: blocked_def)

text \<open>
  The start of a waiting node \<open>n\<close> with the data of its run \<open>k\<close>: the run has items, nothing that is required is
  missing, and no parent waits.  The node gets the data of the run and its sources, with every missing input
  given as empty, and the run leaves the table.
\<close>

definition started :: "Env \<Rightarrow> Engine \<Rightarrow> Engine \<Rightarrow> string \<Rightarrow> nat \<Rightarrow> bool" where
  "started env x x' n k \<longleftrightarrow> (\<exists>node nodeType main.
     getNode (x_workflow x) n = Some node \<and> en_nodeTypes env (n_type node) (n_typeVersion node) = Some nodeType
     \<and> waitingMain (x_waiting x) n k = Inr main \<and> anyItems main
     \<and> \<not> requiresAll (requiredInputsOf env (x_workflow x) node nodeType) nodeType
     \<and> \<not> requiredMissing (requiredInputsOf env (x_workflow x) node nodeType) main
     \<and> (\<forall>p \<in> set (parentsOf (x_workflow x) n). \<not> jhas (x_waiting x') p)
     \<and> x_stack x' = [\<lparr>e_node = node,
          e_data = [(Main, emptyForMissing main @ replicate (nt_inputs nodeType - length main) (Val []))],
          e_source = entry (x_waitingSource x) n k, e_runIndex = None, e_metadata = None\<rparr>]
     \<and> entry (x_waiting x') n k = None)"

text \<open>Waiting runs stay as they are or, if they have no items, are removed.\<close>

definition kept_run :: "Engine \<Rightarrow> Engine \<Rightarrow> string \<Rightarrow> nat \<Rightarrow> bool" where
  "kept_run x x' n k \<longleftrightarrow> entry (x_waiting x') n k = entry (x_waiting x) n k
     \<or> (entry (x_waiting x') n k = None \<and> (\<exists>main. waitingMain (x_waiting x) n k = Inr main \<and> \<not> anyItems main))"

lemma anyItems_emptyForMissing: "anyItems (emptyForMissing main) = anyItems main"
  by (auto simp: anyItems_def emptyForMissing_def list_ex_iff hasItems_def image_iff split: slot.splits)

lemma length_emptyForMissing: "length (emptyForMissing main) = length main"
  by (simp add: emptyForMissing_def)

lemma Start_contents:
  assumes "releaseOf env ws x n = Inr (Start item k)"
  obtains node nodeType main where "getNode (x_workflow x) n = Some node"
    "en_nodeTypes env (n_type node) (n_typeVersion node) = Some nodeType"
    "waitingMain (x_waiting x) n k = Inr main" "anyItems main"
    "\<not> requiresAll (requiredInputsOf env (x_workflow x) node nodeType) nodeType"
    "\<not> requiredMissing (requiredInputsOf env (x_workflow x) node nodeType) main"
    "set (parentsOf (x_workflow x) n) \<inter> set ws = {}"
    "item = \<lparr>e_node = node, e_data = [(Main, emptyForMissing main @ replicate (nt_inputs nodeType - length main) (Val []))],
       e_source = entry (x_waitingSource x) n k, e_runIndex = None, e_metadata = None\<rparr>"
  using assms
  by (auto simp: releaseOf_def Let_def rbind_Inr_iff anyItems_emptyForMissing entry_def length_emptyForMissing
      split: option.splits if_splits)

lemma Drop_contents:
  assumes "releaseOf env ws x n = Inr (Drop k)"
  shows "\<exists>main. waitingMain (x_waiting x) n k = Inr main \<and> \<not> anyItems main"
  using assms
  by (auto simp: releaseOf_def Let_def rbind_Inr_iff anyItems_emptyForMissing split: option.splits if_splits)

lemma waitingMain_same: "entry (x_waiting y) n k = entry (x_waiting x) n k \<Longrightarrow> waitingMain (x_waiting y) n k = waitingMain (x_waiting x) n k"
  by (simp add: waitingMain_def entry_def)

lemma waitingMain_Inr: "waitingMain (x_waiting x) n k = Inr main \<Longrightarrow> entry (x_waiting x) n k \<noteq> None"
  by (auto simp: waitingMain_def entry_def split: option.splits)

text \<open>The states that the loop goes through: runs without items are gone, and the sources of the others are as before.\<close>

definition trimmed :: "Engine \<Rightarrow> Engine \<Rightarrow> bool" where
  "trimmed x y \<longleftrightarrow> x_workflow y = x_workflow x \<and> (\<forall>n k. kept_run x y n k)
     \<and> (\<forall>n k. entry (x_waiting y) n k \<noteq> None \<longrightarrow> entry (x_waitingSource y) n k = entry (x_waitingSource x) n k)"

lemma trimmed_entry:
  assumes "trimmed x y" and "entry (x_waiting y) n k \<noteq> None"
  shows "entry (x_waiting y) n k = entry (x_waiting x) n k"
proof -
  have "kept_run x y n k" using assms(1) by (simp add: trimmed_def)
  then show ?thesis using assms(2) by (auto simp: kept_run_def)
qed

lemma source_removeWaiting:
  assumes "entry (x_waiting (removeWaiting n k x)) m j \<noteq> None"
  shows "entry (x_waitingSource (removeWaiting n k x)) m j = entry (x_waitingSource x) m j"
proof (cases "tableRuns (delRun n k (x_waiting x)) n = []")
  case True
  then have "m \<noteq> n"
    using assms by (auto simp: removeWaiting_def Let_def entry_def tableRuns_def js_map_simps split: option.splits)
  then show ?thesis using True by (simp add: removeWaiting_def Let_def table_simps)
next
  case False
  then show ?thesis using assms by (auto simp: removeWaiting_def Let_def table_simps split: if_splits)
qed

lemma trimmed_drop:
  assumes t: "trimmed x y" and drop: "releaseOf env ws y n = Inr (Drop k)"
  shows "trimmed x (removeWaiting n k y)"
proof -
  obtain main where main: "waitingMain (x_waiting y) n k = Inr main" "\<not> anyItems main" using Drop_contents [OF drop] by blast
  have "entry (x_waiting y) n k = entry (x_waiting x) n k"
    by (rule trimmed_entry [OF t waitingMain_Inr [OF main(1)]])
  then have "waitingMain (x_waiting x) n k = Inr main" using waitingMain_same main(1) by metis
  then have "kept_run x (removeWaiting n k y) m j" for m j
    using t main(2) by (auto simp: trimmed_def kept_run_def entry_removeWaiting)
  moreover have "entry (x_waitingSource (removeWaiting n k y)) m j = entry (x_waitingSource x) m j"
    if "entry (x_waiting (removeWaiting n k y)) m j \<noteq> None" for m j
  proof -
    have "entry (x_waiting y) m j \<noteq> None" using that by (auto simp: entry_removeWaiting split: if_splits)
    then show ?thesis using source_removeWaiting [OF that] t by (simp add: trimmed_def)
  qed
  ultimately show ?thesis using t by (simp add: trimmed_def)
qed

lemma waiting_keys_removeWaiting: "jhas (x_waiting (removeWaiting n k y)) p \<Longrightarrow> p \<noteq> n \<Longrightarrow> jhas (x_waiting y) p"
  by (auto simp: removeWaiting_def Let_def delRun_def jhas_def js_map_simps split: if_splits)

lemma started_after:
  assumes t: "trimmed x y" and ws: "set ws = fst ` set (x_waiting y)" and n: "n \<in> set ws"
    and start: "releaseOf env ws y n = Inr (Start item k)" and x': "x' = removeWaiting n k (y\<lparr>x_stack := [item]\<rparr>)"
  shows "started env x x' n k \<and> (\<forall>m j. (m, j) \<noteq> (n, k) \<longrightarrow> kept_run x x' m j)"
proof -
  obtain node nodeType main where s: "getNode (x_workflow y) n = Some node"
    "en_nodeTypes env (n_type node) (n_typeVersion node) = Some nodeType"
    "waitingMain (x_waiting y) n k = Inr main" "anyItems main"
    "\<not> requiresAll (requiredInputsOf env (x_workflow y) node nodeType) nodeType"
    "\<not> requiredMissing (requiredInputsOf env (x_workflow y) node nodeType) main"
    "set (parentsOf (x_workflow y) n) \<inter> set ws = {}"
    "item = \<lparr>e_node = node, e_data = [(Main, emptyForMissing main @ replicate (nt_inputs nodeType - length main) (Val []))],
       e_source = entry (x_waitingSource y) n k, e_runIndex = None, e_metadata = None\<rparr>"
    using start by (rule Start_contents)
  have w: "x_workflow y = x_workflow x" using t by (simp add: trimmed_def)
  have e: "entry (x_waiting y) n k \<noteq> None" by (rule waitingMain_Inr [OF s(3)])
  then have "entry (x_waiting y) n k = entry (x_waiting x) n k" by (rule trimmed_entry [OF t])
  then have main: "waitingMain (x_waiting x) n k = Inr main" using waitingMain_same s(3) by metis
  have src: "entry (x_waitingSource y) n k = entry (x_waitingSource x) n k" using t e by (simp add: trimmed_def)
  have "\<not> jhas (x_waiting x') p" if p: "p \<in> set (parentsOf (x_workflow x) n)" for p
  proof
    assume "jhas (x_waiting x') p"
    moreover have "p \<noteq> n" using p s(7) n w by auto
    ultimately have "jhas (x_waiting (y\<lparr>x_stack := [item]\<rparr>)) p" unfolding x' by (rule waiting_keys_removeWaiting)
    then have "p \<in> set ws" by (simp add: ws jhas_iff)
    then show False using p s(7) w by auto
  qed
  moreover have "entry (x_waiting x') m j = (if m = n \<and> j = k then None else entry (x_waiting y) m j)" for m j
    by (simp add: x' entry_removeWaiting)
  moreover have "x_stack x' = [item]" by (simp add: x')
  ultimately show ?thesis
    using s(1,2,4,5,6,8) main src w t unfolding started_def trimmed_def kept_run_def by auto
qed

lemma releaseLoop_progress:
  assumes "releaseLoop env (own_keys (x_waiting y)) names y = Inr x'" and "x_stack y = []" and "trimmed x y"
    and "set names \<subseteq> set (own_keys (x_waiting y))"
    and "\<forall>n \<in> fst ` set (x_waiting y). n \<in> set names \<or> releaseOf env (own_keys (x_waiting y)) y n = Inr Skip"
  shows "(x_stack x' = [] \<and> (\<forall>n \<in> fst ` set (x_waiting x'). blocked env x' n) \<and> (\<forall>n k. kept_run x x' n k))
    \<or> (\<exists>n k. started env x x' n k \<and> (\<forall>m j. (m, j) \<noteq> (n, k) \<longrightarrow> kept_run x x' m j))"
  using assms
proof (induction env "own_keys (x_waiting y)" names y rule: releaseLoop.induct)
  case (1 env names y)
  show ?case
  proof (cases names)
    case Nil
    then have "x' = y" using "1.prems"(1) by (simp add: releaseLoop.simps [of env _ "[]" y])
    then show ?thesis using "1.prems"(2,3,5) Nil Skip_blocked by (auto simp: trimmed_def)
  next
    case (Cons n rest)
    note unf = releaseLoop.simps [of env "own_keys (x_waiting y)" "n # rest" y]
    show ?thesis
    proof (cases "releaseOf env (own_keys (x_waiting y)) y n")
      case (Inl e)
      then show ?thesis using "1.prems"(1) by (simp add: unf Cons)
    next
      case (Inr r)
      show ?thesis
      proof (cases r)
        case Skip
        have "releaseLoop env (own_keys (x_waiting y)) rest y = Inr x'"
          using "1.prems"(1) Inr Skip by (simp add: unf Cons)
        moreover have "\<forall>m \<in> fst ` set (x_waiting y). m \<in> set rest \<or> releaseOf env (own_keys (x_waiting y)) y m = Inr Skip"
          using "1.prems"(5) Inr Skip Cons by auto
        moreover have "set rest \<subseteq> set (own_keys (x_waiting y))" using "1.prems"(4) Cons by simp
        ultimately show ?thesis using "1.hyps"(1) [OF Cons Inr Skip] "1.prems"(2,3) by blast
      next
        case (Start item k)
        then have x': "x' = removeWaiting n k (y\<lparr>x_stack := [item]\<rparr>)"
          using "1.prems"(1,2) Inr by (simp add: unf Cons)
        have "n \<in> set (own_keys (x_waiting y))" using "1.prems"(4) Cons by auto
        then show ?thesis using started_after [OF "1.prems"(3) _ _ Inr [unfolded Start] x'] by auto
      next
        case (Drop k)
        define z where "z = removeWaiting n k y"
        have "releaseLoop env (own_keys (x_waiting z)) (own_keys (x_waiting z)) z = Inr x'"
          using "1.prems"(1) Inr by (simp add: unf Cons Drop Let_def z_def)
        moreover have "x_stack z = []" using "1.prems"(2) by (simp add: z_def)
        moreover have "trimmed x z" unfolding z_def by (rule trimmed_drop [OF "1.prems"(3) Inr [unfolded Drop]])
        ultimately show ?thesis using "1.hyps"(2) [OF Cons Inr Drop z_def refl] by simp
      qed
    qed
  qed
qed

text \<open>
  C6: when the stack is empty while nodes wait, either one waiting node is started with the data and the
  sources of one of its waiting runs, which has items, and exactly that run leaves the table; or nothing is
  started and every node still waiting is blocked.  In both cases the other waiting runs stay, except
  that runs without items may be removed.
\<close>

theorem releaseWaiting_progress:
  assumes "releaseWaiting env x = Inr x'" and "x_stack x = []"
  shows "(x_stack x' = [] \<and> (\<forall>n \<in> fst ` set (x_waiting x'). blocked env x' n) \<and> (\<forall>n k. kept_run x x' n k))
    \<or> (\<exists>n k. started env x x' n k \<and> (\<forall>m j. (m, j) \<noteq> (n, k) \<longrightarrow> kept_run x x' m j))"
proof (cases "own_keys (x_waiting x) = []")
  case True
  then have "x_waiting x = []" by (metis empty_set length_0_conv length_map length_own_entries own_keys_def)
  then show ?thesis using assms by (simp add: releaseWaiting_def own_keys_def own_entries_def kept_run_def)
next
  case False
  then have loop: "releaseLoop env (own_keys (x_waiting x)) (own_keys (x_waiting x)) x = Inr x'"
    using assms by (simp add: releaseWaiting_def Let_def)
  have "trimmed x x" by (simp add: trimmed_def kept_run_def)
  then show ?thesis by (rule releaseLoop_progress [OF loop assms(2)]) auto
qed

definition half_joined :: Engine where
  "half_joined = (case deliver (''A'', 0, ''a'') (newExecution (join_workflow [''A'', ''B''])) of
     Inr x \<Rightarrow> x | Inl e \<Rightarrow> newExecution chain_workflow)"

definition half_released :: Engine where
  "half_released = (case releaseWaiting echo_env half_joined of Inr x \<Rightarrow> x | Inl e \<Rightarrow> half_joined)"

theorem releaseWaiting_progress_witness:
  "\<exists>n k. started echo_env half_joined half_released n k \<and> map (n_name \<circ> e_node) (x_stack half_released) = [n]"
proof -
  have "releaseWaiting echo_env half_joined = Inr half_released" by code_simp
  moreover have "x_stack half_joined = []" by code_simp
  ultimately have "(x_stack half_released = [] \<and> (\<forall>n \<in> fst ` set (x_waiting half_released). blocked echo_env half_released n)
        \<and> (\<forall>n k. kept_run half_joined half_released n k))
      \<or> (\<exists>n k. started echo_env half_joined half_released n k \<and> (\<forall>m j. (m, j) \<noteq> (n, k) \<longrightarrow> kept_run half_joined half_released m j))"
    by (rule releaseWaiting_progress)
  moreover have "x_stack half_released \<noteq> []" by code_simp
  moreover have "n_name node = n" if "getNode (x_workflow half_joined) n = Some node" for n node
  proof -
    have "list_all (\<lambda>(n, node). n_name node = n) (w_nodes (x_workflow half_joined))" by code_simp
    then show ?thesis using that by (auto simp: getNode_def list_all_iff dest: map_of_SomeD)
  qed
  ultimately show ?thesis by (fastforce simp: started_def)
qed

end
