(* ===== verification/EngineOrder.thy ===== *)
theory EngineOrder
  imports EngineStep EngineTables
begin

section \<open>The order in which nodes run\<close>

text \<open>
  In the new execution order the children of a node go to the top of the stack, ordered by their position:
  a branch is run to its end before the next one, and the upper and left one comes first.
\<close>

subsection \<open>Sorting by a comparison\<close>

text \<open>If \<open>not cmp b a < 0\<close> is a total preorder, the sorted list is in this order.\<close>

lemma insort_by_sorted:
  assumes trans: "\<And>a b c. \<not> cmp b a < 0 \<Longrightarrow> \<not> cmp c b < 0 \<Longrightarrow> \<not> cmp c a < 0"
    and total: "\<And>a b. cmp a b < 0 \<Longrightarrow> \<not> cmp b a < 0"
  shows "sorted_wrt (\<lambda>a b. \<not> cmp b a < (0 :: int)) xs \<Longrightarrow> sorted_wrt (\<lambda>a b. \<not> cmp b a < 0) (insort_by cmp x xs)"
proof (induction xs)
  case (Cons y ys)
  have set: "set (insort_by cmp x ys) = insert x (set ys)"
    by (metis mset_insort_by set_mset_add_mset_insert set_mset_mset)
  show ?case
  proof (cases "cmp y x < 0")
    case True
    then show ?thesis using Cons total by (auto simp: set)
  next
    case False
    then have "\<not> cmp z x < 0" if "z \<in> set ys" for z using Cons.prems that trans by auto
    then show ?thesis using False Cons.prems by auto
  qed
qed simp

lemma js_sort_sorted:
  assumes "\<And>a b c. \<not> cmp b a < 0 \<Longrightarrow> \<not> cmp c b < 0 \<Longrightarrow> \<not> cmp c a < 0" and "\<And>a b. cmp a b < 0 \<Longrightarrow> \<not> cmp b a < (0 :: int)"
  shows "sorted_wrt (\<lambda>a b. \<not> cmp b a < 0) (js_sort cmp xs)"
proof (induction xs)
  case (Cons x xs)
  from insort_by_sorted [OF assms this] show ?case by (simp add: js_sort_def)
qed (simp add: js_sort_def)

text \<open>Above, or at the same height and not further right.\<close>

definition before_or_same :: "int \<times> int \<Rightarrow> int \<times> int \<Rightarrow> bool" where
  "before_or_same p q \<longleftrightarrow> snd p < snd q \<or> (snd p = snd q \<and> fst p \<le> fst q)"

lemma comparePositions_order: "\<not> comparePositions b a < 0 \<longleftrightarrow> before_or_same b a"
  by (auto simp: comparePositions_def before_or_same_def)

lemma sortByPosition_sorted:
  "sorted_wrt (\<lambda>a b. before_or_same (positionOf w (snd b)) (positionOf w (snd a))) (sortByPosition w ocs)"
proof -
  let ?cmp = "\<lambda>a b. comparePositions (positionOf w (snd a)) (positionOf w (snd b))"
  have "sorted_wrt (\<lambda>a b. \<not> ?cmp b a < 0) (js_sort ?cmp ocs)"
    by (rule js_sort_sorted) (auto simp: comparePositions_order before_or_same_def comparePositions_def split: if_splits)
  then show ?thesis by (simp add: sortByPosition_def comparePositions_order)
qed

subsection \<open>The children on the stack\<close>

text \<open>The item of a child with one input.\<close>

definition childItem :: "Workflow \<Rightarrow> string \<Rightarrow> NodeOutputs \<Rightarrow> nat \<Rightarrow> nat \<times> IConnection \<Rightarrow> IExecuteData" where
  "childItem w name output runIndex = (\<lambda>(outputIndex, c). \<lparr>e_node = the (getNode w (c_node c)),
     e_data = [(Main, replicate (c_index c) Null @ [slot_at output outputIndex])],
     e_source = Some [(Main, [Some (sourceOf name outputIndex runIndex)])], e_runIndex = None, e_metadata = None\<rparr>)"

definition single_input :: "Workflow \<Rightarrow> IConnection \<Rightarrow> bool" where
  "single_input w c \<longleftrightarrow> jhas (w_nodes w) (c_node c) \<and> length (mainInputs w (c_node c)) \<le> 1"

lemma addChild_single:
  assumes "isV1 (x_workflow x)" and "single_input (x_workflow x) (snd oc)"
  shows "addChild name output runIndex oc x
    = Inr (x\<lparr>x_stack := childItem (x_workflow x) name output runIndex oc # x_stack x\<rparr>)"
proof -
  obtain i c where oc: "oc = (i, c)" by (cases oc)
  obtain node where node: "jget (w_nodes (x_workflow x)) (c_node c) = Some node"
    using assms(2) by (auto simp: single_input_def jhas_def oc)
  show ?thesis
    using assms by (simp add: addChild_def addNodeToBeExecuted_def single_input_def oc nodeOf_def node enqueue_def
        childItem_def getNode_def)
qed

lemma addChildren_single:
  assumes "isV1 (x_workflow x)" and "\<forall>oc \<in> set ocs. single_input (x_workflow x) (snd oc)"
  shows "rfold (addChild name output runIndex) ocs x
    = Inr (x\<lparr>x_stack := rev (map (childItem (x_workflow x) name output runIndex) ocs) @ x_stack x\<rparr>)"
  using assms by (induction ocs arbitrary: x) (simp_all add: addChild_single)

lemma nodesToAdd_filter:
  assumes "\<forall>oc \<in> set (outgoing w name). jhas (w_nodes w) (c_node (snd oc))"
  shows "nodesToAdd w name output = Inr (filter (delivers w output) (outgoing w name))"
proof -
  have "rfold (\<lambda>oc nodes. rbind (checkedTarget w (snd oc)) (\<lambda>_. Inr (if delivers w output oc then nodes @ [oc] else nodes)))
      ocs acc = Inr (acc @ filter (delivers w output) ocs)" if "\<forall>oc \<in> set ocs. jhas (w_nodes w) (c_node (snd oc))" for ocs acc
    using that by (induction ocs arbitrary: acc) (simp_all add: checkedTarget_def)
  from this [OF assms, of "[]"] show ?thesis by (simp add: nodesToAdd_def)
qed

text \<open>
  C4: in the new execution order, if every node behind the outputs exists and has at most one \<open>Main\<close> input, then
  those that receive items are put on top of the stack, the upper left one first; nothing else changes.  (Items for
  a node with several inputs go to the waiting tables instead.)
\<close>

theorem scheduleChildren_order:
  assumes "isV1 (x_workflow x)"
    and "\<forall>oc \<in> set (outgoing (x_workflow x) name). single_input (x_workflow x) (snd oc)"
  shows "\<exists>ocs. mset ocs = mset (filter (delivers (x_workflow x) output) (outgoing (x_workflow x) name))
    \<and> sorted_wrt (\<lambda>a b. before_or_same (positionOf (x_workflow x) (snd a)) (positionOf (x_workflow x) (snd b))) ocs
    \<and> scheduleChildren name output runIndex x
      = Inr (x\<lparr>x_stack := map (childItem (x_workflow x) name output runIndex) ocs @ x_stack x\<rparr>)"
proof -
  let ?w = "x_workflow x"
  define ocs where "ocs = sortByPosition ?w (filter (delivers ?w output) (outgoing ?w name))"
  have set: "mset ocs = mset (filter (delivers ?w output) (outgoing ?w name))"
    by (simp add: ocs_def sortByPosition_def)
  then have "set ocs \<subseteq> set (outgoing ?w name)" by (metis filter_is_subset mset_eq_setD)
  then have single: "\<forall>oc \<in> set ocs. single_input ?w (snd oc)" using assms(2) by blast
  have "nodesToAdd ?w name output = Inr (filter (delivers ?w output) (outgoing ?w name))"
    by (rule nodesToAdd_filter) (use assms(2) in \<open>simp add: single_input_def\<close>)
  then have "scheduleChildren name output runIndex x
      = Inr (x\<lparr>x_stack := map (childItem ?w name output runIndex) (rev ocs) @ x_stack x\<rparr>)"
    using addChildren_single [OF assms(1) single]
    by (simp add: scheduleChildren_def scheduleV1_def assms(1) ocs_def rev_map)
  moreover have "sorted_wrt (\<lambda>a b. before_or_same (positionOf ?w (snd a)) (positionOf ?w (snd b))) (rev ocs)"
    using sortByPosition_sorted [of ?w "filter (delivers ?w output) (outgoing ?w name)"] by (simp add: ocs_def sorted_wrt_rev)
  ultimately show ?thesis using set by (intro exI [of _ "rev ocs"]) simp
qed

definition fork_workflow :: Workflow where
  "fork_workflow = chain_workflow\<lparr>w_settings := [(''executionOrder'', JStr ''v1'')],
     w_nodes := [(''A'', mk_node 0 ''A''), (''B'', (mk_node 1 ''B'')\<lparr>n_position := (0, 5)\<rparr>), (''C'', mk_node 2 ''C'')],
     w_connectionsBySourceNode := [(''A'', [(Main, [Some [\<lparr>c_node = ''B'', c_type = Main, c_index = 0\<rparr>,
       \<lparr>c_node = ''C'', c_type = Main, c_index = 0\<rparr>]])])],
     w_connectionsByDestinationNode := [(''B'', [(Main, [Some [\<lparr>c_node = ''A'', c_type = Main, c_index = 0\<rparr>]])]),
       (''C'', [(Main, [Some [\<lparr>c_node = ''A'', c_type = Main, c_index = 0\<rparr>]])])]\<rparr>"

definition fork_engine :: Engine where
  "fork_engine = newExecution fork_workflow"

theorem scheduleChildren_order_witness:
  "\<exists>ocs. mset ocs = mset (filter (delivers (x_workflow fork_engine) [Val [item_of []]]) (outgoing (x_workflow fork_engine) ''A''))
    \<and> sorted_wrt (\<lambda>a b. before_or_same (positionOf (x_workflow fork_engine) (snd a)) (positionOf (x_workflow fork_engine) (snd b))) ocs
    \<and> scheduleChildren ''A'' [Val [item_of []]] 0 fork_engine = Inr (fork_engine\<lparr>x_stack :=
        map (childItem (x_workflow fork_engine) ''A'' [Val [item_of []]] 0) ocs @ x_stack fork_engine\<rparr>)"
proof (rule scheduleChildren_order)
  show "isV1 (x_workflow fork_engine)" by code_simp
  show "\<forall>oc \<in> set (outgoing (x_workflow fork_engine) ''A''). single_input (x_workflow fork_engine) (snd oc)" by code_simp
qed

end
