(* ===== verification/EngineRequestOrder.thy ===== *)
theory EngineRequestOrder
  imports EngineInvariant EngineOrder
begin

section \<open>The order of requested nodes\<close>

text \<open>Where a request puts the nodes it asks for, and the node that asked, for both execution orders.\<close>

definition stackNames :: "Engine \<Rightarrow> string list" where
  "stackNames x = map (n_name \<circ> e_node) (x_stack x)"

text \<open>What the preparation of a request leaves as it is.\<close>

definition same_frame :: "Engine \<Rightarrow> Engine \<Rightarrow> bool" where
  "same_frame x y \<longleftrightarrow> stackNames y = stackNames x \<and> isV1 (x_workflow y) = isV1 (x_workflow x)
     \<and> mainInputs (x_workflow y) = mainInputs (x_workflow x) \<and> (named_nodes (x_workflow x) \<longrightarrow> named_nodes (x_workflow y))"

lemma changeNode_frame:
  assumes "\<And>n. n_name (f n) = n_name n"
  shows "same_frame x (changeNode oid f x)"
  using assms by (auto simp: same_frame_def changeNode_def Let_def stackNames_def isV1_def mainInputs_def fun_eq_iff
      named_nodes_def jget_map_snd)

lemma prepareRequestedNodes_frame:
  assumes "prepareRequestedNodesForExecution current r d actions x = (Inr (nodes, entries), y)"
  shows "map (c_node \<circ> tb_inputConnectionData) nodes = map a_nodeName actions \<and> same_frame x y"
  using assms
proof (induction current r d actions x arbitrary: nodes entries rule: prepareRequestedNodesForExecution.induct)
  case (1 current r d x)
  then show ?case by (auto simp: same_frame_def)
next
  case (2 current r d action actions x)
  obtain node where node: "getNode (x_workflow x) (a_nodeName action) = Some node"
    using 2(2) by (auto split: option.splits)
  obtain nodeData entry x1 where a: "prepareAction current r d action node x = (nodeData, entry, x1)"
    by (cases "prepareAction current r d action node x") auto
  obtain nodes' entries' where rest: "prepareRequestedNodesForExecution current r d actions x1 = (Inr (nodes', entries'), y)"
      "nodes = nodeData # nodes'"
    using 2(2) node a by (auto simp: rbind_Inr_iff split: prod.splits)
  have "same_frame x (changeNode (n_oid node) (\<lambda>n. n\<lparr>n_rewireOutputLogTo := Some (a_type action)\<rparr>) x)"
    by (rule changeNode_frame) simp
  then have "same_frame x x1" "c_node (tb_inputConnectionData nodeData) = a_nodeName action"
    using a by (auto simp: prepareAction_def Let_def same_frame_def stackNames_def)
  then show ?case using 2(1) [OF node a [symmetric] refl rest(1)] rest(2) by (auto simp: same_frame_def)
qed

lemma addRequested_single:
  assumes "addRequested n x = Inr y" and "length (mainInputs (x_workflow x) (c_node (tb_inputConnectionData n))) \<le> 1"
    and "named_nodes (x_workflow x)"
  shows "x_workflow y = x_workflow x \<and> stackNames y = (if isV1 (x_workflow x)
    then c_node (tb_inputConnectionData n) # stackNames x else stackNames x @ [c_node (tb_inputConnectionData n)])"
  using assms
  by (auto simp: addRequested_def addNodeToBeExecuted_def rbind_Inr_iff nodeOf_def enqueue_def stackNames_def
      named_nodes_def split: option.splits if_splits)

lemma addRequesteds_single:
  assumes "rfold addRequested ns x = Inr y" and "named_nodes (x_workflow x)"
    and "\<forall>n \<in> set ns. length (mainInputs (x_workflow x) (c_node (tb_inputConnectionData n))) \<le> 1"
  shows "stackNames y = (let names = map (c_node \<circ> tb_inputConnectionData) ns
    in if isV1 (x_workflow x) then rev names @ stackNames x else stackNames x @ names)"
  using assms
proof (induction ns arbitrary: x)
  case (Cons n ns)
  obtain x1 where x1: "addRequested n x = Inr x1" "rfold addRequested ns x1 = Inr y"
    using Cons.prems(1) by (auto simp: rbind_Inr_iff)
  have "x_workflow x1 = x_workflow x \<and> stackNames x1 = (if isV1 (x_workflow x)
      then c_node (tb_inputConnectionData n) # stackNames x else stackNames x @ [c_node (tb_inputConnectionData n)])"
    by (rule addRequested_single [OF x1(1)]) (use Cons.prems in auto)
  then show ?case using Cons.IH [OF x1(2)] Cons.prems by (auto simp: Let_def)
qed simp

text \<open>
  C5: a request puts the requested nodes and the node that asked on the stack.  In the new order the
  requested nodes are on top, the last one first, and the node that asked runs after all of them; in the
  legacy order it comes before them, at the end of the queue.
\<close>

theorem handleEngineRequest_order:
  assumes "handleEngineRequest current request runIndex d x = (None, x')"
    and "prepareRequestingNodeForResuming d = Some (connection, parentNode)"
    and "named_nodes (x_workflow x)"
    and "\<forall>name \<in> set (n_name (e_node d) # map a_nodeName (rq_actions request)). length (mainInputs (x_workflow x) name) \<le> 1"
  shows "stackNames x' = (if isV1 (x_workflow x)
    then rev (map a_nodeName (rq_actions request)) @ n_name (e_node d) # stackNames x
    else stackNames x @ n_name (e_node d) # map a_nodeName (rq_actions request))"
proof -
  have asks: "c_node connection = n_name (e_node d)"
    using assms(2) by (auto simp: prepareRequestingNodeForResuming_def split: option.splits if_splits)
  obtain ns y where h: "handleRequest current request runIndex d x = (Inr ns, y)" and fold: "rfold addRequested ns y = Inr x'"
    using assms(1) unfolding handleEngineRequest_def
    by (cases "handleRequest current request runIndex d x" rule: prod.exhaust)
      (auto split: sum.splits)
  obtain r y' where p: "prepareRequestedNodesForExecution current runIndex d (rq_actions request) x = (r, y')" by fastforce
  obtain nodes entries where y: "prepareRequestedNodesForExecution current runIndex d (rq_actions request) x = (Inr (nodes, entries), y)"
    and ns: "map (c_node \<circ> tb_inputConnectionData) ns = c_node connection # map (c_node \<circ> tb_inputConnectionData) nodes"
    using h p assms(2) by (auto simp: handleRequest_def rbind_Inr_iff)
  have frame: "map (c_node \<circ> tb_inputConnectionData) nodes = map a_nodeName (rq_actions request)" "same_frame x y"
    using prepareRequestedNodes_frame [OF y] by auto
  have names: "map (c_node \<circ> tb_inputConnectionData) ns = n_name (e_node d) # map a_nodeName (rq_actions request)"
    using ns frame(1) asks by simp
  then have len: "\<forall>m \<in> set (map (c_node \<circ> tb_inputConnectionData) ns). length (mainInputs (x_workflow y) m) \<le> 1"
    using assms(4) frame(2) unfolding names by (auto simp: same_frame_def)
  have "named_nodes (x_workflow y)" using frame(2) assms(3) by (simp add: same_frame_def)
  moreover have "\<forall>n \<in> set ns. length (mainInputs (x_workflow y) (c_node (tb_inputConnectionData n))) \<le> 1"
    using len by simp
  ultimately show ?thesis
    using addRequesteds_single [OF fold] frame(2) unfolding names by (simp add: same_frame_def Let_def)
qed

definition agent_workflow :: Workflow where
  "agent_workflow = chain_workflow\<lparr>w_settings := [(''executionOrder'', JStr ''v1'')],
     w_nodes := [(''S'', mk_node 0 ''S''), (''A'', mk_node 1 ''A''), (''T'', mk_node 2 ''T''), (''U'', mk_node 3 ''U'')],
     w_connectionsBySourceNode := [(''S'', [(Main, [Some [\<lparr>c_node = ''A'', c_type = Main, c_index = 0\<rparr>]])])],
     w_connectionsByDestinationNode := [(''A'', [(Main, [Some [\<lparr>c_node = ''S'', c_type = Main, c_index = 0\<rparr>]])])]\<rparr>"

definition agent_item :: IExecuteData where
  "agent_item = \<lparr>e_node = mk_node 1 ''A'', e_data = emptyItemData,
     e_source = Some [(Main, [Some (sourceOf ''S'' 0 0)])], e_runIndex = None, e_metadata = None\<rparr>"

definition asks_for :: "string \<Rightarrow> ExecuteNodeAction" where
  "asks_for tool = \<lparr>a_nodeName = tool, a_input = [], a_type = AiTool, a_id = tool, a_itemIndex = None\<rparr>"

definition agent_request :: EngineRequest where
  "agent_request = \<lparr>rq_actions = [asks_for ''T'', asks_for ''U''], rq_metadata = JNull\<rparr>"

theorem handleEngineRequest_order_witness:
  "stackNames (snd (handleEngineRequest (mk_node 1 ''A'') agent_request 0 agent_item (newExecution agent_workflow)))
    = [''U'', ''T'', ''A'']"
proof -
  let ?x = "newExecution agent_workflow"
  let ?r = "handleEngineRequest (mk_node 1 ''A'') agent_request 0 agent_item ?x"
  have "?r = (None, snd ?r)" by code_simp
  moreover have "prepareRequestingNodeForResuming agent_item = Some (\<lparr>c_node = ''A'', c_type = AiTool, c_index = 0\<rparr>, ''S'')"
    by code_simp
  moreover have "named_nodes (x_workflow ?x)"
    by (simp add: named_nodes_def newExecution_def agent_workflow_def mk_node_def)
  moreover have "\<forall>name \<in> set (n_name (e_node agent_item) # map a_nodeName (rq_actions agent_request)).
      length (mainInputs (x_workflow ?x) name) \<le> 1" by code_simp
  ultimately have "stackNames (snd ?r) = (if isV1 (x_workflow ?x)
      then rev (map a_nodeName (rq_actions agent_request)) @ n_name (e_node agent_item) # stackNames ?x
      else stackNames ?x @ n_name (e_node agent_item) # map a_nodeName (rq_actions agent_request))"
    by (rule handleEngineRequest_order)
  also have "\<dots> = [''U'', ''T'', ''A'']" by code_simp
  finally show ?thesis .
qed

end
