(* ===== verification/EngineCalls.thy ===== *)
theory EngineCalls
  imports EngineStep
begin

section \<open>Which nodes a step calls, and how often\<close>

text \<open>
  A step depends on the implementation of a node only if the node is on the run filter, enabled and not
  pinned, and then on a bounded number of its calls.  An inner call that throws is not counted by the
  loops, so the bound is \<open>2 * maxTries - 1\<close>.
\<close>

lemma maxTries_bounds: "1 \<le> maxTriesOf node \<and> maxTriesOf node \<le> 5"
  by (auto simp: maxTriesOf_def)

text \<open>The item that runs keeps the name and the state of its node.\<close>

definition same_item :: "INode \<Rightarrow> IExecuteData \<Rightarrow> bool" where
  "same_item node d \<longleftrightarrow> n_name (e_node d) = n_name node \<and> n_disabled (e_node d) = n_disabled node"

definition may_call :: "Engine \<Rightarrow> INode \<Rightarrow> bool" where
  "may_call x node \<longleftrightarrow> \<not> outsideFilter x (n_name node) \<and> n_disabled node \<noteq> Some True \<and> pinnedItems x node = None"

definition calls_agree :: "INode \<Rightarrow> nat \<Rightarrow> Calls \<Rightarrow> Calls \<Rightarrow> bool" where
  "calls_agree node bound calls calls' \<longleftrightarrow> (\<forall>k < bound. \<forall>c. n_disabled node \<noteq> Some True \<longrightarrow>
     n_name (e_node (nc_executeData c)) = n_name node \<longrightarrow> calls k c = calls' k c)"

lemma runNodePlan_call:
  assumes "runNodePlan nt m x d r sub = DoCall c"
  shows "n_disabled (e_node d) \<noteq> Some True \<and> nc_executeData c = d"
  using assms by (auto simp: runNodePlan_def Let_def split: if_splits option.splits)

lemma runNode_agree:
  assumes "calls_agree node bound calls calls'" and "k < bound" and "same_item node d"
  shows "runNode nt m calls k r sub (d, x) = runNode nt m calls' k r sub (d, x)"
proof (cases "runNodePlan nt m x d r sub")
  case (DoCall c)
  have "calls k c = calls' k c"
    using runNodePlan_call [OF DoCall] assms by (auto simp: calls_agree_def same_item_def)
  then show ?thesis by (simp add: runNode_def DoCall)
qed (simp add: runNode_def)

definition try_inv :: "INode \<Rightarrow> IPinData option \<Rightarrow> Try \<Rightarrow> bool" where
  "try_inv node pins t \<longleftrightarrow> same_item node (tr_data t) \<and> x_pinData (tr_engine t) = pins"

lemma callEffects_inv:
  "callEffects r (d, x) = (d', x') \<Longrightarrow> e_node d' = e_node d \<and> x_pinData x' = x_pinData x"
  by (auto simp: callEffects_def split: option.splits)

lemma runNode_inv:
  assumes "runNode nt m calls k r sub (d, x) = (res, d', x')"
  shows "e_node d' = e_node d \<and> x_pinData x' = x_pinData x"
proof (cases "runNodePlan nt m x d r sub")
  case (DoCall c)
  then show ?thesis using assms callEffects_inv [of "calls k c" d x d' x'] by (simp add: runNode_def)
qed (use assms in \<open>simp add: runNode_def\<close>)

lemma runNodeTry_inv:
  assumes "runNodeTry c sub t = (res, t')" and "try_inv node pins t"
  shows "try_inv node pins t' \<and> tr_calls t' = Suc (tr_calls t)"
proof -
  obtain res' d x where r: "runNode (sc_nodeTypes c) (sc_manual c) (sc_calls c) (tr_calls t) (sc_runIndex c) sub
      (tr_data t, tr_engine t) = (res', d, x)" by (metis prod_cases3)
  have "t' = t\<lparr>tr_data := d, tr_engine := x, tr_calls := Suc (tr_calls t)\<rparr>" using assms(1) r by (simp add: runNodeTry_def)
  then show ?thesis using runNode_inv [OF r] assms(2) by (simp add: try_inv_def same_item_def)
qed

lemma runNodeTry_agree:
  assumes "calls_agree node bound (sc_calls c) calls'" and "tr_calls t < bound" and "try_inv node pins t"
  shows "runNodeTry (c\<lparr>sc_calls := calls'\<rparr>) sub t = runNodeTry c sub t"
  using runNode_agree [OF assms(1,2), of "tr_data t"] assms(3) by (simp add: runNodeTry_def try_inv_def)

lemma runAgain_calls:
  "runAgain c n res t = (n', res', t') \<Longrightarrow> try_inv node pins t \<Longrightarrow>
     try_inv node pins t' \<and> tr_calls t' + 2 * n' \<le> Suc (tr_calls t + 2 * n)"
proof (induction c n res t rule: runAgain.induct)
  case (2 c n res t)
  show ?case
  proof (cases "nodeFailed res")
    case True
    obtain res1 t1 where r: "runNodeTry c None t = (res1, t1)" by (metis surj_pair)
    have t1: "try_inv node pins t1 \<and> tr_calls t1 = Suc (tr_calls t)" by (rule runNodeTry_inv [OF r "2.prems"(2)])
    show ?thesis
    proof (cases "\<exists>e. res1 = RunError e")
      case True
      then show ?thesis using "2.prems" \<open>nodeFailed res\<close> r t1 by auto
    next
      case False
      then have "runAgain c n res1 t1 = (n', res', t')"
        using "2.prems"(1) True r by (cases res1) simp_all
      then have "try_inv node pins t' \<and> tr_calls t' + 2 * n' \<le> Suc (tr_calls t1 + 2 * n)"
        using "2.IH" True r t1 False by (cases res1) auto
      then show ?thesis using t1 by simp
    qed
  qed (use "2.prems" in auto)
qed auto

lemma runAgain_agree:
  "calls_agree node bound (sc_calls c) calls' \<Longrightarrow> try_inv node pins t \<Longrightarrow> tr_calls t + n \<le> bound \<Longrightarrow>
     runAgain (c\<lparr>sc_calls := calls'\<rparr>) n res t = runAgain c n res t"
proof (induction n arbitrary: res t)
  case (Suc n)
  show ?case
  proof (cases "nodeFailed res")
    case True
    have eq: "runNodeTry (c\<lparr>sc_calls := calls'\<rparr>) None t = runNodeTry c None t"
      using runNodeTry_agree [OF Suc.prems(1) _ Suc.prems(2)] Suc.prems(3) by simp
    obtain res1 t1 where r: "runNodeTry c None t = (res1, t1)" by (metis surj_pair)
    have t1: "try_inv node pins t1 \<and> tr_calls t1 = Suc (tr_calls t)" by (rule runNodeTry_inv [OF r Suc.prems(2)])
    then have "runAgain (c\<lparr>sc_calls := calls'\<rparr>) n res1 t1 = runAgain c n res1 t1"
      using Suc.IH [OF Suc.prems(1)] Suc.prems(3) by simp
    then show ?thesis using True by (cases res1) (simp_all add: eq r)
  qed simp
qed simp

lemma catching_threw: "catching r t f = TryThrew e t' \<Longrightarrow> (\<exists>err. r = Inl err \<and> t' = t) \<or> (\<exists>v. r = Inr v \<and> f v = TryThrew e t')"
  by (cases r) (auto simp: catching_def)

text \<open>After an exception the item and the pinned data are as before.\<close>

lemma finishTry_inv:
  "finishTry t = TryThrew e t' \<Longrightarrow> try_inv node pins t \<Longrightarrow> try_inv node pins t' \<and> tr_calls t' = tr_calls t"
  unfolding finishTry_def Let_def
  by (auto dest!: catching_threw simp: try_inv_def split: if_splits)

lemma changeNode_pins [simp]: "x_pinData (changeNode oid f x) = x_pinData x"
  by (simp add: changeNode_def Let_def)

lemma prepareRequested_pins:
  "prepareRequestedNodesForExecution n r d actions x = (res, x') \<Longrightarrow> x_pinData x' = x_pinData x"
proof (induction n r d actions x arbitrary: res rule: prepareRequestedNodesForExecution.induct)
  case (2 n r d action actions x)
  show ?case
  proof (cases "getNode (x_workflow x) (a_nodeName action)")
    case (Some node)
    obtain nd en x1 where p: "prepareAction n r d action node x = (nd, en, x1)" by (metis prod_cases3)
    obtain res' x2 where r: "prepareRequestedNodesForExecution n r d actions x1 = (res', x2)" by (metis surj_pair)
    have x2: "x2 = x'" using 2(2) by (simp add: Some p r)
    have "x_pinData x1 = x_pinData x" using p by (auto simp: prepareAction_def Let_def)
    then show ?thesis using 2(1) [OF Some p [symmetric] refl r [unfolded x2]] by simp
  qed (use 2 in auto)
qed simp

lemma handleEngineRequest_pins:
  assumes "handleEngineRequest n rq r d x = (Some e, x')"
  shows "x_pinData x' = x_pinData x"
proof -
  obtain res x1 where h: "handleRequest n rq r d x = (res, x1)" by (metis surj_pair)
  obtain res' where "prepareRequestedNodesForExecution n r d (rq_actions rq) x = (res', x1)"
    using h by (auto simp: handleRequest_def split: prod.splits)
  moreover have "x' = x1" using assms(1) h by (auto simp: handleEngineRequest_def split: sum.splits)
  ultimately show ?thesis using prepareRequested_pins by blast
qed

lemma same_item_refresh: "same_item node d \<Longrightarrow> same_item node (refreshNode x d)"
  by (simp add: same_item_def refreshNode_def split: option.split)

lemma handleRunResult_inv:
  assumes "handleRunResult c res t = TryThrew e t'" and "try_inv node pins t"
  shows "try_inv node pins t' \<and> tr_calls t' = tr_calls t"
proof (cases res)
  case (RunData data hints)
  let ?t = "t\<lparr>tr_output := data, tr_hints := tr_hints t @ hints\<rparr>"
  have t: "try_inv node pins (?t\<lparr>tr_output := out\<rparr>)" "tr_calls (?t\<lparr>tr_output := out\<rparr>) = tr_calls t" for out
    using assms(2) by (simp_all add: try_inv_def)
  from assms(1) consider "t' = ?t" | out where "finishTry (?t\<lparr>tr_output := out\<rparr>) = TryThrew e t'"
    unfolding handleRunResult_def RunData RunResponse.case Let_def by (auto dest!: catching_threw)
  then show ?thesis
  proof cases
    case 1
    then show ?thesis using assms(2) by (simp add: try_inv_def)
  next
    case 2
    from finishTry_inv [OF 2 t(1)] show ?thesis using t(2) by simp
  qed
next
  case (RunRequest rq)
  obtain err x where h: "handleEngineRequest (sc_node c) rq (sc_runIndex c) (tr_data t) (tr_engine t) = (err, x)" by (metis surj_pair)
  then obtain e' where "err = Some e'" "t' = t\<lparr>tr_engine := x, tr_data := refreshNode x (tr_data t)\<rparr>"
    using assms(1) by (cases err) (simp_all add: handleRunResult_def RunRequest)
  then show ?thesis
    using assms(2) handleEngineRequest_pins [of _ _ _ _ _ e' x] h same_item_refresh by (auto simp: try_inv_def)
next
  case (RunError e')
  then show ?thesis using assms by (simp add: handleRunResult_def)
qed

lemma handleRunResult_calls [simp]: "handleRunResult (c\<lparr>sc_calls := calls'\<rparr>) res t = handleRunResult c res t"
  by (cases res) (simp_all add: handleRunResult_def Let_def cong: option.case_cong if_cong)

lemma collectResponses_inv: "try_inv node pins t \<Longrightarrow> try_inv node pins (collectResponses t) \<and> tr_calls (collectResponses t) = tr_calls t"
  by (auto simp: collectResponses_def try_inv_def split: option.split)

lemma pinnedItems_cong: "x_pinData x = x_pinData y \<Longrightarrow> pinnedItems x node = pinnedItems y node"
  by (simp add: pinnedItems_def)

text \<open>One try; \<open>n\<close> tries remain, so at most \<open>2 * n + 1\<close> calls do.\<close>

lemma runTry_agree:
  assumes "calls_agree node bound (sc_calls c) calls'" and "sc_node c = node" and "try_inv node pins t"
    and "tr_calls t + 2 * n + 1 \<le> bound"
  shows "runTry (c\<lparr>sc_calls := calls'\<rparr>) n t = runTry c n t"
proof (cases "pinnedItems (tr_engine t) node")
  case None
  let ?t = "collectResponses t"
  have t0: "try_inv node pins ?t" "tr_calls ?t = tr_calls t" using collectResponses_inv [OF assms(3)] by simp_all
  have eq: "runNodeTry (c\<lparr>sc_calls := calls'\<rparr>) (Some (tr_responses ?t)) ?t = runNodeTry c (Some (tr_responses ?t)) ?t"
    by (rule runNodeTry_agree [OF assms(1) _ t0(1)]) (use assms(4) t0(2) in simp)
  obtain res t1 where r: "runNodeTry c (Some (tr_responses ?t)) ?t = (res, t1)" by (metis surj_pair)
  have t1: "try_inv node pins t1" "tr_calls t1 = Suc (tr_calls t)" using runNodeTry_inv [OF r t0(1)] t0(2) by simp_all
  have "runAgain (c\<lparr>sc_calls := calls'\<rparr>) n res t1 = runAgain c n res t1"
    by (rule runAgain_agree [OF assms(1) t1(1)]) (use assms(4) t1(2) in simp)
  then show ?thesis using None assms(2) eq r by (simp add: runTry_def Let_def)
qed (use assms(2) in \<open>simp add: runTry_def\<close>)

lemma runTry_inv:
  assumes "runTry c n t = (n', TryThrew e t')" and "sc_node c = node" and "try_inv node pins t"
  shows "try_inv node pins t' \<and> tr_calls t' + 2 * n' \<le> Suc (Suc (tr_calls t + 2 * n))"
proof (cases "pinnedItems (tr_engine t) node")
  case (Some items)
  have "try_inv node pins (t\<lparr>tr_output := Some [Val items]\<rparr>)" using assms(3) by (simp add: try_inv_def)
  then show ?thesis
    using assms(1,2) Some finishTry_inv [of "t\<lparr>tr_output := Some [Val items]\<rparr>" e t' node pins] by (simp add: runTry_def)
next
  case None
  let ?t = "collectResponses t"
  have t0: "try_inv node pins ?t" "tr_calls ?t = tr_calls t" using collectResponses_inv [OF assms(3)] by simp_all
  obtain res t1 where r: "runNodeTry c (Some (tr_responses ?t)) ?t = (res, t1)" by (metis surj_pair)
  have t1: "try_inv node pins t1" "tr_calls t1 = Suc (tr_calls t)" using runNodeTry_inv [OF r t0(1)] t0(2) by simp_all
  obtain m res' t2 where a: "runAgain c n res t1 = (m, res', t2)" by (metis prod_cases3)
  have t2: "try_inv node pins t2" "tr_calls t2 + 2 * m \<le> Suc (tr_calls t1 + 2 * n)"
    using runAgain_calls [OF a t1(1)] by simp_all
  have "n' = m" "handleRunResult c res' t2 = TryThrew e t'"
    using assms(1,2) None r a by (simp_all add: runTry_def Let_def)
  then show ?thesis using handleRunResult_inv t2 t1(2) by fastforce
qed

definition no_difference :: "INode \<Rightarrow> Calls \<Rightarrow> Calls \<Rightarrow> nat \<Rightarrow> Try \<Rightarrow> bool" where
  "no_difference node calls calls' n t \<longleftrightarrow> pinnedItems (tr_engine t) node \<noteq> None
     \<or> (\<exists>bound. calls_agree node bound calls calls' \<and> tr_calls t + 2 * n + 1 \<le> bound)"

lemma runTry_same:
  assumes "no_difference node (sc_calls c) calls' n t" and "sc_node c = node" and "try_inv node pins t"
  shows "runTry (c\<lparr>sc_calls := calls'\<rparr>) n t = runTry c n t"
proof (cases "pinnedItems (tr_engine t) node")
  case None
  then show ?thesis using runTry_agree [OF _ assms(2,3)] assms(1) by (auto simp: no_difference_def)
qed (use assms(2) in \<open>simp add: runTry_def\<close>)

lemma tryLoop_agree:
  "no_difference node (sc_calls c) calls' n t \<Longrightarrow> sc_node c = node \<Longrightarrow> try_inv node pins t \<Longrightarrow>
     tryLoop (c\<lparr>sc_calls := calls'\<rparr>) n t = tryLoop c n t"
proof (induction c n t rule: tryLoop.induct)
  case (1 c n t)
  note unf = tryLoop.simps [of "c\<lparr>sc_calls := calls'\<rparr>" n t] tryLoop.simps [of c n t]
  have eq: "runTry (c\<lparr>sc_calls := calls'\<rparr>) n t = runTry c n t" by (rule runTry_same [OF "1.prems"])
  obtain n' r where run: "runTry c n t = (n', r)" by (metis surj_pair)
  show ?case
  proof (cases r)
    case (TryThrew e t')
    define t'' where "t'' = t'\<lparr>tr_engine := (tr_engine t')\<lparr>x_lastNodeExecuted := Some (n_name (e_node (tr_data t')))\<rparr>, tr_error := Some e\<rparr>"
    have t': "try_inv node pins t'" "tr_calls t' + 2 * n' \<le> Suc (Suc (tr_calls t + 2 * n))"
      using runTry_inv [OF run [unfolded TryThrew] "1.prems"(2,3)] by simp_all
    have t'': "try_inv node pins (t''\<lparr>tr_error := None\<rparr>)" "tr_calls (t''\<lparr>tr_error := None\<rparr>) = tr_calls t'"
      using t'(1) by (simp_all add: t''_def try_inv_def)
    show ?thesis
    proof (cases n')
      case 0
      then show ?thesis unfolding unf eq run TryThrew by simp
    next
      case (Suc m)
      have "x_pinData (tr_engine t) = x_pinData (tr_engine (t''\<lparr>tr_error := None\<rparr>))"
        using "1.prems"(3) t''(1) by (simp add: try_inv_def)
      then have pins: "pinnedItems (tr_engine t) node = pinnedItems (tr_engine (t''\<lparr>tr_error := None\<rparr>)) node"
        by (rule pinnedItems_cong)
      have "tr_calls (t''\<lparr>tr_error := None\<rparr>) + 2 * m + 1 \<le> tr_calls t + 2 * n + 1"
        using t'(2) t''(2) Suc by simp
      then have "no_difference node (sc_calls c) calls' m (t''\<lparr>tr_error := None\<rparr>)"
        using "1.prems"(1) unfolding no_difference_def pins by (meson le_trans)
      then have "tryLoop (c\<lparr>sc_calls := calls'\<rparr>) m (t''\<lparr>tr_error := None\<rparr>) = tryLoop c m (t''\<lparr>tr_error := None\<rparr>)"
        by (intro "1.IH" [OF run [symmetric] TryThrew t''_def Suc _ "1.prems"(2) t''(1)])
      then show ?thesis unfolding unf eq run TryThrew by (simp add: t''_def Suc)
    qed
  qed (unfold unf eq run, simp_all)
qed

text \<open>What happens after the tries does not read the implementations.\<close>

lemma env_calls:
  "en_nodeTypes (env\<lparr>en_calls := calls\<rparr>) = en_nodeTypes env" "en_manual (env\<lparr>en_calls := calls\<rparr>) = en_manual env"
  "en_timeout (env\<lparr>en_calls := calls\<rparr>) = en_timeout env"
  "en_getNodeOutputs (env\<lparr>en_calls := calls\<rparr>) = en_getNodeOutputs env"
  "en_getPairedItem (env\<lparr>en_calls := calls\<rparr>) = en_getPairedItem env"
  "en_requiredInputs (env\<lparr>en_calls := calls\<rparr>) = en_requiredInputs env"
  by simp_all

lemma releaseOf_calls: "releaseOf (env\<lparr>en_calls := calls\<rparr>) = releaseOf env"
proof -
  have "requiredInputsOf (env\<lparr>en_calls := calls\<rparr>) = requiredInputsOf env"
    by (intro ext) (simp only: requiredInputsOf_def env_calls)
  then show ?thesis by (intro ext) (simp only: releaseOf_def env_calls)
qed

lemma releaseLoop_calls: "releaseLoop (env\<lparr>en_calls := calls\<rparr>) ws names x = releaseLoop env ws names x"
proof (induction env ws names x rule: releaseLoop.induct)
  case (1 env ws names x)
  note unf = releaseLoop.simps [of "env\<lparr>en_calls := calls\<rparr>" ws names x] releaseLoop.simps [of env ws names x]
  show ?case
  proof (cases names)
    case Nil
    then show ?thesis unfolding unf by simp
  next
    case (Cons n rest)
    show ?thesis
    proof (cases "releaseOf env ws x n")
      case (Inl e)
      then show ?thesis unfolding unf releaseOf_calls by (simp add: Cons)
    next
      case (Inr r)
      show ?thesis
      proof (cases r)
        case Skip
        then show ?thesis unfolding unf releaseOf_calls using "1.IH"(1) [OF Cons Inr Skip] by (simp add: Cons Inr)
      next
        case (Start item k)
        then show ?thesis unfolding unf releaseOf_calls by (simp add: Cons Inr)
      next
        case (Drop k)
        then show ?thesis unfolding unf releaseOf_calls using "1.IH"(2) [OF Cons Inr Drop refl refl]
          by (simp add: Cons Inr Let_def)
      qed
    qed
  qed
qed

lemma afterTries_calls: "afterTries (env\<lparr>en_calls := calls\<rparr>) = afterTries env"
proof -
  have "releaseWaiting (env\<lparr>en_calls := calls\<rparr>) = releaseWaiting env"
    by (intro ext) (simp add: releaseWaiting_def releaseLoop_calls Let_def)
  then have "storeAndGoOn (env\<lparr>en_calls := calls\<rparr>) = storeAndGoOn env"
    by (intro ext) (simp only: storeAndGoOn_def)
  then show ?thesis by (intro ext) (simp only: afterTries_def)
qed

lemma runItem_agree:
  assumes "no_difference (e_node d) (en_calls env) calls (nat (maxTriesOf (e_node d)) - 1) (startTry x d)"
  shows "runItem (env\<lparr>en_calls := calls\<rparr>) lst r i d x = runItem env lst r i d x"
proof -
  have "try_inv (e_node d) (x_pinData x) (startTry x d)" by (simp add: try_inv_def startTry_def same_item_def)
  from tryLoop_agree [OF _ _ this, of "contextOf env (e_node d) r" calls] assms
  have "tryLoop (contextOf (env\<lparr>en_calls := calls\<rparr>) (e_node d) r) (nat (maxTriesOf (e_node d)) - 1) (startTry x d)
      = tryLoop (contextOf env (e_node d) r) (nat (maxTriesOf (e_node d)) - 1) (startTry x d)"
    by (simp add: contextOf_def)
  then show ?thesis by (simp only: runItem_def Let_def afterTries_calls)
qed

lemma ensureInputData_pins: "ensureInputData d x = Inr (b, x') \<Longrightarrow> x_pinData x' = x_pinData x"
proof -
  have "ensureLoop d is x = Inr (b, x') \<Longrightarrow> x_pinData x' = x_pinData x" for "is"
    by (induction d "is" x rule: ensureLoop.induct) (auto simp: rbind_Inr_iff Let_def split: if_splits option.splits)
  then show "ensureInputData d x = Inr (b, x') \<Longrightarrow> x_pinData x' = x_pinData x" by (simp add: ensureInputData_def)
qed

text \<open>
  C3: a step depends on the implementations of nodes only through the node on top of the stack, and on
  that only if it is on the run filter, enabled and without pinned data; then on its first
  \<open>2 * maxTries - 1\<close> calls at most, where \<open>maxTries\<close> is between 1 and 5.
\<close>

theorem step_calls:
  assumes item: "x_stack (l_engine l) = item # rest"
    and same: "\<And>k c. may_call (l_engine l) (e_node item) \<Longrightarrow> k < 2 * nat (maxTriesOf (e_node item)) - 1
      \<Longrightarrow> n_name (e_node (nc_executeData c)) = n_name (e_node item) \<Longrightarrow> en_calls env k c = calls k c"
  shows "step (env\<lparr>en_calls := calls\<rparr>) l = step env l \<and> 1 \<le> maxTriesOf (e_node item) \<and> maxTriesOf (e_node item) \<le> 5"
proof -
  let ?node = "e_node item" and ?d = "pairInputs item"
  define x where "x = (if en_timeout env then (l_engine l)\<lparr>x_status := StCanceled, x_timedOut := True\<rparr> else l_engine l)"
  define y where "y = x\<lparr>x_stack := rest, x_executionIndex := Suc (x_executionIndex x)\<rparr>"
  have fields: "x_runNodeFilter y = x_runNodeFilter (l_engine l)" "x_pinData y = x_pinData (l_engine l)"
    by (simp_all add: x_def y_def)
  have d: "e_node ?d = ?node" by (simp add: pairInputs_def Let_def)
  have run: "runItem (env\<lparr>en_calls := calls\<rparr>) lst r i ?d z = runItem env lst r i ?d z"
    if z: "ensureInputData ?d y = Inr (b, z)" and f: "\<not> outsideFilter y (n_name ?node)" for lst r i b z
  proof (rule runItem_agree)
    have pins: "pinnedItems z ?node = pinnedItems (l_engine l) ?node"
      by (rule pinnedItems_cong) (use ensureInputData_pins [OF z] fields(2) in simp)
    have "calls_agree ?node (2 * nat (maxTriesOf ?node) - 1) (en_calls env) calls" if "pinnedItems z ?node = None"
      unfolding calls_agree_def
      using same that f fields(1) pins by (auto simp: may_call_def outsideFilter_def)
    moreover have "0 < nat (maxTriesOf ?node)" using maxTries_bounds [of ?node] by simp
    ultimately show "no_difference (e_node ?d) (en_calls env) calls (nat (maxTriesOf (e_node ?d)) - 1) (startTry z ?d)"
      by (auto simp: no_difference_def startTry_def d)
  qed
  have "onCrash y (ensureInputData ?d y) (\<lambda>(h, z). if \<not> h then Running \<lparr>l_engine = z, l_lastTry = t, l_error = None\<rparr>
        else runItem (env\<lparr>en_calls := calls\<rparr>) (l_lastTry l) r i ?d z)
      = onCrash y (ensureInputData ?d y) (\<lambda>(h, z). if \<not> h then Running \<lparr>l_engine = z, l_lastTry = t, l_error = None\<rparr>
        else runItem env (l_lastTry l) r i ?d z)" if "\<not> outsideFilter y (n_name ?node)" for t r i
  proof (cases "ensureInputData ?d y")
    case (Inr p)
    obtain b z where p: "p = (b, z)" by (cases p)
    show ?thesis using run [OF Inr [unfolded p] that] by (simp add: onCrash_def Inr p)
  qed (simp add: onCrash_def)
  then have "step (env\<lparr>en_calls := calls\<rparr>) l = step env l"
    unfolding step_def Let_def item list.case d env_calls
    by (simp add: x_def [symmetric] y_def [symmetric])
  then show ?thesis using maxTries_bounds by blast
qed

text \<open>
  The bound is attained: with \<open>maxTries = 2\<close> a node is run three times when its first answer holds an error,
  the inner call throws, and the outer loop tries again.
\<close>

definition flaky_node :: INode where
  "flaky_node = (mk_node 0 ''N'')\<lparr>n_retryOnFail := Some True, n_maxTries := Some 2\<rparr>"

definition flaky_calls :: Calls where
  "flaky_calls k c = plain_result (if k = 0 then Returned (Some [Val [item_of [(''error'', JStr ''x'')]]])
     else if k = 1 then Threw \<lparr>er_name = None, er_message = ''x''\<rparr> else Returned (Some [Val [item_of []]]))"

lemma retry_exceeds_maxTries:
  "maxTriesOf flaky_node = 2
   \<and> (case tryLoop (contextOf (test_env flaky_calls) flaky_node 0) 1
       (startTry (newExecution single_workflow) (stack_item flaky_node)) of
      TriesDone t \<Rightarrow> tr_calls t = 3 \<and> tr_error t = None | TriesContinue x \<Rightarrow> False)"
  by code_simp

definition flaky_loop :: Loop where
  "flaky_loop = \<lparr>l_engine = (newExecution single_workflow)\<lparr>x_stack := [stack_item flaky_node]\<rparr>, l_lastTry = [], l_error = None\<rparr>"

definition late_failure :: Calls where
  "late_failure k c = (if k < 3 then flaky_calls k c else plain_result (Threw \<lparr>er_name = None, er_message = ''y''\<rparr>))"

theorem step_calls_witness:
  "step ((test_env flaky_calls)\<lparr>en_calls := late_failure\<rparr>) flaky_loop = step (test_env flaky_calls) flaky_loop
   \<and> 1 \<le> maxTriesOf (e_node (stack_item flaky_node)) \<and> maxTriesOf (e_node (stack_item flaky_node)) \<le> 5"
proof (rule step_calls)
  show "x_stack (l_engine flaky_loop) = stack_item flaky_node # []" by (simp add: flaky_loop_def)
next
  fix k c
  assume k: "k < 2 * nat (maxTriesOf (e_node (stack_item flaky_node))) - 1"
  have "maxTriesOf (e_node (stack_item flaky_node)) = 2" by code_simp
  with k have "k < 3" by simp
  then show "en_calls (test_env flaky_calls) k c = late_failure k c" by (simp add: test_env_def late_failure_def)
qed

end
