(* ===== verification/ConcurrencyQueue.thy ===== *)
theory ConcurrencyQueue
  imports JsPrelude TransitionSystem "HOL-Library.Sublist" "HOL-Library.Multiset"
begin

section \<open>The queue of throttled executions\<close>

text \<open>
  The class \<open>ConcurrencyQueue\<close> of \<open>packages/cli/src/concurrency/concurrency-queue.ts\<close>: a capacity that each
  execution takes one unit of, and the executions that wait for one.  An operation returns the events it
  emits; \<open>ExecutionReleased\<close> stands for the event and for the resolution of the promise the execution waits
  on.  The debounced event is recorded when it is requested.
\<close>

record ConcurrencyQueue =
  cq_capacity :: int
  cq_queue :: "string list"

datatype ConcurrencyEvent =
    ExecutionThrottled string
  | ExecutionReleased string
  | ConcurrencyCheck int

definition newQueue :: "int \<Rightarrow> ConcurrencyQueue" where
  "newQueue capacity = \<lparr>cq_capacity = capacity, cq_queue = []\<rparr>"

definition resolveNext :: "ConcurrencyQueue \<Rightarrow> ConcurrencyEvent list \<times> ConcurrencyQueue" where
  "resolveNext q = (case cq_queue q of
      [] \<Rightarrow> ([], q)
    | executionId # rest \<Rightarrow> ([ExecutionReleased executionId], q\<lparr>cq_queue := rest\<rparr>))"

text \<open>The caller waits if its execution is throttled.\<close>

definition queueEnqueue :: "string \<Rightarrow> ConcurrencyQueue \<Rightarrow> ConcurrencyEvent list \<times> ConcurrencyQueue" where
  "queueEnqueue executionId q =
     (let capacity = cq_capacity q - 1
      in if capacity < 0
         then ([ConcurrencyCheck capacity, ExecutionThrottled executionId],
           \<lparr>cq_capacity = capacity, cq_queue = cq_queue q @ [executionId]\<rparr>)
         else ([ConcurrencyCheck capacity], q\<lparr>cq_capacity := capacity\<rparr>))"

definition queueDequeue :: "ConcurrencyQueue \<Rightarrow> ConcurrencyEvent list \<times> ConcurrencyQueue" where
  "queueDequeue q = resolveNext (q\<lparr>cq_capacity := cq_capacity q + 1\<rparr>)"

definition queueRemove :: "string \<Rightarrow> ConcurrencyQueue \<Rightarrow> ConcurrencyEvent list \<times> ConcurrencyQueue" where
  "queueRemove executionId q = (case find_index (\<lambda>item. item = executionId) (cq_queue q) of
      None \<Rightarrow> ([], q)
    | Some index \<Rightarrow> resolveNext \<lparr>cq_capacity = cq_capacity q + 1, cq_queue = splice1 index (cq_queue q)\<rparr>)"

definition queueGetAll :: "ConcurrencyQueue \<Rightarrow> string list" where
  "queueGetAll q = set_of_list (cq_queue q)"

definition queueHas :: "string \<Rightarrow> ConcurrencyQueue \<Rightarrow> bool" where
  "queueHas executionId q \<longleftrightarrow> list_ex (\<lambda>item. item = executionId) (cq_queue q)"

lemma queueHas_iff: "queueHas i q \<longleftrightarrow> i \<in> set (cq_queue q)"
  by (auto simp: queueHas_def list_ex_iff)

definition releasedOf :: "ConcurrencyEvent list \<Rightarrow> string list" where
  "releasedOf events = List.map_filter (\<lambda>e. case e of ExecutionReleased i \<Rightarrow> Some i | _ \<Rightarrow> None) events"

lemma releasedOf_simps [simp]:
  "releasedOf [] = []" "releasedOf (ExecutionReleased i # es) = i # releasedOf es"
  "releasedOf (ExecutionThrottled i # es) = releasedOf es" "releasedOf (ConcurrencyCheck c # es) = releasedOf es"
  by (simp_all add: releasedOf_def List.map_filter_def)

lemma splice1_remove1:
  "find_index (\<lambda>y. y = x) xs = Some i \<Longrightarrow> splice1 i xs = remove1 x xs \<and> x \<in> set xs"
  by (induction xs arbitrary: i) (auto split: if_splits option.splits)

text \<open>A removal frees a unit of capacity and lets the next execution through.\<close>

lemma queueRemove_cases:
  "queueRemove i q = (if i \<in> set (cq_queue q)
     then resolveNext \<lparr>cq_capacity = cq_capacity q + 1, cq_queue = remove1 i (cq_queue q)\<rparr> else ([], q))"
  using splice1_remove1 [of i "cq_queue q"]
  by (auto simp: queueRemove_def find_index_None split: option.split)

subsection \<open>The executions around the queue\<close>

text \<open>
  The queue with auxiliary variables: which executions run, the order in which they arrived and in which
  they were let through, and how many waiting executions were cancelled.
\<close>

record Throttling =
  th_queue :: ConcurrencyQueue
  th_running :: "string list"
  th_arrived :: "string list"
  th_started :: "string list"
  th_cancelled :: nat

definition letThrough :: "string list \<Rightarrow> Throttling \<Rightarrow> Throttling" where
  "letThrough ids t = t\<lparr>th_running := th_running t @ ids, th_started := th_started t @ ids\<rparr>"

definition arrive :: "string \<Rightarrow> Throttling \<Rightarrow> Throttling" where
  "arrive i t = (case queueEnqueue i (th_queue t) of (events, q) \<Rightarrow>
     letThrough (if ExecutionThrottled i \<in> set events then [] else [i])
       (t\<lparr>th_queue := q, th_arrived := th_arrived t @ [i]\<rparr>))"

definition finish :: "string \<Rightarrow> Throttling \<Rightarrow> Throttling" where
  "finish i t = (case queueDequeue (th_queue t) of (events, q) \<Rightarrow>
     letThrough (releasedOf events) (t\<lparr>th_queue := q, th_running := remove1 i (th_running t)\<rparr>))"

definition cancelWaiting :: "string \<Rightarrow> Throttling \<Rightarrow> Throttling" where
  "cancelWaiting i t = (case queueRemove i (th_queue t) of (events, q) \<Rightarrow>
     letThrough (releasedOf events) (t\<lparr>th_queue := q, th_cancelled := Suc (th_cancelled t)\<rparr>))"

inductive throttle_step :: "Throttling \<Rightarrow> Throttling \<Rightarrow> bool" where
  arrival: "throttle_step t (arrive i t)"
| completion: "i \<in> set (th_running t) \<Longrightarrow> throttle_step t (finish i t)"
| cancellation: "queueHas i (th_queue t) \<Longrightarrow> throttle_step t (cancelWaiting i t)"

inductive_cases throttle_stepE: "throttle_step t t'"

definition startThrottling :: "int \<Rightarrow> Throttling" where
  "startThrottling limit = \<lparr>th_queue = newQueue limit, th_running = [], th_arrived = [], th_started = [], th_cancelled = 0\<rparr>"

text \<open>
  The capacity is what running and waiting executions leave of the limit; executions wait only when the
  limit is reached; each cancellation can let one execution through too many; the order of arrival is kept.
\<close>

definition throttling_ok :: "int \<Rightarrow> Throttling \<Rightarrow> bool" where
  "throttling_ok limit t \<longleftrightarrow>
     cq_capacity (th_queue t) = limit - int (length (th_running t)) - int (length (cq_queue (th_queue t)))
     \<and> (cq_queue (th_queue t) \<noteq> [] \<longrightarrow> limit \<le> int (length (th_running t)))
     \<and> int (length (th_running t)) \<le> max 0 limit + int (th_cancelled t)
     \<and> subseq (th_started t @ cq_queue (th_queue t)) (th_arrived t)
     \<and> (th_cancelled t = 0 \<longrightarrow> th_started t @ cq_queue (th_queue t) = th_arrived t)"

lemmas throttle_defs = arrive_def finish_def cancelWaiting_def letThrough_def queueEnqueue_def queueDequeue_def
  queueRemove_cases resolveNext_def Let_def

lemma subseq_snoc: "subseq xs ys \<Longrightarrow> subseq (xs @ [x]) (ys @ [x])"
  by (rule list_emb_append_mono) simp_all

lemma arrive_ok:
  assumes "throttling_ok limit t"
  shows "throttling_ok limit (arrive i t)"
proof -
  let ?q = "th_queue t"
  have acc: "cq_capacity ?q = limit - int (length (th_running t)) - int (length (cq_queue ?q))"
    and busy: "cq_queue ?q \<noteq> [] \<Longrightarrow> limit \<le> int (length (th_running t))"
    and sub: "subseq (th_started t @ cq_queue ?q) (th_arrived t)"
    using assms by (simp_all add: throttling_ok_def)
  show ?thesis
  proof (cases "cq_capacity ?q - 1 < 0")
    case True
    then show ?thesis
      using assms subseq_snoc [OF sub, of i] acc by (auto simp: throttling_ok_def throttle_defs)
  next
    case False
    then have "cq_queue ?q = []" using acc busy by fastforce
    then show ?thesis
      using False assms subseq_snoc [OF sub, of i] acc by (auto simp: throttling_ok_def throttle_defs)
  qed
qed

lemma finish_ok:
  assumes "throttling_ok limit t" and "i \<in> set (th_running t)"
  shows "throttling_ok limit (finish i t)"
proof -
  have "length (th_running t) = Suc (length (remove1 i (th_running t)))"
    using assms(2) by (metis One_nat_def Suc_pred length_pos_if_in_set length_remove1)
  then show ?thesis
    using assms(1) by (cases "cq_queue (th_queue t)") (auto simp: throttling_ok_def throttle_defs)
qed

lemma subseq_remove1: "subseq (remove1 x xs) xs"
  by (induction xs) auto

lemma cancel_ok:
  assumes "throttling_ok limit t" and "queueHas i (th_queue t)"
  shows "throttling_ok limit (cancelWaiting i t)"
proof -
  let ?q = "cq_queue (th_queue t)"
  have i: "i \<in> set ?q" using assms(2) by (simp add: queueHas_iff)
  then have len: "length ?q = Suc (length (remove1 i ?q))"
    by (metis One_nat_def Suc_pred length_pos_if_in_set length_remove1)
  have "subseq (th_started t @ remove1 i ?q) (th_arrived t)"
    using assms(1) subseq_remove1 [of i ?q]
    by (auto simp: throttling_ok_def intro: subseq_order.order_trans [OF list_emb_append_mono])
  then show ?thesis
    using assms(1) i len by (cases "remove1 i ?q") (auto simp: throttling_ok_def throttle_defs)
qed

lemma throttle_step_ok: "throttle_step t t' \<Longrightarrow> throttling_ok limit t \<Longrightarrow> throttling_ok limit t'"
  by (elim throttle_stepE) (auto intro: arrive_ok finish_ok cancel_ok)

interpretation throttling: transition_system throttle_step "throttling_ok limit" for limit
  by unfold_locales (rule throttle_step_ok)

lemma start_ok: "throttling_ok limit (startThrottling limit)"
  by (simp add: throttling_ok_def startThrottling_def newQueue_def)

text \<open>
  C13: at any time no more executions run than the limit and the number of cancelled waiting executions,
  executions wait only while the limit is reached, and they are let through in the order of their arrival.
\<close>

theorem throttling_reachable:
  assumes "throttle_step\<^sup>*\<^sup>* (startThrottling limit) t" and "0 < limit"
  shows "int (length (th_running t)) \<le> limit + int (th_cancelled t)
    \<and> (cq_queue (th_queue t) \<noteq> [] \<longrightarrow> limit \<le> int (length (th_running t)))
    \<and> subseq (th_started t @ cq_queue (th_queue t)) (th_arrived t)"
  using throttling.inv_reachable [OF assms(1) start_ok] assms(2) by (simp add: throttling_ok_def)

theorem throttling_reachable_witness:
  "length (th_running (finish ''A'' (arrive ''B'' (arrive ''A'' (startThrottling 1))))) \<le> 1
    \<and> th_started (finish ''A'' (arrive ''B'' (arrive ''A'' (startThrottling 1)))) = [''A'', ''B'']"
proof -
  define t where "t = finish ''A'' (arrive ''B'' (arrive ''A'' (startThrottling 1)))"
  have "''A'' \<in> set (th_running (arrive ''B'' (arrive ''A'' (startThrottling 1))))" by code_simp
  then have "throttle_step (arrive ''B'' (arrive ''A'' (startThrottling 1))) t" unfolding t_def by (rule completion)
  then have "throttle_step\<^sup>*\<^sup>* (startThrottling 1) t"
    by (meson arrival rtranclp.rtrancl_into_rtrancl rtranclp.rtrancl_refl)
  then have "int (length (th_running t)) \<le> 1 + int (th_cancelled t)
      \<and> (cq_queue (th_queue t) \<noteq> [] \<longrightarrow> 1 \<le> int (length (th_running t)))
      \<and> subseq (th_started t @ cq_queue (th_queue t)) (th_arrived t)"
    by (rule throttling_reachable) simp
  moreover have "th_cancelled t = 0" "th_started t = [''A'', ''B'']" unfolding t_def by code_simp+
  ultimately show ?thesis unfolding t_def [symmetric] by simp
qed

text \<open>
  the cancellation of a waiting execution lets another one through although none has ended.  With a
  limit of one, two executions run after it.
\<close>

theorem cancellation_exceeds_limit:
  "th_running (cancelWaiting ''B'' (arrive ''C'' (arrive ''B'' (arrive ''A'' (startThrottling 1))))) = [''A'', ''C'']"
  by code_simp

subsection \<open>Emptying the queue\<close>

text \<open>Removing the executions of the queue one after the other, as \<open>removeAll\<close> does.\<close>

definition removeEach :: "string list \<Rightarrow> ConcurrencyQueue \<Rightarrow> ConcurrencyEvent list \<times> ConcurrencyQueue" where
  "removeEach ids q = fold (\<lambda>executionId (events, q). case queueRemove executionId q of (e, q) \<Rightarrow> (events @ e, q)) ids ([], q)"

text \<open>Every second element, from the second one.\<close>

fun everySecond :: "'a list \<Rightarrow> 'a list" where
  "everySecond (x # y # rest) = y # everySecond rest"
| "everySecond xs = []"

lemma releasedOf_append [simp]: "releasedOf (xs @ ys) = releasedOf xs @ releasedOf ys"
  by (simp add: releasedOf_def List.map_filter_def)

lemma removeEach_events:
  "fold (\<lambda>i (events, q). case queueRemove i q of (e, q) \<Rightarrow> (events @ e, q)) ids (events, q)
    = (events @ fst (removeEach ids q), snd (removeEach ids q))"
proof -
  have "fold (\<lambda>i (events, q). case queueRemove i q of (e, q) \<Rightarrow> (events @ e, q)) ids (before @ events, q)
      = (\<lambda>(es, q). (before @ es, q)) (fold (\<lambda>i (events, q). case queueRemove i q of (e, q) \<Rightarrow> (events @ e, q)) ids (events, q))"
    for before events q by (induction ids arbitrary: events q) (auto split: prod.split)
  from this [of events "[]" q] show ?thesis by (simp add: removeEach_def split: prod.split)
qed

lemma removeEach_Cons:
  "removeEach (i # ids) q = (fst (queueRemove i q) @ fst (removeEach ids (snd (queueRemove i q))),
     snd (removeEach ids (snd (queueRemove i q))))"
  using removeEach_events [of ids "fst (queueRemove i q)" "snd (queueRemove i q)"]
  by (simp add: removeEach_def split: prod.splits)

lemma removeEach_Nil [simp]: "removeEach [] q = ([], q)"
  by (simp add: removeEach_def)

text \<open>
  C14: removing all executions of a queue empties it, but each removal lets the next execution through:
  every second execution is not cancelled but starts to run.
\<close>

theorem removeEach_releases:
  assumes "distinct (cq_queue q)"
  shows "cq_queue (snd (removeEach (queueGetAll q) q)) = []
    \<and> releasedOf (fst (removeEach (queueGetAll q) q)) = everySecond (cq_queue q)"
proof -
  have "cq_queue (snd (removeEach ids q)) = [] \<and> releasedOf (fst (removeEach ids q)) = everySecond ids"
    if "cq_queue q = ids" "distinct ids" for ids q
    using that
  proof (induction ids arbitrary: q rule: everySecond.induct)
    case (1 x y rest)
    then have "queueRemove y (snd (queueRemove x q)) = ([], snd (queueRemove x q))"
        "cq_queue (snd (queueRemove x q)) = rest" "releasedOf (fst (queueRemove x q)) = [y]"
      by (auto simp: queueRemove_cases resolveNext_def)
    then show ?case using 1 by (simp add: removeEach_Cons)
  qed (auto simp: removeEach_Cons queueRemove_cases resolveNext_def)
  moreover have "queueGetAll q = cq_queue q"
  proof -
    have "fold sadd xs s = s @ xs" if "distinct (s @ xs)" for s xs :: "string list"
      using that by (induction xs arbitrary: s) (auto simp: sadd_def)
    from this [of "[]" "cq_queue q"] show ?thesis using assms by (simp add: queueGetAll_def set_of_list_def)
  qed
  ultimately show ?thesis using assms by simp
qed

theorem removeEach_releases_witness:
  "releasedOf (fst (removeEach [''A'', ''B'', ''C''] \<lparr>cq_capacity = -3, cq_queue = [''A'', ''B'', ''C'']\<rparr>)) = [''B'']"
proof -
  let ?q = "\<lparr>cq_capacity = -3, cq_queue = [''A'', ''B'', ''C'']\<rparr>"
  have "releasedOf (fst (removeEach (queueGetAll ?q) ?q)) = everySecond (cq_queue ?q)"
    using removeEach_releases [of ?q] by simp
  then show ?thesis by (simp add: queueGetAll_def set_of_list_def sadd_def)
qed

end
