(* ===== verification/ConcurrencyControl.thy ===== *)
theory ConcurrencyControl
  imports ConcurrencyQueue
begin

section \<open>Concurrency control\<close>

text \<open>
  The class \<open>ConcurrencyControlService\<close> of \<open>packages/cli/src/concurrency/concurrency-control.service.ts\<close>:
  one queue per kind of execution that is limited, and the choice of the queue by the execution mode.
  The queues are undefined (\<open>None\<close>) when the service was disabled by its constructor.  Logging, telemetry
  and the forwarding of events are left out.
\<close>

datatype WorkflowExecuteMode = ModeCli | ModeError | ModeIntegrated | ModeInternal | ModeManual | ModeRetry
  | ModeTrigger | ModeWebhook | ModeEvaluation | ModeChat

datatype ConcurrencyQueueType = Production | Evaluation

record ConcurrencyControl =
  cc_isEnabled :: bool
  cc_queues :: "(ConcurrencyQueueType, ConcurrencyQueue) jmap option"

text \<open>The limits as they are configured; less than \<open>-1\<close> counts as unlimited, 0 is refused.\<close>

definition normalizeLimit :: "int \<Rightarrow> int res" where
  "normalizeLimit limit = (if limit = 0 then Inl (UserError ''Concurrency limit set to invalid value'')
     else Inr (if limit < -1 then -1 else limit))"

definition newConcurrencyControl :: "int \<Rightarrow> int \<Rightarrow> bool \<Rightarrow> ConcurrencyControl res" where
  "newConcurrencyControl productionLimit evaluationLimit queueMode =
     rbind (normalizeLimit productionLimit) (\<lambda>production.
     rbind (normalizeLimit evaluationLimit) (\<lambda>evaluation.
       let limits = [(Production, production), (Evaluation, evaluation)]
       in if list_all (\<lambda>(type, limit). limit = -1) limits \<or> queueMode
          then Inr \<lparr>cc_isEnabled = False, cc_queues = None\<rparr>
          else Inr \<lparr>cc_isEnabled = True, cc_queues = Some (map (\<lambda>(type, limit). (type, newQueue limit))
            (filter (\<lambda>(type, limit). limit > 0) limits))\<rparr>))"

definition queueOf :: "ConcurrencyQueueType \<Rightarrow> ConcurrencyControl \<Rightarrow> ConcurrencyQueue option res" where
  "queueOf type c = (case cc_queues c of None \<Rightarrow> Inl TypeError | Some queues \<Rightarrow> Inr (jget queues type))"

text \<open>The kind of queue for a mode: \<open>chat\<close> is none of the modes the method knows.\<close>

definition queueTypeOf :: "WorkflowExecuteMode \<Rightarrow> ConcurrencyQueueType option res" where
  "queueTypeOf mode =
     (if mode \<in> {ModeError, ModeIntegrated, ModeCli, ModeInternal, ModeManual, ModeRetry} then Inr None
      else if mode = ModeWebhook \<or> mode = ModeTrigger then Inr (Some Production)
      else if mode = ModeEvaluation then Inr (Some Evaluation)
      else Inl (UnexpectedError ''Unknown execution mode''))"

definition getQueue :: "WorkflowExecuteMode \<Rightarrow> ConcurrencyControl \<Rightarrow> (ConcurrencyQueueType \<times> ConcurrencyQueue) option res" where
  "getQueue mode c = rbind (queueTypeOf mode) (\<lambda>type. case type of
      None \<Rightarrow> Inr None
    | Some type \<Rightarrow> rbind (queueOf type c) (\<lambda>queue. Inr (map_option (Pair type) queue)))"

text \<open>An operation of the queue for the mode; nothing when the service is disabled or the mode unlimited.\<close>

definition onQueue :: "WorkflowExecuteMode \<Rightarrow> (ConcurrencyQueue \<Rightarrow> ConcurrencyEvent list \<times> ConcurrencyQueue) \<Rightarrow> ConcurrencyControl
    \<Rightarrow> (ConcurrencyEvent list \<times> ConcurrencyControl) res" where
  "onQueue mode operation c =
     (if \<not> cc_isEnabled c then Inr ([], c)
      else rbind (getQueue mode c) (\<lambda>found. case found of
          None \<Rightarrow> Inr ([], c)
        | Some (type, queue) \<Rightarrow> (case operation queue of (events, queue) \<Rightarrow>
            Inr (events, c\<lparr>cc_queues := map_option (jput type queue) (cc_queues c)\<rparr>))))"

definition throttle :: "WorkflowExecuteMode \<Rightarrow> string \<Rightarrow> ConcurrencyControl \<Rightarrow> (ConcurrencyEvent list \<times> ConcurrencyControl) res" where
  "throttle mode executionId = onQueue mode (queueEnqueue executionId)"

definition release :: "WorkflowExecuteMode \<Rightarrow> ConcurrencyControl \<Rightarrow> (ConcurrencyEvent list \<times> ConcurrencyControl) res" where
  "release mode = onQueue mode queueDequeue"

definition removeThrottled :: "WorkflowExecuteMode \<Rightarrow> string \<Rightarrow> ConcurrencyControl
    \<Rightarrow> (ConcurrencyEvent list \<times> ConcurrencyControl) res" where
  "removeThrottled mode executionId = onQueue mode (queueRemove executionId)"

definition isThrottled :: "string \<Rightarrow> ConcurrencyControl \<Rightarrow> bool" where
  "isThrottled executionId c \<longleftrightarrow> cc_isEnabled c
     \<and> (case cc_queues c of None \<Rightarrow> False | Some queues \<Rightarrow> list_ex (queueHas executionId) (jvals queues))"

definition disable :: "ConcurrencyControl \<Rightarrow> ConcurrencyControl" where
  "disable c = c\<lparr>cc_isEnabled := False\<rparr>"

text \<open>The result: the events, the executions that are cancelled in the database, and the new state.\<close>

definition removeAllThrottled :: "string list \<Rightarrow> ConcurrencyControl \<Rightarrow> ConcurrencyEvent list \<times> string list \<times> ConcurrencyControl" where
  "removeAllThrottled executionIdsToCancel c =
     (if \<not> cc_isEnabled c then ([], [], c)
      else case cc_queues c of
        None \<Rightarrow> ([], executionIdsToCancel, c)
      | Some queues \<Rightarrow>
          let emptied = map (\<lambda>(type, queue). (type, removeEach (queueGetAll queue) queue)) queues
          in (concat (map (\<lambda>(type, events, queue). events) emptied), executionIdsToCancel,
              c\<lparr>cc_queues := Some (map (\<lambda>(type, events, queue). (type, queue)) emptied)\<rparr>))"

text \<open>The queue of a kind, if there is one.\<close>

definition theQueue :: "ConcurrencyQueueType \<Rightarrow> ConcurrencyControl \<Rightarrow> ConcurrencyQueue option" where
  "theQueue type c = Option.bind (cc_queues c) (\<lambda>queues. jget queues type)"

definition limited :: "ConcurrencyQueueType \<Rightarrow> WorkflowExecuteMode \<Rightarrow> bool" where
  "limited type mode \<longleftrightarrow> queueTypeOf mode = Inr (Some type)"

text \<open>An operation for a mode is the operation of the mode's queue, and leaves the other queue as it is.\<close>

lemma onQueue_queue:
  assumes "onQueue mode operation c = Inr (events, c')" and "cc_isEnabled c"
  shows "cc_isEnabled c' \<and> (\<forall>type q. theQueue type c = Some q \<longrightarrow>
     (if limited type mode then operation q = (events, the (theQueue type c')) \<and> theQueue type c' \<noteq> None
      else theQueue type c' = Some q))"
proof -
  obtain found where found: "getQueue mode c = Inr found"
    using assms by (cases "getQueue mode c") (auto simp: onQueue_def)
  then have r: "(case found of None \<Rightarrow> Inr ([], c)
        | Some (type, queue) \<Rightarrow> (case operation queue of (events, queue) \<Rightarrow>
            Inr (events, c\<lparr>cc_queues := map_option (jput type queue) (cc_queues c)\<rparr>))) = (Inr (events, c') :: _ res)"
    using assms by (simp add: onQueue_def)
  obtain type where type: "queueTypeOf mode = Inr type" using found by (auto simp: getQueue_def rbind_Inr_iff)
  show ?thesis
  proof (cases type)
    case None
    then have "found = None" using found type by (simp add: getQueue_def)
    then show ?thesis using r assms(2) type None by (auto simp: limited_def)
  next
    case (Some k)
    then obtain queues where queues: "cc_queues c = Some queues" "found = map_option (Pair k) (jget queues k)"
      using found type by (auto simp: getQueue_def queueOf_def rbind_Inr_iff split: option.splits)
    then show ?thesis
      using r assms(2) type Some
      by (cases "jget queues k") (auto simp: limited_def theQueue_def js_map_simps split: prod.splits)
  qed
qed

lemma onQueue_limited:
  assumes "onQueue mode operation c = Inr (events, c')" and "cc_isEnabled c"
    and "theQueue type c = Some q" and "limited type mode"
  shows "\<exists>q'. theQueue type c' = Some q' \<and> operation q = (events, q') \<and> cc_isEnabled c'"
  using onQueue_queue [OF assms(1,2)] assms(3,4) by fastforce

lemma onQueue_other:
  assumes "onQueue mode operation c = Inr (events, c')" and "cc_isEnabled c"
    and "theQueue type c = Some q" and "\<not> limited type mode"
  shows "theQueue type c' = Some q \<and> cc_isEnabled c'"
  using onQueue_queue [OF assms(1,2)] assms(3,4) by fastforce

text \<open>
  An enabled service has a queue for the kind of execution whose configured limit is positive, with that
  capacity, and no queue for the others; it is disabled in queue mode and when no kind is limited.
\<close>

lemma newConcurrencyControl_enabled:
  assumes "newConcurrencyControl productionLimit evaluationLimit queueMode = Inr c"
  shows "cc_isEnabled c = (\<not> queueMode \<and> (0 < productionLimit \<or> 0 < evaluationLimit))
    \<and> (cc_isEnabled c \<longrightarrow> theQueue Production c = (if 0 < productionLimit then Some (newQueue productionLimit) else None)
        \<and> theQueue Evaluation c = (if 0 < evaluationLimit then Some (newQueue evaluationLimit) else None))"
  using assms
  by (auto simp: newConcurrencyControl_def normalizeLimit_def rbind_Inr_iff Let_def theQueue_def split: if_splits)

text \<open>An execution in mode \<open>chat\<close> throws as soon as any kind of execution is limited.\<close>

lemma chat_mode_throws: "cc_isEnabled c \<Longrightarrow> throttle ModeChat executionId c = Inl (UnexpectedError ''Unknown execution mode'')"
  by (simp add: throttle_def onQueue_def getQueue_def queueTypeOf_def)

text \<open>After \<open>disable\<close>, \<open>removeAll\<close> does nothing: the queues stay and no execution is cancelled.\<close>

lemma removeAllThrottled_disabled: "removeAllThrottled ids (disable c) = ([], [], disable c)"
  by (simp add: removeAllThrottled_def disable_def)

end
