(* ===== verification/ActiveExecutions.thy ===== *)
theory ActiveExecutions
  imports WorkflowTypes ConcurrencyControl
begin

section \<open>Active executions\<close>

text \<open>
  The class \<open>ActiveExecutions\<close> of \<open>packages/cli/src/active-executions.ts\<close>, together with the concurrency
  control it calls.  The objects of executions have an identity, since a resumed execution replaces the
  object under its id; \<open>ew_settled\<close> says that the promise for its result is settled.  An \<open>add\<close> that waits
  for capacity is in \<open>ae_pending\<close>, and goes on when its execution is released.  The settling of a promise and
  what is run then is one step.  The database, responses and start times are left out.
\<close>

record ExecutingWorkflow =
  ew_id :: string
  ew_mode :: WorkflowExecuteMode
  ew_status :: ExecutionStatus
  ew_responsePromise :: bool
  ew_settled :: bool

record ActiveExecutions =
  ae_control :: ConcurrencyControl
  ae_regular :: bool
  ae_objects :: "ExecutingWorkflow list"
  ae_active :: "(string, nat) jmap"
  ae_pending :: "(string \<times> WorkflowExecuteMode) list"

definition activeObject :: "string \<Rightarrow> ActiveExecutions \<Rightarrow> ExecutingWorkflow option" where
  "activeObject executionId a = Option.bind (jget (ae_active a) executionId) (arr_get (ae_objects a))"

definition hasExecution :: "string \<Rightarrow> ActiveExecutions \<Rightarrow> bool" where
  "hasExecution executionId a \<longleftrightarrow> jhas (ae_active a) executionId"

text \<open>The part of \<open>add\<close> after the waiting.\<close>

definition completeAdd :: "string \<Rightarrow> WorkflowExecuteMode \<Rightarrow> ActiveExecutions \<Rightarrow> ActiveExecutions" where
  "completeAdd executionId mode a =
     a\<lparr>ae_objects := ae_objects a @ [\<lparr>ew_id = executionId, ew_mode = mode, ew_status = StRunning,
         ew_responsePromise = (case activeObject executionId a of None \<Rightarrow> False | Some e \<Rightarrow> ew_responsePromise e),
         ew_settled = False\<rparr>],
       ae_active := jput executionId (length (ae_objects a)) (ae_active a)\<rparr>"

text \<open>A new execution is throttled in regular mode only, one that is resumed always.\<close>

definition addExecution :: "WorkflowExecuteMode \<Rightarrow> string \<Rightarrow> bool \<Rightarrow> ActiveExecutions \<Rightarrow> ActiveExecutions res" where
  "addExecution mode executionId isNew a =
     (if isNew \<and> \<not> ae_regular a then Inr (completeAdd executionId mode a)
      else rbind (throttle mode executionId (ae_control a)) (\<lambda>(events, c).
        let a = a\<lparr>ae_control := c\<rparr>
        in Inr (if ExecutionThrottled executionId \<in> set events
             then a\<lparr>ae_pending := ae_pending a @ [(executionId, mode)]\<rparr>
             else completeAdd executionId mode a)))"

definition resumeAdd :: "WorkflowExecuteMode \<Rightarrow> string \<Rightarrow> ActiveExecutions \<Rightarrow> ActiveExecutions" where
  "resumeAdd mode executionId a =
     (case find_index (\<lambda>(i, m). i = executionId \<and> queueTypeOf m = queueTypeOf mode) (ae_pending a) of
        None \<Rightarrow> a
      | Some k \<Rightarrow> (case ae_pending a ! k of (i, m) \<Rightarrow> completeAdd i m (a\<lparr>ae_pending := splice1 k (ae_pending a)\<rparr>)))"

text \<open>The promise of an execution settles: its capacity is released, and it is forgotten unless it waits.\<close>

definition settle :: "nat \<Rightarrow> ActiveExecutions \<Rightarrow> ActiveExecutions res" where
  "settle object a = (case arr_get (ae_objects a) object of
      None \<Rightarrow> Inr a
    | Some e \<Rightarrow> if ew_settled e then Inr a
        else rbind (release (ew_mode e) (ae_control a)) (\<lambda>(events, c).
          Inr (fold (resumeAdd (ew_mode e)) (releasedOf events)
            (a\<lparr>ae_control := c, ae_objects := (ae_objects a)[object := e\<lparr>ew_settled := True\<rparr>],
               ae_active := (if ew_status e = StWaiting then ae_active a else jdel (ew_id e) (ae_active a))\<rparr>))))"

definition finalizeExecution :: "string \<Rightarrow> ActiveExecutions \<Rightarrow> ActiveExecutions res" where
  "finalizeExecution executionId a = (case jget (ae_active a) executionId of None \<Rightarrow> Inr a | Some object \<Rightarrow> settle object a)"

definition stopExecution :: "string \<Rightarrow> ActiveExecutions \<Rightarrow> ActiveExecutions res" where
  "stopExecution executionId a = (case jget (ae_active a) executionId of
      None \<Rightarrow> Inr a
    | Some object \<Rightarrow> (case arr_get (ae_objects a) object of
        None \<Rightarrow> Inr a
      | Some e \<Rightarrow> if ew_status e = StWaiting then Inr (a\<lparr>ae_active := jdel executionId (ae_active a)\<rparr>)
          else settle object a))"

definition updateExecution :: "string \<Rightarrow> (ExecutingWorkflow \<Rightarrow> ExecutingWorkflow) \<Rightarrow> ActiveExecutions \<Rightarrow> ActiveExecutions res" where
  "updateExecution executionId f a = (case jget (ae_active a) executionId of
      None \<Rightarrow> Inl (NamedError ''ExecutionNotFoundError'' executionId)
    | Some object \<Rightarrow> Inr (case arr_get (ae_objects a) object of
        None \<Rightarrow> a
      | Some e \<Rightarrow> a\<lparr>ae_objects := (ae_objects a)[object := f e]\<rparr>))"

definition setStatus :: "string \<Rightarrow> ExecutionStatus \<Rightarrow> ActiveExecutions \<Rightarrow> ActiveExecutions res" where
  "setStatus executionId status = updateExecution executionId (\<lambda>e. e\<lparr>ew_status := status\<rparr>)"

definition attachResponsePromise :: "string \<Rightarrow> ActiveExecutions \<Rightarrow> ActiveExecutions res" where
  "attachResponsePromise executionId = updateExecution executionId (\<lambda>e. e\<lparr>ew_responsePromise := True\<rparr>)"

text \<open>Stopping an execution that waits for capacity (\<open>ExecutionService.stopInRegularMode\<close>); its \<open>add\<close> never goes on.\<close>

definition stopThrottled :: "WorkflowExecuteMode \<Rightarrow> string \<Rightarrow> ActiveExecutions \<Rightarrow> ActiveExecutions res" where
  "stopThrottled mode executionId a =
     (if \<not> isThrottled executionId (ae_control a) then Inr a
      else rbind (removeThrottled mode executionId (ae_control a)) (\<lambda>(events, c).
        Inr (fold (resumeAdd mode) (releasedOf events)
          (a\<lparr>ae_control := c, ae_pending := (case find_index (\<lambda>(i, m). i = executionId \<and> queueTypeOf m = queueTypeOf mode)
               (ae_pending a) of None \<Rightarrow> ae_pending a | Some k \<Rightarrow> splice1 k (ae_pending a))\<rparr>))))"

text \<open>
  The shutdown up to the waiting loop: what becomes of each active execution, and the result of
  \<open>removeAll\<close>: the state and the executions it cancelled in the database.
\<close>

definition shutdownOne :: "bool \<Rightarrow> string \<Rightarrow> string list \<times> ActiveExecutions \<Rightarrow> (string list \<times> ActiveExecutions) res" where
  "shutdownOne cancelAll executionId = (\<lambda>(toCancel, a). case activeObject executionId a of
      None \<Rightarrow> Inl TypeError
    | Some e \<Rightarrow>
        if ew_responsePromise e \<or> (ae_regular a \<and> cancelAll)
        then rbind (stopExecution executionId a) (\<lambda>a. Inr (toCancel @ [executionId], a))
        else Inr (toCancel, if ew_status e = StWaiting \<or> ew_status e = StNew
          then a\<lparr>ae_active := jdel executionId (ae_active a)\<rparr> else a))"

definition shutdown :: "bool \<Rightarrow> ActiveExecutions \<Rightarrow> (string list \<times> ActiveExecutions) res" where
  "shutdown cancelAll a =
     (let a = (if ae_regular a then a\<lparr>ae_control := disable (ae_control a)\<rparr> else a)
      in rbind (rfold (shutdownOne cancelAll) (own_keys (ae_active a)) ([], a)) (\<lambda>(toCancel, a).
        case removeAllThrottled toCancel (ae_control a) of (events, cancelled, c) \<Rightarrow>
          Inr (cancelled, a\<lparr>ae_control := c\<rparr>)))"

subsection \<open>The limit on running executions\<close>

inductive active_step :: "ActiveExecutions \<Rightarrow> ActiveExecutions \<Rightarrow> bool" where
  "addExecution mode executionId isNew a = Inr a' \<Longrightarrow> active_step a a'"
| "finalizeExecution executionId a = Inr a' \<Longrightarrow> active_step a a'"
| "stopExecution executionId a = Inr a' \<Longrightarrow> active_step a a'"
| "setStatus executionId status a = Inr a' \<Longrightarrow> active_step a a'"
| "attachResponsePromise executionId a = Inr a' \<Longrightarrow> active_step a a'"

inductive_cases active_stepE: "active_step a a'"

text \<open>The executions of a kind that were let through and have no result yet, and those that wait.\<close>

definition runningOf :: "ConcurrencyQueueType \<Rightarrow> ActiveExecutions \<Rightarrow> nat" where
  "runningOf type a = length (filter (\<lambda>e. \<not> ew_settled e \<and> limited type (ew_mode e)) (ae_objects a))"

definition pendingOf :: "ConcurrencyQueueType \<Rightarrow> ActiveExecutions \<Rightarrow> string list" where
  "pendingOf type a = map fst (filter (\<lambda>(i, m). limited type m) (ae_pending a))"

definition limit_ok :: "ConcurrencyQueueType \<Rightarrow> int \<Rightarrow> ActiveExecutions \<Rightarrow> bool" where
  "limit_ok type limit a \<longleftrightarrow> cc_isEnabled (ae_control a) \<and> ae_regular a
     \<and> (\<exists>q. theQueue type (ae_control a) = Some q
       \<and> cq_capacity q = limit - int (runningOf type a) - int (length (cq_queue q))
       \<and> (cq_queue q \<noteq> [] \<longrightarrow> limit \<le> int (runningOf type a))
       \<and> int (runningOf type a) \<le> limit
       \<and> pendingOf type a = cq_queue q)"

lemma completeAdd_fields [simp]:
  "ae_control (completeAdd i m a) = ae_control a" "ae_pending (completeAdd i m a) = ae_pending a" "ae_regular (completeAdd i m a) = ae_regular a"
  "pendingOf type (completeAdd i m a) = pendingOf type a"
  "runningOf type (completeAdd i m a) = runningOf type a + (if limited type m then 1 else 0)"
  by (simp_all add: completeAdd_def pendingOf_def runningOf_def)

lemma fields_simps [simp]:
  "runningOf type (a\<lparr>ae_control := c\<rparr>) = runningOf type a" "pendingOf type (a\<lparr>ae_control := c\<rparr>) = pendingOf type a"
  "runningOf type (a\<lparr>ae_active := x\<rparr>) = runningOf type a" "pendingOf type (a\<lparr>ae_active := x\<rparr>) = pendingOf type a"
  "pendingOf type (a\<lparr>ae_objects := objs\<rparr>) = pendingOf type a"
  "runningOf type (a\<lparr>ae_pending := ps\<rparr>) = runningOf type a"
  by (simp_all add: runningOf_def pendingOf_def)

lemma pendingOf_snoc [simp]:
  "pendingOf type (a\<lparr>ae_pending := ps @ [(i, m)]\<rparr>) = pendingOf type (a\<lparr>ae_pending := ps\<rparr>) @ (if limited type m then [i] else [])"
  by (simp add: pendingOf_def)

lemma pendingOf_same [simp]: "pendingOf type (a\<lparr>ae_pending := ae_pending a\<rparr>) = pendingOf type a"
  by (simp add: pendingOf_def)

lemma limited_cong: "queueTypeOf m = queueTypeOf m' \<Longrightarrow> limited type m = limited type m'"
  by (simp add: limited_def)

text \<open>The first waiting \<open>add\<close> of a kind is the one that a release of this kind lets go on.\<close>

lemma first_pending:
  assumes "map fst (filter (\<lambda>(i, m). limited type m) ps) = i # rest" and "limited type mode"
  shows "\<exists>k m. find_index (\<lambda>(j, m). j = i \<and> queueTypeOf m = queueTypeOf mode) ps = Some k \<and> ps ! k = (i, m)
    \<and> limited type m \<and> map fst (filter (\<lambda>(i, m). limited type m) (splice1 k ps)) = rest"
  using assms(1)
proof (induction ps)
  case (Cons p ps)
  obtain j m where p: "p = (j, m)" by (cases p)
  show ?case
  proof (cases "limited type m")
    case True
    then have "j = i" "queueTypeOf m = queueTypeOf mode" using Cons.prems assms(2) p by (auto simp: limited_def)
    then show ?thesis using Cons.prems True p by simp
  next
    case False
    then have "queueTypeOf m \<noteq> queueTypeOf mode" using assms(2) by (auto simp: limited_def)
    moreover have "map fst (filter (\<lambda>(i, m). limited type m) ps) = i # rest" using Cons.prems False p by simp
    ultimately show ?thesis using Cons.IH False p by auto
  qed
qed simp

lemma other_pending:
  assumes "find_index (\<lambda>(j, m). j = i \<and> queueTypeOf m = queueTypeOf mode) ps = Some k" and "\<not> limited type mode"
  shows "\<exists>m. ps ! k = (i, m) \<and> \<not> limited type m
    \<and> map fst (filter (\<lambda>(i, m). limited type m) (splice1 k ps)) = map fst (filter (\<lambda>(i, m). limited type m) ps)"
  using assms(1)
proof (induction ps arbitrary: k)
  case (Cons p ps)
  obtain j m where p: "p = (j, m)" by (cases p)
  show ?case
  proof (cases "j = i \<and> queueTypeOf m = queueTypeOf mode")
    case True
    then have "k = 0" "\<not> limited type m" using Cons.prems p assms(2) by (simp_all add: limited_def)
    then show ?thesis using True p by simp
  next
    case False
    then obtain k' where "find_index (\<lambda>(j, m). j = i \<and> queueTypeOf m = queueTypeOf mode) ps = Some k'" "k = Suc k'"
      using Cons.prems p by (auto split: option.splits)
    then show ?thesis using Cons.IH by (auto simp: p)
  qed
qed simp

lemma resumeAdd_first:
  assumes "pendingOf type a = i # rest" and "limited type mode"
  shows "runningOf type (resumeAdd mode i a) = Suc (runningOf type a) \<and> pendingOf type (resumeAdd mode i a) = rest
    \<and> ae_control (resumeAdd mode i a) = ae_control a \<and> ae_regular (resumeAdd mode i a) = ae_regular a"
  using first_pending [OF assms(1) [unfolded pendingOf_def] assms(2)]
  by (auto simp: resumeAdd_def) (simp add: pendingOf_def)

lemma resumeAdds_other:
  assumes "\<not> limited type mode"
  shows "runningOf type (fold (resumeAdd mode) ids a) = runningOf type a
    \<and> pendingOf type (fold (resumeAdd mode) ids a) = pendingOf type a
    \<and> ae_control (fold (resumeAdd mode) ids a) = ae_control a \<and> ae_regular (fold (resumeAdd mode) ids a) = ae_regular a"
proof (induction ids arbitrary: a)
  case (Cons i ids)
  have "runningOf type (resumeAdd mode i a) = runningOf type a \<and> pendingOf type (resumeAdd mode i a) = pendingOf type a
      \<and> ae_control (resumeAdd mode i a) = ae_control a \<and> ae_regular (resumeAdd mode i a) = ae_regular a"
  proof (cases "find_index (\<lambda>(j, m). j = i \<and> queueTypeOf m = queueTypeOf mode) (ae_pending a)")
    case (Some k)
    from other_pending [OF this assms] Some show ?thesis by (auto simp: resumeAdd_def) (simp add: pendingOf_def)
  qed (simp add: resumeAdd_def)
  then show ?case using Cons.IH [of "resumeAdd mode i a"] by simp
qed simp

lemma filter_update:
  "i < length xs \<Longrightarrow> \<not> P y \<Longrightarrow> length (filter P xs) = length (filter P (xs[i := y])) + (if P (xs ! i) then 1 else 0)"
  by (induction xs arbitrary: i) (auto split: nat.split)

lemma filter_update_same:
  "i < length xs \<Longrightarrow> P y = P (xs ! i) \<Longrightarrow> length (filter P (xs[i := y])) = length (filter P xs)"
  by (induction xs arbitrary: i) (auto split: nat.split)

subsection \<open>The operations keep it\<close>

lemma limit_okE:
  assumes "limit_ok type limit a"
  obtains q where "cc_isEnabled (ae_control a)" "ae_regular a" "theQueue type (ae_control a) = Some q"
    "cq_capacity q = limit - int (runningOf type a) - int (length (cq_queue q))"
    "cq_queue q \<noteq> [] \<Longrightarrow> limit \<le> int (runningOf type a)" "int (runningOf type a) \<le> limit" "pendingOf type a = cq_queue q"
  using assms by (auto simp: limit_ok_def)

lemma limit_okI:
  assumes "cc_isEnabled (ae_control a)" "ae_regular a" "theQueue type (ae_control a) = Some q"
    "cq_capacity q = limit - int (runningOf type a) - int (length (cq_queue q))"
    "cq_queue q \<noteq> [] \<longrightarrow> limit \<le> int (runningOf type a)" "int (runningOf type a) \<le> limit" "pendingOf type a = cq_queue q"
  shows "limit_ok type limit a"
  using assms by (simp add: limit_ok_def)

lemma addExecution_ok:
  assumes ok: "limit_ok type limit a" and add: "addExecution mode i isNew a = Inr a'"
  shows "limit_ok type limit a'"
proof -
  obtain q where q: "cc_isEnabled (ae_control a)" "ae_regular a" "theQueue type (ae_control a) = Some q"
    and cap: "cq_capacity q = limit - int (runningOf type a) - int (length (cq_queue q))"
    and full: "cq_queue q \<noteq> [] \<Longrightarrow> limit \<le> int (runningOf type a)" and lim: "int (runningOf type a) \<le> limit"
    and pend: "pendingOf type a = cq_queue q"
    using limit_okE [OF ok] by metis
  obtain events c where c: "onQueue mode (queueEnqueue i) (ae_control a) = Inr (events, c)"
    and a': "a' = (if ExecutionThrottled i \<in> set events then a\<lparr>ae_control := c, ae_pending := ae_pending a @ [(i, mode)]\<rparr>
      else completeAdd i mode (a\<lparr>ae_control := c\<rparr>))"
    using add q(2) by (auto simp: addExecution_def throttle_def rbind_Inr_iff Let_def split: if_splits)
  show ?thesis
  proof (cases "limited type mode")
    case False
    then have "cc_isEnabled c" "theQueue type c = Some q" using onQueue_other [OF c q(1,3)] by auto
    then show ?thesis
      unfolding a' by (intro limit_okI [of _ _ q]) (use False q cap full lim pend in \<open>auto simp: pendingOf_def\<close>)
  next
    case True
    then obtain q' where c': "cc_isEnabled c" "theQueue type c = Some q'" "queueEnqueue i q = (events, q')"
      using onQueue_limited [OF c q(1,3)] by auto
    show ?thesis
    proof (cases "cq_capacity q - 1 < 0")
      case full': True
      have q': "q' = \<lparr>cq_capacity = cq_capacity q - 1, cq_queue = cq_queue q @ [i]\<rparr>" "ExecutionThrottled i \<in> set events"
        using c'(3) full' by (auto simp: queueEnqueue_def Let_def)
      have "limit \<le> int (runningOf type a)" using full' cap full by (cases "cq_queue q") auto
      then show ?thesis
        unfolding a' by (intro limit_okI [of _ _ q']) (use True c' q' q cap lim pend in \<open>auto simp: pendingOf_def\<close>)
    next
      case False
      have q': "q' = q\<lparr>cq_capacity := cq_capacity q - 1\<rparr>" "ExecutionThrottled i \<notin> set events"
        using c'(3) False by (auto simp: queueEnqueue_def Let_def)
      have "cq_queue q = []" using False cap full by fastforce
      then show ?thesis
        unfolding a' by (intro limit_okI [of _ _ q']) (use True c' q' q cap False lim pend in auto)
    qed
  qed
qed

lemma settle_ok:
  assumes ok: "limit_ok type limit a" and s: "settle object a = Inr a'"
  shows "limit_ok type limit a'"
proof (cases "\<exists>e. arr_get (ae_objects a) object = Some e \<and> \<not> ew_settled e")
  case False
  then have "a' = a" using s by (auto simp: settle_def split: option.splits)
  then show ?thesis using ok by simp
next
  case True
  then obtain e where e: "arr_get (ae_objects a) object = Some e" "\<not> ew_settled e" by blast
  then have e': "object < length (ae_objects a)" "ae_objects a ! object = e" by (auto simp: arr_get_def split: if_splits)
  obtain q where q: "cc_isEnabled (ae_control a)" "ae_regular a" "theQueue type (ae_control a) = Some q"
    and cap: "cq_capacity q = limit - int (runningOf type a) - int (length (cq_queue q))"
    and full: "cq_queue q \<noteq> [] \<Longrightarrow> limit \<le> int (runningOf type a)" and lim: "int (runningOf type a) \<le> limit"
    and pend: "pendingOf type a = cq_queue q"
    using limit_okE [OF ok] by metis
  define b where "b c = a\<lparr>ae_control := c, ae_objects := (ae_objects a)[object := e\<lparr>ew_settled := True\<rparr>],
    ae_active := (if ew_status e = StWaiting then ae_active a else jdel (ew_id e) (ae_active a))\<rparr>" for c
  obtain events c where c: "onQueue (ew_mode e) queueDequeue (ae_control a) = Inr (events, c)"
    and a': "a' = fold (resumeAdd (ew_mode e)) (releasedOf events) (b c)"
    using s e by (auto simp: settle_def release_def rbind_Inr_iff b_def)
  have b: "ae_control (b c) = c" "ae_regular (b c) = ae_regular a" "pendingOf type (b c) = pendingOf type a"
      "runningOf type a = runningOf type (b c) + (if limited type (ew_mode e) then 1 else 0)"
    using filter_update [OF e'(1), of "\<lambda>e. \<not> ew_settled e \<and> limited type (ew_mode e)" "e\<lparr>ew_settled := True\<rparr>"] e e'
    by (simp_all add: b_def runningOf_def pendingOf_def)
  show ?thesis
  proof (cases "limited type (ew_mode e)")
    case False
    then have "cc_isEnabled c" "theQueue type c = Some q" using onQueue_other [OF c q(1,3)] by auto
    then show ?thesis
      unfolding a' by (intro limit_okI [of _ _ q])
        (use False resumeAdds_other [OF False, of "releasedOf events" "b c"] b q cap full lim pend in auto)
  next
    case True
    then obtain q' where c': "cc_isEnabled c" "theQueue type c = Some q'" "queueDequeue q = (events, q')"
      using onQueue_limited [OF c q(1,3)] by auto
    show ?thesis
    proof (cases "cq_queue q")
      case Nil
      then have q': "q' = q\<lparr>cq_capacity := cq_capacity q + 1\<rparr>" "events = []"
        using c'(3) by (auto simp: queueDequeue_def resolveNext_def)
      show ?thesis
        unfolding a' by (intro limit_okI [of _ _ q']) (use True c' q' q b cap lim pend Nil in auto)
    next
      case (Cons i rest)
      then have q': "q' = \<lparr>cq_capacity = cq_capacity q + 1, cq_queue = rest\<rparr>" "releasedOf events = [i]"
        using c'(3) by (auto simp: queueDequeue_def resolveNext_def)
      have "pendingOf type (b c) = i # rest" using pend Cons b by simp
      from resumeAdd_first [OF this True]
      show ?thesis
        unfolding a' q'(2) by (intro limit_okI [of _ _ q']) (use True c' q' q b cap full lim Cons in auto)
    qed
  qed
qed

lemma updateExecution_ok:
  assumes "limit_ok type limit a" and "updateExecution i f a = Inr a'"
    and "\<And>e. ew_settled (f e) = ew_settled e \<and> ew_mode (f e) = ew_mode e"
  shows "limit_ok type limit a'"
proof -
  obtain object where "jget (ae_active a) i = Some object"
    using assms(2) by (cases "jget (ae_active a) i") (auto simp: updateExecution_def)
  then have a': "a' = (case arr_get (ae_objects a) object of
      None \<Rightarrow> a | Some e \<Rightarrow> a\<lparr>ae_objects := (ae_objects a)[object := f e]\<rparr>)"
    using assms(2) by (simp add: updateExecution_def)
  have "runningOf type a' = runningOf type a"
    using filter_update_same [of object "ae_objects a" "\<lambda>e. \<not> ew_settled e \<and> limited type (ew_mode e)"] assms(3)
    by (auto simp: a' runningOf_def arr_get_def split: option.split if_splits)
  moreover have "ae_control a' = ae_control a" "ae_regular a' = ae_regular a" "pendingOf type a' = pendingOf type a"
    by (simp_all add: a' split: option.split)
  ultimately show ?thesis using assms(1) by (simp add: limit_ok_def)
qed

lemma limit_ok_active [simp]: "limit_ok type limit (a\<lparr>ae_active := m\<rparr>) = limit_ok type limit a"
  by (simp add: limit_ok_def)

lemma active_step_ok: "active_step a a' \<Longrightarrow> limit_ok type limit a \<Longrightarrow> limit_ok type limit a'"
proof (elim active_stepE, goal_cases)
  case (2 i)
  then show ?case using settle_ok by (auto simp: finalizeExecution_def split: option.splits)
next
  case (3 i)
  then show ?case using settle_ok by (auto simp: stopExecution_def split: option.splits if_splits)
qed (auto simp: setStatus_def attachResponsePromise_def intro: addExecution_ok updateExecution_ok)

interpretation active: transition_system active_step "limit_ok type limit" for type limit
  by unfold_locales (rule active_step_ok)

definition startExecutions :: "ConcurrencyControl \<Rightarrow> ActiveExecutions" where
  "startExecutions c = \<lparr>ae_control = c, ae_regular = True, ae_objects = [], ae_active = [], ae_pending = []\<rparr>"

text \<open>
  C12: in regular mode, at most as many executions of a limited kind are without a result as the limit says,
  whatever is added, finished, stopped while it runs or set to wait; more wait only when the limit is reached.
\<close>

theorem activeExecutions_limit:
  assumes "newConcurrencyControl productionLimit evaluationLimit False = Inr c"
    and "limit = (case type of Production \<Rightarrow> productionLimit | Evaluation \<Rightarrow> evaluationLimit)" and "0 < limit"
    and "active_step\<^sup>*\<^sup>* (startExecutions c) a"
  shows "int (runningOf type a) \<le> limit \<and> (pendingOf type a \<noteq> [] \<longrightarrow> int (runningOf type a) = limit)"
proof -
  have "cc_isEnabled c \<and> theQueue type c = Some (newQueue limit)"
    using newConcurrencyControl_enabled [OF assms(1)] assms(2,3) by (cases type) auto
  then have "limit_ok type limit (startExecutions c)"
    using assms(3)
    by (intro limit_okI [of _ _ "newQueue limit"]) (auto simp: startExecutions_def newQueue_def runningOf_def pendingOf_def)
  from limit_okE [OF active.inv_reachable [OF assms(4) this]] show ?thesis by (metis order_antisym)
qed

definition limit_one :: ConcurrencyControl where
  "limit_one = (case newConcurrencyControl 1 (-1) False of Inr c \<Rightarrow> c | Inl e \<Rightarrow> \<lparr>cc_isEnabled = False, cc_queues = None\<rparr>)"

definition two_added :: ActiveExecutions where
  "two_added = (case rbind (addExecution ModeWebhook ''e1'' True (startExecutions limit_one)) (addExecution ModeTrigger ''e2'' True) of
     Inr a \<Rightarrow> a | Inl e \<Rightarrow> startExecutions limit_one)"

theorem activeExecutions_limit_witness:
  "runningOf Production two_added = 1 \<and> pendingOf Production two_added = [''e2'']"
proof -
  define a where "a = (case addExecution ModeWebhook ''e1'' True (startExecutions limit_one) of Inr a \<Rightarrow> a | Inl e \<Rightarrow> two_added)"
  have "addExecution ModeWebhook ''e1'' True (startExecutions limit_one) = Inr a" unfolding a_def by code_simp
  moreover have "addExecution ModeTrigger ''e2'' True a = Inr two_added" unfolding a_def by code_simp
  ultimately have steps: "active_step\<^sup>*\<^sup>* (startExecutions limit_one) two_added"
    by (meson active_step.intros(1) rtranclp.rtrancl_into_rtrancl rtranclp.rtrancl_refl)
  have new: "newConcurrencyControl 1 (-1) False = Inr limit_one" by code_simp
  have "int (runningOf Production two_added) \<le> 1
      \<and> (pendingOf Production two_added \<noteq> [] \<longrightarrow> int (runningOf Production two_added) = 1)"
    by (rule activeExecutions_limit [OF new _ _ steps]) simp_all
  moreover have "pendingOf Production two_added = [''e2'']" by code_simp
  ultimately show ?thesis by simp
qed

subsection \<open>The shutdown\<close>

lemma settle_disabled:
  assumes "settle object a = Inr a'" and "\<not> cc_isEnabled (ae_control a)"
  shows "ae_control a' = ae_control a"
  using assms
  by (auto simp: settle_def release_def onQueue_def rbind_Inr_iff split: option.splits if_splits)

lemma shutdownOne_disabled:
  assumes "shutdownOne cancelAll i p = Inr p'" and "\<not> cc_isEnabled (ae_control (snd p))"
  shows "ae_control (snd p') = ae_control (snd p)"
proof -
  have "stopExecution i a = Inr a' \<Longrightarrow> \<not> cc_isEnabled (ae_control a) \<Longrightarrow> ae_control a' = ae_control a" for a a'
    using settle_disabled by (auto simp: stopExecution_def split: option.splits if_splits)
  then show ?thesis
    using assms by (auto simp: shutdownOne_def rbind_Inr_iff split: prod.splits option.splits if_splits)
qed

text \<open>
  C15: a shutdown in regular mode cancels no execution in the database and leaves the queues as they are,
  although it collects the executions to cancel: the control was disabled before \<open>removeAll\<close> is called.
\<close>

theorem shutdown_cancels_nothing:
  assumes "shutdown cancelAll a = Inr (cancelled, a')" and "ae_regular a"
  shows "cancelled = [] \<and> cc_queues (ae_control a') = cc_queues (ae_control a)"
proof -
  obtain p where p: "rfold (shutdownOne cancelAll) (own_keys (ae_active a))
      ([], a\<lparr>ae_control := disable (ae_control a)\<rparr>) = Inr p"
    and r: "(case p of (toCancel, b) \<Rightarrow> case removeAllThrottled toCancel (ae_control b) of (events, cancelled, c) \<Rightarrow>
        Inr (cancelled, b\<lparr>ae_control := c\<rparr>)) = (Inr (cancelled, a') :: _ res)"
    using assms unfolding shutdown_def Let_def by (auto simp: rbind_Inr_iff simp del: rfold.simps)
  have "ae_control (snd p) = disable (ae_control a)"
    by (rule rfold_invariant [where I = "\<lambda>p. ae_control (snd p) = disable (ae_control a)", OF p])
      (auto dest: shutdownOne_disabled simp: disable_def)
  then show ?thesis
    using r removeAllThrottled_disabled [of "fst p" "ae_control a"] by (auto simp: disable_def split: prod.splits)
qed

definition shut_down :: "string list \<times> ActiveExecutions" where
  "shut_down = (case shutdown True two_added of Inr p \<Rightarrow> p | Inl e \<Rightarrow> ([''?''], two_added))"

theorem shutdown_cancels_nothing_witness:
  "fst shut_down = [] \<and> cc_queues (ae_control (snd shut_down)) = cc_queues (ae_control two_added)"
proof (rule shutdown_cancels_nothing)
  show "shutdown True two_added = Inr (fst shut_down, snd shut_down)" by code_simp
  show "ae_regular two_added" by code_simp
qed

end
