(* ===== verification/TaskBroker.thy ===== *)
theory TaskBroker
  imports JsPrelude
begin

section \<open>The task broker\<close>

text \<open>
  The class \<open>TaskBroker\<close> of \<open>packages/cli/src/task-runners/task-broker/task-broker.service.ts\<close>: it matches
  the requests of requesters with the offers of task runners, and passes messages between the two while a
  task runs.  \<open>acceptOffer\<close> is asynchronous; its two waiting points are the maps \<open>tb_accepting\<close> (for the
  runner) and \<open>tb_readying\<close> (for the requester).  The handlers of results wait for the callback of the
  requester before they delete the task (\<open>tb_finishing\<close>, one entry per waiting handler), and the timeout of a
  task waits for the callback of an external runner (\<open>tb_timingOut\<close>).  Callbacks return: none rejects.  A request is an object that the list of pending requests
  and a waiting \<open>acceptOffer\<close> share, so requests have numbers.  A message is handed to the callback at once; the log
  \<open>tb_sent\<close> has what was sent, and the exceptions nobody handles.  Task ids come from \<open>nanoid\<close>, a parameter.
\<close>

record TaskRunner =
  rn_id :: string
  rn_taskTypes :: "string list"

record Task =
  tk_id :: string
  tk_runnerId :: string
  tk_requesterId :: string
  tk_taskType :: string
  tk_timeout :: bool

record TaskOffer =
  of_offerId :: string
  of_runnerId :: string
  of_taskType :: string
  of_validFor :: int
  of_validUntil :: int

record TaskRequest =
  tr_requestId :: string
  tr_requesterId :: string
  tr_taskType :: string
  tr_timeout :: bool
  tr_acceptInProgress :: bool

subsection \<open>Messages\<close>

text \<open>Data, settings and errors that are only passed on are of type \<open>'d\<close>.\<close>

datatype 'd ToRunner =
    RunnerRegistered
  | TaskOfferAccept string string
  | TaskCancel string string
  | SendTaskSettings string 'd
  | RPCResponse string string 'd
  | TaskDataResponse string string 'd
  | NodeTypesResponse string string 'd

datatype 'd ToRequester =
    TaskReady string string
  | TaskDone string 'd
  | TaskError string "'d + js_error"
  | RequestExpired string
  | TaskDataRequest string string 'd
  | NodeTypesRequest string string 'd
  | RPC string string 'd

datatype 'd Sent = SentToRunner string "'d ToRunner" | SentToRequester string "'d ToRequester" | Unhandled js_error

datatype 'd RunnerMessage =
    RunnerInfo
  | RunnerAccepted string
  | RunnerRejected string string
  | RunnerDeferred string
  | RunnerOffer string string int
  | RunnerDone string 'd
  | RunnerError string 'd
  | RunnerDataRequest string string 'd
  | RunnerNodeTypesRequest string string 'd
  | RunnerRpc string string 'd

datatype 'd RequesterMessage =
    RequesterSettings string 'd
  | RequesterCancel string string
  | RequesterRequest string string
  | RequesterDataResponse string string 'd
  | RequesterNodeTypes string string 'd
  | RequesterRpcResponse string string 'd

record 'd TaskBroker =
  tb_knownRunners :: "(string, TaskRunner) jmap"
  tb_requesters :: "string list"
  tb_tasks :: "(string, Task) jmap"
  tb_runnerAcceptRejects :: "string list"
  tb_requesterAcceptRejects :: "string list"
  tb_pendingTaskOffers :: "TaskOffer list"
  tb_pendingTaskRequests :: "nat list"
  tb_requests :: "TaskRequest list"
  tb_accepting :: "(string, TaskOffer \<times> nat) jmap"
  tb_readying :: "(string, nat) jmap"
  tb_finishing :: "string list"
  tb_timingOut :: "string list"
  tb_sent :: "'d Sent list"
  tb_counter :: nat
  tb_internal :: bool

definition newBroker :: "bool \<Rightarrow> 'd TaskBroker" where
  "newBroker internal = \<lparr>tb_knownRunners = [], tb_requesters = [], tb_tasks = [], tb_runnerAcceptRejects = [],
     tb_requesterAcceptRejects = [], tb_pendingTaskOffers = [], tb_pendingTaskRequests = [], tb_requests = [],
     tb_accepting = [], tb_readying = [], tb_finishing = [], tb_timingOut = [], tb_sent = [], tb_counter = 0, tb_internal = internal\<rparr>"

definition messageRunner :: "string \<Rightarrow> 'd ToRunner \<Rightarrow> 'd TaskBroker \<Rightarrow> 'd TaskBroker" where
  "messageRunner runnerId m b = (if jhas (tb_knownRunners b) runnerId
     then b\<lparr>tb_sent := tb_sent b @ [SentToRunner runnerId m]\<rparr> else b)"

definition messageRequester :: "string \<Rightarrow> 'd ToRequester \<Rightarrow> 'd TaskBroker \<Rightarrow> 'd TaskBroker" where
  "messageRequester requesterId m b = (if requesterId \<in> set (tb_requesters b)
     then b\<lparr>tb_sent := tb_sent b @ [SentToRequester requesterId m]\<rparr> else b)"

definition unhandled :: "js_error \<Rightarrow> 'd TaskBroker \<Rightarrow> 'd TaskBroker" where
  "unhandled e b = b\<lparr>tb_sent := tb_sent b @ [Unhandled e]\<rparr>"

definition updateRequest :: "nat \<Rightarrow> (TaskRequest \<Rightarrow> TaskRequest) \<Rightarrow> 'd TaskBroker \<Rightarrow> 'd TaskBroker" where
  "updateRequest r f b = (case arr_get (tb_requests b) r of
      None \<Rightarrow> b | Some request \<Rightarrow> b\<lparr>tb_requests := (tb_requests b)[r := f request]\<rparr>)"

subsection \<open>Ending tasks\<close>

definition cancelTask :: "string \<Rightarrow> string \<Rightarrow> 'd TaskBroker \<Rightarrow> 'd TaskBroker" where
  "cancelTask taskId reason b = (case jget (tb_tasks b) taskId of
      None \<Rightarrow> b
    | Some task \<Rightarrow> messageRunner (tk_runnerId task) (TaskCancel taskId reason) (b\<lparr>tb_tasks := jdel taskId (tb_tasks b)\<rparr>))"

definition failTask :: "string \<Rightarrow> js_error \<Rightarrow> 'd TaskBroker \<Rightarrow> 'd TaskBroker" where
  "failTask taskId e b = (case jget (tb_tasks b) taskId of
      None \<Rightarrow> b
    | Some task \<Rightarrow> messageRequester (tk_requesterId task) (TaskError taskId (Inr e)) (b\<lparr>tb_tasks := jdel taskId (tb_tasks b)\<rparr>))"

text \<open>
  A result clears the timer of the task and goes to the requester, if that is still registered; the handler then
  waits for the requester's callback, and the task is still known until \<open>finishHandler\<close>.
\<close>

definition deliverResult :: "Task \<Rightarrow> string \<Rightarrow> 'd ToRequester \<Rightarrow> 'd TaskBroker \<Rightarrow> 'd TaskBroker" where
  "deliverResult task taskId m b = messageRequester (tk_requesterId task) m
     (b\<lparr>tb_tasks := jput taskId (task\<lparr>tk_timeout := False\<rparr>) (tb_tasks b), tb_finishing := tb_finishing b @ [tk_id task]\<rparr>)"

definition taskDoneHandler :: "string \<Rightarrow> 'd \<Rightarrow> 'd TaskBroker \<Rightarrow> 'd TaskBroker" where
  "taskDoneHandler taskId data b = (case jget (tb_tasks b) taskId of
      None \<Rightarrow> b | Some task \<Rightarrow> deliverResult task taskId (TaskDone (tk_id task) data) b)"

definition taskErrorHandler :: "string \<Rightarrow> 'd + js_error \<Rightarrow> 'd TaskBroker \<Rightarrow> 'd TaskBroker" where
  "taskErrorHandler taskId e b = (case jget (tb_tasks b) taskId of
      None \<Rightarrow> b | Some task \<Rightarrow> deliverResult task taskId (TaskError (tk_id task) e) b)"

text \<open>The callback of the requester has returned to one of the waiting handlers of \<open>taskId\<close>.\<close>

definition finishHandler :: "string \<Rightarrow> 'd TaskBroker \<Rightarrow> 'd TaskBroker" where
  "finishHandler taskId b = (if taskId \<in> set (tb_finishing b)
     then b\<lparr>tb_finishing := remove1 taskId (tb_finishing b), tb_tasks := jdel taskId (tb_tasks b)\<rparr> else b)"

text \<open>The runner of a task; without a task or a runner an exception, the latter after failing the task.\<close>

definition getRunnerOrFailTask :: "string \<Rightarrow> 'd TaskBroker \<Rightarrow> TaskRunner res \<times> 'd TaskBroker" where
  "getRunnerOrFailTask taskId b = (case jget (tb_tasks b) taskId of
      None \<Rightarrow> (Inl (UnexpectedError ''Cannot find runner, failed to find task''), b)
    | Some task \<Rightarrow> (case jget (tb_knownRunners b) (tk_runnerId task) of
        None \<Rightarrow> let e = UnexpectedError ''Cannot find runner, failed to find runner'' in (Inl e, failTask taskId e b)
      | Some runner \<Rightarrow> (Inr runner, b)))"

subsection \<open>Accepting an offer\<close>

text \<open>After the requester has sent the settings; an exception cancels the task and is not handled.\<close>

definition sendTaskSettings :: "string \<Rightarrow> 'd \<Rightarrow> 'd TaskBroker \<Rightarrow> js_error option \<times> 'd TaskBroker" where
  "sendTaskSettings taskId settings b = (case getRunnerOrFailTask taskId b of
      (Inl e, b) \<Rightarrow> (Some e, b)
    | (Inr runner, b) \<Rightarrow> (case jget (tb_tasks b) taskId of
        None \<Rightarrow> (None, b)
      | Some task \<Rightarrow> (None, messageRunner (rn_id runner) (SendTaskSettings taskId settings)
          (b\<lparr>tb_tasks := jput taskId (task\<lparr>tk_timeout := True\<rparr>) (tb_tasks b)\<rparr>))))"

definition acceptSettings :: "string \<Rightarrow> 'd \<Rightarrow> 'd TaskBroker \<Rightarrow> 'd TaskBroker" where
  "acceptSettings taskId settings b = (case sendTaskSettings taskId settings b of
      (None, b) \<Rightarrow> b
    | (Some e, b) \<Rightarrow> unhandled e (cancelTask taskId ''Unknown reason'' b))"

text \<open>After the runner has accepted: the request leaves the list, and the requester is asked for the settings.\<close>

definition acceptedByRunner :: "string \<Rightarrow> TaskOffer \<Rightarrow> nat \<Rightarrow> 'd TaskBroker \<Rightarrow> 'd TaskBroker" where
  "acceptedByRunner taskId offer r b = (case arr_get (tb_requests b) r of
      None \<Rightarrow> b
    | Some request \<Rightarrow>
        let b = (updateRequest r (\<lambda>q. q\<lparr>tr_timeout := False\<rparr>) b)\<lparr>tb_tasks := jput taskId \<lparr>tk_id = taskId,
              tk_runnerId = of_runnerId offer, tk_requesterId = tr_requesterId request,
              tk_taskType = of_taskType offer, tk_timeout = False\<rparr> (tb_tasks b)\<rparr>
        in case find_index (\<lambda>p. map_option tr_requestId (arr_get (tb_requests b) p) = Some (tr_requestId request))
              (tb_pendingTaskRequests b) of
          None \<Rightarrow> b
        | Some index \<Rightarrow> messageRequester (tr_requesterId request) (TaskReady (tr_requestId request) taskId)
            (b\<lparr>tb_pendingTaskRequests := splice1 index (tb_pendingTaskRequests b),
               tb_requesterAcceptRejects := sadd taskId (tb_requesterAcceptRejects b),
               tb_readying := jput taskId r (tb_readying b)\<rparr>))"

definition acceptOffer :: "(nat \<Rightarrow> string) \<Rightarrow> TaskOffer \<Rightarrow> nat \<Rightarrow> 'd TaskBroker \<Rightarrow> 'd TaskBroker" where
  "acceptOffer nanoid offer r b =
     (let taskId = nanoid (tb_counter b)
      in messageRunner (of_runnerId offer) (TaskOfferAccept (of_offerId offer) taskId)
        (b\<lparr>tb_counter := Suc (tb_counter b), tb_runnerAcceptRejects := sadd taskId (tb_runnerAcceptRejects b),
           tb_accepting := jput taskId (offer, r) (tb_accepting b)\<rparr>))"

subsection \<open>Matching requests and offers\<close>

definition expireTasks :: "int \<Rightarrow> 'd TaskBroker \<Rightarrow> 'd TaskBroker" where
  "expireTasks now b = b\<lparr>tb_pendingTaskOffers := filter (\<lambda>offer. of_validFor offer = -1 \<or> \<not> of_validUntil offer < now)
     (tb_pendingTaskOffers b)\<rparr>"

definition settleRequest :: "(nat \<Rightarrow> string) \<Rightarrow> nat \<Rightarrow> 'd TaskBroker \<Rightarrow> 'd TaskBroker" where
  "settleRequest nanoid r b = (case arr_get (tb_requests b) r of
      None \<Rightarrow> b
    | Some request \<Rightarrow> if tr_acceptInProgress request then b
        else (case find_index (\<lambda>offer. of_taskType offer = tr_taskType request) (tb_pendingTaskOffers b) of
            None \<Rightarrow> b
          | Some offerIndex \<Rightarrow>
              let offer = tb_pendingTaskOffers b ! offerIndex
              in acceptOffer nanoid offer r (updateRequest r (\<lambda>q. q\<lparr>tr_acceptInProgress := True\<rparr>)
                (b\<lparr>tb_pendingTaskOffers := splice1 offerIndex (tb_pendingTaskOffers b)\<rparr>))))"

definition settleTasks :: "(nat \<Rightarrow> string) \<Rightarrow> int \<Rightarrow> 'd TaskBroker \<Rightarrow> 'd TaskBroker" where
  "settleTasks nanoid now b = (let b = expireTasks now b in fold (settleRequest nanoid) (tb_pendingTaskRequests b) b)"

definition taskRequested :: "(nat \<Rightarrow> string) \<Rightarrow> int \<Rightarrow> TaskRequest \<Rightarrow> 'd TaskBroker \<Rightarrow> 'd TaskBroker" where
  "taskRequested nanoid now request b = settleTasks nanoid now
     (b\<lparr>tb_requests := tb_requests b @ [request], tb_pendingTaskRequests := tb_pendingTaskRequests b @ [length (tb_requests b)]\<rparr>)"

definition taskOffered :: "(nat \<Rightarrow> string) \<Rightarrow> int \<Rightarrow> TaskOffer \<Rightarrow> 'd TaskBroker \<Rightarrow> 'd TaskBroker" where
  "taskOffered nanoid now offer b = settleTasks nanoid now (b\<lparr>tb_pendingTaskOffers := tb_pendingTaskOffers b @ [offer]\<rparr>)"

subsection \<open>Answers to offers\<close>

text \<open>The \<open>acceptOffer\<close> that waits for the runner goes on with \<open>f\<close>, unless it gave up already.\<close>

definition resumeAccepting :: "string \<Rightarrow> (TaskOffer \<Rightarrow> nat \<Rightarrow> 'd TaskBroker \<Rightarrow> 'd TaskBroker) \<Rightarrow> 'd TaskBroker \<Rightarrow> 'd TaskBroker" where
  "resumeAccepting taskId f b = (case jget (tb_accepting b) taskId of
      None \<Rightarrow> b | Some (offer, r) \<Rightarrow> f offer r (b\<lparr>tb_accepting := jdel taskId (tb_accepting b)\<rparr>))"

definition answerOffer :: "string \<Rightarrow> (TaskOffer \<Rightarrow> nat \<Rightarrow> 'd TaskBroker \<Rightarrow> 'd TaskBroker) \<Rightarrow> 'd TaskBroker \<Rightarrow> 'd TaskBroker" where
  "answerOffer taskId f b = (if taskId \<in> set (tb_runnerAcceptRejects b)
     then resumeAccepting taskId f (b\<lparr>tb_runnerAcceptRejects := sdel taskId (tb_runnerAcceptRejects b)\<rparr>) else b)"

definition notAccepted :: "TaskOffer \<Rightarrow> nat \<Rightarrow> 'd TaskBroker \<Rightarrow> 'd TaskBroker" where
  "notAccepted offer r = updateRequest r (\<lambda>q. q\<lparr>tr_acceptInProgress := False\<rparr>)"

definition handleRunnerAccept :: "string \<Rightarrow> 'd TaskBroker \<Rightarrow> 'd TaskBroker" where
  "handleRunnerAccept taskId = answerOffer taskId (acceptedByRunner taskId)"

definition handleRunnerReject :: "string \<Rightarrow> string \<Rightarrow> 'd TaskBroker \<Rightarrow> 'd TaskBroker" where
  "handleRunnerReject taskId reason = answerOffer taskId notAccepted"

text \<open>A deferred request gets a new timeout and is added to the pending requests again.\<close>

definition deferredByRunner :: "TaskOffer \<Rightarrow> nat \<Rightarrow> 'd TaskBroker \<Rightarrow> 'd TaskBroker" where
  "deferredByRunner offer r b =
     (updateRequest r (\<lambda>q. q\<lparr>tr_acceptInProgress := False, tr_timeout := True\<rparr>) b)
       \<lparr>tb_pendingTaskRequests := tb_pendingTaskRequests b @ [r]\<rparr>"

definition handleRunnerDeferred :: "string \<Rightarrow> 'd TaskBroker \<Rightarrow> 'd TaskBroker" where
  "handleRunnerDeferred taskId = answerOffer taskId deferredByRunner"

text \<open>The runner did not answer in time; the entry for its answer stays.\<close>

definition runnerAcceptTimeout :: "string \<Rightarrow> 'd TaskBroker \<Rightarrow> 'd TaskBroker" where
  "runnerAcceptTimeout taskId = resumeAccepting taskId notAccepted"

subsection \<open>Answers of requesters\<close>

definition resumeReadying :: "string \<Rightarrow> ('d TaskBroker \<Rightarrow> 'd TaskBroker) \<Rightarrow> 'd TaskBroker \<Rightarrow> 'd TaskBroker" where
  "resumeReadying taskId f b = (if jhas (tb_readying b) taskId then f (b\<lparr>tb_readying := jdel taskId (tb_readying b)\<rparr>) else b)"

definition answerReady :: "string \<Rightarrow> ('d TaskBroker \<Rightarrow> 'd TaskBroker) \<Rightarrow> 'd TaskBroker \<Rightarrow> 'd TaskBroker" where
  "answerReady taskId f b = (if taskId \<in> set (tb_requesterAcceptRejects b)
     then resumeReadying taskId f (b\<lparr>tb_requesterAcceptRejects := sdel taskId (tb_requesterAcceptRejects b)\<rparr>) else b)"

definition handleRequesterAccept :: "string \<Rightarrow> 'd \<Rightarrow> 'd TaskBroker \<Rightarrow> 'd TaskBroker" where
  "handleRequesterAccept taskId settings = answerReady taskId (acceptSettings taskId settings)"

definition handleRequesterReject :: "string \<Rightarrow> string \<Rightarrow> 'd TaskBroker \<Rightarrow> 'd TaskBroker" where
  "handleRequesterReject taskId reason = answerReady taskId (cancelTask taskId reason)"

definition requesterAcceptTimeout :: "string \<Rightarrow> 'd TaskBroker \<Rightarrow> 'd TaskBroker" where
  "requesterAcceptTimeout taskId = resumeReadying taskId (\<lambda>b.
     unhandled (NamedError '''' ''Requester timed out'') (cancelTask taskId ''Unknown reason'' b))"

subsection \<open>Messages about running tasks\<close>

text \<open>A request of the runner goes to the requester of the task.\<close>

definition forwardToRequester :: "string \<Rightarrow> 'd ToRequester \<Rightarrow> 'd TaskBroker \<Rightarrow> 'd TaskBroker" where
  "forwardToRequester taskId m b = (case jget (tb_tasks b) taskId of
      None \<Rightarrow> b | Some task \<Rightarrow> messageRequester (tk_requesterId task) m b)"

definition handleDataRequest :: "string \<Rightarrow> string \<Rightarrow> 'd \<Rightarrow> 'd TaskBroker \<Rightarrow> 'd TaskBroker" where
  "handleDataRequest taskId requestId params = forwardToRequester taskId (TaskDataRequest taskId requestId params)"

definition handleNodeTypesRequest :: "string \<Rightarrow> string \<Rightarrow> 'd \<Rightarrow> 'd TaskBroker \<Rightarrow> 'd TaskBroker" where
  "handleNodeTypesRequest taskId requestId params = forwardToRequester taskId (NodeTypesRequest taskId requestId params)"

definition handleRpcRequest :: "string \<Rightarrow> string \<Rightarrow> 'd \<Rightarrow> 'd TaskBroker \<Rightarrow> 'd TaskBroker" where
  "handleRpcRequest taskId callId call = forwardToRequester taskId (RPC taskId callId call)"

text \<open>\<open>handleResponse\<close> sends to a runner with the id of the requester.\<close>

definition handleResponse :: "string \<Rightarrow> string \<Rightarrow> 'd \<Rightarrow> 'd TaskBroker \<Rightarrow> 'd TaskBroker" where
  "handleResponse taskId requestId data b = (case jget (tb_tasks b) taskId of
      None \<Rightarrow> b | Some task \<Rightarrow> messageRunner (tk_requesterId task) (TaskDataResponse taskId requestId data) b)"

text \<open>A response of the requester goes to the runner of the task; without a task the exception reaches the caller.\<close>

definition forwardToRunner :: "string \<Rightarrow> 'd ToRunner \<Rightarrow> 'd TaskBroker \<Rightarrow> 'd TaskBroker" where
  "forwardToRunner taskId m b = (case getRunnerOrFailTask taskId b of
      (Inl e, b) \<Rightarrow> unhandled e b
    | (Inr runner, b) \<Rightarrow> messageRunner (rn_id runner) m b)"

definition handleRequesterDataResponse :: "string \<Rightarrow> string \<Rightarrow> 'd \<Rightarrow> 'd TaskBroker \<Rightarrow> 'd TaskBroker" where
  "handleRequesterDataResponse taskId requestId data = forwardToRunner taskId (TaskDataResponse taskId requestId data)"

definition handleRequesterNodeTypesResponse :: "string \<Rightarrow> string \<Rightarrow> 'd \<Rightarrow> 'd TaskBroker \<Rightarrow> 'd TaskBroker" where
  "handleRequesterNodeTypesResponse taskId requestId nodeTypes = forwardToRunner taskId (NodeTypesResponse taskId requestId nodeTypes)"

definition handleRequesterRpcResponse :: "string \<Rightarrow> string \<Rightarrow> 'd \<Rightarrow> 'd TaskBroker \<Rightarrow> 'd TaskBroker" where
  "handleRequesterRpcResponse taskId callId result = forwardToRunner taskId (RPCResponse taskId callId result)"

subsection \<open>Timeouts\<close>

text \<open>The timeout of a request: it is removed wherever it stands, also while an offer for it is being accepted.\<close>

definition handleRequestTimeout :: "string \<Rightarrow> 'd TaskBroker \<Rightarrow> 'd TaskBroker" where
  "handleRequestTimeout requestId b =
     (case find_index (\<lambda>p. map_option tr_requestId (arr_get (tb_requests b) p) = Some requestId) (tb_pendingTaskRequests b) of
        None \<Rightarrow> b
      | Some requestIndex \<Rightarrow>
          let r = tb_pendingTaskRequests b ! requestIndex;
              b = updateRequest r (\<lambda>q. q\<lparr>tr_timeout := False\<rparr>)
                (b\<lparr>tb_pendingTaskRequests := splice1 requestIndex (tb_pendingTaskRequests b)\<rparr>)
          in case arr_get (tb_requests b) r of
               None \<Rightarrow> b
             | Some request \<Rightarrow> messageRequester (tr_requesterId request) (RequestExpired (tr_requestId request)) b)"

definition executionTimeoutError :: js_error where
  "executionTimeoutError = NamedError ''TaskRunnerExecutionTimeoutError'' ''Task execution timed out''"

text \<open>The timer of a task has fired.  An external runner is told to cancel, and the handler waits for its callback.\<close>

definition handleTaskTimeout :: "string \<Rightarrow> 'd TaskBroker \<Rightarrow> 'd TaskBroker" where
  "handleTaskTimeout taskId b = (case jget (tb_tasks b) taskId of
      None \<Rightarrow> b
    | Some task \<Rightarrow>
        let b = b\<lparr>tb_tasks := jput taskId (task\<lparr>tk_timeout := False\<rparr>) (tb_tasks b)\<rparr>
        in if tb_internal b then taskErrorHandler taskId (Inr executionTimeoutError) b
           else messageRunner (tk_runnerId task) (TaskCancel taskId ''Task execution timed out'')
             (b\<lparr>tb_timingOut := tb_timingOut b @ [taskId]\<rparr>))"

definition resumeTaskTimeout :: "string \<Rightarrow> 'd TaskBroker \<Rightarrow> 'd TaskBroker" where
  "resumeTaskTimeout taskId b = (if taskId \<in> set (tb_timingOut b)
     then taskErrorHandler taskId (Inr executionTimeoutError) (b\<lparr>tb_timingOut := remove1 taskId (tb_timingOut b)\<rparr>) else b)"

subsection \<open>Runners and requesters\<close>

definition registerRunner :: "TaskRunner \<Rightarrow> 'd TaskBroker \<Rightarrow> 'd TaskBroker" where
  "registerRunner runner b = messageRunner (rn_id runner) RunnerRegistered
     (b\<lparr>tb_knownRunners := jput (rn_id runner) runner (tb_knownRunners b)\<rparr>)"

definition deregisterRunner :: "string \<Rightarrow> js_error \<Rightarrow> 'd TaskBroker \<Rightarrow> 'd TaskBroker" where
  "deregisterRunner runnerId e b =
     (let b = b\<lparr>tb_knownRunners := jdel runnerId (tb_knownRunners b),
            tb_pendingTaskOffers := filter (\<lambda>offer. of_runnerId offer \<noteq> runnerId) (tb_pendingTaskOffers b)\<rparr>
      in fold (\<lambda>task b. if tk_runnerId task = runnerId
           then handleRunnerReject (tk_id task) ''The Task Runner has disconnected'' (failTask (tk_id task) e b) else b)
         (jvals (tb_tasks b)) b)"

definition registerRequester :: "string \<Rightarrow> 'd TaskBroker \<Rightarrow> 'd TaskBroker" where
  "registerRequester requesterId b = b\<lparr>tb_requesters := sadd requesterId (tb_requesters b)\<rparr>"

definition deregisterRequester :: "string \<Rightarrow> 'd TaskBroker \<Rightarrow> 'd TaskBroker" where
  "deregisterRequester requesterId b = b\<lparr>tb_requesters := sdel requesterId (tb_requesters b)\<rparr>"

subsection \<open>Dispatch\<close>

definition onRunnerMessage :: "(nat \<Rightarrow> string) \<Rightarrow> int \<Rightarrow> string \<Rightarrow> 'd RunnerMessage \<Rightarrow> 'd TaskBroker \<Rightarrow> 'd TaskBroker" where
  "onRunnerMessage nanoid now runnerId m b =
     (if \<not> jhas (tb_knownRunners b) runnerId then b
      else case m of
        RunnerAccepted taskId \<Rightarrow> handleRunnerAccept taskId b
      | RunnerRejected taskId reason \<Rightarrow> handleRunnerReject taskId reason b
      | RunnerDeferred taskId \<Rightarrow> handleRunnerDeferred taskId b
      | RunnerOffer offerId taskType validFor \<Rightarrow> taskOffered nanoid now \<lparr>of_offerId = offerId, of_runnerId = runnerId,
          of_taskType = taskType, of_validFor = validFor,
          of_validUntil = (if validFor = -1 then 0 else now + validFor * 1000000)\<rparr> b
      | RunnerDone taskId data \<Rightarrow> taskDoneHandler taskId data b
      | RunnerError taskId e \<Rightarrow> taskErrorHandler taskId (Inl e) b
      | RunnerDataRequest taskId requestId params \<Rightarrow> handleDataRequest taskId requestId params b
      | RunnerNodeTypesRequest taskId requestId params \<Rightarrow> handleNodeTypesRequest taskId requestId params b
      | RunnerRpc taskId callId call \<Rightarrow> handleRpcRequest taskId callId call b
      | RunnerInfo \<Rightarrow> b)"

definition onRequesterMessage :: "(nat \<Rightarrow> string) \<Rightarrow> int \<Rightarrow> string \<Rightarrow> 'd RequesterMessage \<Rightarrow> 'd TaskBroker \<Rightarrow> 'd TaskBroker" where
  "onRequesterMessage nanoid now requesterId m b = (case m of
      RequesterSettings taskId settings \<Rightarrow> handleRequesterAccept taskId settings b
    | RequesterCancel taskId reason \<Rightarrow> cancelTask taskId reason b
    | RequesterRequest requestId taskType \<Rightarrow> taskRequested nanoid now \<lparr>tr_requestId = requestId, tr_requesterId = requesterId,
        tr_taskType = taskType, tr_timeout = True, tr_acceptInProgress = False\<rparr> b
    | RequesterDataResponse taskId requestId data \<Rightarrow> handleRequesterDataResponse taskId requestId data b
    | RequesterNodeTypes taskId requestId nodeTypes \<Rightarrow> handleRequesterNodeTypesResponse taskId requestId nodeTypes b
    | RequesterRpcResponse taskId callId result \<Rightarrow> handleRequesterRpcResponse taskId callId result b)"

text \<open>What can happen to the broker.  The timer of a request runs until it is cleared.\<close>

inductive broker_step :: "(nat \<Rightarrow> string) \<Rightarrow> 'd TaskBroker \<Rightarrow> 'd TaskBroker \<Rightarrow> bool" for nanoid where
  runnerMessage: "broker_step nanoid b (onRunnerMessage nanoid now runnerId m b)"
| requesterMessage: "broker_step nanoid b (onRequesterMessage nanoid now requesterId m b)"
| runnerArrives: "broker_step nanoid b (registerRunner runner b)"
| runnerLeaves: "broker_step nanoid b (deregisterRunner runnerId e b)"
| requesterArrives: "broker_step nanoid b (registerRequester requesterId b)"
| requesterLeaves: "broker_step nanoid b (deregisterRequester requesterId b)"
| requestExpires: "arr_get (tb_requests b) r = Some request \<Longrightarrow> tr_timeout request
    \<Longrightarrow> broker_step nanoid b (handleRequestTimeout (tr_requestId request) b)"
| taskExpires: "jget (tb_tasks b) taskId = Some task \<Longrightarrow> tk_timeout task
    \<Longrightarrow> broker_step nanoid b (handleTaskTimeout taskId b)"
| requesterReturns: "broker_step nanoid b (finishHandler taskId b)"
| cancelSent: "broker_step nanoid b (resumeTaskTimeout taskId b)"
| runnerSilent: "broker_step nanoid b (runnerAcceptTimeout taskId b)"
| requesterSilent: "broker_step nanoid b (requesterAcceptTimeout taskId b)"

inductive_cases broker_stepE: "broker_step nanoid b b'"

end
