(* ===== verification/TaskResults.thy ===== *)
theory TaskResults
  imports TaskBroker TransitionSystem
begin

section \<open>Results of tasks\<close>

text \<open>
  While the broker knows a task, every result sent for it has a handler that still waits for the requester's
  callback; once the task is gone, no further result is sent.  The invariant ties the log to the tasks, to the
  waiting handlers and to the offers being accepted; it rests on fresh task ids (\<open>nanoid\<close> is injective).
  The set \<open>S\<close> lists tasks that are gone, with the number of results sent for them.
\<close>

fun isResult :: "string \<Rightarrow> 'd Sent \<Rightarrow> bool" where
  "isResult taskId (SentToRequester requesterId (TaskDone t data)) = (t = taskId)"
| "isResult taskId (SentToRequester requesterId (TaskError t e)) = (t = taskId)"
| "isResult taskId m = False"

definition results :: "string \<Rightarrow> 'd TaskBroker \<Rightarrow> nat" where
  "results taskId b = length (filter (isResult taskId) (tb_sent b))"

definition live :: "'d TaskBroker \<Rightarrow> string set" where
  "live b = fst ` set (tb_tasks b) \<union> fst ` set (tb_accepting b)"

text \<open>The handlers that have sent a result and wait for the callback.\<close>

definition handlers :: "string \<Rightarrow> 'd TaskBroker \<Rightarrow> nat" where
  "handlers taskId b = count_list (tb_finishing b) taskId"

definition issued :: "(nat \<Rightarrow> string) \<Rightarrow> 'd TaskBroker \<Rightarrow> string set" where
  "issued nanoid b = nanoid ` {..<tb_counter b}"

definition results_ok :: "(nat \<Rightarrow> string) \<Rightarrow> (string \<times> nat) set \<Rightarrow> 'd TaskBroker \<Rightarrow> bool" where
  "results_ok nanoid S b \<longleftrightarrow> (\<forall>t \<in> live b. results t b \<le> handlers t b)
     \<and> fst ` set (tb_tasks b) \<inter> fst ` set (tb_accepting b) = {}
     \<and> set (tb_finishing b) \<inter> fst ` set (tb_accepting b) = {}
     \<and> (\<forall>t. t \<in> live b \<or> t \<in> set (tb_finishing b) \<or> 0 < results t b \<longrightarrow> t \<in> issued nanoid b)
     \<and> (\<forall>t task. jget (tb_tasks b) t = Some task \<longrightarrow> tk_id task = t)
     \<and> (\<forall>(t, n) \<in> S. t \<in> issued nanoid b \<and> t \<notin> live b \<and> results t b = n)"

lemma results_okI:
  assumes "\<And>t. t \<in> live b \<Longrightarrow> results t b \<le> handlers t b"
    and "\<And>t. t \<in> fst ` set (tb_tasks b) \<Longrightarrow> t \<in> fst ` set (tb_accepting b) \<Longrightarrow> False"
    and "\<And>t. t \<in> set (tb_finishing b) \<Longrightarrow> t \<in> fst ` set (tb_accepting b) \<Longrightarrow> False"
    and "\<And>t. t \<in> live b \<or> t \<in> set (tb_finishing b) \<or> 0 < results t b \<Longrightarrow> t \<in> issued nanoid b"
    and "\<And>t task. jget (tb_tasks b) t = Some task \<Longrightarrow> tk_id task = t"
    and "\<And>t n. (t, n) \<in> S \<Longrightarrow> t \<in> issued nanoid b \<and> t \<notin> live b \<and> results t b = n"
  shows "results_ok nanoid S b"
  unfolding results_ok_def
proof (intro conjI ballI allI impI)
  show "fst ` set (tb_tasks b) \<inter> fst ` set (tb_accepting b) = {}" using assms(2) by blast
  show "set (tb_finishing b) \<inter> fst ` set (tb_accepting b) = {}" using assms(3) by blast
  show "case x of (t, n) \<Rightarrow> t \<in> issued nanoid b \<and> t \<notin> live b \<and> results t b = n" if "x \<in> S" for x
    using assms(6) that by (cases x) simp
qed (rule assms; assumption)+

lemma results_okD:
  assumes "results_ok nanoid S b"
  shows "t \<in> live b \<Longrightarrow> results t b \<le> handlers t b"
    and "t \<in> fst ` set (tb_tasks b) \<Longrightarrow> t \<notin> fst ` set (tb_accepting b)"
    and "t \<in> set (tb_finishing b) \<Longrightarrow> t \<notin> fst ` set (tb_accepting b)"
    and "t \<in> live b \<or> t \<in> set (tb_finishing b) \<or> 0 < results t b \<Longrightarrow> t \<in> issued nanoid b"
    and "jget (tb_tasks b) t = Some task \<Longrightarrow> tk_id task = t"
    and "(t, n) \<in> S \<Longrightarrow> t \<in> issued nanoid b \<and> t \<notin> live b \<and> results t b = n"
proof -
  note ok = assms [unfolded results_ok_def]
  show "t \<in> live b \<Longrightarrow> results t b \<le> handlers t b" using ok by simp
  show "t \<in> fst ` set (tb_tasks b) \<Longrightarrow> t \<notin> fst ` set (tb_accepting b)" using conjunct1 [OF conjunct2 [OF ok]] by blast
  show "t \<in> set (tb_finishing b) \<Longrightarrow> t \<notin> fst ` set (tb_accepting b)"
    using conjunct1 [OF conjunct2 [OF conjunct2 [OF ok]]] by blast
  show "t \<in> live b \<or> t \<in> set (tb_finishing b) \<or> 0 < results t b \<Longrightarrow> t \<in> issued nanoid b" using ok by (elim disjE) simp_all
  show "jget (tb_tasks b) t = Some task \<Longrightarrow> tk_id task = t" using ok by simp
  show "(t, n) \<in> S \<Longrightarrow> t \<in> issued nanoid b \<and> t \<notin> live b \<and> results t b = n" using ok by auto
qed

lemma live_tasks: "t \<in> fst ` set (tb_tasks b) \<Longrightarrow> t \<in> live b"
  by (simp add: live_def)

subsection \<open>Operations that send no result\<close>

definition quiet :: "'d TaskBroker \<Rightarrow> 'd TaskBroker \<Rightarrow> bool" where
  "quiet b b' \<longleftrightarrow> (\<forall>t. results t b' = results t b) \<and> tb_counter b' = tb_counter b \<and> tb_finishing b' = tb_finishing b
     \<and> fst ` set (tb_accepting b') \<subseteq> fst ` set (tb_accepting b)
     \<and> fst ` set (tb_tasks b') \<subseteq> fst ` set (tb_tasks b) \<union> (fst ` set (tb_accepting b) - fst ` set (tb_accepting b'))
     \<and> (\<forall>t task. jget (tb_tasks b') t = Some task \<longrightarrow> jget (tb_tasks b) t \<noteq> Some task \<longrightarrow>
         tk_id task = t \<or> (\<exists>old. jget (tb_tasks b) t = Some old \<and> tk_id task = tk_id old))"

lemma quiet_ok:
  assumes q: "quiet b b'" and ok: "results_ok nanoid S b"
  shows "results_ok nanoid S b'"
proof -
  have r: "results t b' = results t b" and h: "handlers t b' = handlers t b" for t
    using q by (simp_all add: quiet_def handlers_def)
  have acc: "fst ` set (tb_accepting b') \<subseteq> fst ` set (tb_accepting b)"
    and tasks: "fst ` set (tb_tasks b') \<subseteq> fst ` set (tb_tasks b) \<union> (fst ` set (tb_accepting b) - fst ` set (tb_accepting b'))"
    and counter: "issued nanoid b' = issued nanoid b" and fin: "tb_finishing b' = tb_finishing b"
    using q by (simp_all add: quiet_def issued_def)
  note old = results_okD [OF ok]
  have live: "t \<in> live b" if "t \<in> live b'" for t using that acc tasks unfolding live_def by blast
  show ?thesis
  proof (rule results_okI)
    show "results t b' \<le> handlers t b'" if "t \<in> live b'" for t using old(1) [OF live [OF that]] by (simp add: r h)
    show False if "t \<in> fst ` set (tb_tasks b')" "t \<in> fst ` set (tb_accepting b')" for t
      using that acc tasks old(2) [of t] by blast
    show False if "t \<in> set (tb_finishing b')" "t \<in> fst ` set (tb_accepting b')" for t
      using that acc old(3) [of t] unfolding fin by blast
    show "t \<in> issued nanoid b'" if "t \<in> live b' \<or> t \<in> set (tb_finishing b') \<or> 0 < results t b'" for t
      using that old(4) [of t] live [of t] unfolding counter fin r by blast
    show "t \<in> issued nanoid b' \<and> t \<notin> live b' \<and> results t b' = n" if "(t, n) \<in> S" for t n
      using old(6) [OF that] live [of t] by (auto simp: counter r)
    show "tk_id task = t" if "jget (tb_tasks b') t = Some task" for t task
    proof -
      have "jget (tb_tasks b) t \<noteq> Some task \<longrightarrow>
           tk_id task = t \<or> (\<exists>old. jget (tb_tasks b) t = Some old \<and> tk_id task = tk_id old)"
        using q that by (simp add: quiet_def)
      then show ?thesis using old(5) [of t] by metis
    qed
  qed
qed

lemma quiet_refl [simp]: "quiet b b"
  by (simp add: quiet_def)

text \<open>Only the log changes, by a message that is no result.\<close>

lemma quiet_message [simp]:
  "quiet b (messageRunner r m b')  = quiet b b'"
  "quiet b (unhandled e b') = quiet b b'"
  by (simp_all add: quiet_def messageRunner_def unhandled_def results_def)

lemma quiet_messageRequester [simp]:
  "(\<And>t. \<not> isResult t (SentToRequester r m)) \<Longrightarrow> quiet b (messageRequester r m b') = quiet b b'"
  by (simp add: quiet_def messageRequester_def results_def)

text \<open>Only fields change that do not matter.\<close>

lemma quiet_cong:
  "tb_sent b' = tb_sent b'' \<Longrightarrow> tb_counter b' = tb_counter b'' \<Longrightarrow> tb_accepting b' = tb_accepting b''
    \<Longrightarrow> tb_tasks b' = tb_tasks b'' \<Longrightarrow> tb_finishing b' = tb_finishing b'' \<Longrightarrow> quiet b b' = quiet b b''"
  by (simp add: quiet_def results_def)

lemma quiet_fields [simp]:
  "quiet b (b'\<lparr>tb_knownRunners := x1\<rparr>) = quiet b b'" "quiet b (b'\<lparr>tb_requesters := x2\<rparr>) = quiet b b'"
  "quiet b (b'\<lparr>tb_runnerAcceptRejects := x3\<rparr>) = quiet b b'" "quiet b (b'\<lparr>tb_requesterAcceptRejects := x4\<rparr>) = quiet b b'"
  "quiet b (b'\<lparr>tb_pendingTaskOffers := x5\<rparr>) = quiet b b'" "quiet b (b'\<lparr>tb_pendingTaskRequests := x6\<rparr>) = quiet b b'"
  "quiet b (b'\<lparr>tb_requests := x7\<rparr>) = quiet b b'" "quiet b (b'\<lparr>tb_readying := x8\<rparr>) = quiet b b'"
  "quiet b (b'\<lparr>tb_timingOut := x9\<rparr>) = quiet b b'"
  by (rule quiet_cong; simp)+

lemma quiet_updateRequest [simp]: "quiet b (updateRequest r f b') = quiet b b'"
  by (simp add: updateRequest_def split: option.split)

text \<open>Tasks and accepted offers may disappear.\<close>

lemma set_jdel: "fst ` set (jdel k m) \<subseteq> fst ` set m"
  by (auto simp: AList.delete_eq)

lemma quiet_jdel_tasks [simp]: "quiet b (b\<lparr>tb_tasks := jdel t (tb_tasks b)\<rparr>)"
  using set_jdel [of t "tb_tasks b"] by (auto simp: quiet_def results_def js_map_simps split: if_splits)

lemma quiet_jdel_accepting [simp]: "quiet b (b\<lparr>tb_accepting := jdel t (tb_accepting b)\<rparr>)"
  using set_jdel [of t "tb_accepting b"] by (auto simp: quiet_def results_def)

lemma quiet_cancelTask [simp]: "quiet b (cancelTask t reason b)"
  by (simp add: cancelTask_def split: option.split)

subsection \<open>Results\<close>

text \<open>A result of a task is sent and the task is forgotten.\<close>

definition ends :: "string \<Rightarrow> 'd TaskBroker \<Rightarrow> 'd TaskBroker \<Rightarrow> bool" where
  "ends t b b' \<longleftrightarrow> jhas (tb_tasks b) t \<and> (\<forall>s. results s b' = results s b + (if s = t then 1 else 0) \<or> results s b' = results s b)
     \<and> tb_counter b' = tb_counter b \<and> tb_accepting b' = tb_accepting b \<and> tb_tasks b' = jdel t (tb_tasks b)
     \<and> tb_finishing b' = tb_finishing b"

lemma ends_ok:
  assumes e: "ends t b b'" and ok: "results_ok nanoid S b"
  shows "results_ok nanoid S b'"
proof -
  have t: "t \<in> fst ` set (tb_tasks b)" using e by (simp add: ends_def jhas_iff)
  have tasks: "fst ` set (tb_tasks b') = fst ` set (tb_tasks b) - {t}" and acc: "tb_accepting b' = tb_accepting b"
    and counter: "issued nanoid b' = issued nanoid b" and fin: "tb_finishing b' = tb_finishing b"
    using e by (auto simp: ends_def AList.delete_eq issued_def)
  note old = results_okD [OF ok]
  have h: "handlers s b' = handlers s b" for s by (simp add: handlers_def fin)
  have live: "live b' = live b - {t}" using old(2) [OF t] tasks acc by (auto simp: live_def)
  have r: "results s b' = results s b" if "s \<noteq> t" for s
  proof -
    have "results s b' = results s b + (if s = t then 1 else 0) \<or> results s b' = results s b" using e by (simp add: ends_def)
    then show ?thesis using that by simp
  qed
  show ?thesis
  proof (rule results_okI)
    show "results s b' \<le> handlers s b'" if "s \<in> live b'" for s using old(1) [of s] that r [of s] by (simp add: live h)
    show False if "s \<in> fst ` set (tb_tasks b')" "s \<in> fst ` set (tb_accepting b')" for s
      using that old(2) [of s] unfolding tasks acc by blast
    show False if "s \<in> set (tb_finishing b')" "s \<in> fst ` set (tb_accepting b')" for s
      using that old(3) [of s] unfolding fin acc by blast
    show "s \<in> issued nanoid b'" if "s \<in> live b' \<or> s \<in> set (tb_finishing b') \<or> 0 < results s b'" for s
      using that old(4) [of s] old(4) [of t] r [of s] live_tasks [OF t] by (cases "s = t") (simp_all add: live fin counter)
    show "s \<in> issued nanoid b' \<and> s \<notin> live b' \<and> results s b' = n" if "(s, n) \<in> S" for s n
      using old(6) [OF that] r [of s] live_tasks [OF t] by (cases "s = t") (simp_all add: counter live)
    show "tk_id task = s" if "jget (tb_tasks b') s = Some task" for s task
      using that e old(5) [of s task] by (auto simp: ends_def js_map_simps split: if_splits)
  qed
qed

text \<open>A result of a task is sent, and its handler waits.\<close>

lemma deliver_ok:
  fixes b :: "'d TaskBroker"
  assumes ok: "results_ok nanoid S b" and t: "jget (tb_tasks b) t = Some task"
    and m: "\<And>s. isResult s (SentToRequester (tk_requesterId task) m) \<Longrightarrow> s = t"
  shows "results_ok nanoid S (deliverResult task t m b)"
proof -
  let ?b = "deliverResult task t m b"
  note old = results_okD [OF ok]
  have id: "tk_id task = t" by (rule old(5) [OF t])
  have tl: "t \<in> fst ` set (tb_tasks b)" using t by (simp add: jhas_iff [symmetric] jhas_def)
  have keys: "fst ` set (jput t x (tb_tasks b)) = insert t (fst ` set (tb_tasks b))" for x
    by (rule set_eqI) (simp add: jhas_iff [symmetric] jhas_def js_map_simps)
  have tasks: "tb_tasks ?b = jput t (task\<lparr>tk_timeout := False\<rparr>) (tb_tasks b)" and acc: "tb_accepting ?b = tb_accepting b"
    and counter: "issued nanoid ?b = issued nanoid b" and fin: "tb_finishing ?b = tb_finishing b @ [t]"
    by (simp_all add: deliverResult_def messageRequester_def issued_def id)
  have live: "live ?b = live b" using tl by (auto simp: live_def tasks acc keys)
  have h: "handlers s ?b = handlers s b + (if s = t then 1 else 0)" for s by (simp add: handlers_def fin)
  have same: "results s ?b = results s b" if "s \<noteq> t" for s
    using m [of s] that by (auto simp: results_def deliverResult_def messageRequester_def)
  have more: "results t ?b \<le> results t b + 1" by (simp add: results_def deliverResult_def messageRequester_def)
  show ?thesis
  proof (rule results_okI)
    show "results s ?b \<le> handlers s ?b" if "s \<in> live ?b" for s
      using old(1) [of s] that same [of s] more by (cases "s = t") (auto simp: live h)
    show False if "s \<in> fst ` set (tb_tasks ?b)" "s \<in> fst ` set (tb_accepting ?b)" for s
      using that old(2) [of s] old(2) [OF tl] unfolding tasks keys acc by blast
    show False if "s \<in> set (tb_finishing ?b)" "s \<in> fst ` set (tb_accepting ?b)" for s
      using that old(3) [of s] old(2) [OF tl] unfolding fin acc by auto
    show "s \<in> issued nanoid ?b" if "s \<in> live ?b \<or> s \<in> set (tb_finishing ?b) \<or> 0 < results s ?b" for s
      using that old(4) [of s] same [of s] old(4) [of t] live_tasks [OF tl] by (cases "s = t") (simp_all add: live fin counter)
    show "s \<in> issued nanoid ?b \<and> s \<notin> live ?b \<and> results s ?b = n" if "(s, n) \<in> S" for s n
      using old(6) [OF that] same [of s] live_tasks [OF tl] by (cases "s = t") (simp_all add: live counter)
    show "tk_id x = s" if "jget (tb_tasks ?b) s = Some x" for s x
      using that old(5) [of s x] id by (auto simp: tasks js_map_simps split: if_splits)
  qed
qed

text \<open>The callback returns, and the task is forgotten.\<close>

lemma count_list_remove1: "count_list (remove1 t xs) s = (if s = t then count_list xs s - 1 else count_list xs s)"
  by (induction xs) (auto simp: count_list_0_iff gr0_conv_Suc dest: gr0_implies_Suc)

lemma finishHandler_ok:
  assumes ok: "results_ok nanoid S b"
  shows "results_ok nanoid S (finishHandler t b)"
proof (cases "t \<in> set (tb_finishing b)")
  case True
  let ?b = "finishHandler t b"
  have b: "?b = b\<lparr>tb_finishing := remove1 t (tb_finishing b), tb_tasks := jdel t (tb_tasks b)\<rparr>"
    using True by (simp add: finishHandler_def)
  have tasks: "fst ` set (tb_tasks ?b) = fst ` set (tb_tasks b) - {t}" and acc: "tb_accepting ?b = tb_accepting b"
    and counter: "issued nanoid ?b = issued nanoid b" and fin: "tb_finishing ?b = remove1 t (tb_finishing b)"
    by (auto simp: b AList.delete_eq issued_def)
  have r: "results s ?b = results s b" for s by (simp add: b results_def)
  have h: "handlers s ?b = handlers s b" if "s \<noteq> t" for s using that by (simp add: handlers_def fin count_list_remove1)
  note old = results_okD [OF ok]
  have live: "live ?b = live b - {t}" using old(3) [OF True] by (auto simp: live_def tasks acc)
  have fin': "s \<in> set (tb_finishing b)" if "s \<in> set (tb_finishing ?b)" for s
    using that set_remove1_subset [of t "tb_finishing b"] unfolding fin by blast
  show ?thesis
  proof (rule results_okI)
    show "results s ?b \<le> handlers s ?b" if "s \<in> live ?b" for s using old(1) [of s] that by (simp add: live h r)
    show False if "s \<in> fst ` set (tb_tasks ?b)" "s \<in> fst ` set (tb_accepting ?b)" for s
      using that old(2) [of s] unfolding tasks acc by blast
    show False if "s \<in> set (tb_finishing ?b)" "s \<in> fst ` set (tb_accepting ?b)" for s
      using that old(3) [OF fin'] unfolding acc by blast
    show "s \<in> issued nanoid ?b" if "s \<in> live ?b \<or> s \<in> set (tb_finishing ?b) \<or> 0 < results s ?b" for s
      using that old(4) [of s] fin' [of s] by (auto simp: live r counter)
    show "s \<in> issued nanoid ?b \<and> s \<notin> live ?b \<and> results s ?b = n" if "(s, n) \<in> S" for s n
      using old(6) [OF that] by (simp add: live r counter)
    show "tk_id x = s" if "jget (tb_tasks ?b) s = Some x" for s x
      using that old(5) [of s x] by (auto simp: b js_map_simps split: if_splits)
  qed
qed (use assms in \<open>simp add: finishHandler_def\<close>)

lemma message_result:
  "results s (messageRequester r (TaskDone t d) b) = results s b + (if s = t then 1 else 0)
    \<or> results s (messageRequester r (TaskDone t d) b) = results s b"
  "results s (messageRequester r (TaskError t e) b) = results s b + (if s = t then 1 else 0)
    \<or> results s (messageRequester r (TaskError t e) b) = results s b"
  by (simp_all add: messageRequester_def results_def)

lemma messageRequester_fields [simp]:
  "tb_counter (messageRequester r m b) = tb_counter b" "tb_accepting (messageRequester r m b) = tb_accepting b"
  "tb_tasks (messageRequester r m b) = tb_tasks b" "tb_finishing (messageRequester r m b) = tb_finishing b"
  by (simp_all add: messageRequester_def)

lemma results_tasks [simp]: "results s (b\<lparr>tb_tasks := x\<rparr>) = results s b"
  by (simp add: results_def)

lemma failTask_ok:
  assumes "results_ok nanoid S b"
  shows "results_ok nanoid S (failTask t e b)"
proof (cases "jget (tb_tasks b) t")
  case (Some task)
  then have f: "failTask t e b = messageRequester (tk_requesterId task) (TaskError t (Inr e)) (b\<lparr>tb_tasks := jdel t (tb_tasks b)\<rparr>)"
    by (simp add: failTask_def)
  have "results s (failTask t e b) = results s b + (if s = t then 1 else 0) \<or> results s (failTask t e b) = results s b" for s
    using message_result(2) [of s "tk_requesterId task" t "Inr e" "b\<lparr>tb_tasks := jdel t (tb_tasks b)\<rparr>"] by (simp add: f)
  then show ?thesis using Some by (intro ends_ok [OF _ assms, of t]) (simp add: ends_def f jhas_def)
qed (use assms in \<open>simp add: failTask_def\<close>)

lemma taskDoneHandler_ok: "results_ok nanoid S b \<Longrightarrow> results_ok nanoid S (taskDoneHandler t d b)"
  by (auto simp: taskDoneHandler_def intro!: deliver_ok split: option.split) (simp add: results_ok_def)

lemma taskErrorHandler_ok: "results_ok nanoid S b \<Longrightarrow> results_ok nanoid S (taskErrorHandler t e b)"
  by (auto simp: taskErrorHandler_def intro!: deliver_ok split: option.split) (simp add: results_ok_def)

subsection \<open>The operations\<close>

lemma getRunnerOrFailTask_ok:
  "results_ok nanoid S b \<Longrightarrow> results_ok nanoid S (snd (getRunnerOrFailTask t b))"
  by (simp add: getRunnerOrFailTask_def failTask_ok Let_def split: option.split)

lemma quiet_step: "results_ok nanoid S b \<Longrightarrow> quiet b b' \<Longrightarrow> results_ok nanoid S b'"
  by (rule quiet_ok)

lemma message_ok [simp]:
  "results_ok nanoid S (messageRunner r m b) = results_ok nanoid S b"
  "results_ok nanoid S (unhandled e b) = results_ok nanoid S b"
  by (simp_all add: results_ok_def results_def live_def handlers_def issued_def messageRunner_def unhandled_def)

lemma messageRequester_ok [simp]:
  "(\<And>t. \<not> isResult t (SentToRequester r m)) \<Longrightarrow> results_ok nanoid S (messageRequester r m b) = results_ok nanoid S b"
  by (simp add: results_ok_def results_def live_def handlers_def issued_def messageRequester_def)

lemma results_ok_cong:
  "tb_sent b = tb_sent b' \<Longrightarrow> tb_counter b = tb_counter b' \<Longrightarrow> tb_accepting b = tb_accepting b'
    \<Longrightarrow> tb_tasks b = tb_tasks b' \<Longrightarrow> tb_finishing b = tb_finishing b' \<Longrightarrow> results_ok nanoid S b = results_ok nanoid S b'"
  by (simp add: results_ok_def results_def live_def handlers_def issued_def)

lemma results_ok_fields [simp]:
  "results_ok nanoid S (b\<lparr>tb_knownRunners := x1\<rparr>) = results_ok nanoid S b"
  "results_ok nanoid S (b\<lparr>tb_requesters := x2\<rparr>) = results_ok nanoid S b"
  "results_ok nanoid S (b\<lparr>tb_runnerAcceptRejects := x3\<rparr>) = results_ok nanoid S b"
  "results_ok nanoid S (b\<lparr>tb_requesterAcceptRejects := x4\<rparr>) = results_ok nanoid S b"
  "results_ok nanoid S (b\<lparr>tb_pendingTaskOffers := x5\<rparr>) = results_ok nanoid S b"
  "results_ok nanoid S (b\<lparr>tb_pendingTaskRequests := x6\<rparr>) = results_ok nanoid S b"
  "results_ok nanoid S (b\<lparr>tb_requests := x7\<rparr>) = results_ok nanoid S b"
  "results_ok nanoid S (b\<lparr>tb_readying := x8\<rparr>) = results_ok nanoid S b"
  "results_ok nanoid S (b\<lparr>tb_timingOut := x9\<rparr>) = results_ok nanoid S b"
  by (rule results_ok_cong; simp)+

lemma updateRequest_ok [simp]: "results_ok nanoid S (updateRequest r f b) = results_ok nanoid S b"
  by (simp add: updateRequest_def split: option.split)

lemma cancelTask_ok: "results_ok nanoid S b \<Longrightarrow> results_ok nanoid S (cancelTask t reason b)"
  by (rule quiet_ok [OF quiet_cancelTask])

lemma jdel_accepting_ok: "results_ok nanoid S b \<Longrightarrow> results_ok nanoid S (b\<lparr>tb_accepting := jdel t (tb_accepting b)\<rparr>)"
  by (rule quiet_ok [OF quiet_jdel_accepting])

text \<open>A task takes the place of the offer that was being accepted.\<close>

lemma accepted_task_ok:
  assumes "results_ok nanoid S b" and "jhas (tb_accepting b) t" and "tk_id task = t"
  shows "results_ok nanoid S (b\<lparr>tb_accepting := jdel t (tb_accepting b), tb_tasks := jput t task (tb_tasks b)\<rparr>)"
proof (rule quiet_ok [OF _ assms(1)])
  have keys: "fst ` set (jput t task (tb_tasks b)) = insert t (fst ` set (tb_tasks b))"
    by (rule set_eqI) (simp add: jhas_iff [symmetric] jhas_def js_map_simps)
  have "results s (b\<lparr>tb_accepting := jdel t (tb_accepting b), tb_tasks := jput t task (tb_tasks b)\<rparr>) = results s b" for s
    by (simp add: results_def)
  moreover have "t \<in> fst ` set (tb_accepting b)" using assms(2) by (simp add: jhas_iff)
  ultimately show "quiet b (b\<lparr>tb_accepting := jdel t (tb_accepting b), tb_tasks := jput t task (tb_tasks b)\<rparr>)"
    using assms(3) set_jdel [of t "tb_accepting b"] unfolding quiet_def
    by (auto simp: keys js_map_simps AList.delete_eq split: if_splits)
qed

text \<open>A new task id is offered to a runner.\<close>

lemma acceptOffer_ok:
  assumes "inj nanoid" and ok: "results_ok nanoid S b"
  shows "results_ok nanoid S (acceptOffer nanoid offer r b)"
proof -
  let ?t = "nanoid (tb_counter b)"
  let ?b = "b\<lparr>tb_counter := Suc (tb_counter b), tb_accepting := jput ?t (offer, r) (tb_accepting b)\<rparr>"
  have fresh: "?t \<notin> issued nanoid b" using assms(1) by (auto simp: inj_def issued_def)
  note old = results_okD [OF ok]
  have keys: "fst ` set (jput ?t (offer, r) (tb_accepting b)) = insert ?t (fst ` set (tb_accepting b))"
    by (rule set_eqI) (simp add: jhas_iff [symmetric] jhas_def js_map_simps)
  have same: "results s ?b = results s b" "handlers s ?b = handlers s b" "live ?b = insert ?t (live b)"
    "issued nanoid ?b = insert ?t (issued nanoid b)" for s
    by (auto simp: results_def handlers_def live_def keys issued_def lessThan_Suc)
  have new: "?t \<notin> live b" "?t \<notin> set (tb_finishing b)" "results ?t b = 0" using old(4) [of ?t] fresh by auto
  have task: "?t \<notin> fst ` set (tb_tasks b)" using new(1) by (simp add: live_def)
  have "results_ok nanoid S ?b"
  proof (rule results_okI)
    show "results s ?b \<le> handlers s ?b" if "s \<in> live ?b" for s using old(1) [of s] that new(3) by (auto simp: same)
    show False if "s \<in> fst ` set (tb_tasks ?b)" "s \<in> fst ` set (tb_accepting ?b)" for s
      using that old(2) [of s] task by (auto simp: keys)
    show False if "s \<in> set (tb_finishing ?b)" "s \<in> fst ` set (tb_accepting ?b)" for s
      using that old(3) [of s] new(2) by (auto simp: keys)
    show "s \<in> issued nanoid ?b" if "s \<in> live ?b \<or> s \<in> set (tb_finishing ?b) \<or> 0 < results s ?b" for s
      using that old(4) [of s] by (auto simp: same)
    show "s \<in> issued nanoid ?b \<and> s \<notin> live ?b \<and> results s ?b = n" if "(s, n) \<in> S" for s n
      using old(6) [OF that] fresh by (auto simp: same)
    show "tk_id x = s" if "jget (tb_tasks ?b) s = Some x" for s x using that old(5) by simp
  qed
  moreover have "results_ok nanoid S (acceptOffer nanoid offer r b) = results_ok nanoid S ?b"
    unfolding acceptOffer_def Let_def message_ok by (rule results_ok_cong) simp_all
  ultimately show ?thesis by simp
qed

lemma settleRequest_ok:
  "inj nanoid \<Longrightarrow> results_ok nanoid S b \<Longrightarrow> results_ok nanoid S (settleRequest nanoid r b)"
  by (simp add: settleRequest_def Let_def acceptOffer_ok split: option.split)

lemma settleTasks_ok:
  fixes b :: "'d TaskBroker"
  assumes "inj nanoid" and "results_ok nanoid S b"
  shows "results_ok nanoid S (settleTasks nanoid now b)"
proof -
  have "results_ok nanoid S (fold (settleRequest nanoid) rs b')" if "results_ok nanoid S b'" for rs and b' :: "'d TaskBroker"
    using that by (induction rs arbitrary: b') (simp_all add: settleRequest_ok assms(1))
  then show ?thesis using assms(2) by (simp add: settleTasks_def expireTasks_def Let_def)
qed

text \<open>The answers to an offer.\<close>

lemma acceptedByRunner_ok:
  fixes b :: "'d TaskBroker"
  assumes "results_ok nanoid S b" and "jhas (tb_accepting b) t"
  shows "results_ok nanoid S (acceptedByRunner t offer r (b\<lparr>tb_accepting := jdel t (tb_accepting b)\<rparr>))"
proof (cases "arr_get (tb_requests b) r")
  case None
  then show ?thesis using jdel_accepting_ok [OF assms(1)] by (simp add: acceptedByRunner_def)
next
  case (Some request)
  let ?task = "\<lparr>tk_id = t, tk_runnerId = of_runnerId offer, tk_requesterId = tr_requesterId request,
     tk_taskType = of_taskType offer, tk_timeout = False\<rparr>"
  have "results_ok nanoid S (b\<lparr>tb_accepting := jdel t (tb_accepting b), tb_tasks := jput t ?task (tb_tasks b)\<rparr>)"
    by (rule accepted_task_ok [OF assms]) simp
  moreover have "results_ok nanoid S ((updateRequest r f (b\<lparr>tb_accepting := x\<rparr>))\<lparr>tb_tasks := y\<rparr>)
      = results_ok nanoid S (b\<lparr>tb_accepting := x, tb_tasks := y\<rparr>)" for f x y
    by (rule results_ok_cong) (simp_all add: updateRequest_def split: option.split)
  moreover have "tb_tasks (updateRequest r f b') = tb_tasks b'" for f and b' :: "'d TaskBroker"
    by (simp add: updateRequest_def split: option.split)
  ultimately show ?thesis using Some by (simp add: acceptedByRunner_def Let_def split: option.split)
qed

lemma answerOffer_ok:
  assumes "results_ok nanoid S b"
    and f: "\<And>offer r b. results_ok nanoid S b \<Longrightarrow> jhas (tb_accepting b) t
      \<Longrightarrow> results_ok nanoid S (f offer r (b\<lparr>tb_accepting := jdel t (tb_accepting b)\<rparr>))"
  shows "results_ok nanoid S (resumeAccepting t f b)" and "results_ok nanoid S (answerOffer t f b)"
proof -
  show resume: "results_ok nanoid S (resumeAccepting t f b)"
    using assms(1) f by (simp add: resumeAccepting_def jhas_def split: option.split prod.split)
  have "results_ok nanoid S (resumeAccepting t f b')" if "results_ok nanoid S b'" for b'
    using that f by (simp add: resumeAccepting_def jhas_def split: option.split prod.split)
  then show "results_ok nanoid S (answerOffer t f b)" using assms(1) by (simp add: answerOffer_def)
qed

lemma answers_ok:
  assumes "results_ok nanoid S b"
  shows "results_ok nanoid S (handleRunnerAccept t b)" "results_ok nanoid S (handleRunnerReject t reason b)"
    "results_ok nanoid S (handleRunnerDeferred t b)" "results_ok nanoid S (runnerAcceptTimeout t b)"
  unfolding handleRunnerAccept_def handleRunnerReject_def handleRunnerDeferred_def runnerAcceptTimeout_def
  by (rule answerOffer_ok [OF assms]; simp add: acceptedByRunner_ok notAccepted_def deferredByRunner_def jdel_accepting_ok)+

text \<open>The settings of a task.\<close>

lemma retimed_task_ok:
  assumes "results_ok nanoid S b" and "jget (tb_tasks b) t = Some task" and "tk_id task' = tk_id task"
  shows "results_ok nanoid S (b\<lparr>tb_tasks := jput t task' (tb_tasks b)\<rparr>)"
proof (rule quiet_ok [OF _ assms(1)])
  have "t \<in> fst ` set (tb_tasks b)" using assms(2) by (simp add: jhas_iff [symmetric] jhas_def)
  moreover have "fst ` set (jput t task' (tb_tasks b)) = insert t (fst ` set (tb_tasks b))"
    by (rule set_eqI) (simp add: jhas_iff [symmetric] jhas_def js_map_simps)
  ultimately show "quiet b (b\<lparr>tb_tasks := jput t task' (tb_tasks b)\<rparr>)"
    using assms(2,3) unfolding quiet_def results_def by (auto simp: js_map_simps split: if_splits)
qed

lemma sendTaskSettings_ok:
  assumes "results_ok nanoid S b"
  shows "results_ok nanoid S (snd (sendTaskSettings t settings b))"
proof -
  have ok: "results_ok nanoid S (snd (getRunnerOrFailTask t b))" by (rule getRunnerOrFailTask_ok [OF assms])
  show ?thesis
    using ok by (auto simp: sendTaskSettings_def retimed_task_ok split: prod.split sum.split option.split)
qed

lemma acceptSettings_ok: "results_ok nanoid S b \<Longrightarrow> results_ok nanoid S (acceptSettings t settings b)"
  using sendTaskSettings_ok [of nanoid S b t settings]
  by (auto simp: acceptSettings_def cancelTask_ok split: prod.split option.split)

lemma settings_ok:
  assumes "results_ok nanoid S b"
  shows "results_ok nanoid S (handleRequesterAccept t settings b)" "results_ok nanoid S (handleRequesterReject t reason b)"
    "results_ok nanoid S (requesterAcceptTimeout t b)"
  using assms by (simp_all add: handleRequesterAccept_def handleRequesterReject_def requesterAcceptTimeout_def
      answerReady_def resumeReadying_def acceptSettings_ok cancelTask_ok)

text \<open>Messages that are passed on, and timeouts.\<close>

lemma forwardToRequester_ok:
  "(\<And>s r. \<not> isResult s (SentToRequester r m)) \<Longrightarrow> results_ok nanoid S b \<Longrightarrow> results_ok nanoid S (forwardToRequester t m b)"
  by (simp add: forwardToRequester_def split: option.split)

lemma forwardToRunner_ok: "results_ok nanoid S b \<Longrightarrow> results_ok nanoid S (forwardToRunner t m b)"
  using getRunnerOrFailTask_ok [of nanoid S b t] by (auto simp: forwardToRunner_def split: prod.split sum.split)

lemma handleRequestTimeout_ok: "results_ok nanoid S b \<Longrightarrow> results_ok nanoid S (handleRequestTimeout t b)"
  by (simp add: handleRequestTimeout_def Let_def split: option.split)

lemma handleTaskTimeout_ok: "results_ok nanoid S b \<Longrightarrow> results_ok nanoid S (handleTaskTimeout t b)"
  by (simp add: handleTaskTimeout_def Let_def taskErrorHandler_ok retimed_task_ok split: option.split)

lemma resumeTaskTimeout_ok: "results_ok nanoid S b \<Longrightarrow> results_ok nanoid S (resumeTaskTimeout t b)"
  by (simp add: resumeTaskTimeout_def taskErrorHandler_ok)

lemma fail_tasks_ok:
  "results_ok nanoid S b \<Longrightarrow> results_ok nanoid S (fold (\<lambda>task b. if tk_runnerId task = runnerId
      then handleRunnerReject (tk_id task) reason (failTask (tk_id task) e b) else b) tasks b)"
  by (induction tasks arbitrary: b) (simp_all add: answers_ok failTask_ok)

lemma deregisterRunner_ok: "results_ok nanoid S b \<Longrightarrow> results_ok nanoid S (deregisterRunner runnerId e b)"
  unfolding deregisterRunner_def Let_def by (rule fail_tasks_ok) simp

subsection \<open>The broker\<close>

lemma onRunnerMessage_ok:
  "inj nanoid \<Longrightarrow> results_ok nanoid S b \<Longrightarrow> results_ok nanoid S (onRunnerMessage nanoid now runnerId m b)"
  by (cases m) (simp_all add: onRunnerMessage_def answers_ok taskOffered_def settleTasks_ok taskDoneHandler_ok
      taskErrorHandler_ok handleDataRequest_def handleNodeTypesRequest_def handleRpcRequest_def forwardToRequester_ok)

lemma onRequesterMessage_ok:
  "inj nanoid \<Longrightarrow> results_ok nanoid S b \<Longrightarrow> results_ok nanoid S (onRequesterMessage nanoid now requesterId m b)"
  by (cases m) (simp_all add: onRequesterMessage_def settings_ok cancelTask_ok taskRequested_def settleTasks_ok
      handleRequesterDataResponse_def handleRequesterNodeTypesResponse_def handleRequesterRpcResponse_def forwardToRunner_ok)

lemma broker_step_ok:
  assumes "inj nanoid" and "results_ok nanoid S b" and "broker_step nanoid b b'"
  shows "results_ok nanoid S b'"
  using assms(3,1,2)
  by (induction rule: broker_step.induct) (simp_all add: onRunnerMessage_ok onRequesterMessage_ok registerRunner_def
      deregisterRunner_ok registerRequester_def deregisterRequester_def handleRequestTimeout_ok handleTaskTimeout_ok finishHandler_ok resumeTaskTimeout_ok
      answers_ok settings_ok)

interpretation results: transition_system "broker_step nanoid" "\<lambda>b. inj nanoid \<longrightarrow> results_ok nanoid S b" for nanoid S
  by unfold_locales (blast intro: broker_step_ok)

lemma newBroker_ok: "results_ok nanoid {} (newBroker internal)"
  by (simp add: results_ok_def results_def live_def newBroker_def)

lemma results_ok_remember:
  assumes "results_ok nanoid S b" and "t \<in> issued nanoid b" and "t \<notin> live b"
  shows "results_ok nanoid {(t, results t b)} b"
  using assms unfolding results_ok_def by blast

text \<open>
  C9: with fresh task ids, whatever messages arrive, whatever timers fire and whenever callbacks return: as
  long as the broker knows a task or its offer is being accepted, every result (done or error) that was sent
  for it has a handler still waiting for the requester's callback, so without such a handler none was sent;
  and once the broker knows the task no more, no further result is ever sent for it and its id never comes back.
\<close>

theorem task_results:
  assumes "inj nanoid" and "(broker_step nanoid)\<^sup>*\<^sup>* (newBroker internal) b" and "(broker_step nanoid)\<^sup>*\<^sup>* b b'"
  shows "(t \<in> live b \<longrightarrow> results t b \<le> handlers t b)
    \<and> (t \<in> issued nanoid b - live b \<longrightarrow> t \<notin> live b' \<and> results t b' = results t b)"
proof -
  have ok: "results_ok nanoid {} b" using results.inv_reachable [OF assms(2)] assms(1) newBroker_ok by blast
  moreover have "results_ok nanoid {(t, results t b)} b'" if "t \<in> issued nanoid b" "t \<notin> live b"
    using results.inv_reachable [OF assms(3)] assms(1) results_ok_remember [OF ok that] by blast
  ultimately show ?thesis by (auto simp: results_ok_def)
qed

subsection \<open>A run\<close>

text \<open>A runner and a requester arrive, an offer meets a request, and the task runs and ends.\<close>

definition xs_ids :: "nat \<Rightarrow> string" where
  "xs_ids n = replicate (Suc n) CHR ''x''"

lemma inj_xs_ids: "inj xs_ids"
  by (rule injI) (auto simp: xs_ids_def dest: arg_cong [where f = length])

definition offered :: "string TaskBroker" where
  "offered = onRunnerMessage xs_ids 0 ''r'' (RunnerOffer ''o'' ''js'' (-1))
     (registerRequester ''q'' (registerRunner \<lparr>rn_id = ''r'', rn_taskTypes = [''js'']\<rparr> (newBroker True)))"

definition matched :: "string TaskBroker" where
  "matched = onRequesterMessage xs_ids 0 ''q'' (RequesterRequest ''q1'' ''js'') offered"

definition accepted :: "string TaskBroker" where
  "accepted = onRunnerMessage xs_ids 0 ''r'' (RunnerAccepted ''x'') matched"

text \<open>The result has been sent, and the callback of the requester has not returned.\<close>

definition delivering :: "string TaskBroker" where
  "delivering = onRunnerMessage xs_ids 0 ''r'' (RunnerDone ''x'' ''result'')
     (onRequesterMessage xs_ids 0 ''q'' (RequesterSettings ''x'' ''code'') accepted)"

definition finished :: "string TaskBroker" where
  "finished = finishHandler ''x'' delivering"

text \<open>The runner reports an error while the first result is being delivered.\<close>

definition delivered_twice :: "string TaskBroker" where
  "delivered_twice = onRunnerMessage xs_ids 0 ''r'' (RunnerError ''x'' ''late'') delivering"

lemmas also_step = rtranclp.rtrancl_into_rtrancl

lemma matched_reachable: "(broker_step xs_ids)\<^sup>*\<^sup>* (newBroker True) matched"
  unfolding matched_def offered_def
  by (rule also_step [OF also_step [OF also_step [OF also_step [OF rtranclp.rtrancl_refl [of "broker_step xs_ids" "newBroker True"] runnerArrives] requesterArrives]
        runnerMessage] requesterMessage])

lemma delivering_reachable: "(broker_step xs_ids)\<^sup>*\<^sup>* (newBroker True) delivering"
  unfolding delivering_def accepted_def
  by (rule also_step [OF also_step [OF also_step [OF matched_reachable runnerMessage] requesterMessage] runnerMessage])

lemma finished_reachable: "(broker_step xs_ids)\<^sup>*\<^sup>* (newBroker True) finished"
  unfolding finished_def by (rule also_step [OF delivering_reachable requesterReturns])

text \<open>
  While the handler of the first result waits, a second result of the same task is sent: a requester can get
  two results.
\<close>

theorem second_result:
  "(broker_step xs_ids)\<^sup>*\<^sup>* (newBroker True) delivered_twice
    \<and> filter (isResult ''x'') (tb_sent delivered_twice)
      = [SentToRequester ''q'' (TaskDone ''x'' ''result''), SentToRequester ''q'' (TaskError ''x'' (Inl ''late''))]"
proof
  show "(broker_step xs_ids)\<^sup>*\<^sup>* (newBroker True) delivered_twice"
    unfolding delivered_twice_def by (rule also_step [OF delivering_reachable runnerMessage])
qed code_simp

theorem task_results_witness:
  "results ''x'' delivering = 1 \<and> handlers ''x'' delivering = 1 \<and> ''x'' \<in> live delivering
    \<and> results ''x'' (deregisterRunner ''r'' (UnexpectedError ''gone'') finished) = 1"
proof -
  have later: "(broker_step xs_ids)\<^sup>*\<^sup>* finished (deregisterRunner ''r'' (UnexpectedError ''gone'') finished)"
    by (rule r_into_rtranclp) (rule runnerLeaves)
  have "''x'' \<in> issued xs_ids finished - live finished" by code_simp
  then have "results ''x'' (deregisterRunner ''r'' (UnexpectedError ''gone'') finished) = results ''x'' finished"
    using task_results [OF inj_xs_ids finished_reachable later, of "''x''"] by blast
  moreover have "results ''x'' finished = 1" by code_simp
  moreover have "results ''x'' delivering = 1" "handlers ''x'' delivering = 1" "''x'' \<in> live delivering" by code_simp+
  ultimately show ?thesis by simp
qed

end
