(* ===== verification/TaskMatching.thy ===== *)
theory TaskMatching
  imports TaskResults "HOL-Library.Multiset"
begin

section \<open>Matching of tasks\<close>

text \<open>
  What a round of \<open>settleTasks\<close> does: it leaves no request that could be served, and it accepts offers that
  have not expired for requests of the same type only.  Two runs of the broker that end badly follow.
\<close>

named_theorems settle_simps

subsection \<open>One request\<close>

text \<open>Requests keep what they ask for; only the flags of a request change.\<close>

definition wants :: "'d TaskBroker \<Rightarrow> nat \<Rightarrow> string option" where
  "wants b r = map_option tr_taskType (arr_get (tb_requests b) r)"

definition inProgress :: "'d TaskBroker \<Rightarrow> nat \<Rightarrow> bool" where
  "inProgress b r = (case arr_get (tb_requests b) r of None \<Rightarrow> True | Some request \<Rightarrow> tr_acceptInProgress request)"

definition offersOf :: "string \<Rightarrow> 'd TaskBroker \<Rightarrow> TaskOffer list" where
  "offersOf taskType b = filter (\<lambda>offer. of_taskType offer = taskType) (tb_pendingTaskOffers b)"

lemma message_settle [settle_simps]:
  "tb_requests (messageRunner runnerId m b) = tb_requests b"
  "tb_pendingTaskOffers (messageRunner runnerId m b) = tb_pendingTaskOffers b"
  "tb_pendingTaskRequests (messageRunner runnerId m b) = tb_pendingTaskRequests b"
  "tb_accepting (messageRunner runnerId m b) = tb_accepting b"
  "tb_counter (messageRunner runnerId m b) = tb_counter b"
  by (simp_all add: messageRunner_def)

lemma update_settle [settle_simps]:
  "tb_pendingTaskOffers (updateRequest r f b) = tb_pendingTaskOffers b"
  "tb_pendingTaskRequests (updateRequest r f b) = tb_pendingTaskRequests b"
  "tb_accepting (updateRequest r f b) = tb_accepting b"
  "tb_counter (updateRequest r f b) = tb_counter b"
  by (simp_all add: updateRequest_def split: option.split)

lemma accept_settle [settle_simps]:
  "tb_requests (acceptOffer nanoid offer r b) = tb_requests b"
  "tb_pendingTaskOffers (acceptOffer nanoid offer r b) = tb_pendingTaskOffers b"
  "tb_pendingTaskRequests (acceptOffer nanoid offer r b) = tb_pendingTaskRequests b"
  "tb_counter (acceptOffer nanoid offer r b) = Suc (tb_counter b)"
  "tb_accepting (acceptOffer nanoid offer r b) = jput (nanoid (tb_counter b)) (offer, r) (tb_accepting b)"
  by (simp_all add: acceptOffer_def Let_def settle_simps)

lemma arr_get_updateRequest:
  "arr_get (tb_requests (updateRequest r f b)) s
    = (if s = r then map_option f (arr_get (tb_requests b) r) else arr_get (tb_requests b) s)"
  by (auto simp: updateRequest_def arr_get_def split: option.split)

lemma settleRequest_pending [settle_simps]:
  "tb_pendingTaskRequests (settleRequest nanoid r b) = tb_pendingTaskRequests b"
  by (simp add: settleRequest_def Let_def settle_simps split: option.split)

lemma settleRequest_wants [settle_simps]: "wants (settleRequest nanoid r b) s = wants b s"
  by (auto simp: settleRequest_def Let_def settle_simps wants_def arr_get_updateRequest split: option.split)

lemma settleRequest_inProgress: "inProgress b s \<Longrightarrow> inProgress (settleRequest nanoid r b) s"
  by (auto simp: settleRequest_def Let_def settle_simps inProgress_def arr_get_updateRequest split: option.split)

lemma settleRequest_offers: "set (tb_pendingTaskOffers (settleRequest nanoid r b)) \<subseteq> set (tb_pendingTaskOffers b)"
  by (auto simp: settleRequest_def Let_def settle_simps dest: subsetD [OF set_splice1_subset] split: option.split)

definition served :: "'d TaskBroker \<Rightarrow> nat \<Rightarrow> bool" where
  "served b r \<longleftrightarrow> inProgress b r \<or> (\<forall>offer \<in> set (tb_pendingTaskOffers b). wants b r \<noteq> Some (of_taskType offer))"

lemma settleRequest_serves: "served (settleRequest nanoid r b) r"
  by (auto simp: served_def settleRequest_def Let_def settle_simps inProgress_def arr_get_updateRequest wants_def
      find_index_None split: option.split)

lemma served_stays: "served b s \<Longrightarrow> served (settleRequest nanoid r b) s"
  using settleRequest_offers [of nanoid r b] settleRequest_inProgress [of b s nanoid r]
  by (auto simp: served_def settle_simps)

subsection \<open>All requests\<close>

lemma settle_all_served:
  "r \<in> set rs \<or> served b r \<Longrightarrow> served (fold (settleRequest nanoid) rs b) r"
  by (induction rs arbitrary: b) (auto simp: settleRequest_serves served_stays)

lemma settle_all_pending: "tb_pendingTaskRequests (fold (settleRequest nanoid) rs b) = tb_pendingTaskRequests b"
  by (induction rs arbitrary: b) (simp_all add: settle_simps)

text \<open>
  C11: after a round of matching there is no pending request that waits although an offer of its type is
  there: every pending request is being accepted, or no pending offer has its type.
\<close>

theorem settleTasks_complete:
  assumes "r \<in> set (tb_pendingTaskRequests (settleTasks nanoid now b))"
    and "arr_get (tb_requests (settleTasks nanoid now b)) r = Some request" and "\<not> tr_acceptInProgress request"
    and "offer \<in> set (tb_pendingTaskOffers (settleTasks nanoid now b))"
  shows "of_taskType offer \<noteq> tr_taskType request"
proof -
  have "r \<in> set (tb_pendingTaskRequests (expireTasks now b))"
    using assms(1) by (simp add: settleTasks_def Let_def settle_all_pending)
  then have "served (settleTasks nanoid now b) r"
    unfolding settleTasks_def Let_def by (intro settle_all_served) simp
  then show ?thesis using assms(2-4) by (auto simp: served_def inProgress_def wants_def)
qed

subsection \<open>The pairs of a round\<close>

text \<open>The offers and requests that a round paired, in the order of their task ids.\<close>

definition paired :: "(nat \<Rightarrow> string) \<Rightarrow> 'd TaskBroker \<Rightarrow> 'd TaskBroker \<Rightarrow> (TaskOffer \<times> nat) list" where
  "paired nanoid b b' = map (\<lambda>i. the (jget (tb_accepting b') (nanoid i))) [tb_counter b ..< tb_counter b']"

definition pairing_ok :: "(nat \<Rightarrow> string) \<Rightarrow> 'd TaskBroker \<Rightarrow> 'd TaskBroker \<Rightarrow> bool" where
  "pairing_ok nanoid b b' \<longleftrightarrow> tb_counter b \<le> tb_counter b'
     \<and> mset (tb_pendingTaskOffers b) = mset (map fst (paired nanoid b b')) + mset (tb_pendingTaskOffers b')
     \<and> distinct (map snd (paired nanoid b b'))
     \<and> (\<forall>(offer, r) \<in> set (paired nanoid b b'). wants b r = Some (of_taskType offer)
           \<and> r \<in> set (tb_pendingTaskRequests b) \<and> \<not> inProgress b r \<and> inProgress b' r)
     \<and> (\<forall>r. wants b' r = wants b r \<and> (inProgress b r \<longrightarrow> inProgress b' r))"

lemma pairing_refl: "pairing_ok nanoid b b"
  by (simp add: pairing_ok_def paired_def)

lemma paired_accept:
  assumes "inj nanoid" and "tb_counter b \<le> tb_counter b'" and "tb_counter b'' = Suc (tb_counter b')"
    and "tb_accepting b'' = jput (nanoid (tb_counter b')) p (tb_accepting b')"
  shows "paired nanoid b b'' = paired nanoid b b' @ [p]"
proof -
  have "jget (tb_accepting b'') (nanoid i) = (if i = tb_counter b' then Some p else jget (tb_accepting b') (nanoid i))" for i
    using assms(1,4) by (simp add: js_map_simps inj_eq)
  then show ?thesis using assms(2,3) by (simp add: paired_def)
qed

lemma mset_splice: "i < length xs \<Longrightarrow> mset xs = add_mset (xs ! i) (mset (splice1 i xs))"
  by (subst id_take_nth_drop [of i xs]) (simp_all add: splice1_def)

lemma settleRequest_pairing:
  assumes "inj nanoid" and ok: "pairing_ok nanoid b b'" and r: "r \<in> set (tb_pendingTaskRequests b)"
  shows "pairing_ok nanoid b (settleRequest nanoid r b')"
proof (cases "settleRequest nanoid r b' = b'")
  case False
  then obtain request where request: "arr_get (tb_requests b') r = Some request"
    by (auto simp: settleRequest_def split: option.splits)
  moreover have free: "\<not> tr_acceptInProgress request"
    using False request by (auto simp: settleRequest_def)
  moreover from False obtain i where i: "find_index (\<lambda>offer. of_taskType offer = tr_taskType request) (tb_pendingTaskOffers b') = Some i"
    using request free by (cases "find_index (\<lambda>offer. of_taskType offer = tr_taskType request) (tb_pendingTaskOffers b')")
      (auto simp: settleRequest_def)
  define offer where "offer = tb_pendingTaskOffers b' ! i"
  define b'' where "b'' = settleRequest nanoid r b'"
  have b'': "b'' = acceptOffer nanoid offer r (updateRequest r (\<lambda>q. q\<lparr>tr_acceptInProgress := True\<rparr>)
      (b'\<lparr>tb_pendingTaskOffers := splice1 i (tb_pendingTaskOffers b')\<rparr>))"
    using request free i by (simp add: b''_def settleRequest_def offer_def Let_def)
  have len: "i < length (tb_pendingTaskOffers b')" and type: "of_taskType offer = tr_taskType request"
    using find_index_Some [OF i] by (simp_all add: offer_def)
  have old: "mset (tb_pendingTaskOffers b) = mset (map fst (paired nanoid b b')) + mset (tb_pendingTaskOffers b')"
    "distinct (map snd (paired nanoid b b'))" "tb_counter b \<le> tb_counter b'"
    "\<And>offer r. (offer, r) \<in> set (paired nanoid b b') \<Longrightarrow> wants b r = Some (of_taskType offer)
           \<and> r \<in> set (tb_pendingTaskRequests b) \<and> \<not> inProgress b r \<and> inProgress b' r"
    "\<And>r. wants b' r = wants b r" "\<And>r. inProgress b r \<Longrightarrow> inProgress b' r"
    using ok by (auto simp: pairing_ok_def)
  have pairs: "paired nanoid b b'' = paired nanoid b b' @ [(offer, r)]"
    by (rule paired_accept [OF assms(1) old(3)]) (simp_all add: b'' settle_simps)
  have "\<not> inProgress b' r" using request free by (simp add: inProgress_def)
  moreover have "inProgress b'' s" if "inProgress b' s \<or> s = r" for s
    using that request by (auto simp: b'' settle_simps inProgress_def arr_get_updateRequest split: option.split)
  moreover have "wants b'' s = wants b s" for s by (simp add: b''_def settle_simps old(5))
  moreover have "wants b r = Some (of_taskType offer)" using old(5) [of r] request type by (simp add: wants_def)
  moreover have "mset (tb_pendingTaskOffers b') = add_mset offer (mset (tb_pendingTaskOffers b''))"
    using mset_splice [OF len] by (simp add: b'' settle_simps offer_def)
  moreover have "tb_counter b'' = Suc (tb_counter b')" by (simp add: b'' settle_simps)
  moreover have "r \<notin> snd ` set (paired nanoid b b')" using old(4) \<open>\<not> inProgress b' r\<close> by auto
  ultimately have "pairing_ok nanoid b b''"
    unfolding pairing_ok_def using old r by (auto simp: pairs)
  then show ?thesis by (simp add: b''_def)
qed (use ok in simp)

lemma settle_all_pairing:
  assumes "inj nanoid" and "set rs \<subseteq> set (tb_pendingTaskRequests b)" and "pairing_ok nanoid b b'"
  shows "pairing_ok nanoid b (fold (settleRequest nanoid) rs b')"
  using assms(2,3) by (induction rs arbitrary: b') (simp_all add: settleRequest_pairing assms(1))

text \<open>
  C10: a round pairs requests that waited with offers of their type.  Every offer that was pending has
  expired, is still pending or belongs to exactly one pair; no request is in two pairs.
\<close>

theorem settleTasks_pairs:
  assumes "inj nanoid" and "settleTasks nanoid now b = b'"
  shows "mset (filter (\<lambda>offer. of_validFor offer = -1 \<or> now \<le> of_validUntil offer) (tb_pendingTaskOffers b))
        = mset (map fst (paired nanoid b b')) + mset (tb_pendingTaskOffers b')
      \<and> distinct (map snd (paired nanoid b b'))
      \<and> list_all (\<lambda>(offer, r). wants b r = Some (of_taskType offer) \<and> r \<in> set (tb_pendingTaskRequests b)
          \<and> \<not> inProgress b r \<and> inProgress b' r) (paired nanoid b b')"
proof -
  define e where "e = expireTasks now b"
  have e: "tb_counter e = tb_counter b" "tb_pendingTaskRequests e = tb_pendingTaskRequests b"
    "wants e r = wants b r" "inProgress e r = inProgress b r"
    "tb_pendingTaskOffers e = filter (\<lambda>offer. of_validFor offer = -1 \<or> now \<le> of_validUntil offer) (tb_pendingTaskOffers b)" for r
    by (simp_all add: e_def expireTasks_def wants_def inProgress_def not_less)
  have "pairing_ok nanoid e b'"
    using settle_all_pairing [OF assms(1) _ pairing_refl] assms(2) by (fastforce simp: settleTasks_def Let_def e_def)
  moreover have "paired nanoid e b' = paired nanoid b b'" by (simp add: paired_def e)
  ultimately show ?thesis by (auto simp: pairing_ok_def e list_all_iff)
qed

subsection \<open>Concrete rounds\<close>

definition waiting_offer :: "string \<Rightarrow> string \<Rightarrow> int \<Rightarrow> TaskOffer" where
  "waiting_offer offerId taskType until =
     \<lparr>of_offerId = offerId, of_runnerId = ''r'', of_taskType = taskType, of_validFor = 1, of_validUntil = until\<rparr>"

definition waiting_request :: "string \<Rightarrow> string \<Rightarrow> TaskRequest" where
  "waiting_request requestId taskType = \<lparr>tr_requestId = requestId, tr_requesterId = ''q'', tr_taskType = taskType,
     tr_timeout = True, tr_acceptInProgress = False\<rparr>"

text \<open>Two offers for \<open>js\<close>, the first of them expired, one offer for \<open>py\<close>; requests for \<open>sh\<close> and \<open>js\<close>.\<close>

definition before_round :: "string TaskBroker" where
  "before_round = (newBroker True)\<lparr>
     tb_pendingTaskOffers := [waiting_offer ''o1'' ''js'' 5, waiting_offer ''o2'' ''py'' 20, waiting_offer ''o3'' ''js'' 20],
     tb_pendingTaskRequests := [0, 1], tb_requests := [waiting_request ''q1'' ''sh'', waiting_request ''q2'' ''js'']\<rparr>"

definition after_round :: "string TaskBroker" where
  "after_round = settleTasks xs_ids 10 before_round"

lemma after_round_value:
  "tb_pendingTaskOffers after_round = [waiting_offer ''o2'' ''py'' 20] \<and> tb_pendingTaskRequests after_round = [0, 1]
    \<and> arr_get (tb_requests after_round) 0 = Some (waiting_request ''q1'' ''sh'')
    \<and> paired xs_ids before_round after_round = [(waiting_offer ''o3'' ''js'' 20, 1)]"
  by code_simp

theorem settleTasks_complete_witness:
  "of_taskType (waiting_offer ''o2'' ''py'' 20) \<noteq> tr_taskType (waiting_request ''q1'' ''sh'')"
  using after_round_value unfolding after_round_def
  by (intro settleTasks_complete [where nanoid = xs_ids and now = 10 and b = before_round and r = 0]) (simp_all add: waiting_request_def)

theorem settleTasks_pairs_witness:
  "paired xs_ids before_round after_round = [(waiting_offer ''o3'' ''js'' 20, 1)]
    \<and> mset (filter (\<lambda>offer. of_validFor offer = -1 \<or> 10 \<le> of_validUntil offer) (tb_pendingTaskOffers before_round))
      = {#waiting_offer ''o3'' ''js'' 20, waiting_offer ''o2'' ''py'' 20#}"
  using settleTasks_pairs [OF inj_xs_ids, of 10 before_round after_round] after_round_value by (simp add: after_round_def)

subsection \<open>Runs that end badly\<close>

text \<open>The runner defers the task, offers again and runs it.\<close>

definition deferred :: "string TaskBroker" where
  "deferred = onRunnerMessage xs_ids 0 ''r'' (RunnerDeferred ''x'') matched"

definition deferred_done :: "string TaskBroker" where
  "deferred_done = finishHandler ''xx'' (onRunnerMessage xs_ids 0 ''r'' (RunnerDone ''xx'' ''result'')
     (onRequesterMessage xs_ids 0 ''q'' (RequesterSettings ''xx'' ''code'')
     (onRunnerMessage xs_ids 0 ''r'' (RunnerAccepted ''xx'')
     (onRunnerMessage xs_ids 0 ''r'' (RunnerOffer ''o2'' ''js'' (-1)) deferred))))"

lemma deferred_done_reachable: "(broker_step xs_ids)\<^sup>*\<^sup>* (newBroker True) deferred_done"
  unfolding deferred_done_def deferred_def
  by (rule also_step [OF also_step [OF also_step [OF also_step [OF also_step [OF also_step [OF matched_reachable runnerMessage]
        runnerMessage] runnerMessage] requesterMessage] runnerMessage] requesterReturns])

text \<open>
  A deferred request is pending twice.  When its task is done the second copy is still pending, marked
  as being accepted and without a timer, although nothing is being accepted: it is never served and never
  expires.
\<close>

theorem deferred_request_stays:
  "tb_pendingTaskRequests deferred = [0, 0] \<and> (broker_step xs_ids)\<^sup>*\<^sup>* (newBroker True) deferred_done
    \<and> results ''xx'' deferred_done = 1 \<and> tb_tasks deferred_done = [] \<and> tb_accepting deferred_done = []
    \<and> tb_pendingTaskRequests deferred_done = [0]
    \<and> map (\<lambda>q. (tr_requestId q, tr_acceptInProgress q, tr_timeout q)) (tb_requests deferred_done) = [(''q1'', True, False)]"
  by (intro conjI deferred_done_reachable) code_simp+

text \<open>The request times out while the runner is asked to accept; then the runner accepts.\<close>

definition orphaned :: "string TaskBroker" where
  "orphaned = onRunnerMessage xs_ids 0 ''r'' (RunnerAccepted ''x'') (handleRequestTimeout ''q1'' matched)"

lemma orphaned_reachable: "(broker_step xs_ids)\<^sup>*\<^sup>* (newBroker True) orphaned"
proof -
  have "arr_get (tb_requests matched) 0 = Some (waiting_request ''q1'' ''js''\<lparr>tr_acceptInProgress := True\<rparr>)" by code_simp
  then have "broker_step xs_ids matched (handleRequestTimeout ''q1'' matched)"
    using requestExpires [of matched 0 "waiting_request ''q1'' ''js''\<lparr>tr_acceptInProgress := True\<rparr>"]
    by (simp add: waiting_request_def)
  then show ?thesis
    unfolding orphaned_def by (rule also_step [OF also_step [OF matched_reachable] runnerMessage])
qed

text \<open>
  an offer that the runner accepts after the request has expired leaves a task nobody waits for: the
  requester only heard that the request expired, no settings will come, and the task has no timer.
\<close>

theorem expired_request_leaves_task:
  "(broker_step xs_ids)\<^sup>*\<^sup>* (newBroker True) orphaned
    \<and> map (\<lambda>(t, task). (t, tk_timeout task)) (tb_tasks orphaned) = [(''x'', False)]
    \<and> tb_readying orphaned = [] \<and> tb_pendingTaskRequests orphaned = []
    \<and> filter (\<lambda>m. case m of SentToRequester requesterId _ \<Rightarrow> True | _ \<Rightarrow> False) (tb_sent orphaned)
        = [SentToRequester ''q'' (RequestExpired ''q1'')]"
  by (intro conjI orphaned_reachable) code_simp+

end
