(* ===== verification/JsonValues.thy ===== *)
theory JsonValues
  imports Workflow
begin

section \<open>Operations on values\<close>

text \<open>
  What several components do with values: \<open>===\<close>, comparison, access to a property, tests on texts, and the
  methods \<open>some\<close> and \<open>every\<close> with a test that may throw.  Two values of different origin share no object,
  so \<open>===\<close> is false on objects and arrays.
\<close>

fun strict_equal :: "json \<Rightarrow> json \<Rightarrow> bool" where
  "strict_equal (JArr xs) v = False"
| "strict_equal (JObj kvs) v = False"
| "strict_equal u v = (u = v)"

definition is_primitive :: "json \<Rightarrow> bool" where
  "is_primitive v = (case v of JArr _ \<Rightarrow> False | JObj _ \<Rightarrow> False | _ \<Rightarrow> True)"

lemma strict_equal_iff: "strict_equal u v \<longleftrightarrow> u = v \<and> is_primitive u"
  by (cases u) (auto simp: is_primitive_def)

text \<open>\<open>typeof v === 'object'\<close>, which holds for \<open>null\<close> too.\<close>

definition is_object :: "json \<Rightarrow> bool" where
  "is_object v = (case v of JNull \<Rightarrow> True | JArr _ \<Rightarrow> True | JObj _ \<Rightarrow> True | _ \<Rightarrow> False)"

text \<open>\<open>v[name]\<close> for the name of a field.\<close>

fun field :: "json \<Rightarrow> string \<Rightarrow> json" where
  "field (JObj kvs) name = (case jget kvs name of None \<Rightarrow> JUndefined | Some v \<Rightarrow> v)"
| "field v name = JUndefined"

text \<open>\<open>v ?? d\<close>\<close>

definition nullish_or :: "json \<Rightarrow> json \<Rightarrow> json" where
  "nullish_or v d = (if v = JUndefined \<or> v = JNull then d else v)"

definition starts_with :: "string \<Rightarrow> string \<Rightarrow> bool" where
  "starts_with text part \<longleftrightarrow> take (length part) text = part"

fun str_le :: "string \<Rightarrow> string \<Rightarrow> bool" where
  "str_le [] t = True"
| "str_le (c # s) [] = False"
| "str_le (c # s) (d # t) = ((of_char c :: nat) < of_char d \<or> c = d \<and> str_le s t)"

fun rsome :: "('a \<Rightarrow> bool res) \<Rightarrow> 'a list \<Rightarrow> bool res" where
  "rsome p [] = Inr False"
| "rsome p (x # xs) = rbind (p x) (\<lambda>b. if b then Inr True else rsome p xs)"

fun revery :: "('a \<Rightarrow> bool res) \<Rightarrow> 'a list \<Rightarrow> bool res" where
  "revery p [] = Inr True"
| "revery p (x # xs) = rbind (p x) (\<lambda>b. if b then revery p xs else Inr False)"

lemma rsome_cong [fundef_cong]:
  "xs = ys \<Longrightarrow> (\<And>x. x \<in> set ys \<Longrightarrow> p x = q x) \<Longrightarrow> rsome p xs = rsome q ys"
  by (induction xs arbitrary: ys) (auto simp: rbind_def split: sum.split)

end
