(* ===== verification/WorkflowDiff.thy ===== *)
theory WorkflowDiff
  imports JsonValues
begin

section \<open>Differences between versions of a workflow\<close>

text \<open>
  \<open>packages/workflow/src/workflow-diff.ts\<close>: what changed between two versions of a workflow, the
  composition of such changes, and the grouping of the versions of a history by rules.  \<open>isEqual\<close> of lodash
  is a parameter.  Versions are loaded from a database, so two of them share no object, and \<open>!==\<close> on
  objects or arrays of two versions is true.  Numbers are integers.
\<close>

record DiffableNode =
  df_id :: string
  df_name :: string
  df_type :: string
  df_typeVersion :: int
  df_webhookId :: "string option"
  df_credentials :: "json option"
  df_parameters :: "(string, json) jmap"

record DiffableWorkflow =
  dw_versionId :: string
  dw_nodes :: "DiffableNode list"

datatype NodeDiffStatus = DiffEq | DiffModified | DiffAdded | DiffDeleted

record NodeDiff =
  nd_status :: NodeDiffStatus
  nd_node :: DiffableNode

type_synonym WorkflowDiff = "(string, NodeDiff) jmap"
type_synonym NodesEqual = "DiffableNode option \<Rightarrow> DiffableNode option \<Rightarrow> bool"

subsection \<open>Comparing nodes\<close>

text \<open>lodash's \<open>pick\<close>: the listed properties that the object has.\<close>

definition pickNode :: "DiffableNode option \<Rightarrow> json" where
  "pickNode node = JObj (case node of
      None \<Rightarrow> []
    | Some n \<Rightarrow> [(''name'', JStr (df_name n)), (''type'', JStr (df_type n)), (''typeVersion'', JNum (df_typeVersion n))]
        @ (case df_webhookId n of None \<Rightarrow> [] | Some w \<Rightarrow> [(''webhookId'', JStr w)])
        @ (case df_credentials n of None \<Rightarrow> [] | Some c \<Rightarrow> [(''credentials'', c)])
        @ [(''parameters'', JObj (df_parameters n))])"

definition compareNodes :: "(json \<Rightarrow> json \<Rightarrow> bool) \<Rightarrow> NodesEqual" where
  "compareNodes isEqual base target = isEqual (pickNode base) (pickNode target)"

definition nodesById :: "DiffableNode list \<Rightarrow> (string, DiffableNode) jmap" where
  "nodesById nodes = fold (\<lambda>node acc. jput (df_id node) node acc) nodes []"

definition compareWorkflowsNodes :: "NodesEqual \<Rightarrow> DiffableNode list \<Rightarrow> DiffableNode list \<Rightarrow> WorkflowDiff" where
  "compareWorkflowsNodes nodesEqual base target =
     (let baseNodes = nodesById base; targetNodes = nodesById target;
          diff = fold (\<lambda>(id, node). jput id \<lparr>nd_status =
              (if \<not> jhas targetNodes id then DiffDeleted
               else if \<not> nodesEqual (jget baseNodes id) (jget targetNodes id) then DiffModified
               else DiffEq), nd_node = node\<rparr>) baseNodes []
      in fold (\<lambda>(id, node) diff. if \<not> jhas baseNodes id
           then jput id \<lparr>nd_status = DiffAdded, nd_node = node\<rparr> diff else diff) targetNodes diff)"

subsection \<open>Change sets\<close>

datatype MergedDiff = Merged NodeDiffStatus | Undone | InvariantBroken

fun mergeNodeDiff :: "NodeDiffStatus \<Rightarrow> NodeDiffStatus \<Rightarrow> MergedDiff" where
  "mergeNodeDiff DiffAdded next = (case next of
      DiffAdded \<Rightarrow> InvariantBroken | DiffDeleted \<Rightarrow> Undone | _ \<Rightarrow> Merged DiffAdded)"
| "mergeNodeDiff DiffDeleted next = (case next of DiffAdded \<Rightarrow> Merged DiffModified | _ \<Rightarrow> InvariantBroken)"
| "mergeNodeDiff DiffEq next = (case next of DiffAdded \<Rightarrow> InvariantBroken | _ \<Rightarrow> Merged next)"
| "mergeNodeDiff DiffModified next = (case next of
      DiffAdded \<Rightarrow> InvariantBroken | DiffDeleted \<Rightarrow> Merged DiffDeleted | _ \<Rightarrow> Merged DiffModified)"

definition invariantBroken :: js_error where
  "invariantBroken = NamedError ''Error'' ''invariant broken''"

definition hasChanges :: "WorkflowDiff \<Rightarrow> bool" where
  "hasChanges nodes = list_ex (\<lambda>nodeDiff. nd_status nodeDiff \<noteq> DiffEq) (jvals nodes)"

definition mergeOne :: "string \<times> NodeDiff \<Rightarrow> WorkflowDiff \<Rightarrow> WorkflowDiff res" where
  "mergeOne = (\<lambda>(key, diff) nodes. case jget nodes key of
      Some existing \<Rightarrow> (case mergeNodeDiff (nd_status existing) (nd_status diff) of
          InvariantBroken \<Rightarrow> Inl invariantBroken
        | Undone \<Rightarrow> Inr (jdel key nodes)
        | Merged diffStatus \<Rightarrow> Inr (jput key (diff\<lparr>nd_status := diffStatus\<rparr>) nodes))
    | None \<Rightarrow> Inr (jput key (diff\<lparr>nd_status := DiffAdded\<rparr>) nodes))"

definition mergeNext :: "WorkflowDiff \<Rightarrow> WorkflowDiff \<Rightarrow> WorkflowDiff res" where
  "mergeNext nodes wcs = rfold mergeOne wcs nodes"

subsection \<open>The rule for additive changes\<close>

definition nodeIsAdditive :: "(json \<Rightarrow> json \<Rightarrow> bool) \<Rightarrow> DiffableNode \<Rightarrow> DiffableNode \<Rightarrow> bool" where
  "nodeIsAdditive isEqual prevNode nextNode =
     (let prevParams = df_parameters prevNode; nextParams = df_parameters nextNode; params = own_keys prevParams
      in compareNodes isEqual (Some (prevNode\<lparr>df_parameters := []\<rparr>)) (Some (nextNode\<lparr>df_parameters := []\<rparr>))
         \<and> \<not> list_ex (\<lambda>x. \<not> jhas nextParams x) params
         \<and> list_all (\<lambda>key. case (jget prevParams key, jget nextParams key) of
              (Some (JStr left), Some (JStr right)) \<Rightarrow> str_includes right left
            | (Some left, Some right) \<Rightarrow> strict_equal left right
            | _ \<Rightarrow> False) params)"

record GroupedWorkflowHistory =
  gh_changeSet :: WorkflowDiff
  gh_grouped :: "DiffableWorkflow list"
  gh_from :: DiffableWorkflow
  gh_to :: DiffableWorkflow

type_synonym DiffRule = "GroupedWorkflowHistory \<Rightarrow> GroupedWorkflowHistory \<Rightarrow> WorkflowDiff \<Rightarrow> bool res"

fun additiveLoop :: "(json \<Rightarrow> json \<Rightarrow> bool) \<Rightarrow> GroupedWorkflowHistory \<Rightarrow> NodeDiff list \<Rightarrow> bool res" where
  "additiveLoop isEqual next [] = Inr True"
| "additiveLoop isEqual next (d # ds) =
     (if nd_status d = DiffDeleted then Inr False
      else if nd_status d = DiffAdded then additiveLoop isEqual next ds
      else case find (\<lambda>x. df_name x = df_name (nd_node d)) (dw_nodes (gh_from next)) of
          None \<Rightarrow> Inl invariantBroken
        | Some nextNode \<Rightarrow> if nd_status d = DiffModified \<and> \<not> nodeIsAdditive isEqual (nd_node d) nextNode
            then Inr False else additiveLoop isEqual next ds)"

definition mergeAdditiveChanges :: "(json \<Rightarrow> json \<Rightarrow> bool) \<Rightarrow> DiffRule" where
  "mergeAdditiveChanges isEqual prev next diff = additiveLoop isEqual next (jvals diff)"

subsection \<open>Grouping\<close>

definition compareWorkflows :: "NodesEqual \<Rightarrow> DiffableWorkflow \<Rightarrow> DiffableWorkflow \<Rightarrow> GroupedWorkflowHistory" where
  "compareWorkflows nodesEqual previous next =
     \<lparr>gh_changeSet = compareWorkflowsNodes nodesEqual (dw_nodes previous) (dw_nodes next),
      gh_grouped = [], gh_from = previous, gh_to = next\<rparr>"

text \<open>The loop over the rules: whether one of them asks for the merge.\<close>

fun firstRule :: "DiffRule list \<Rightarrow> GroupedWorkflowHistory \<Rightarrow> GroupedWorkflowHistory \<Rightarrow> WorkflowDiff \<Rightarrow> bool res" where
  "firstRule [] prev next diff = Inr False"
| "firstRule (rule # rules) prev next diff =
     rbind (rule prev next diff) (\<lambda>shouldMerge. if shouldMerge then Inr True else firstRule rules prev next diff)"

text \<open>The merge takes the last group from the list, whatever the position \<open>i\<close>.\<close>

definition mergeRight :: "nat \<Rightarrow> GroupedWorkflowHistory list \<Rightarrow> GroupedWorkflowHistory list res" where
  "mergeRight i diffs = (if diffs = [] then Inl invariantBroken
     else let right = List.last diffs; diffs = butlast diffs
       in case arr_get diffs (i - 1) of
            None \<Rightarrow> Inl TypeError
          | Some left \<Rightarrow> rbind (mergeNext (gh_changeSet left) (gh_changeSet right)) (\<lambda>changeSet.
              Inr (diffs[i - 1 := left\<lparr>gh_changeSet := changeSet,
                gh_grouped := gh_grouped left @ [gh_to left] @ gh_grouped right, gh_to := gh_to right\<rparr>])))"

definition mergeAt :: "NodesEqual \<Rightarrow> DiffRule list \<Rightarrow> nat \<Rightarrow> GroupedWorkflowHistory list \<Rightarrow> GroupedWorkflowHistory list res" where
  "mergeAt nodesEqual rules i diffs = (case (arr_get diffs (i - 1), arr_get diffs i) of
      (Some left, Some right) \<Rightarrow>
        rbind (firstRule rules left right (compareWorkflowsNodes nodesEqual (dw_nodes (gh_from left)) (dw_nodes (gh_to right))))
          (\<lambda>shouldMerge. if shouldMerge then mergeRight i diffs else Inr diffs)
    | _ \<Rightarrow> Inl TypeError)"

definition mergeRound :: "NodesEqual \<Rightarrow> DiffRule list \<Rightarrow> GroupedWorkflowHistory list \<Rightarrow> GroupedWorkflowHistory list res" where
  "mergeRound nodesEqual rules diffs = rfold (mergeAt nodesEqual rules) (rev [1 ..< length diffs]) diffs"

lemma mergeAt_length: "mergeAt nodesEqual rules i diffs = Inr diffs' \<Longrightarrow> length diffs' \<le> length diffs"
  by (auto simp: mergeAt_def mergeRight_def rbind_Inr_iff Let_def split: option.splits if_splits)

lemma mergeRound_length:
  assumes "mergeRound nodesEqual rules diffs = Inr diffs'"
  shows "length diffs' \<le> length diffs"
  by (rule rfold_invariant [where I = "\<lambda>ds. length ds \<le> length diffs", OF assms [unfolded mergeRound_def]])
    (auto dest: mergeAt_length)

function mergeLoop :: "NodesEqual \<Rightarrow> DiffRule list \<Rightarrow> GroupedWorkflowHistory list \<Rightarrow> GroupedWorkflowHistory list res" where
  "mergeLoop nodesEqual rules diffs = rbind (mergeRound nodesEqual rules diffs) (\<lambda>diffs'.
     if length diffs' \<noteq> length diffs then mergeLoop nodesEqual rules diffs' else Inr diffs')"
  by pat_completeness auto
termination
  by (relation "measure (\<lambda>(nodesEqual, rules, diffs). length diffs)") (auto dest: mergeRound_length)

declare mergeLoop.simps [simp del]

definition groupWorkflows :: "NodesEqual \<Rightarrow> DiffableWorkflow list \<Rightarrow> DiffRule list \<Rightarrow> GroupedWorkflowHistory list res" where
  "groupWorkflows nodesEqual workflows rules = (case workflows of
      [] \<Rightarrow> Inr []
    | [w] \<Rightarrow> Inr [\<lparr>gh_changeSet = [], gh_grouped = [], gh_from = w, gh_to = w\<rparr>]
    | _ \<Rightarrow> mergeLoop nodesEqual rules
        (map (\<lambda>i. compareWorkflows nodesEqual (workflows ! i) (workflows ! Suc i)) [0 ..< length workflows - 1]))"

end
