(* ===== verification/WorkflowGroups.thy ===== *)
theory WorkflowGroups
  imports WorkflowDiff "HOL-Library.Multiset"
begin

section \<open>Composition of changes and grouping of versions\<close>

text \<open>
  A change set tracks two versions if its entries say which nodes only the first, only the second or both
  have.  Comparing two versions gives such a change set, and merging composes them.  From this follows what
  grouping returns.
\<close>

subsection \<open>Looking up changes\<close>

definition node_at :: "DiffableNode list \<Rightarrow> string \<Rightarrow> DiffableNode option" where
  "node_at nodes key = jget (nodesById nodes) key"

definition status_at :: "WorkflowDiff \<Rightarrow> string \<Rightarrow> NodeDiffStatus option" where
  "status_at d key = map_option nd_status (jget d key)"

lemma jwf_nodesById [simp]: "jwf (nodesById nodes)"
  unfolding nodesById_def by (rule fold_invariant_list) (simp_all del: fst_conv)

lemma jget_fold_jput:
  "jwf m \<Longrightarrow> jget (fold (\<lambda>(k, v) acc. if P k v then jput k (g k v) acc else acc) m acc) k
    = (case jget m k of Some v \<Rightarrow> if P k v then Some (g k v) else jget acc k | None \<Rightarrow> jget acc k)"
proof (induction m arbitrary: acc)
  case (Cons p m)
  obtain k' v' where p: "p = (k', v')" by (cases p)
  have "jget m k' = None" using Cons.prems by (simp add: p map_of_eq_None_iff)
  then show ?case using Cons by (auto simp: p js_map_simps split: option.split)
qed simp

lemma jget_fold_jput_all:
  "jwf m \<Longrightarrow> jget (fold (\<lambda>(k, v). jput k (g k v)) m acc) k
    = (case jget m k of Some v \<Rightarrow> Some (g k v) | None \<Rightarrow> jget acc k)"
  using jget_fold_jput [of m "\<lambda>k v. True" g acc k] by (simp add: case_prod_unfold cong: option.case_cong)

lemma jwf_fold_jput: "jwf acc \<Longrightarrow> jwf (fold (\<lambda>(k, v) acc. if P k v then jput k (g k v) acc else acc) m acc)"
  by (induction m arbitrary: acc) (auto simp: distinct_update)

lemma jwf_fold_jput_all: "jwf acc \<Longrightarrow> jwf (fold (\<lambda>(k, v). jput k (g k v)) m acc)"
  by (induction m arbitrary: acc) (auto simp: distinct_update)

lemma compare_entry:
  "jget (compareWorkflowsNodes nodesEqual base target) key = (case node_at base key of
      Some n \<Rightarrow> Some \<lparr>nd_status = (if node_at target key = None then DiffDeleted
          else if \<not> nodesEqual (Some n) (node_at target key) then DiffModified else DiffEq), nd_node = n\<rparr>
    | None \<Rightarrow> map_option (\<lambda>n. \<lparr>nd_status = DiffAdded, nd_node = n\<rparr>) (node_at target key))"
  by (cases "jget (nodesById base) key"; cases "jget (nodesById target) key")
    (simp_all add: compareWorkflowsNodes_def Let_def jget_fold_jput jget_fold_jput_all jhas_def node_at_def)

lemma compare_wf: "jwf (compareWorkflowsNodes nodesEqual base target)"
  unfolding compareWorkflowsNodes_def Let_def by (intro jwf_fold_jput jwf_fold_jput_all) simp

text \<open>The status that a merge gives, and when it is possible.\<close>

definition merged_entry :: "NodeDiff option \<Rightarrow> NodeDiff option \<Rightarrow> NodeDiff option" where
  "merged_entry old new = (case new of
      None \<Rightarrow> old
    | Some diff \<Rightarrow> (case old of
        None \<Rightarrow> Some (diff\<lparr>nd_status := DiffAdded\<rparr>)
      | Some e \<Rightarrow> (case mergeNodeDiff (nd_status e) (nd_status diff) of
          Merged s \<Rightarrow> Some (diff\<lparr>nd_status := s\<rparr>) | _ \<Rightarrow> None)))"

definition mergeable :: "NodeDiff option \<Rightarrow> NodeDiff option \<Rightarrow> bool" where
  "mergeable old new \<longleftrightarrow> (case (old, new) of
      (Some e, Some diff) \<Rightarrow> mergeNodeDiff (nd_status e) (nd_status diff) \<noteq> InvariantBroken | _ \<Rightarrow> True)"

lemma mergeOne_entry:
  assumes "mergeable (jget nodes k) (Some diff)" and "jwf nodes"
  obtains nodes' where "mergeOne (k, diff) nodes = Inr nodes'" "jwf nodes'"
    "\<And>k'. jget nodes' k' = (if k' = k then merged_entry (jget nodes k) (Some diff) else jget nodes k')"
proof (cases "jget nodes k")
  case None
  then show thesis using that assms(2)
    by (simp add: mergeOne_def merged_entry_def js_map_simps distinct_update)
next
  case (Some e)
  then show thesis using that assms
    by (cases "mergeNodeDiff (nd_status e) (nd_status diff)")
      (simp_all add: mergeOne_def merged_entry_def mergeable_def js_map_simps distinct_update distinct_delete)
qed

lemma mergeNext_entry:
  assumes "jwf wcs" and "jwf nodes" and "\<And>k. mergeable (jget nodes k) (jget wcs k)"
  shows "\<exists>d. mergeNext nodes wcs = Inr d \<and> jwf d \<and> (\<forall>k. jget d k = merged_entry (jget nodes k) (jget wcs k))"
  using assms
proof (induction wcs arbitrary: nodes)
  case Nil
  then show ?case by (simp add: mergeNext_def merged_entry_def)
next
  case (Cons p wcs)
  obtain k diff where p: "p = (k, diff)" by (cases p)
  have fresh: "jget wcs k = None" using Cons.prems(1) by (simp add: p map_of_eq_None_iff)
  have "mergeable (jget nodes k) (Some diff)" using Cons.prems(3) [of k] by (simp add: p)
  then obtain nodes' where n: "mergeOne (k, diff) nodes = Inr nodes'" "jwf nodes'"
    and e: "\<And>k'. jget nodes' k' = (if k' = k then merged_entry (jget nodes k) (Some diff) else jget nodes k')"
    using mergeOne_entry Cons.prems(2) by metis
  have "mergeable (jget nodes' k') (jget wcs k')" for k'
    using Cons.prems(3) [of k'] fresh by (cases "k' = k") (simp_all add: e p mergeable_def split: option.split)
  then obtain d where "mergeNext nodes' wcs = Inr d" "jwf d" "\<forall>k. jget d k = merged_entry (jget nodes' k) (jget wcs k)"
    using Cons.IH [of nodes'] Cons.prems(1) n(2) by (auto simp: p)
  then show ?case using n(1) fresh by (auto simp: mergeNext_def p e merged_entry_def)
qed

subsection \<open>Change sets track versions\<close>

definition tracks :: "DiffableNode list \<Rightarrow> DiffableNode list \<Rightarrow> WorkflowDiff \<Rightarrow> bool" where
  "tracks base target d \<longleftrightarrow> jwf d \<and> (\<forall>key. case status_at d key of
      None \<Rightarrow> node_at base key = None \<and> node_at target key = None
    | Some DiffAdded \<Rightarrow> node_at base key = None \<and> node_at target key \<noteq> None
    | Some DiffDeleted \<Rightarrow> node_at base key \<noteq> None \<and> node_at target key = None
    | Some _ \<Rightarrow> node_at base key \<noteq> None \<and> node_at target key \<noteq> None)"

lemma compare_tracks: "tracks base target (compareWorkflowsNodes nodesEqual base target)"
  unfolding tracks_def status_at_def by (auto simp: compare_wf compare_entry split: option.split)

lemma merge_tracks:
  assumes "tracks a b d" and "tracks b c d'"
  obtains d'' where "mergeNext d d' = Inr d''" "tracks a c d''" "\<And>key. jget d'' key = merged_entry (jget d key) (jget d' key)"
proof -
  have one: "case status_at d key of
      None \<Rightarrow> node_at a key = None \<and> node_at b key = None
    | Some DiffAdded \<Rightarrow> node_at a key = None \<and> node_at b key \<noteq> None
    | Some DiffDeleted \<Rightarrow> node_at a key \<noteq> None \<and> node_at b key = None
    | Some _ \<Rightarrow> node_at a key \<noteq> None \<and> node_at b key \<noteq> None" for key
    using assms(1) by (simp add: tracks_def)
  have two: "case status_at d' key of
      None \<Rightarrow> node_at b key = None \<and> node_at c key = None
    | Some DiffAdded \<Rightarrow> node_at b key = None \<and> node_at c key \<noteq> None
    | Some DiffDeleted \<Rightarrow> node_at b key \<noteq> None \<and> node_at c key = None
    | Some _ \<Rightarrow> node_at b key \<noteq> None \<and> node_at c key \<noteq> None" for key
    using assms(2) by (simp add: tracks_def)
  have "mergeable (jget d key) (jget d' key)" for key
    using one [of key] two [of key]
    by (auto simp: mergeable_def status_at_def split: option.splits NodeDiffStatus.splits)
  then obtain d'' where m: "mergeNext d d' = Inr d''" "jwf d''"
    and e: "\<forall>key. jget d'' key = merged_entry (jget d key) (jget d' key)"
    using mergeNext_entry [of d' d] assms by (auto simp: tracks_def)
  have "case status_at d'' key of
      None \<Rightarrow> node_at a key = None \<and> node_at c key = None
    | Some DiffAdded \<Rightarrow> node_at a key = None \<and> node_at c key \<noteq> None
    | Some DiffDeleted \<Rightarrow> node_at a key \<noteq> None \<and> node_at c key = None
    | Some _ \<Rightarrow> node_at a key \<noteq> None \<and> node_at c key \<noteq> None" for key
    using one [of key] two [of key] e
    by (cases "jget d key"; cases "jget d' key")
      (auto simp: status_at_def merged_entry_def split: NodeDiffStatus.splits)
  then have "tracks a c d''" using m(2) by (simp add: tracks_def)
  then show thesis using that m(1) e by blast
qed

text \<open>
  C19: merging the changes from a first to a second version with those from the second to a third never
  fails and gives the changes from the first to the third: a node that both have counts as equal exactly if
  it was equal in both steps.
\<close>

theorem mergeNext_composes:
  "\<exists>d. mergeNext (compareWorkflowsNodes nodesEqual a b) (compareWorkflowsNodes nodesEqual b c) = Inr d
     \<and> (\<forall>key. status_at d key = (case (node_at a key, node_at c key) of
          (None, None) \<Rightarrow> None
        | (None, Some z) \<Rightarrow> Some DiffAdded
        | (Some x, None) \<Rightarrow> Some DiffDeleted
        | (Some x, Some z) \<Rightarrow> (case node_at b key of
            None \<Rightarrow> Some DiffModified
          | Some y \<Rightarrow> Some (if nodesEqual (Some x) (Some y) \<and> nodesEqual (Some y) (Some z) then DiffEq else DiffModified))))"
proof -
  obtain d where d: "mergeNext (compareWorkflowsNodes nodesEqual a b) (compareWorkflowsNodes nodesEqual b c) = Inr d"
    and e: "\<And>key. jget d key = merged_entry (jget (compareWorkflowsNodes nodesEqual a b) key) (jget (compareWorkflowsNodes nodesEqual b c) key)"
    using merge_tracks [OF compare_tracks compare_tracks] by metis
  show ?thesis
    by (intro exI [of _ d] conjI d allI)
      (auto simp: status_at_def e compare_entry merged_entry_def split: option.split)
qed

subsection \<open>Grouping\<close>

definition covers :: "GroupedWorkflowHistory \<Rightarrow> bool" where
  "covers g \<longleftrightarrow> tracks (dw_nodes (gh_from g)) (dw_nodes (gh_to g)) (gh_changeSet g)"

definition adjacent_groups :: "GroupedWorkflowHistory \<Rightarrow> GroupedWorkflowHistory \<Rightarrow> bool" where
  "adjacent_groups g h \<longleftrightarrow> gh_to g = gh_from h"

definition merge_all :: DiffRule where
  "merge_all prev next diff = Inr True"

text \<open>Two adjacent groups at the end of the list become one.\<close>

lemma mergeAt_last:
  assumes "covers g" and "covers h" and "adjacent_groups g h"
  obtains m where "mergeAt nodesEqual [merge_all] (Suc (length gs)) (gs @ [g, h]) = Inr (gs @ [m])"
    "covers m" "gh_from m = gh_from g" "gh_to m = gh_to h" "gh_grouped m = gh_grouped g @ [gh_to g] @ gh_grouped h"
proof -
  obtain d where d: "mergeNext (gh_changeSet g) (gh_changeSet h) = Inr d"
    and t: "tracks (dw_nodes (gh_from g)) (dw_nodes (gh_to h)) d"
    using merge_tracks assms unfolding covers_def adjacent_groups_def by metis
  define m where "m = g\<lparr>gh_changeSet := d, gh_grouped := gh_grouped g @ [gh_to g] @ gh_grouped h, gh_to := gh_to h\<rparr>"
  have "mergeAt nodesEqual [merge_all] (Suc (length gs)) (gs @ [g, h]) = Inr (gs @ [m])"
    by (simp add: mergeAt_def mergeRight_def merge_all_def arr_get_def nth_append butlast_append d m_def)
  then show thesis using that t by (simp add: m_def covers_def)
qed

lemma merge_all_groups:
  assumes "list_all covers (gs @ [g])" and "successively adjacent_groups (gs @ [g])"
  shows "\<exists>m. rfold (mergeAt nodesEqual [merge_all]) (rev [1 ..< Suc (length gs)]) (gs @ [g]) = Inr [m] \<and> covers m
     \<and> gh_from m = gh_from (hd (gs @ [g])) \<and> gh_to m = gh_to g
     \<and> gh_grouped m = concat (map (\<lambda>h. gh_grouped h @ [gh_to h]) gs) @ gh_grouped g"
  using assms
proof (induction gs arbitrary: g rule: rev_induct)
  case (snoc h gs)
  have covers: "covers h" "covers g" "list_all covers gs" and adj: "adjacent_groups h g"
    using snoc.prems by (simp_all add: successively_append_iff)
  obtain m where m: "mergeAt nodesEqual [merge_all] (Suc (length gs)) (gs @ [h, g]) = Inr (gs @ [m])" "covers m"
    "gh_from m = gh_from h" "gh_to m = gh_to g" "gh_grouped m = gh_grouped h @ [gh_to h] @ gh_grouped g"
    using mergeAt_last [OF covers(1,2) adj] by metis
  have "successively adjacent_groups (gs @ [m])"
    using snoc.prems(2) m(3) by (auto simp: successively_append_iff adjacent_groups_def)
  then obtain m' where "rfold (mergeAt nodesEqual [merge_all]) (rev [1 ..< Suc (length gs)]) (gs @ [m]) = Inr [m']" "covers m'"
    "gh_from m' = gh_from (hd (gs @ [m]))" "gh_to m' = gh_to m"
    "gh_grouped m' = concat (map (\<lambda>h. gh_grouped h @ [gh_to h]) gs) @ gh_grouped m"
    using snoc.IH [of m] covers m(2) by auto
  moreover have "gh_from (hd (gs @ [m])) = gh_from (hd ((gs @ [h]) @ [g]))" using m(3) by (cases gs) auto
  ultimately show ?case using m by (auto simp: rfold_append)
qed (simp add: list_all_iff)

lemma two_versions:
  assumes "2 \<le> length ws"
  obtains v ws' where "ws = v # ws'" "ws' \<noteq> []"
  using assms by (cases ws; cases "tl ws") auto

lemma mergeLoop_single: "mergeLoop nodesEqual rules [g] = Inr [g]"
  by (simp add: mergeLoop.simps mergeRound_def)

definition version_steps :: "NodesEqual \<Rightarrow> DiffableWorkflow list \<Rightarrow> GroupedWorkflowHistory list" where
  "version_steps nodesEqual ws = map (\<lambda>i. compareWorkflows nodesEqual (ws ! i) (ws ! Suc i)) [0 ..< length ws - 1]"

lemma groupWorkflows_steps:
  "2 \<le> length ws \<Longrightarrow> groupWorkflows nodesEqual ws rules = mergeLoop nodesEqual rules (version_steps nodesEqual ws)"
  by (cases ws; cases "tl ws") (auto simp: groupWorkflows_def version_steps_def)

lemma version_steps_Cons:
  "version_steps nodesEqual (v # w # ws) = compareWorkflows nodesEqual v w # version_steps nodesEqual (w # ws)"
  by (simp add: version_steps_def upt_conv_Cons map_Suc_upt [symmetric] comp_def del: upt_Suc)

lemma version_steps_chain:
  "ws \<noteq> [] \<Longrightarrow> list_all covers (version_steps nodesEqual (v # ws)) \<and> successively adjacent_groups (version_steps nodesEqual (v # ws))
     \<and> version_steps nodesEqual (v # ws) \<noteq> [] \<and> gh_from (hd (version_steps nodesEqual (v # ws))) = v
     \<and> gh_to (List.last (version_steps nodesEqual (v # ws))) = List.last ws
     \<and> map gh_to (version_steps nodesEqual (v # ws)) = ws \<and> (\<forall>g \<in> set (version_steps nodesEqual (v # ws)). gh_grouped g = [])"
proof (induction ws arbitrary: v)
  case (Cons w ws)
  have one: "covers (compareWorkflows nodesEqual v w)"
    by (simp add: covers_def compareWorkflows_def compare_tracks)
  show ?case
  proof (cases ws)
    case Nil
    then show ?thesis using one by (simp add: version_steps_def compareWorkflows_def)
  next
    case (Cons u us)
    then show ?thesis using Cons.IH [of w] one
      by (cases "version_steps nodesEqual (w # ws)")
        (auto simp: version_steps_Cons compareWorkflows_def adjacent_groups_def)
  qed
qed simp

text \<open>
  C20: if the rules always ask for a merge, a history of at least two versions becomes one group from its
  first to its last version, with the versions between them in order, and with a change set that tracks
  the first and the last version.
\<close>

theorem groupWorkflows_merges:
  assumes "2 \<le> length ws"
  shows "\<exists>g. groupWorkflows nodesEqual ws [merge_all] = Inr [g] \<and> gh_from g = hd ws \<and> gh_to g = List.last ws
     \<and> gh_grouped g = butlast (tl ws) \<and> tracks (dw_nodes (hd ws)) (dw_nodes (List.last ws)) (gh_changeSet g)"
proof -
  obtain v ws' where ws: "ws = v # ws'" "ws' \<noteq> []" using assms by (rule two_versions)
  define gs where "gs = version_steps nodesEqual ws"
  have chain: "list_all covers gs" "successively adjacent_groups gs" "gs \<noteq> []" "gh_from (hd gs) = v"
    "gh_to (List.last gs) = List.last ws'" "map gh_to gs = ws'" "\<forall>g \<in> set gs. gh_grouped g = []"
    using version_steps_chain [OF ws(2), of nodesEqual v] by (simp_all add: gs_def ws(1))
  then obtain hs h where gs: "gs = hs @ [h]" by (cases gs rule: rev_cases) auto
  obtain m where m: "rfold (mergeAt nodesEqual [merge_all]) (rev [1 ..< Suc (length hs)]) (hs @ [h]) = Inr [m]" "covers m"
    "gh_from m = gh_from (hd (hs @ [h]))" "gh_to m = gh_to h"
    "gh_grouped m = concat (map (\<lambda>h. gh_grouped h @ [gh_to h]) hs) @ gh_grouped h"
    using merge_all_groups [of hs h nodesEqual] chain by (auto simp: gs)
  have "concat (map (\<lambda>h. gh_grouped h @ [gh_to h]) hs) = map gh_to hs"
    using chain(7) by (simp add: gs) (induction hs; simp)
  then have "gh_grouped m = butlast ws'" using m(5) chain(6,7) by (auto simp: gs)
  moreover have "groupWorkflows nodesEqual ws [merge_all] = Inr [m]"
    using m(1) assms by (simp add: groupWorkflows_steps gs_def [symmetric] gs mergeLoop.simps [of _ _ "hs @ [h]"]
        mergeRound_def mergeLoop_single)
  ultimately show ?thesis using m chain ws by (auto simp: gs covers_def)
qed

text \<open>The versions that the groups hold, apart from the first of each group.\<close>

definition held :: "GroupedWorkflowHistory list \<Rightarrow> DiffableWorkflow multiset" where
  "held gs = mset (concat (map gh_grouped gs)) + mset (map gh_to gs)"

lemma mergeRight_held:
  assumes "mergeRight i gs = Inr gs'"
  shows "held gs' = held gs"
proof (cases gs rule: rev_cases)
  case (snoc hs h)
  then obtain left d where left: "arr_get hs (i - 1) = Some left"
    and gs': "gs' = hs[i - 1 := left\<lparr>gh_changeSet := d, gh_grouped := gh_grouped left @ [gh_to left] @ gh_grouped h, gh_to := gh_to h\<rparr>]"
    using assms by (auto simp: mergeRight_def rbind_Inr_iff split: option.splits)
  have "i - 1 < length hs" and "hs ! (i - 1) = left" using left by (simp_all add: arr_get_def split: if_splits)
  then obtain xs ys where "hs = xs @ left # ys" "length xs = i - 1"
    by (metis id_take_nth_drop length_take min.absorb4)
  then show ?thesis by (simp add: gs' snoc held_def list_update_append)
qed (use assms in \<open>simp add: mergeRight_def\<close>)

lemma mergeRound_held:
  assumes "mergeRound nodesEqual rules gs = Inr gs'"
  shows "held gs' = held gs"
proof (rule rfold_invariant [where I = "\<lambda>ds. held ds = held gs", OF assms [unfolded mergeRound_def]])
  show "held ds' = held gs" if "held ds = held gs" and "mergeAt nodesEqual rules i ds = Inr ds'" for i ds ds'
    using that mergeRight_held by (auto simp: mergeAt_def rbind_Inr_iff split: option.splits if_splits)
qed simp

lemma mergeLoop_held: "mergeLoop nodesEqual rules gs = Inr gs' \<Longrightarrow> held gs' = held gs"
proof (induction nodesEqual rules gs arbitrary: gs' rule: mergeLoop.induct)
  case (1 nodesEqual rules gs)
  obtain ds where ds: "mergeRound nodesEqual rules gs = Inr ds"
    and r: "(if length ds \<noteq> length gs then mergeLoop nodesEqual rules ds else Inr ds) = Inr gs'"
    using "1.prems" by (auto simp: mergeLoop.simps [of nodesEqual rules gs] rbind_Inr_iff)
  then show ?case using "1.IH" [OF ds] mergeRound_held [OF ds] by (auto split: if_splits)
qed

text \<open>
  C21: whatever the rules, grouping loses no version: each version but the first is the end of a group or
  grouped, as often as it is in the history.
\<close>

theorem groupWorkflows_keeps_versions:
  assumes "groupWorkflows nodesEqual ws rules = Inr gs" and "2 \<le> length ws"
  shows "mset (concat (map gh_grouped gs)) + mset (map gh_to gs) = mset (tl ws)"
proof -
  obtain v ws' where ws: "ws = v # ws'" "ws' \<noteq> []" using assms(2) by (rule two_versions)
  have "held gs = held (version_steps nodesEqual ws)"
    using assms mergeLoop_held by (simp add: groupWorkflows_steps)
  moreover have "concat (map gh_grouped (version_steps nodesEqual ws)) = []"
    using version_steps_chain [OF ws(2), of nodesEqual v] ws(1) by simp
  ultimately show ?thesis
    using version_steps_chain [OF ws(2), of nodesEqual v] by (simp add: held_def ws(1))
qed

subsection \<open>Histories\<close>

text \<open>A workflow with one node, whose only parameter is a text.\<close>

definition text_version :: "string \<Rightarrow> string \<Rightarrow> DiffableWorkflow" where
  "text_version v s = \<lparr>dw_versionId = v, dw_nodes = [\<lparr>df_id = ''n'', df_name = ''Set'', df_type = ''set'',
     df_typeVersion = 1, df_webhookId = None, df_credentials = None, df_parameters = [(''text'', JStr s)]\<rparr>]\<rparr>"

definition history :: "DiffableWorkflow list" where
  "history = [text_version ''v1'' ''a'', text_version ''v2'' ''ab'', text_version ''v3'' ''c'', text_version ''v4'' ''c'']"

definition grouped_ids :: "GroupedWorkflowHistory list res \<Rightarrow> (string \<times> string list \<times> string) list res" where
  "grouped_ids r = rbind r (\<lambda>gs. Inr (map (\<lambda>g. (dw_versionId (gh_from g), map dw_versionId (gh_grouped g), dw_versionId (gh_to g))) gs))"

theorem groupWorkflows_merges_witness:
  "\<exists>g. groupWorkflows (compareNodes (=)) history [merge_all] = Inr [g] \<and> gh_from g = text_version ''v1'' ''a''
     \<and> gh_to g = text_version ''v4'' ''c'' \<and> gh_grouped g = [text_version ''v2'' ''ab'', text_version ''v3'' ''c'']"
  using groupWorkflows_merges [of history "compareNodes (=)"] by (auto simp: history_def)

theorem groupWorkflows_keeps_versions_witness:
  "mset (concat (map gh_grouped (version_steps (compareNodes (=)) (take 2 history))))
      + mset (map gh_to (version_steps (compareNodes (=)) (take 2 history))) = mset (tl (take 2 history))"
proof (rule groupWorkflows_keeps_versions)
  show "groupWorkflows (compareNodes (=)) (take 2 history) [] = Inr (version_steps (compareNodes (=)) (take 2 history))"
    by (simp add: groupWorkflows_steps history_def version_steps_def mergeLoop_single)
qed (simp add: history_def)

text \<open>
  the rule for additive changes compares the first version with the middle one only.  The middle version
  is grouped although the next version lost its text: \<open>ab\<close> became \<open>c\<close>.
\<close>

theorem additive_rule_loses_data:
  "grouped_ids (groupWorkflows (compareNodes (=)) (take 3 history) [mergeAdditiveChanges (=)]) = Inr [(''v1'', [''v2''], ''v3'')]
   \<and> \<not> nodeIsAdditive (=) (hd (dw_nodes (text_version ''v2'' ''ab''))) (hd (dw_nodes (text_version ''v3'' ''c'')))"
  by (intro conjI; code_simp)

text \<open>
  The merge takes the last group of the list and not the group beside it.  Of four versions one group is
  left that ends in the third; the newest version is grouped.
\<close>

theorem wrong_group_merged:
  "grouped_ids (groupWorkflows (compareNodes (=)) history [mergeAdditiveChanges (=)]) = Inr [(''v1'', [''v2'', ''v4''], ''v3'')]"
  by code_simp

end
