(* ===== verification/ParameterDisplay.thy ===== *)
theory ParameterDisplay
  imports JsonValues
begin

section \<open>Which parameters of a node are displayed\<close>

text \<open>
  \<open>displayParameter\<close> of \<open>packages/workflow/src/node-helpers.ts\<close>: a parameter is displayed if the rules
  \<open>show\<close> and \<open>hide\<close> of its display options allow it for the values of the other parameters.
  Numbers are integers; a fractional type version stands for its multiple.  From outside come lodash's
  \<open>get\<close> and \<open>isEqual\<close>, regular expressions, and the conversions of the runtime between types.
\<close>

record ParameterContext =
  pc_get :: "json \<Rightarrow> string \<Rightarrow> json"
  pc_isEqual :: "json \<Rightarrow> json \<Rightarrow> bool"
  pc_regex :: "json \<Rightarrow> json \<Rightarrow> bool res"
  pc_toNumber :: "string \<Rightarrow> int option"
  pc_toString :: "json \<Rightarrow> string"
  pc_typeVersion :: "json option"
  pc_nodeTypeName :: "string option"

type_synonym DisplayRule = "(string, json list) jmap"
type_synonym DisplayOptions = "(string, DisplayRule) jmap"

text \<open>
  A parameter description.  The options of a \<open>collection\<close> are parameters, those of a \<open>fixedCollection\<close> are
  named lists of parameters.
\<close>

datatype INodeProperties = INodeProperties
  (np_name: string)
  (np_type: string)
  (np_default: json)
  (np_displayOptions: "DisplayOptions option")
  (np_multipleValues: "bool option")
  (np_options: "INodeProperties list")
  (np_collections: "(string \<times> INodeProperties list) list")

definition getPropertyValues :: "ParameterContext \<Rightarrow> json \<Rightarrow> string \<Rightarrow> json \<Rightarrow> json list" where
  "getPropertyValues pc nodeValues propertyName nodeValuesRoot =
     (let value = (if starts_with propertyName ''/'' then pc_get pc nodeValuesRoot (tl propertyName)
           else if propertyName = ''@version'' then (case pc_typeVersion pc of
               None \<Rightarrow> JNum 0 | Some v \<Rightarrow> if json_truthy v then v else JNum 0)
           else if propertyName = ''@tool'' then JBool (case pc_nodeTypeName pc of None \<Rightarrow> False | Some name \<Rightarrow> ends_with ''Tool'' name)
           else pc_get pc nodeValues propertyName);
          value = (if json_truthy (field value ''__rl'') then field value ''value'' else value)
      in case value of JArr values \<Rightarrow> values | _ \<Rightarrow> [value])"

subsection \<open>Conditions\<close>

text \<open>
  \<open>a <= b\<close>: an object or array is turned into a text; two texts are compared as texts, other values as
  numbers; undefined is no number.
\<close>

definition to_primitive :: "ParameterContext \<Rightarrow> json \<Rightarrow> json" where
  "to_primitive pc v = (if is_primitive v then v else JStr (pc_toString pc v))"

definition to_number :: "ParameterContext \<Rightarrow> json \<Rightarrow> int option" where
  "to_number pc v = (case v of
      JNull \<Rightarrow> Some 0
    | JBool b \<Rightarrow> Some (if b then 1 else 0)
    | JNum n \<Rightarrow> Some n
    | JStr s \<Rightarrow> pc_toNumber pc s
    | _ \<Rightarrow> None)"

definition js_le :: "ParameterContext \<Rightarrow> json \<Rightarrow> json \<Rightarrow> bool" where
  "js_le pc a b = (case (to_primitive pc a, to_primitive pc b) of
      (JStr s, JStr t) \<Rightarrow> str_le s t
    | (u, v) \<Rightarrow> (case (to_number pc u, to_number pc v) of (Some m, Some n) \<Rightarrow> m \<le> n | _ \<Rightarrow> False))"

definition js_less :: "ParameterContext \<Rightarrow> json \<Rightarrow> json \<Rightarrow> bool" where
  "js_less pc a b = (case (to_primitive pc a, to_primitive pc b) of
      (JStr s, JStr t) \<Rightarrow> \<not> str_le t s
    | (u, v) \<Rightarrow> (case (to_number pc u, to_number pc v) of (Some m, Some n) \<Rightarrow> m < n | _ \<Rightarrow> False))"

text \<open>A method of texts; on a value without the method a \<open>TypeError\<close>.\<close>

definition on_text :: "ParameterContext \<Rightarrow> (string \<Rightarrow> string \<Rightarrow> bool) \<Rightarrow> json \<Rightarrow> json \<Rightarrow> bool res" where
  "on_text pc test v target = (case v of
      JStr s \<Rightarrow> Inr (test s (case target of JStr t \<Rightarrow> t | _ \<Rightarrow> pc_toString pc target)) | _ \<Rightarrow> Inl TypeError)"

definition checkCondition :: "ParameterContext \<Rightarrow> string \<Rightarrow> json \<Rightarrow> json \<Rightarrow> bool res" where
  "checkCondition pc key targetValue propertyValue =
     (if key = ''eq'' then Inr (pc_isEqual pc propertyValue targetValue)
      else if key = ''not'' then Inr (\<not> pc_isEqual pc propertyValue targetValue)
      else if key = ''gte'' then Inr (js_le pc targetValue propertyValue)
      else if key = ''lte'' then Inr (js_le pc propertyValue targetValue)
      else if key = ''gt'' then Inr (js_less pc targetValue propertyValue)
      else if key = ''lt'' then Inr (js_less pc propertyValue targetValue)
      else if key = ''between'' then
        (if targetValue = JUndefined \<or> targetValue = JNull then Inl TypeError
         else Inr (js_le pc (field targetValue ''from'') propertyValue \<and> js_le pc propertyValue (field targetValue ''to'')))
      else if key = ''includes'' then (case propertyValue of
          JArr xs \<Rightarrow> Inr (list_ex (\<lambda>x. strict_equal x targetValue) xs)
        | _ \<Rightarrow> on_text pc str_includes propertyValue targetValue)
      else if key = ''startsWith'' then on_text pc starts_with propertyValue targetValue
      else if key = ''endsWith'' then on_text pc (\<lambda>s t. ends_with t s) propertyValue targetValue
      else if key = ''regex'' then pc_regex pc targetValue propertyValue
      else if key = ''exists'' then Inr (propertyValue \<noteq> JNull \<and> propertyValue \<noteq> JUndefined \<and> propertyValue \<noteq> JStr [])
      else Inr False)"

text \<open>\<open>Object.entries(c)[0]\<close>, taken apart.\<close>

definition firstEntry :: "json \<Rightarrow> (string \<times> json) res" where
  "firstEntry c = (case c of
      JObj kvs \<Rightarrow> (case own_entries kvs of [] \<Rightarrow> Inl TypeError | e # _ \<Rightarrow> Inr e)
    | JArr (x # _) \<Rightarrow> Inr (''0'', x)
    | JStr (x # _) \<Rightarrow> Inr (''0'', JStr [x])
    | _ \<Rightarrow> Inl TypeError)"

definition conditionHolds :: "ParameterContext \<Rightarrow> json list \<Rightarrow> json \<Rightarrow> bool res" where
  "conditionHolds pc actualValues condition = (case condition of
      JObj [(''_cnd'', c)] \<Rightarrow>
        if json_truthy c then rbind (firstEntry c) (\<lambda>(key, targetValue). revery (checkCondition pc key targetValue) actualValues)
        else Inr False
    | _ \<Rightarrow> Inr (list_ex (\<lambda>v. strict_equal v condition) actualValues))"

definition checkConditions :: "ParameterContext \<Rightarrow> json list \<Rightarrow> json list \<Rightarrow> bool res" where
  "checkConditions pc conditions actualValues = rsome (conditionHolds pc actualValues) conditions"

subsection \<open>Display\<close>

definition is_expression :: "json \<Rightarrow> bool" where
  "is_expression v = (case v of JStr s \<Rightarrow> starts_with s ''='' | _ \<Rightarrow> False)"

text \<open>The loops over the rules; \<open>Some\<close> is an early return.\<close>

fun showLoop :: "ParameterContext \<Rightarrow> json \<Rightarrow> json \<Rightarrow> (string \<times> json list) list \<Rightarrow> bool option res" where
  "showLoop pc nodeValues root [] = Inr None"
| "showLoop pc nodeValues root ((propertyName, conditions) # rules) =
     (let values = getPropertyValues pc nodeValues propertyName root
      in if list_ex is_expression values then Inr (Some True)
         else if values = [] then Inr (Some False)
         else rbind (checkConditions pc conditions values) (\<lambda>ok.
           if ok then showLoop pc nodeValues root rules else Inr (Some False)))"

fun hideLoop :: "ParameterContext \<Rightarrow> json \<Rightarrow> json \<Rightarrow> (string \<times> json list) list \<Rightarrow> bool option res" where
  "hideLoop pc nodeValues root [] = Inr None"
| "hideLoop pc nodeValues root ((propertyName, conditions) # rules) =
     (let values = getPropertyValues pc nodeValues propertyName root
      in if values = [] then hideLoop pc nodeValues root rules
         else rbind (checkConditions pc conditions values) (\<lambda>hidden.
           if hidden then Inr (Some False) else hideLoop pc nodeValues root rules))"

definition displayRules :: "ParameterContext \<Rightarrow> json \<Rightarrow> DisplayOptions option \<Rightarrow> json \<Rightarrow> bool res" where
  "displayRules pc nodeValues options nodeValuesRoot = (case options of
      None \<Rightarrow> Inr True
    | Some options \<Rightarrow>
        let root = (if json_truthy nodeValuesRoot then nodeValuesRoot else nodeValues)
        in rbind (case jget options ''show'' of None \<Rightarrow> Inr None | Some show \<Rightarrow> showLoop pc nodeValues root (own_entries show))
          (\<lambda>shown. case shown of Some b \<Rightarrow> Inr b
           | None \<Rightarrow> rbind (case jget options ''hide'' of None \<Rightarrow> Inr None | Some hide \<Rightarrow> hideLoop pc nodeValues root (own_entries hide))
             (\<lambda>hidden. Inr (case hidden of Some b \<Rightarrow> b | None \<Rightarrow> True))))"

definition displayParameter :: "ParameterContext \<Rightarrow> json \<Rightarrow> INodeProperties \<Rightarrow> json \<Rightarrow> bool res" where
  "displayParameter pc nodeValues parameter nodeValuesRoot = displayRules pc nodeValues (np_displayOptions parameter) nodeValuesRoot"

text \<open>The text before the first dot of a path.\<close>

definition displayParameterPath :: "ParameterContext \<Rightarrow> json \<Rightarrow> INodeProperties \<Rightarrow> string \<Rightarrow> bool res" where
  "displayParameterPath pc nodeValues parameter path =
     displayParameter pc (if path \<noteq> [] then pc_get pc nodeValues path else nodeValues) parameter
       (if path \<noteq> [] \<and> takeWhile (\<lambda>c. c \<noteq> CHR ''.'') path = ''parameters'' then pc_get pc nodeValues ''parameters'' else nodeValues)"

end
