(* ===== verification/ParameterOrder.thy ===== *)
theory ParameterOrder
  imports ParameterDisplay
begin

section \<open>The order in which parameters are resolved\<close>

text \<open>
  \<open>getParameterDependencies\<close> and \<open>getParameterResolveOrder\<close> of \<open>node-helpers.ts\<close>.  The queue is worked off
  until it is empty or no progress is made; a parameter whose dependencies are missing goes to its end once
  for each of them, and is nevertheless added to the order at once.
\<close>

definition getParameterDependencies :: "INodeProperties list \<Rightarrow> (string, string list) jmap" where
  "getParameterDependencies props = fold (\<lambda>p dependencies.
     let dependencies = (if jhas dependencies (np_name p) then dependencies else jput (np_name p) [] dependencies)
     in case np_displayOptions p of
          None \<Rightarrow> dependencies
        | Some displayOptions \<Rightarrow> fold (\<lambda>displayRule. fold (\<lambda>parameterName dependencies.
              let own = (case jget dependencies (np_name p) of None \<Rightarrow> [] | Some ds \<Rightarrow> ds)
              in if parameterName \<in> set own \<or> starts_with parameterName ''@'' then dependencies
                 else jput (np_name p) (own @ [parameterName]) dependencies)
              (own_keys displayRule)) (own_vals displayOptions) dependencies) props []"

definition isRootDependency :: "string \<Rightarrow> bool" where
  "isRootDependency dependency = starts_with dependency ''/''"

text \<open>The dependencies that are not resolved yet.\<close>

definition missing :: "string list \<Rightarrow> string list \<Rightarrow> string list" where
  "missing resolved ds = filter (\<lambda>d. d \<notin> set resolved \<and> \<not> isRootDependency d) ds"

definition maxIterations :: js_error where
  "maxIterations = ApplicationError ''Could not resolve parameter dependencies. Max iterations reached!''"

record ResolveState =
  rs_order :: "nat list"
  rs_queue :: "nat list"
  rs_resolved :: "string list"
  rs_lastLength :: nat
  rs_lastReduction :: int
  rs_iterations :: nat

text \<open>One iteration: the property at the front of the queue and its dependencies.\<close>

definition takeIndex :: "nat \<Rightarrow> string \<Rightarrow> string list \<Rightarrow> nat \<Rightarrow> nat list \<Rightarrow> ResolveState \<Rightarrow> ResolveState res" where
  "takeIndex n name ds index queue s =
     (let iterations = Suc (rs_iterations s);
          s = s\<lparr>rs_iterations := iterations, rs_order := rs_order s @ [index], rs_resolved := rs_resolved s @ [name],
                rs_queue := queue @ replicate (length (missing (rs_resolved s) ds)) index\<rparr>
      in if ds = [] then Inr s
         else let reduction = (if length (rs_queue s) < rs_lastLength s then int iterations else rs_lastReduction s)
           in if reduction + int n < int iterations then Inl maxIterations
              else Inr (s\<lparr>rs_lastReduction := reduction, rs_lastLength := length (rs_queue s)\<rparr>))"

text \<open>
  The loop ends: each iteration resolves a new name, or takes a property out of the queue whose dependencies
  are all resolved, or comes closer to the limit on iterations without progress.
\<close>

definition unresolved :: "INodeProperties list \<Rightarrow> ResolveState \<Rightarrow> nat" where
  "unresolved props s = card (np_name ` set props - set (rs_resolved s))"

definition ready :: "INodeProperties list \<Rightarrow> (string, string list) jmap \<Rightarrow> string list \<Rightarrow> nat \<Rightarrow> bool" where
  "ready props deps resolved index = (case arr_get props index of None \<Rightarrow> False
     | Some p \<Rightarrow> (case jget deps (np_name p) of None \<Rightarrow> False | Some ds \<Rightarrow> missing resolved ds = []))"

definition readyCopies :: "INodeProperties list \<Rightarrow> (string, string list) jmap \<Rightarrow> ResolveState \<Rightarrow> nat" where
  "readyCopies props deps s = length (filter (ready props deps (rs_resolved s)) (rs_queue s))"

definition stale :: "ResolveState \<Rightarrow> nat" where
  "stale s = (if length (rs_queue s) < rs_lastLength s then 1 else 0)"

definition patience :: "nat \<Rightarrow> ResolveState \<Rightarrow> nat" where
  "patience n s = nat (rs_lastReduction s + int n + 1 - int (rs_iterations s))"

lemma missing_mono: "set resolved \<subseteq> set resolved' \<Longrightarrow> missing resolved ds = [] \<Longrightarrow> missing resolved' ds = []"
  by (auto simp: missing_def filter_empty_conv)

lemma takeIndex_progress:
  assumes "takeIndex (length props) (np_name p) ds index queue s = Inr s'"
    and "rs_queue s = index # queue" and p: "arr_get props index = Some p" and ds: "jget deps (np_name p) = Some ds"
  shows "(s', s) \<in> measures [unresolved props, readyCopies props deps, stale, patience (length props)]"
proof -
  have resolved: "rs_resolved s' = rs_resolved s @ [np_name p]"
    and queue: "rs_queue s' = queue @ replicate (length (missing (rs_resolved s) ds)) index"
    and iter: "rs_iterations s' = Suc (rs_iterations s)"
    using assms(1) by (auto simp: takeIndex_def Let_def split: if_splits)
  show ?thesis
  proof (cases "np_name p \<in> set (rs_resolved s)")
    case False
    have "np_name p \<in> np_name ` set props" using p by (auto dest: arr_get_in_set)
    then have "np_name ` set props - set (rs_resolved s') \<subset> np_name ` set props - set (rs_resolved s)"
      using False by (auto simp: resolved)
    then show ?thesis by (simp add: unresolved_def psubset_card_mono)
  next
    case True
    then have same: "set (rs_resolved s') = set (rs_resolved s)" by (auto simp: resolved)
    then have miss: "missing (rs_resolved s') = missing (rs_resolved s)" by (auto simp: missing_def)
    have ready: "ready props deps (rs_resolved s') = ready props deps (rs_resolved s)"
      by (intro ext) (simp only: ready_def miss)
    have unres: "unresolved props s' = unresolved props s" by (simp add: unresolved_def same)
    show ?thesis
    proof (cases "missing (rs_resolved s) ds = []")
      case True
      then have "ready props deps (rs_resolved s) index" using p ds by (simp add: ready_def)
      then have "readyCopies props deps s' < readyCopies props deps s"
        using True by (simp add: readyCopies_def ready queue assms(2))
      then show ?thesis using unres by simp
    next
      case False
      then have "\<not> ready props deps (rs_resolved s) index" using p ds by (simp add: ready_def)
      then have copies: "readyCopies props deps s' = readyCopies props deps s"
        by (simp add: readyCopies_def ready queue assms(2))
      have "ds \<noteq> []" using False by (auto simp: missing_def)
      then have last: "rs_lastLength s' = length (rs_queue s')"
        and red: "rs_lastReduction s' = (if length (rs_queue s') < rs_lastLength s then int (Suc (rs_iterations s)) else rs_lastReduction s)"
        and go: "\<not> rs_lastReduction s' + int (length props) < int (Suc (rs_iterations s))"
        using assms(1) by (auto simp: takeIndex_def Let_def queue split: if_splits)
      have len: "length (rs_queue s) \<le> length (rs_queue s')"
        using False by (simp add: queue assms(2) Suc_leI)
      have "stale s' = 0" using last by (simp add: stale_def)
      moreover have "stale s = 1" if "length (rs_queue s') < rs_lastLength s" using that len by (simp add: stale_def)
      moreover have "patience (length props) s' < patience (length props) s" if "\<not> length (rs_queue s') < rs_lastLength s"
        using that red go iter by (simp add: patience_def)
      ultimately show ?thesis using unres copies by (cases "length (rs_queue s') < rs_lastLength s") auto
    qed
  qed
qed

function resolveLoop :: "INodeProperties list \<Rightarrow> (string, string list) jmap \<Rightarrow> ResolveState \<Rightarrow> nat list res" where
  "resolveLoop props deps s = (case rs_queue s of
      [] \<Rightarrow> Inr (rs_order s)
    | index # queue \<Rightarrow> (case arr_get props index of
        None \<Rightarrow> Inl TypeError
      | Some p \<Rightarrow> (case jget deps (np_name p) of
          None \<Rightarrow> Inl TypeError
        | Some ds \<Rightarrow> (case takeIndex (length props) (np_name p) ds index queue s of
            Inl e \<Rightarrow> Inl e
          | Inr s' \<Rightarrow> resolveLoop props deps s'))))"
  by pat_completeness auto
termination
proof (relation "inv_image (measures [\<lambda>(props, deps, s). unresolved props s, \<lambda>(props, deps, s). readyCopies props deps s,
      \<lambda>(props, deps, s). stale s, \<lambda>(props, deps, s). patience (length props) s]) id")
  show "wf (inv_image (measures [\<lambda>(props, deps, s). unresolved props s, \<lambda>(props, deps, s). readyCopies props deps s,
      \<lambda>(props, deps, s). stale s, \<lambda>(props, deps, s). patience (length props) s]) id)" by simp
next
  fix props deps s index queue p ds s'
  assume "rs_queue s = index # queue" "arr_get props index = Some p" "jget deps (np_name p) = Some ds"
    "takeIndex (length props) (np_name p) ds index queue s = Inr s'"
  then show "((props, deps, s'), props, deps, s) \<in> inv_image (measures [\<lambda>(props, deps, s). unresolved props s,
      \<lambda>(props, deps, s). readyCopies props deps s, \<lambda>(props, deps, s). stale s, \<lambda>(props, deps, s). patience (length props) s]) id"
    using takeIndex_progress [of props p ds index queue s s' deps] by simp
qed

declare resolveLoop.simps [simp del]

definition startResolve :: "nat \<Rightarrow> ResolveState" where
  "startResolve n = \<lparr>rs_order = [], rs_queue = [0 ..< n], rs_resolved = [], rs_lastLength = n, rs_lastReduction = -1, rs_iterations = 0\<rparr>"

definition getParameterResolveOrder :: "INodeProperties list \<Rightarrow> (string, string list) jmap \<Rightarrow> nat list res" where
  "getParameterResolveOrder props deps = resolveLoop props deps (startResolve (length props))"

end
