(* ===== verification/NodeParameters.thy ===== *)
theory NodeParameters
  imports ParameterOrder
begin

section \<open>The parameters of a node\<close>

text \<open>
  \<open>getNodeParameters\<close> of \<open>node-helpers.ts\<close>, as functions of the recursive call.  It completes the values of a
  node with the defaults of its type, or takes out what equals the defaults or is not displayed.  The
  parameter values are a JSON value; \<open>JUndefined\<close> stands for an option that is not given.
\<close>

record GetOptions =
  go_returnDefaults :: bool
  go_returnNoneDisplayed :: bool
  go_onlySimpleTypes :: bool
  go_dataIsResolved :: bool
  go_root :: json
  go_parentType :: string

record ParamState =
  ps_params :: "(string, json) jmap"
  ps_full :: "(string, json) jmap"

text \<open>The loop goes on, or the function returns early.\<close>

datatype Progress = Continue ParamState | Return json

type_synonym GetCall = "INodeProperties list \<Rightarrow> json \<Rightarrow> GetOptions \<Rightarrow> json res"

definition setBoth :: "string \<Rightarrow> json \<Rightarrow> ParamState \<Rightarrow> ParamState" where
  "setBoth name v st = \<lparr>ps_params = jput name v (ps_params st), ps_full = jput name v (ps_full st)\<rparr>"

text \<open>\<open>Object.keys\<close> and the spread of a value.\<close>

definition entries_of :: "json \<Rightarrow> (string \<times> json) list" where
  "entries_of v = (case v of
      JObj kvs \<Rightarrow> own_entries kvs
    | JArr xs \<Rightarrow> map (\<lambda>(i, x). (nat_string i, x)) (enumerate 0 xs)
    | JStr s \<Rightarrow> map (\<lambda>(i, c). (nat_string i, JStr [c])) (enumerate 0 s)
    | _ \<Rightarrow> [])"

definition is_plain_object :: "json \<Rightarrow> bool" where
  "is_plain_object v = (case v of JObj _ \<Rightarrow> True | _ \<Rightarrow> False)"

subsection \<open>Simple parameters\<close>

definition defaultedValue :: "INodeProperties \<Rightarrow> json \<Rightarrow> json" where
  "defaultedValue p v =
     (if np_type p \<in> {''boolean'', ''number'', ''options''} then (if v \<noteq> JUndefined then v else np_default p)
      else if np_type p = ''resourceLocator'' \<and> is_object (np_default p)
           then (if v \<noteq> JUndefined then v
             else JObj (fold (\<lambda>(k, x). jput k x) (entries_of (np_default p)) [(''__rl'', JBool True)]))
      else nullish_or v (np_default p))"

definition differsFromDefault :: "ParameterContext \<Rightarrow> GetOptions \<Rightarrow> INodeProperties \<Rightarrow> json \<Rightarrow> bool" where
  "differsFromDefault pc o' p v \<longleftrightarrow> (\<not> strict_equal v (np_default p) \<and> \<not> is_object v)
     \<or> (is_object v \<and> \<not> pc_isEqual pc v (np_default p))
     \<or> (v \<noteq> JUndefined \<and> go_parentType o' = ''collection'')"

definition simpleParam :: "ParameterContext \<Rightarrow> GetOptions \<Rightarrow> INodeProperties \<Rightarrow> json \<Rightarrow> ParamState \<Rightarrow> ParamState" where
  "simpleParam pc o' p v st =
     (if go_returnDefaults o' then setBoth (np_name p) (defaultedValue p v) st
      else if differsFromDefault pc o' p v then setBoth (np_name p) v st else st)"

subsection \<open>Collections\<close>

definition nestedOptions :: "GetOptions \<Rightarrow> json \<Rightarrow> string \<Rightarrow> GetOptions" where
  "nestedOptions o' root type = o'\<lparr>go_onlySimpleTypes := False, go_dataIsResolved := False, go_root := root, go_parentType := type\<rparr>"

definition collectionParam :: "GetCall \<Rightarrow> GetOptions \<Rightarrow> json \<Rightarrow> INodeProperties \<Rightarrow> json \<Rightarrow> ParamState \<Rightarrow> ParamState res" where
  "collectionParam getParameters o' root p v st =
     (if np_multipleValues p = Some True then
        let params = (if v \<noteq> JUndefined then jput (np_name p) v (ps_params st)
              else if go_returnDefaults o' then jput (np_name p) (case np_default p of JArr xs \<Rightarrow> JArr xs | _ \<Rightarrow> JArr []) (ps_params st)
              else ps_params st)
        in Inr \<lparr>ps_params = params, ps_full = jput (np_name p) (field (JObj params) (np_name p)) (ps_full st)\<rparr>
      else if v \<noteq> JUndefined then
        rbind (getParameters (np_options p) v (nestedOptions o' root (np_type p))) (\<lambda>temp.
          Inr (if temp \<noteq> JNull then setBoth (np_name p) temp st else st))
      else if go_returnDefaults o' then Inr (setBoth (np_name p) (np_default p) st)
      else Inr st)"

text \<open>What \<open>for .. of\<close> iterates over.\<close>

definition items_of :: "json \<Rightarrow> json list res" where
  "items_of v = (case v of JArr xs \<Rightarrow> Inr xs | JStr s \<Rightarrow> Inr (map (\<lambda>c. JStr [c]) s) | _ \<Rightarrow> Inl TypeError)"

text \<open>The values of one item of a fixed collection.\<close>

definition manyItems :: "GetCall \<Rightarrow> GetOptions \<Rightarrow> json \<Rightarrow> INodeProperties \<Rightarrow> json \<Rightarrow> string \<Rightarrow> (string, json) jmap
    \<Rightarrow> (string, json) jmap res" where
  "manyItems getParameters o' root p propertyValues itemName collectionValues = (case propertyValues of
      JObj _ \<Rightarrow> rbind (items_of (field propertyValues itemName)) (\<lambda>nodeValues.
          rbind (rfold (\<lambda>nodeValue temp. case map_of (np_collections p) itemName of
              None \<Rightarrow> Inl (ApplicationError ''Could not find property option'')
            | Some ps \<Rightarrow> rbind (getParameters ps nodeValue (nestedOptions o' root (np_type p))) (\<lambda>v.
                Inr (if v \<noteq> JNull then temp @ [v] else temp))) nodeValues [])
            (\<lambda>temp. Inr (jput itemName (JArr temp) collectionValues)))
    | _ \<Rightarrow> Inr collectionValues)"

definition oneItem :: "GetCall \<Rightarrow> GetOptions \<Rightarrow> json \<Rightarrow> INodeProperties \<Rightarrow> json \<Rightarrow> string \<Rightarrow> (string, json) jmap
    \<Rightarrow> (string, json) jmap res" where
  "oneItem getParameters o' root p v itemName collectionValues =
     rbind (case map_of (np_collections p) itemName of
         None \<Rightarrow> Inr []
       | Some ps \<Rightarrow> if v = JUndefined \<or> v = JNull then Inl TypeError
           else rbind (getParameters ps (field v itemName) (nestedOptions o' root (np_type p))) (\<lambda>temp. Inr (entries_of temp)))
       (\<lambda>temp. Inr (if temp \<noteq> [] then jput itemName (JObj temp) collectionValues else collectionValues))"

definition fixedCollectionParam :: "GetCall \<Rightarrow> GetOptions \<Rightarrow> json \<Rightarrow> json \<Rightarrow> INodeProperties \<Rightarrow> json \<Rightarrow> ParamState \<Rightarrow> Progress res" where
  "fixedCollectionParam getParameters o' root nodeValues p v st =
     (let propertyValues = (if go_returnDefaults o' \<and> v = JUndefined then np_default p else v);
          single = (\<not> go_returnDefaults o' \<and> np_multipleValues p = Some False);
          items = (if json_truthy propertyValues then map fst (entries_of propertyValues) else [])
      in if single \<and> json_truthy propertyValues \<and> items = [] then Inr (Return nodeValues)
         else rbind (rfold (\<lambda>itemName. if np_multipleValues p = Some True
               then manyItems getParameters o' root p propertyValues itemName
               else oneItem getParameters o' root p v itemName) items []) (\<lambda>collectionValues.
           let st = (if single \<and> collectionValues = [] \<and> is_plain_object propertyValues \<and> items \<noteq> []
                 then st\<lparr>ps_params := jput (np_name p) (JObj (map (\<lambda>k. (k, JObj [])) items)) (ps_params st)\<rparr> else st)
           in Inr (Continue (if collectionValues \<noteq> [] \<or> go_returnDefaults o'
                then setBoth (np_name p) (JObj collectionValues) st else st))))"

subsection \<open>The whole\<close>

definition duplicateName :: "INodeProperties list \<Rightarrow> string \<Rightarrow> bool" where
  "duplicateName props name \<longleftrightarrow> 1 < length (filter (\<lambda>p. np_name p = name) props)"

text \<open>One iteration; \<open>resolved\<close> are the values that decide about the display, unless those found so far do.\<close>

definition paramStep :: "ParameterContext \<Rightarrow> GetCall \<Rightarrow> INodeProperties list \<Rightarrow> json \<Rightarrow> GetOptions \<Rightarrow> json option
    \<Rightarrow> INodeProperties \<Rightarrow> ParamState \<Rightarrow> Progress res" where
  "paramStep pc getParameters props nodeValues o' resolved p st =
     (let v = field nodeValues (np_name p);
          check = (case resolved of Some r \<Rightarrow> r | None \<Rightarrow> JObj (ps_full st));
          root = (if json_truthy (go_root o') then go_root o' else check);
          display = displayParameter pc check p root
      in if \<not> json_truthy nodeValues \<or> (v = JUndefined \<and> (\<not> go_returnDefaults o' \<or> go_parentType o' = ''collection''))
         then Inr (Continue st)
         else rbind (if go_returnNoneDisplayed o' then Inr True else display) (\<lambda>shown.
           if \<not> shown then Inr (Continue st)
           else if np_type p \<noteq> ''collection'' \<and> np_type p \<noteq> ''fixedCollection'' then
             rbind (if duplicateName props (np_name p) then display else Inr True) (\<lambda>shown.
               Inr (Continue (if shown then simpleParam pc o' p v st else st)))
           else if go_onlySimpleTypes o' then Inr (Continue st)
           else if np_type p = ''collection'' then
             rbind (collectionParam getParameters o' root p v st) (\<lambda>st. Inr (Continue st))
           else fixedCollectionParam getParameters o' root nodeValues p v st))"

definition resolveAll :: "GetOptions \<Rightarrow> GetOptions" where
  "resolveAll o' = o'\<lparr>go_returnDefaults := True, go_returnNoneDisplayed := True, go_onlySimpleTypes := True, go_dataIsResolved := True\<rparr>"

definition getBody :: "ParameterContext \<Rightarrow> GetCall \<Rightarrow> GetCall" where
  "getBody pc getParameters props nodeValues o' =
     rbind (if \<not> go_dataIsResolved o' \<and> \<not> go_returnNoneDisplayed o'
            then rbind (getParameters props nodeValues (resolveAll o')) (\<lambda>r. Inr (Some r)) else Inr None) (\<lambda>resolved.
     rbind (getParameterResolveOrder props (getParameterDependencies props)) (\<lambda>order.
     rbind (rfold (\<lambda>index progress. case progress of
              Return r \<Rightarrow> Inr (Return r)
            | Continue st \<Rightarrow> (case arr_get props index of
                None \<Rightarrow> Inl TypeError
              | Some p \<Rightarrow> paramStep pc getParameters props nodeValues o' resolved p st))
            order (Continue \<lparr>ps_params = [], ps_full = []\<rparr>))
       (\<lambda>progress. Inr (case progress of Return r \<Rightarrow> r | Continue st \<Rightarrow> JObj (ps_params st)))))"

text \<open>A call is smaller if its properties are nested in those of the caller, or if it resolves the data for the caller.\<close>

definition passes :: "GetOptions \<Rightarrow> nat" where
  "passes o' = (if \<not> go_dataIsResolved o' \<and> \<not> go_returnNoneDisplayed o' then 1 else 0)"

definition smaller_call :: "INodeProperties list \<Rightarrow> GetOptions \<Rightarrow> INodeProperties list \<Rightarrow> GetOptions \<Rightarrow> bool" where
  "smaller_call ps o' props o'' \<longleftrightarrow> size_list size ps < size_list size props
     \<or> (ps = props \<and> passes o' < passes o'')"

lemma size_nested:
  assumes "p \<in> set props"
  shows "size_list size (np_options p) < size_list size props"
    and "map_of (np_collections p) itemName = Some ps \<Longrightarrow> size_list size ps < size_list size props"
proof -
  have p: "size p < size_list size props" using assms by (induction props) auto
  show "size_list size (np_options p) < size_list size props" using p by (cases p) simp
  assume "map_of (np_collections p) itemName = Some ps"
  then have "(itemName, ps) \<in> set (np_collections p)" by (rule map_of_SomeD)
  then have "size_list size ps \<le> size_list (size_prod (\<lambda>x. 0) (size_list size)) (np_collections p)"
    by (induction "np_collections p") (auto simp: size_list_estimation')
  then show "size_list size ps < size_list size props" using p by (cases p) simp
qed

lemma collectionParam_cong:
  "(\<And>v o'. getParameters (np_options p) v o' = getParameters' (np_options p) v o')
    \<Longrightarrow> collectionParam getParameters o' root p v st = collectionParam getParameters' o' root p v st"
  by (simp add: collectionParam_def)

lemma fixedCollectionParam_cong:
  assumes "\<And>itemName ps v o'. map_of (np_collections p) itemName = Some ps \<Longrightarrow> getParameters ps v o' = getParameters' ps v o'"
  shows "fixedCollectionParam getParameters o' root nodeValues p v st = fixedCollectionParam getParameters' o' root nodeValues p v st"
proof -
  have one: "oneItem getParameters o' root p w itemName cv = oneItem getParameters' o' root p w itemName cv" for w itemName cv
    using assms by (simp add: oneItem_def split: option.split)
  have many: "manyItems getParameters o' root p pv itemName cv = manyItems getParameters' o' root p pv itemName cv" for pv itemName cv
    using assms by (cases "map_of (np_collections p) itemName") (auto simp: manyItems_def split: json.split)
  have "oneItem getParameters o' root p w = oneItem getParameters' o' root p w" for w by (intro ext one)
  moreover have "manyItems getParameters o' root p w = manyItems getParameters' o' root p w" for w by (intro ext many)
  ultimately show ?thesis by (simp only: fixedCollectionParam_def)
qed

lemma paramStep_cong:
  assumes "p \<in> set props"
    and "\<And>ps v o'. size_list size ps < size_list size props \<Longrightarrow> getParameters ps v o' = getParameters' ps v o'"
  shows "paramStep pc getParameters props nodeValues o' resolved p st = paramStep pc getParameters' props nodeValues o' resolved p st"
proof -
  have c: "collectionParam getParameters o' root p v st = collectionParam getParameters' o' root p v st" for root v st
    by (rule collectionParam_cong) (rule assms(2) [OF size_nested(1) [OF assms(1)]])
  have f: "fixedCollectionParam getParameters o' root nodeValues p v st = fixedCollectionParam getParameters' o' root nodeValues p v st" for root v st
    by (rule fixedCollectionParam_cong) (rule assms(2) [OF size_nested(2) [OF assms(1)]])
  show ?thesis unfolding paramStep_def c f ..
qed

lemma getBody_cong [fundef_cong]:
  assumes "pc = pc'" "props = props'" "nodeValues = nodeValues'" "o' = o''"
    and call: "\<And>ps v q. smaller_call ps q props' o'' \<Longrightarrow> getParameters ps v q = getParameters' ps v q"
  shows "getBody pc getParameters props nodeValues o' = getBody pc' getParameters' props' nodeValues' o''"
proof -
  have step: "(case progress of Return r \<Rightarrow> Inr (Return r)
            | Continue st \<Rightarrow> (case arr_get props' index of None \<Rightarrow> Inl TypeError
              | Some p \<Rightarrow> paramStep pc' getParameters props' nodeValues' o'' resolved p st))
          = (case progress of Return r \<Rightarrow> Inr (Return r)
            | Continue st \<Rightarrow> (case arr_get props' index of None \<Rightarrow> Inl TypeError
              | Some p \<Rightarrow> paramStep pc' getParameters' props' nodeValues' o'' resolved p st))" for index progress resolved
    using paramStep_cong [of _ props' getParameters getParameters'] call
    by (auto simp: smaller_call_def dest: arr_get_in_set split: Progress.split option.split)
  have first: "\<not> go_dataIsResolved o'' \<and> \<not> go_returnNoneDisplayed o''
      \<Longrightarrow> getParameters props' nodeValues' (resolveAll o'') = getParameters' props' nodeValues' (resolveAll o'')"
    by (rule call) (simp add: smaller_call_def passes_def resolveAll_def)
  show ?thesis unfolding assms(1-4) getBody_def step using first by (simp cong: if_cong)
qed

function getNodeParameters :: "ParameterContext \<Rightarrow> INodeProperties list \<Rightarrow> json \<Rightarrow> GetOptions \<Rightarrow> json res" where
  "getNodeParameters pc props nodeValues o' = getBody pc (getNodeParameters pc) props nodeValues o'"
  by pat_completeness auto
termination
  by (relation "measures [\<lambda>(pc, props, v, o'). size_list size props, \<lambda>(pc, props, v, o'). passes o']")
    (auto simp: smaller_call_def)

declare getNodeParameters.simps [simp del]

end
