(* ===== verification/ParameterResolve.thy ===== *)
theory ParameterResolve
  imports ParameterOrder
begin

section \<open>What the resolve order guarantees\<close>

text \<open>
  Every parameter occurs in the order behind all parameters it depends on; a dependency that no parameter
  has leads to the exception, and without one the order exists.
\<close>

abbreviation name_of :: "INodeProperties list \<Rightarrow> nat \<Rightarrow> string" where
  "name_of props i \<equiv> np_name (props ! i)"

definition placed :: "INodeProperties list \<Rightarrow> (string, string list) jmap \<Rightarrow> nat list \<Rightarrow> nat \<Rightarrow> bool" where
  "placed props deps order i \<longleftrightarrow> (\<exists>xs ys. order = xs @ i # ys \<and>
     (\<forall>ds. jget deps (name_of props i) = Some ds \<longrightarrow> (\<forall>d \<in> set ds. isRootDependency d \<or> d \<in> name_of props ` set xs)))"

lemma placed_append: "placed props deps order i \<Longrightarrow> placed props deps (order @ zs) i"
  unfolding placed_def by force

definition order_ok :: "INodeProperties list \<Rightarrow> (string, string list) jmap \<Rightarrow> ResolveState \<Rightarrow> bool" where
  "order_ok props deps s \<longleftrightarrow> rs_resolved s = map (name_of props) (rs_order s) \<and> set (rs_order s) \<subseteq> {..< length props}
     \<and> (\<forall>i < length props. i \<in> set (rs_queue s) \<or> placed props deps (rs_order s) i)"

lemma takeIndex_fields:
  assumes "takeIndex n name ds index queue s = Inr s'"
  shows "rs_order s' = rs_order s @ [index]" "rs_resolved s' = rs_resolved s @ [name]"
    "rs_queue s' = queue @ replicate (length (missing (rs_resolved s) ds)) index"
    "rs_iterations s' = Suc (rs_iterations s)"
  using assms by (auto simp: takeIndex_def Let_def split: if_splits)

lemma takeIndex_order:
  assumes "takeIndex n (name_of props index) ds index queue s = Inr s'" and "rs_queue s = index # queue"
    and ds: "jget deps (name_of props index) = Some ds" and ok: "order_ok props deps s" and "index < length props"
  shows "order_ok props deps s'"
proof -
  note f = takeIndex_fields [OF assms(1)]
  have old: "rs_resolved s = map (name_of props) (rs_order s)" "set (rs_order s) \<subseteq> {..< length props}"
    and each: "\<And>i. i < length props \<Longrightarrow> i \<in> set (rs_queue s) \<or> placed props deps (rs_order s) i"
    using ok by (simp_all add: order_ok_def)
  have "index \<in> set (rs_queue s') \<or> placed props deps (rs_order s') index"
  proof (cases "missing (rs_resolved s) ds")
    case Nil
    then have "\<forall>d \<in> set ds. isRootDependency d \<or> d \<in> name_of props ` set (rs_order s)"
      by (auto simp: missing_def filter_empty_conv old)
    then have "placed props deps (rs_order s') index" using ds by (auto simp: placed_def f)
    then show ?thesis ..
  qed (simp add: f)
  then have "i \<in> set (rs_queue s') \<or> placed props deps (rs_order s') i" if "i < length props" for i
    using each [OF that] assms(2) placed_append [of props deps "rs_order s" i "[index]"] by (auto simp: f)
  then show ?thesis using old assms(5) by (simp add: order_ok_def f)
qed

lemma resolveLoop_placed:
  "resolveLoop props deps s = Inr order \<Longrightarrow> order_ok props deps s
    \<Longrightarrow> set order \<subseteq> {..< length props} \<and> (\<forall>i < length props. placed props deps order i)"
proof (induction props deps s rule: resolveLoop.induct)
  case (1 props deps s)
  show ?case
  proof (cases "rs_queue s")
    case Nil
    then show ?thesis using "1.prems" by (auto simp: resolveLoop.simps [of props deps s] order_ok_def)
  next
    case (Cons index queue)
    then obtain p ds s' where p: "arr_get props index = Some p" and ds: "jget deps (np_name p) = Some ds"
      and s': "takeIndex (length props) (np_name p) ds index queue s = Inr s'" and r: "resolveLoop props deps s' = Inr order"
      using "1.prems"(1) by (auto simp: resolveLoop.simps [of props deps s] split: option.splits sum.splits)
    have name: "np_name p = name_of props index" and index: "index < length props" using p by (auto simp: arr_get_def split: if_splits)
    have "order_ok props deps s'"
      using takeIndex_order [of "length props" props index ds queue s s' deps] s' ds Cons "1.prems"(2) index by (simp add: name)
    then show ?thesis using "1.IH" [OF Cons p ds s' r] by simp
  qed
qed

text \<open>
  C17: in the order that is returned every parameter has an occurrence that comes after an occurrence of each
  parameter it depends on; dependencies on root parameters count as resolved.
\<close>

theorem resolve_order_sound:
  assumes "getParameterResolveOrder props deps = Inr order" and "i < length props"
    and "jget deps (np_name (props ! i)) = Some ds"
  shows "\<exists>xs ys. order = xs @ i # ys
     \<and> list_all (\<lambda>d. isRootDependency d \<or> d \<in> (\<lambda>j. np_name (props ! j)) ` set xs) ds"
proof -
  have "order_ok props deps (startResolve (length props))" by (simp add: order_ok_def startResolve_def)
  then have "placed props deps order i"
    using resolveLoop_placed assms unfolding getParameterResolveOrder_def by blast
  then show ?thesis using assms(3) by (auto simp: placed_def list_all_iff)
qed

subsection \<open>When there is an order\<close>

definition known_dependencies :: "INodeProperties list \<Rightarrow> (string, string list) jmap \<Rightarrow> bool" where
  "known_dependencies props deps \<longleftrightarrow> list_all (\<lambda>p. case jget deps (np_name p) of None \<Rightarrow> False
     | Some ds \<Rightarrow> list_all (\<lambda>d. isRootDependency d \<or> d \<in> np_name ` set props) ds) props"

text \<open>The first pass takes the parameters in turn; afterwards all names are resolved.\<close>

definition pass_ok :: "INodeProperties list \<Rightarrow> ResolveState \<Rightarrow> bool" where
  "pass_ok props s \<longleftrightarrow> set (rs_queue s) \<subseteq> {..< length props} \<and> length (rs_queue s) \<le> rs_lastLength s
     \<and> -1 \<le> rs_lastReduction s
     \<and> (\<forall>i < min (length props) (rs_iterations s). name_of props i \<in> set (rs_resolved s))
     \<and> (rs_iterations s < length props \<longrightarrow> take (length props - rs_iterations s) (rs_queue s) = [rs_iterations s ..< length props])"

lemma pass_front:
  assumes "pass_ok props s" and "rs_queue s = index # queue" and "rs_iterations s < length props"
  shows "index = rs_iterations s" "take (length props - Suc (rs_iterations s)) queue = [Suc (rs_iterations s) ..< length props]"
proof -
  have "take (length props - rs_iterations s) (index # queue) = [rs_iterations s ..< length props]"
    using assms by (simp add: pass_ok_def)
  moreover have "length props - rs_iterations s = Suc (length props - Suc (rs_iterations s))" using assms(3) by simp
  moreover have "[rs_iterations s ..< length props] = rs_iterations s # [Suc (rs_iterations s) ..< length props]"
    using assms(3) by (simp add: upt_conv_Cons)
  ultimately show "index = rs_iterations s" "take (length props - Suc (rs_iterations s)) queue = [Suc (rs_iterations s) ..< length props]"
    by simp_all
qed

lemma missing_in_last_or_later:
  assumes ok: "pass_ok props s" and queue: "rs_queue s = index # queue"
    and known: "list_all (\<lambda>d. isRootDependency d \<or> d \<in> np_name ` set props) ds"
    and last: "\<And>i. i = length props - 1 \<Longrightarrow> i = index \<Longrightarrow> name_of props i \<notin> set ds"
    and late: "length props \<le> Suc (rs_iterations s)" and props: "index < length props"
  shows "missing (rs_resolved s) ds = []"
proof -
  have "d \<in> set (rs_resolved s)" if d: "d \<in> set ds" "\<not> isRootDependency d" for d
  proof -
    have "d \<in> np_name ` set props" using known d by (auto simp: list_all_iff)
    then obtain j where j: "j < length props" "d = name_of props j" by (auto simp: in_set_conv_nth)
    have res: "name_of props i \<in> set (rs_resolved s)" if "i < length props" "i < rs_iterations s" for i
      using ok that by (simp add: pass_ok_def)
    show ?thesis
    proof (cases "j < rs_iterations s")
      case False
      then have "rs_iterations s < length props" "j = length props - 1" "j = rs_iterations s" using late j(1) by simp_all
      then have "j = index" using pass_front(1) [OF ok queue] by simp
      then show ?thesis using last [of j] \<open>j = length props - 1\<close> d(1) j(2) by simp
    qed (use j res in simp)
  qed
  then show ?thesis by (auto simp: missing_def filter_empty_conv)
qed

lemma takeIndex_pass:
  assumes ok: "pass_ok props s" and queue: "rs_queue s = index # queue"
    and known: "list_all (\<lambda>d. isRootDependency d \<or> d \<in> np_name ` set props) ds"
    and last: "\<And>i. i = length props - 1 \<Longrightarrow> i = index \<Longrightarrow> name_of props i \<notin> set ds"
  obtains s' where "takeIndex (length props) (name_of props index) ds index queue s = Inr s'" "pass_ok props s'"
proof -
  let ?n = "length props" and ?q = "queue @ replicate (length (missing (rs_resolved s) ds)) index"
  have index: "index < ?n" and len: "length (rs_queue s) \<le> rs_lastLength s" and red: "-1 \<le> rs_lastReduction s"
    using ok by (simp_all add: pass_ok_def queue)
  have no_throw: "int (Suc (rs_iterations s)) \<le> (if length ?q < rs_lastLength s then int (Suc (rs_iterations s))
      else rs_lastReduction s) + int ?n"
  proof (cases "?n \<le> Suc (rs_iterations s)")
    case True
    have "missing (rs_resolved s) ds = []" by (rule missing_in_last_or_later [OF ok queue known last True index])
    then show ?thesis using len by (simp add: queue)
  qed (use red in auto)
  then obtain s' where s': "takeIndex ?n (name_of props index) ds index queue s = Inr s'"
    by (cases "takeIndex ?n (name_of props index) ds index queue s") (auto simp: takeIndex_def Let_def split: if_splits)
  note f = takeIndex_fields [OF s']
  have "-1 \<le> rs_lastReduction s'" and "length (rs_queue s') \<le> rs_lastLength s'"
    using s' red len by (auto simp: takeIndex_def Let_def queue missing_def split: if_splits)
  moreover have "set (rs_queue s') \<subseteq> {..<?n}" using ok index by (auto simp: f pass_ok_def queue)
  moreover have "name_of props i \<in> set (rs_resolved s')" if "i < ?n" "i < Suc (rs_iterations s)" for i
  proof (cases "i < rs_iterations s")
    case True
    then show ?thesis using ok that by (simp add: pass_ok_def f)
  next
    case False
    then have "i = rs_iterations s" using that by simp
    then show ?thesis using pass_front(1) [OF ok queue] that(1) by (simp add: f)
  qed
  moreover have "take (?n - rs_iterations s') (rs_queue s') = [rs_iterations s' ..< ?n]" if "rs_iterations s' < ?n"
  proof -
    have t: "take (?n - Suc (rs_iterations s)) queue = [Suc (rs_iterations s) ..< ?n]"
      using pass_front(2) [OF ok queue] that by (simp add: f)
    have "length (take (?n - Suc (rs_iterations s)) queue) = ?n - Suc (rs_iterations s)" unfolding t by simp
    then have "?n - Suc (rs_iterations s) \<le> length queue" by simp
    then show ?thesis using t by (simp add: f)
  qed
  ultimately show thesis using that [OF s'] by (simp add: pass_ok_def f)
qed

definition last_free :: "INodeProperties list \<Rightarrow> (string, string list) jmap \<Rightarrow> bool" where
  "last_free props deps \<longleftrightarrow> (case rev props of [] \<Rightarrow> True | p # _ \<Rightarrow> (case jget deps (np_name p) of
     None \<Rightarrow> True | Some ds \<Rightarrow> np_name p \<notin> set ds))"

lemma last_freeD:
  assumes "last_free props deps" and "i = length props - 1" and "i < length props" and "jget deps (name_of props i) = Some ds"
  shows "name_of props i \<notin> set ds"
  using assms by (cases props rule: rev_cases) (simp_all add: last_free_def)

lemma resolveLoop_total:
  "pass_ok props s \<Longrightarrow> known_dependencies props deps \<Longrightarrow> last_free props deps \<Longrightarrow> \<exists>order. resolveLoop props deps s = Inr order"
proof (induction props deps s rule: resolveLoop.induct)
  case (1 props deps s)
  show ?case
  proof (cases "rs_queue s")
    case Nil
    then show ?thesis by (simp add: resolveLoop.simps [of props deps s])
  next
    case (Cons index queue)
    have index: "index < length props" using "1.prems"(1) by (simp add: pass_ok_def Cons)
    then have p: "arr_get props index = Some (props ! index)" by (simp add: arr_get_def)
    obtain ds where ds: "jget deps (name_of props index) = Some ds"
      and known: "list_all (\<lambda>d. isRootDependency d \<or> d \<in> np_name ` set props) ds"
      using "1.prems"(2) index unfolding known_dependencies_def list_all_length
      by (metis (no_types, lifting) option.case_eq_if option.collapse)
    have last: "name_of props i \<notin> set ds" if "i = length props - 1" "i = index" for i
      using last_freeD [OF "1.prems"(3) that(1)] ds index that(2) by simp
    obtain s' where s': "takeIndex (length props) (name_of props index) ds index queue s = Inr s'" "pass_ok props s'"
      using takeIndex_pass [OF "1.prems"(1) Cons known last] by blast
    then show ?thesis using "1.IH" [OF Cons p ds s'(1) s'(2)] "1.prems"(2,3) p ds
      by (simp add: resolveLoop.simps [of props deps s] Cons)
  qed
qed

text \<open>
  C18: if every dependency is on a root parameter or on one of the parameters, and the last parameter does
  not depend on itself, then there is an order; dependencies in a cycle do no harm.  A dependency on any
  other name leads to the exception.
\<close>

theorem resolve_order_exists:
  assumes "list_all (\<lambda>p. jhas deps (np_name p)) props" and "last_free props deps"
  shows "(\<exists>order. getParameterResolveOrder props deps = Inr order) = known_dependencies props deps"
proof
  assume known: "known_dependencies props deps"
  have "pass_ok props (startResolve (length props))" by (auto simp: pass_ok_def startResolve_def)
  then show "\<exists>order. getParameterResolveOrder props deps = Inr order"
    unfolding getParameterResolveOrder_def using resolveLoop_total known assms(2) by blast
next
  assume "\<exists>order. getParameterResolveOrder props deps = Inr order"
  then obtain order where order: "getParameterResolveOrder props deps = Inr order" by blast
  show "known_dependencies props deps"
    unfolding known_dependencies_def
  proof (subst list_all_length, intro allI impI)
    fix i assume i: "i < length props"
    then obtain ds where ds: "jget deps (name_of props i) = Some ds"
      using assms(1) by (auto simp: list_all_length jhas_def)
    have "order_ok props deps (startResolve (length props))" by (simp add: order_ok_def startResolve_def)
    then have "set order \<subseteq> {..< length props}" and "placed props deps order i"
      using resolveLoop_placed order i unfolding getParameterResolveOrder_def by blast+
    then have "isRootDependency d \<or> d \<in> np_name ` set props" if "d \<in> set ds" for d
      using that ds by (fastforce simp: placed_def)
    then show "case jget deps (name_of props i) of None \<Rightarrow> False
        | Some ds \<Rightarrow> list_all (\<lambda>d. isRootDependency d \<or> d \<in> np_name ` set props) ds"
      by (simp add: ds list_all_iff)
  qed
qed

subsection \<open>Examples\<close>

text \<open>Parameters of which each is shown for certain values of others.\<close>

definition shown_by :: "string \<Rightarrow> string list \<Rightarrow> INodeProperties" where
  "shown_by name others = INodeProperties name ''string'' (JStr []) (Some [(''show'', map (\<lambda>d. (d, [JStr ''x''])) others)]) None [] []"

definition order_of :: "INodeProperties list \<Rightarrow> nat list res" where
  "order_of props = getParameterResolveOrder props (getParameterDependencies props)"

text \<open>
  a parameter that is listed before the one it depends on is put into the order twice, the first time
  before its dependency: \<open>continue\<close> goes on with the loop over the dependencies.
\<close>

theorem resolve_order_too_early: "order_of [shown_by ''a'' [''b''], shown_by ''b'' []] = Inr [0, 1, 0]"
  by code_simp

text \<open>Two parameters that depend on each other, one on a third, and a root parameter.\<close>

definition mutual :: "INodeProperties list" where
  "mutual = [shown_by ''a'' [''b'', ''/r''], shown_by ''b'' [''a'', ''c''], shown_by ''c'' []]"

theorem resolve_order_sound_witness:
  "\<exists>xs ys. [0, 1, 2, 0, 1] = xs @ (1::nat) # ys \<and> list_all (\<lambda>d. isRootDependency d \<or> d \<in> (\<lambda>j. np_name (mutual ! j)) ` set xs) [''a'', ''c'']"
proof (rule resolve_order_sound)
  show "getParameterResolveOrder mutual (getParameterDependencies mutual) = Inr [0, 1, 2, 0, 1]" by code_simp
  show "1 < length mutual" by (simp add: mutual_def)
  show "jget (getParameterDependencies mutual) (np_name (mutual ! 1)) = Some [''a'', ''c'']" by code_simp
qed

theorem resolve_order_exists_witness:
  "(\<exists>order. getParameterResolveOrder mutual (getParameterDependencies mutual) = Inr order)
    = known_dependencies mutual (getParameterDependencies mutual) \<and> known_dependencies mutual (getParameterDependencies mutual)"
proof (intro conjI resolve_order_exists)
  show "list_all (\<lambda>p. jhas (getParameterDependencies mutual) (np_name p)) mutual" by code_simp
  show "last_free mutual (getParameterDependencies mutual)" by code_simp
  show "known_dependencies mutual (getParameterDependencies mutual)" by code_simp
qed

end
