(* ===== verification/ParameterStorage.thy ===== *)
theory ParameterStorage
  imports NodeParameters ParameterResolve
begin

section \<open>Storing parameters without their defaults\<close>

text \<open>
  A workflow stores of the parameters of a node only those that are displayed and differ from the default.
  For simple parameters, whose display depends only on parameters that are always displayed, the defaults
  can be completed again from what is stored.
\<close>

subsection \<open>Display depends on the dependencies only\<close>

definition dependency_names :: "INodeProperties \<Rightarrow> string list" where
  "dependency_names p = (case np_displayOptions p of None \<Rightarrow> [] | Some options \<Rightarrow> concat (map (map fst) (map snd options)))"

definition special_name :: "string \<Rightarrow> bool" where
  "special_name d \<longleftrightarrow> d = ''@version'' \<or> d = ''@tool''"

definition plain_get :: "ParameterContext \<Rightarrow> string \<Rightarrow> bool" where
  "plain_get pc d \<longleftrightarrow> \<not> starts_with d ''/'' \<and> (\<forall>kvs. pc_get pc (JObj kvs) d = field (JObj kvs) d)"

definition agree_on :: "string list \<Rightarrow> (string, json) jmap \<Rightarrow> (string, json) jmap \<Rightarrow> bool" where
  "agree_on names kvs kvs' \<longleftrightarrow> list_all (\<lambda>d. special_name d \<or> field (JObj kvs) d = field (JObj kvs') d) names"

lemma special_not_root: "special_name d \<Longrightarrow> \<not> starts_with d ''/''"
  by (auto simp: special_name_def starts_with_def)

lemma getPropertyValues_agree:
  assumes "special_name d \<or> plain_get pc d" and "special_name d \<or> field (JObj kvs) d = field (JObj kvs') d"
  shows "getPropertyValues pc (JObj kvs) d root = getPropertyValues pc (JObj kvs') d root'"
  using assms special_not_root [of d]
  by (cases "special_name d") (auto simp: getPropertyValues_def special_name_def plain_get_def Let_def)

lemma showLoop_agree:
  assumes "list_all (\<lambda>d. special_name d \<or> plain_get pc d) (map fst rules)" and "agree_on (map fst rules) kvs kvs'"
  shows "showLoop pc (JObj kvs) root rules = showLoop pc (JObj kvs') root' rules"
  using assms
proof (induction rules)
  case (Cons r rules)
  obtain d cs where r: "r = (d, cs)" by (cases r)
  have "getPropertyValues pc (JObj kvs) d root = getPropertyValues pc (JObj kvs') d root'"
    using Cons.prems by (intro getPropertyValues_agree) (auto simp: r agree_on_def)
  then show ?case using Cons by (simp add: r agree_on_def Let_def rbind_def split: sum.split)
qed simp

lemma hideLoop_agree:
  assumes "list_all (\<lambda>d. special_name d \<or> plain_get pc d) (map fst rules)" and "agree_on (map fst rules) kvs kvs'"
  shows "hideLoop pc (JObj kvs) root rules = hideLoop pc (JObj kvs') root' rules"
  using assms
proof (induction rules)
  case (Cons r rules)
  obtain d cs where r: "r = (d, cs)" by (cases r)
  have "getPropertyValues pc (JObj kvs) d root = getPropertyValues pc (JObj kvs') d root'"
    using Cons.prems by (intro getPropertyValues_agree) (auto simp: r agree_on_def)
  then show ?case using Cons by (simp add: r agree_on_def Let_def rbind_def split: sum.split)
qed simp

lemma displayParameter_agree:
  assumes "list_all (\<lambda>d. special_name d \<or> plain_get pc d) (dependency_names p)"
    and "agree_on (dependency_names p) kvs kvs'"
  shows "displayParameter pc (JObj kvs) p (JObj kvs) = displayParameter pc (JObj kvs') p (JObj kvs')"
proof (cases "np_displayOptions p")
  case (Some options)
  have sub: "set (map fst (own_entries rule)) \<subseteq> set (dependency_names p)" if "jget options kind = Some rule" for kind rule
    using map_of_SomeD [OF that] by (force simp: dependency_names_def Some)
  have ok: "list_all (\<lambda>d. special_name d \<or> plain_get pc d) (map fst (own_entries rule)) \<and> agree_on (map fst (own_entries rule)) kvs kvs'"
    if "jget options kind = Some rule" for kind rule
    using sub [OF that] assms unfolding agree_on_def list_all_iff by blast
  have shows1: "showLoop pc (JObj kvs) (JObj kvs) (own_entries rule) = showLoop pc (JObj kvs') (JObj kvs') (own_entries rule)"
    if "jget options ''show'' = Some rule" for rule using showLoop_agree ok that by blast
  have hides1: "hideLoop pc (JObj kvs) (JObj kvs) (own_entries rule) = hideLoop pc (JObj kvs') (JObj kvs') (own_entries rule)"
    if "jget options ''hide'' = Some rule" for rule using hideLoop_agree ok that by blast
  show ?thesis
    by (cases "jget options ''show''"; cases "jget options ''hide''")
      (simp_all add: displayParameter_def displayRules_def Some Let_def shows1 hides1)
qed (simp add: displayParameter_def displayRules_def)

subsection \<open>One pass over the parameters\<close>

definition simple_props :: "INodeProperties list \<Rightarrow> bool" where
  "simple_props props \<longleftrightarrow> distinct (map np_name props)
     \<and> list_all (\<lambda>p. np_type p \<notin> {''collection'', ''fixedCollection'', ''resourceLocator''}) props"

text \<open>What an iteration stores, if it stores something.\<close>

definition passEffect :: "ParameterContext \<Rightarrow> GetOptions \<Rightarrow> (string, json) jmap option \<Rightarrow> json \<Rightarrow> INodeProperties \<Rightarrow> json option res" where
  "passEffect pc o' resolved nodeValues p =
     (let v = field nodeValues (np_name p)
      in if v = JUndefined \<and> \<not> go_returnDefaults o' then Inr None
         else rbind (case resolved of None \<Rightarrow> Inr True | Some r \<Rightarrow> displayParameter pc (JObj r) p (JObj r)) (\<lambda>shown.
           Inr (if \<not> shown then None
                else if go_returnDefaults o' then Some (defaultedValue p v)
                else if differsFromDefault pc o' p v then Some v else None)))"

definition applyEffect :: "INodeProperties \<Rightarrow> json option \<Rightarrow> ParamState \<Rightarrow> ParamState" where
  "applyEffect p e st = (case e of None \<Rightarrow> st | Some x \<Rightarrow> setBoth (np_name p) x st)"

definition topOptions :: "bool \<Rightarrow> GetOptions" where
  "topOptions defaults = \<lparr>go_returnDefaults = defaults, go_returnNoneDisplayed = False, go_onlySimpleTypes = False,
     go_dataIsResolved = False, go_root = JUndefined, go_parentType = ''''\<rparr>"

lemma duplicate_distinct:
  assumes "distinct (map np_name props)" and "p \<in> set props"
  shows "\<not> duplicateName props (np_name p)"
proof -
  have "filter (\<lambda>q. np_name q = np_name p) props = [p]"
    using assms by (induction props) (auto simp: filter_empty_conv image_iff)
  then show ?thesis by (simp add: duplicateName_def)
qed

lemma paramStep_simple:
  assumes "simple_props props" and "p \<in> set props"
    and "go_returnNoneDisplayed o' = (resolved = None)" and "go_root o' = JUndefined" and "go_parentType o' = ''''"
  shows "paramStep pc getParameters props (JObj kvs) o' (map_option JObj resolved) p st
    = rbind (passEffect pc o' resolved (JObj kvs) p) (\<lambda>e. Inr (Continue (applyEffect p e st)))"
proof -
  have t: "np_type p \<noteq> ''collection''" "np_type p \<noteq> ''fixedCollection''"
    and d: "\<not> duplicateName props (np_name p)"
    using assms(1,2) duplicate_distinct by (auto simp: simple_props_def list_all_iff)
  show ?thesis
  proof (cases resolved)
    case None
    then show ?thesis using t d assms(3-)
      by (simp add: paramStep_def passEffect_def applyEffect_def simpleParam_def Let_def)
  next
    case (Some r)
    then show ?thesis using t d assms(3-)
      by (cases "displayParameter pc (JObj r) p (JObj r)")
        (simp_all add: paramStep_def passEffect_def applyEffect_def simpleParam_def Let_def)
  qed
qed

text \<open>The values after a pass.\<close>

lemma pass_values:
  assumes "distinct (map np_name props)" and "set order \<subseteq> {..< length props}"
    and step: "\<And>index st. index < length props \<Longrightarrow> f index (Continue st)
      = rbind (eff (props ! index)) (\<lambda>e. Inr (Continue (applyEffect (props ! index) e st)))"
    and r: "rfold f order (Continue st) = Inr progress"
  shows "\<exists>st'. progress = Continue st' \<and> (\<forall>i < length props. \<exists>e. (i \<in> set order \<longrightarrow> eff (props ! i) = Inr e)
      \<and> jget (ps_params st') (np_name (props ! i)) = (if i \<in> set order \<and> e \<noteq> None then e else jget (ps_params st) (np_name (props ! i))))
    \<and> (\<forall>k. k \<notin> np_name ` set props \<longrightarrow> jget (ps_params st') k = jget (ps_params st) k)"
  using assms(2) r
proof (induction order arbitrary: st)
  case (Cons index order)
  have index: "index < length props" using Cons.prems(1) by simp
  obtain e where e: "eff (props ! index) = Inr e" and r: "rfold f order (Continue (applyEffect (props ! index) e st)) = Inr progress"
    using Cons.prems(2) by (auto simp: step [OF index] rbind_Inr_iff)
  have one: "jget (ps_params (applyEffect (props ! index) e st)) (np_name (props ! i))
      = (if i = index \<and> e \<noteq> None then e else jget (ps_params st) (np_name (props ! i)))" if "i < length props" for i
    using assms(1) index that by (auto simp: applyEffect_def setBoth_def js_map_simps distinct_conv_nth split: option.split)
  have other: "jget (ps_params (applyEffect (props ! index) e st)) k = jget (ps_params st) k" if "k \<notin> np_name ` set props" for k
    using index that by (auto simp: applyEffect_def setBoth_def js_map_simps split: option.split)
  obtain st' where st': "progress = Continue st'"
    "\<forall>i < length props. \<exists>e'. (i \<in> set order \<longrightarrow> eff (props ! i) = Inr e')
      \<and> jget (ps_params st') (np_name (props ! i)) = (if i \<in> set order \<and> e' \<noteq> None then e'
          else jget (ps_params (applyEffect (props ! index) e st)) (np_name (props ! i)))"
    "\<forall>k. k \<notin> np_name ` set props \<longrightarrow> jget (ps_params st') k = jget (ps_params st) k"
    using Cons.IH [OF _ r] Cons.prems(1) other by auto
  have "\<exists>e'. (i \<in> set (index # order) \<longrightarrow> eff (props ! i) = Inr e')
      \<and> jget (ps_params st') (np_name (props ! i)) = (if i \<in> set (index # order) \<and> e' \<noteq> None then e' else jget (ps_params st) (np_name (props ! i)))"
    if i: "i < length props" for i
  proof -
    obtain e' where e': "i \<in> set order \<longrightarrow> eff (props ! i) = Inr e'"
      "jget (ps_params st') (np_name (props ! i)) = (if i \<in> set order \<and> e' \<noteq> None then e'
          else jget (ps_params (applyEffect (props ! index) e st)) (np_name (props ! i)))"
      using st'(2) i by blast
    show ?thesis
    proof (cases "i = index")
      case True
      then have "i \<in> set order \<Longrightarrow> e' = e" using e' e by simp
      then show ?thesis using True e e' one [OF i] by (intro exI [of _ e]) auto
    next
      case False
      then show ?thesis using e' one [OF i] by (intro exI [of _ e']) auto
    qed
  qed
  then show ?case using st'(1,3) by blast
qed auto

lemma pass_runs:
  assumes "set order \<subseteq> {..< length props}"
    and step: "\<And>index st. index < length props \<Longrightarrow> f index (Continue st)
      = rbind (eff (props ! index)) (\<lambda>e. Inr (Continue (applyEffect (props ! index) e st)))"
    and eff: "\<And>p. p \<in> set props \<Longrightarrow> \<exists>e. eff p = Inr e"
  shows "\<exists>progress. rfold f order (Continue st) = Inr progress"
  using assms(1)
proof (induction order arbitrary: st)
  case (Cons index order)
  have index: "index < length props" using Cons.prems by simp
  obtain e where "eff (props ! index) = Inr e" using eff nth_mem [OF index] by blast
  then show ?case using Cons by (simp add: step [OF index])
qed simp

text \<open>The loop of \<open>getBody\<close>, and its result as a table of the values it stores.\<close>

definition bodyLoop :: "ParameterContext \<Rightarrow> GetCall \<Rightarrow> INodeProperties list \<Rightarrow> json \<Rightarrow> GetOptions \<Rightarrow> json option \<Rightarrow> nat list \<Rightarrow> Progress res" where
  "bodyLoop pc getParameters props nodeValues o' resolved order = rfold (\<lambda>index progress. case progress of
              Return r \<Rightarrow> Inr (Return r)
            | Continue st \<Rightarrow> (case arr_get props index of
                None \<Rightarrow> Inl TypeError
              | Some p \<Rightarrow> paramStep pc getParameters props nodeValues o' resolved p st))
            order (Continue \<lparr>ps_params = [], ps_full = []\<rparr>)"

definition stores :: "INodeProperties list \<Rightarrow> (INodeProperties \<Rightarrow> json option res) \<Rightarrow> (string, json) jmap \<Rightarrow> bool" where
  "stores props eff vals \<longleftrightarrow> (\<forall>p \<in> set props. eff p = Inr (jget vals (np_name p))) \<and> (\<forall>k. k \<notin> np_name ` set props \<longrightarrow> jget vals k = None)"

lemma order_all:
  assumes "getParameterResolveOrder props deps = Inr order"
  shows "set order = {..< length props}"
proof -
  have "order_ok props deps (startResolve (length props))" by (simp add: order_ok_def startResolve_def)
  then have "set order \<subseteq> {..< length props} \<and> (\<forall>i < length props. placed props deps order i)"
    using resolveLoop_placed assms unfolding getParameterResolveOrder_def by blast
  then show ?thesis by (force simp: placed_def)
qed

lemma bodyLoop_simple:
  fixes pc getParameters kvs
  assumes simple: "simple_props props" and order: "set order = {..< length props}"
    and opts: "go_returnNoneDisplayed o' = (resolved = None)" "go_root o' = JUndefined" "go_parentType o' = ''''"
  defines "run \<equiv> bodyLoop pc getParameters props (JObj kvs) o' (map_option JObj resolved) order"
    and "eff \<equiv> passEffect pc o' resolved (JObj kvs)"
  shows "run = Inr progress \<Longrightarrow> \<exists>st. progress = Continue st \<and> stores props eff (ps_params st)"
    and "(\<And>p. p \<in> set props \<Longrightarrow> \<exists>e. eff p = Inr e) \<Longrightarrow> \<exists>progress. run = Inr progress"
proof -
  define f where "f = (\<lambda>index progress. case progress of
              Return r \<Rightarrow> Inr (Return r)
            | Continue st \<Rightarrow> (case arr_get props index of
                None \<Rightarrow> Inl TypeError
              | Some p \<Rightarrow> paramStep pc getParameters props (JObj kvs) o' (map_option JObj resolved) p st))"
  have run: "run = rfold f order (Continue \<lparr>ps_params = [], ps_full = []\<rparr>)" by (simp add: run_def bodyLoop_def f_def)
  have step: "f index (Continue st) = rbind (eff (props ! index)) (\<lambda>e. Inr (Continue (applyEffect (props ! index) e st)))"
    if "index < length props" for index st
    using paramStep_simple [OF simple nth_mem [OF that] opts] that by (simp add: f_def arr_get_def eff_def)
  have distinct: "distinct (map np_name props)" using simple by (simp add: simple_props_def)
  have sub: "set order \<subseteq> {..< length props}" using order by simp
  show "\<exists>st. progress = Continue st \<and> stores props eff (ps_params st)" if r: "run = Inr progress"
  proof -
    obtain st where st: "progress = Continue st"
      "\<And>i. i < length props \<Longrightarrow> \<exists>e. eff (props ! i) = Inr e \<and> jget (ps_params st) (np_name (props ! i)) = e"
      "\<And>k. k \<notin> np_name ` set props \<Longrightarrow> jget (ps_params st) k = None"
      using pass_values [where f = f and eff = eff, OF distinct sub step r [unfolded run]] order by fastforce
    have "eff p = Inr (jget (ps_params st) (np_name p))" if "p \<in> set props" for p
      using st(2) that by (metis in_set_conv_nth)
    then show ?thesis using st by (auto simp: stores_def)
  qed
  show "\<exists>progress. run = Inr progress" if "\<And>p. p \<in> set props \<Longrightarrow> \<exists>e. eff p = Inr e"
    unfolding run using pass_runs [where f = f and eff = eff, OF sub step that] by blast
qed

lemma getBody_loop:
  "getBody pc getParameters props nodeValues o' =
     rbind (if \<not> go_dataIsResolved o' \<and> \<not> go_returnNoneDisplayed o'
            then rbind (getParameters props nodeValues (resolveAll o')) (\<lambda>r. Inr (Some r)) else Inr None) (\<lambda>resolved.
     rbind (getParameterResolveOrder props (getParameterDependencies props)) (\<lambda>order.
     rbind (bodyLoop pc getParameters props nodeValues o' resolved order)
       (\<lambda>progress. Inr (case progress of Return r \<Rightarrow> r | Continue st \<Rightarrow> JObj (ps_params st)))))"
  by (simp add: getBody_def bodyLoop_def)

lemma get_resolved:
  assumes "go_dataIsResolved o'" and "getParameterResolveOrder props (getParameterDependencies props) = Inr order"
  shows "getNodeParameters pc props v o' = rbind (bodyLoop pc (getNodeParameters pc) props v o' None order)
      (\<lambda>progress. Inr (case progress of Return r \<Rightarrow> r | Continue st \<Rightarrow> JObj (ps_params st)))"
  by (subst getNodeParameters.simps) (simp add: getBody_loop assms)

lemma get_displayed:
  assumes "\<not> go_dataIsResolved o'" and "\<not> go_returnNoneDisplayed o'"
    and "getNodeParameters pc props v (resolveAll o') = Inr r"
    and "getParameterResolveOrder props (getParameterDependencies props) = Inr order"
  shows "getNodeParameters pc props v o' = rbind (bodyLoop pc (getNodeParameters pc) props v o' (Some r) order)
      (\<lambda>progress. Inr (case progress of Return r \<Rightarrow> r | Continue st \<Rightarrow> JObj (ps_params st)))"
  by (subst getNodeParameters.simps) (simp add: getBody_loop assms)

text \<open>The values that decide about the display: those given, or the defaults.\<close>

lemma resolve_pass:
  assumes simple: "simple_props props" and order: "getParameterResolveOrder props (getParameterDependencies props) = Inr order"
  shows "\<exists>r. getNodeParameters pc props (JObj kvs) (resolveAll (topOptions b)) = Inr (JObj r)
     \<and> (\<forall>p \<in> set props. jget r (np_name p) = Some (defaultedValue p (field (JObj kvs) (np_name p))))"
proof -
  let ?o = "resolveAll (topOptions b)"
  have opts: "go_returnNoneDisplayed ?o = ((None :: (string, json) jmap option) = None)" "go_root ?o = JUndefined" "go_parentType ?o = ''''"
    by (simp_all add: resolveAll_def topOptions_def)
  have eff: "passEffect pc ?o None (JObj kvs) p = Inr (Some (defaultedValue p (field (JObj kvs) (np_name p))))" for p
    by (simp add: passEffect_def resolveAll_def Let_def)
  obtain progress where run: "bodyLoop pc (getNodeParameters pc) props (JObj kvs) ?o (map_option JObj None) order = Inr progress"
    using bodyLoop_simple(2) [OF simple order_all [OF order] opts] eff by blast
  obtain st where st: "progress = Continue st" "stores props (passEffect pc ?o None (JObj kvs)) (ps_params st)"
    using bodyLoop_simple(1) [OF simple order_all [OF order] opts run] by blast
  have "getNodeParameters pc props (JObj kvs) ?o = Inr (JObj (ps_params st))"
    using run st(1) by (subst get_resolved [OF _ order]) (simp_all add: resolveAll_def)
  then show ?thesis using st(2) eff by (auto simp: stores_def)
qed

lemma top_pass:
  fixes pc kvs
  assumes simple: "simple_props props" and order: "getParameterResolveOrder props (getParameterDependencies props) = Inr order"
    and r: "getNodeParameters pc props (JObj kvs) (resolveAll (topOptions b)) = Inr (JObj r)"
  defines "eff \<equiv> passEffect pc (topOptions b) (Some r) (JObj kvs)"
  shows "getNodeParameters pc props (JObj kvs) (topOptions b) = Inr res \<Longrightarrow> \<exists>vals. res = JObj vals \<and> stores props eff vals"
    and "(\<And>p. p \<in> set props \<Longrightarrow> \<exists>e. eff p = Inr e)
      \<Longrightarrow> \<exists>vals. getNodeParameters pc props (JObj kvs) (topOptions b) = Inr (JObj vals) \<and> stores props eff vals"
proof -
  let ?o = "topOptions b"
  have opts: "go_returnNoneDisplayed ?o = (Some r = None)" "go_root ?o = JUndefined" "go_parentType ?o = ''''"
    by (simp_all add: topOptions_def)
  have get: "getNodeParameters pc props (JObj kvs) ?o = rbind (bodyLoop pc (getNodeParameters pc) props (JObj kvs) ?o (map_option JObj (Some r)) order)
      (\<lambda>progress. Inr (case progress of Return r \<Rightarrow> r | Continue st \<Rightarrow> JObj (ps_params st)))"
    using get_displayed [OF _ _ r order] by (simp add: topOptions_def)
  note loop = bodyLoop_simple [where kvs = kvs and pc = pc and getParameters = "getNodeParameters pc", OF simple order_all [OF order] opts]
  show "\<exists>vals. res = JObj vals \<and> stores props eff vals" if "getNodeParameters pc props (JObj kvs) ?o = Inr res"
    using that loop(1) unfolding get eff_def by (auto simp: rbind_Inr_iff)
  show "\<exists>vals. getNodeParameters pc props (JObj kvs) ?o = Inr (JObj vals) \<and> stores props eff vals"
    if total: "\<And>p. p \<in> set props \<Longrightarrow> \<exists>e. eff p = Inr e"
  proof -
    obtain progress where run: "bodyLoop pc (getNodeParameters pc) props (JObj kvs) ?o (map_option JObj (Some r)) order = Inr progress"
      using loop(2) total unfolding eff_def by blast
    then show ?thesis using loop(1) [OF run] unfolding get eff_def by auto
  qed
qed

subsection \<open>The round trip\<close>

text \<open>
  The conditions: simple parameters with distinct names; what decides about a display is the type version,
  the kind of node, or a parameter without display options whose value is no object or array.  Of lodash's
  \<open>get\<close> it is used that a plain name is the name of a field, of \<open>isEqual\<close> that a primitive value equals
  only itself.
\<close>

definition unconditional :: "INodeProperties list \<Rightarrow> string \<Rightarrow> bool" where
  "unconditional props d \<longleftrightarrow> list_ex (\<lambda>p. np_name p = d \<and> np_displayOptions p = None) props"

definition plain_display :: "ParameterContext \<Rightarrow> INodeProperties list \<Rightarrow> (string, json) jmap \<Rightarrow> bool" where
  "plain_display pc props kvs \<longleftrightarrow> list_all (\<lambda>p. list_all (\<lambda>d. special_name d \<or>
     (plain_get pc d \<and> unconditional props d \<and> is_primitive (field (JObj kvs) d))) (dependency_names p)) props"

definition primitive_equality :: "ParameterContext \<Rightarrow> bool" where
  "primitive_equality pc \<longleftrightarrow> (\<forall>x y. is_primitive x \<longrightarrow> pc_isEqual pc x y \<longrightarrow> x = y)"

definition same_value :: "ParameterContext \<Rightarrow> json option \<Rightarrow> json option \<Rightarrow> bool" where
  "same_value pc a b \<longleftrightarrow> (case (a, b) of (None, None) \<Rightarrow> True | (Some x, Some y) \<Rightarrow> x = y \<or> pc_isEqual pc x y | _ \<Rightarrow> False)"

definition storedValue :: "ParameterContext \<Rightarrow> INodeProperties \<Rightarrow> json \<Rightarrow> json" where
  "storedValue pc p v = (if v \<noteq> JUndefined \<and> differsFromDefault pc (topOptions False) p v then v else JUndefined)"

lemma stored_primitive:
  assumes "primitive_equality pc" and "is_primitive v" and "np_type p \<noteq> ''resourceLocator''"
  shows "defaultedValue p (storedValue pc p v) = defaultedValue p v"
proof -
  have "pc_isEqual pc JNull (np_default p) \<Longrightarrow> np_default p = JNull"
    using assms(1) unfolding primitive_equality_def by (metis is_primitive_def json.case(1))
  then show ?thesis
    using assms(2,3) by (cases v) (auto simp: storedValue_def differsFromDefault_def topOptions_def defaultedValue_def
        nullish_or_def strict_equal_iff is_object_def is_primitive_def)
qed

lemma stored_same:
  assumes "primitive_equality pc" and "np_type p \<noteq> ''resourceLocator''"
  shows "same_value pc (Some (defaultedValue p v)) (Some (defaultedValue p (storedValue pc p v)))"
proof (cases "is_primitive v")
  case True
  then show ?thesis using stored_primitive [OF assms(1) True assms(2)] by (simp add: same_value_def)
next
  case False
  then have v: "is_object v" "v \<noteq> JUndefined" "v \<noteq> JNull" by (cases v; simp add: is_object_def is_primitive_def)+
  show ?thesis
  proof (cases "differsFromDefault pc (topOptions False) p v")
    case False
    then have "pc_isEqual pc v (np_default p)" using v(1) by (simp add: differsFromDefault_def)
    then show ?thesis using False v assms(2) by (simp add: same_value_def storedValue_def defaultedValue_def nullish_or_def)
  qed (simp add: same_value_def storedValue_def v)
qed

text \<open>What the two modes make of a parameter, given whether it is displayed.\<close>

lemma full_pass:
  assumes simple: "simple_props props" and order: "getParameterResolveOrder props (getParameterDependencies props) = Inr order"
    and r: "getNodeParameters pc props (JObj kvs) (resolveAll (topOptions True)) = Inr (JObj r)"
    and full: "getNodeParameters pc props (JObj kvs) (topOptions True) = Inr (JObj full)" and p: "p \<in> set props"
  shows "\<exists>b. displayParameter pc (JObj r) p (JObj r) = Inr b
      \<and> jget full (np_name p) = (if b then Some (defaultedValue p (field (JObj kvs) (np_name p))) else None)"
proof -
  have "stores props (passEffect pc (topOptions True) (Some r) (JObj kvs)) full"
    using top_pass(1) [OF simple order r full] by simp
  then have e: "passEffect pc (topOptions True) (Some r) (JObj kvs) p = Inr (jget full (np_name p))"
    using p by (simp add: stores_def)
  have d: "go_returnDefaults (topOptions True)" by (simp add: topOptions_def)
  obtain b where b: "displayParameter pc (JObj r) p (JObj r) = Inr b"
    using e by (cases "displayParameter pc (JObj r) p (JObj r)") (simp_all add: passEffect_def Let_def d)
  then have "jget full (np_name p) = (if b then Some (defaultedValue p (field (JObj kvs) (np_name p))) else None)"
    using e by (cases b) (simp_all add: passEffect_def Let_def d)
  then show ?thesis using b by blast
qed

lemma stored_pass:
  assumes simple: "simple_props props" and order: "getParameterResolveOrder props (getParameterDependencies props) = Inr order"
    and r: "getNodeParameters pc props (JObj kvs) (resolveAll (topOptions False)) = Inr (JObj r)"
    and shown: "\<And>p. p \<in> set props \<Longrightarrow> \<exists>b. displayParameter pc (JObj r) p (JObj r) = Inr b"
  shows "\<exists>stored. getNodeParameters pc props (JObj kvs) (topOptions False) = Inr (JObj stored)
    \<and> (\<forall>p \<in> set props. field (JObj stored) (np_name p) = (if displayParameter pc (JObj r) p (JObj r) = Inr True
        then storedValue pc p (field (JObj kvs) (np_name p)) else JUndefined))"
proof -
  have "\<exists>e. passEffect pc (topOptions False) (Some r) (JObj kvs) p = Inr e" if p: "p \<in> set props" for p
  proof -
    obtain b where "displayParameter pc (JObj r) p (JObj r) = Inr b" using shown [OF p] by blast
    then show ?thesis by (simp add: passEffect_def Let_def)
  qed
  then obtain stored where stored: "getNodeParameters pc props (JObj kvs) (topOptions False) = Inr (JObj stored)"
    "stores props (passEffect pc (topOptions False) (Some r) (JObj kvs)) stored"
    using top_pass(2) [OF simple order r] by blast
  have "field (JObj stored) (np_name p) = (if displayParameter pc (JObj r) p (JObj r) = Inr True
      then storedValue pc p (field (JObj kvs) (np_name p)) else JUndefined)" if p: "p \<in> set props" for p
  proof -
    let ?v = "field (JObj kvs) (np_name p)"
    have "passEffect pc (topOptions False) (Some r) (JObj kvs) p = Inr (jget stored (np_name p))"
      using stored(2) p by (simp add: stores_def)
    moreover obtain b where b: "displayParameter pc (JObj r) p (JObj r) = Inr b" using shown [OF p] by blast
    moreover have "\<not> go_returnDefaults (topOptions False)" by (simp add: topOptions_def)
    ultimately have "jget stored (np_name p) = (if ?v \<noteq> JUndefined \<and> b \<and> differsFromDefault pc (topOptions False) p ?v
        then Some ?v else None)"
      by (cases b; cases "?v = JUndefined"; cases "differsFromDefault pc (topOptions False) p ?v")
        (simp_all add: passEffect_def Let_def del: field.simps)
    moreover have "field (JObj stored) (np_name p) = (case jget stored (np_name p) of None \<Rightarrow> JUndefined | Some v \<Rightarrow> v)" by simp
    ultimately show ?thesis by (simp add: b storedValue_def del: field.simps)
  qed
  then show ?thesis using stored(1) by blast
qed

text \<open>With what is stored the same parameters are displayed.\<close>

lemma stored_display:
  assumes display: "plain_display pc props kvs" and eq: "primitive_equality pc" and simple: "simple_props props"
    and rv: "\<And>p. p \<in> set props \<Longrightarrow> jget r (np_name p) = Some (defaultedValue p (field (JObj kvs) (np_name p)))"
    and qv: "\<And>p. p \<in> set props \<Longrightarrow> jget q (np_name p) = Some (defaultedValue p (field (JObj stored) (np_name p)))"
    and sv: "\<And>p. p \<in> set props \<Longrightarrow> displayParameter pc (JObj r) p (JObj r) = Inr True
      \<Longrightarrow> field (JObj stored) (np_name p) = storedValue pc p (field (JObj kvs) (np_name p))"
    and p: "p \<in> set props"
  shows "displayParameter pc (JObj q) p (JObj q) = displayParameter pc (JObj r) p (JObj r)"
proof (rule displayParameter_agree)
  have ds: "special_name d \<or> (plain_get pc d \<and> unconditional props d \<and> is_primitive (field (JObj kvs) d))"
    if "d \<in> set (dependency_names p)" for d using display p that by (auto simp: plain_display_def list_all_iff)
  then show "list_all (\<lambda>d. special_name d \<or> plain_get pc d) (dependency_names p)" by (auto simp: list_all_iff)
  have "field (JObj q) d = field (JObj r) d" if d: "d \<in> set (dependency_names p)" "\<not> special_name d" for d
  proof -
    obtain u where u: "u \<in> set props" "np_name u = d" "np_displayOptions u = None"
      using ds [OF d(1)] d(2) by (auto simp: unconditional_def list_ex_iff)
    have "displayParameter pc (JObj r) u (JObj r) = Inr True" using u(3) by (simp add: displayParameter_def displayRules_def)
    moreover have "np_type u \<noteq> ''resourceLocator''" using simple u(1) by (auto simp: simple_props_def list_all_iff)
    ultimately have "defaultedValue u (field (JObj stored) (np_name u)) = defaultedValue u (field (JObj kvs) (np_name u))"
      using sv [OF u(1)] stored_primitive [OF eq] ds [OF d(1)] d(2) u(2) by simp
    then show ?thesis using qv [OF u(1)] rv [OF u(1)] u(2) by simp
  qed
  then show "agree_on (dependency_names p) q r" by (auto simp: agree_on_def list_all_iff)
qed

text \<open>
  C16: for properties with distinct names that are no collections or resource locators, whose display depends only
  on parameters that are always displayed and have primitive values: from the parameters that are stored, which
  leave out defaults and what is not displayed, the same parameters are completed as from the original ones, each
  value the same or equal by \<open>isEqual\<close>.  Without the conditions it fails (\<open>hidden_dependency_loses_value\<close>,
  \<open>fixed_collection_defects\<close>).
\<close>

theorem stored_parameters_roundtrip:
  assumes simple: "simple_props props" and order: "getParameterResolveOrder props (getParameterDependencies props) = Inr order"
    and display: "plain_display pc props kvs" and eq: "primitive_equality pc"
    and full: "getNodeParameters pc props (JObj kvs) (topOptions True) = Inr (JObj full)"
  shows "\<exists>stored full'. getNodeParameters pc props (JObj kvs) (topOptions False) = Inr (JObj stored)
    \<and> getNodeParameters pc props (JObj stored) (topOptions True) = Inr (JObj full')
    \<and> (\<forall>name. same_value pc (jget full name) (jget full' name))"
proof -
  obtain r where r: "getNodeParameters pc props (JObj kvs) (resolveAll (topOptions True)) = Inr (JObj r)"
    and rv: "\<And>p. p \<in> set props \<Longrightarrow> jget r (np_name p) = Some (defaultedValue p (field (JObj kvs) (np_name p)))"
    using resolve_pass [OF simple order] by blast
  have r': "getNodeParameters pc props (JObj kvs) (resolveAll (topOptions False)) = Inr (JObj r)"
    using r by (simp add: resolveAll_def topOptions_def)
  note shown = full_pass [OF simple order r full]
  obtain stored where stored: "getNodeParameters pc props (JObj kvs) (topOptions False) = Inr (JObj stored)"
    and sv: "\<And>p. p \<in> set props \<Longrightarrow> field (JObj stored) (np_name p) = (if displayParameter pc (JObj r) p (JObj r) = Inr True
        then storedValue pc p (field (JObj kvs) (np_name p)) else JUndefined)"
    using stored_pass [OF simple order r'] shown by metis
  obtain q where q: "getNodeParameters pc props (JObj stored) (resolveAll (topOptions True)) = Inr (JObj q)"
    and qv: "\<And>p. p \<in> set props \<Longrightarrow> jget q (np_name p) = Some (defaultedValue p (field (JObj stored) (np_name p)))"
    using resolve_pass [OF simple order] by blast
  have same: "displayParameter pc (JObj q) p (JObj q) = displayParameter pc (JObj r) p (JObj r)" if "p \<in> set props" for p
    using stored_display [OF display eq simple rv qv _ that] sv by simp
  have "\<exists>e. passEffect pc (topOptions True) (Some q) (JObj stored) p = Inr e" if p: "p \<in> set props" for p
    using shown [OF p] same [OF p] by (auto simp: passEffect_def topOptions_def Let_def)
  then obtain full' where full': "getNodeParameters pc props (JObj stored) (topOptions True) = Inr (JObj full')"
    "stores props (passEffect pc (topOptions True) (Some q) (JObj stored)) full'"
    using top_pass(2) [OF simple order q] by blast
  have "same_value pc (jget full name) (jget full' name)" for name
  proof (cases "name \<in> np_name ` set props")
    case True
    then obtain p where p: "p \<in> set props" "name = np_name p" by blast
    have "np_type p \<noteq> ''resourceLocator''" using simple p(1) by (auto simp: simple_props_def list_all_iff)
    then show ?thesis
      using shown [OF p(1)] full_pass [OF simple order q full'(1) p(1)] sv [OF p(1)] same [OF p(1)] stored_same [OF eq] p(2)
      by (auto simp: same_value_def)
  next
    case False
    then show ?thesis
      using full'(2) top_pass(1) [OF simple order r full] by (simp add: stores_def same_value_def)
  qed
  then show ?thesis using stored(1) full'(1) by blast
qed

subsection \<open>Nodes\<close>

text \<open>A context whose \<open>get\<close> reads fields and whose \<open>isEqual\<close> is equality.\<close>

definition field_context :: ParameterContext where
  "field_context = \<lparr>pc_get = field, pc_isEqual = (=), pc_regex = (\<lambda>p v. Inr False), pc_toNumber = (\<lambda>v. None),
     pc_toString = (\<lambda>v. ''''), pc_typeVersion = Some (JNum 1), pc_nodeTypeName = None\<rparr>"

definition text_param :: "string \<Rightarrow> string \<Rightarrow> (string \<times> string) option \<Rightarrow> INodeProperties" where
  "text_param name dflt condition = INodeProperties name ''string'' (JStr dflt)
     (map_option (\<lambda>(d, x). [(''show'', [(d, [JStr x])])]) condition) None [] []"

definition message_props :: "INodeProperties list" where
  "message_props = [text_param ''resource'' ''message'' None, text_param ''text'' '''' (Some (''resource'', ''message'')),
     text_param ''file'' '''' (Some (''resource'', ''file''))]"

definition message_values :: "(string, json) jmap" where
  "message_values = [(''resource'', JStr ''message''), (''text'', JStr ''hi''), (''file'', JStr ''f'')]"

theorem stored_parameters_roundtrip_witness:
  "\<exists>stored full'. getNodeParameters field_context message_props (JObj message_values) (topOptions False) = Inr (JObj stored)
    \<and> getNodeParameters field_context message_props (JObj stored) (topOptions True) = Inr (JObj full')
    \<and> (\<forall>name. same_value field_context (jget [(''resource'', JStr ''message''), (''text'', JStr ''hi'')] name) (jget full' name))"
proof (rule stored_parameters_roundtrip)
  show "simple_props message_props" by code_simp
  show "getParameterResolveOrder message_props (getParameterDependencies message_props) = Inr [0, 1, 2]" by code_simp
  show "plain_display field_context message_props message_values"
    by (simp add: plain_display_def message_props_def message_values_def text_param_def dependency_names_def plain_get_def
        field_context_def unconditional_def is_primitive_def starts_with_def)
  show "primitive_equality field_context" by (simp add: primitive_equality_def field_context_def)
  show "getNodeParameters field_context message_props (JObj message_values) (topOptions True)
      = Inr (JObj [(''resource'', JStr ''message''), (''text'', JStr ''hi'')])" by code_simp
qed

text \<open>A parameter that is shown for a value of a parameter that is itself hidden.\<close>

definition chained_props :: "INodeProperties list" where
  "chained_props = [text_param ''mode'' ''no'' None, text_param ''kind'' ''d'' (Some (''mode'', ''yes'')),
     text_param ''text'' '''' (Some (''kind'', ''x''))]"

definition stored_then_completed :: "INodeProperties list \<Rightarrow> (string, json) jmap \<Rightarrow> (json \<times> json \<times> json) res" where
  "stored_then_completed props kvs =
     rbind (getNodeParameters field_context props (JObj kvs) (topOptions True)) (\<lambda>full.
     rbind (getNodeParameters field_context props (JObj kvs) (topOptions False)) (\<lambda>stored.
     rbind (getNodeParameters field_context props stored (topOptions True)) (\<lambda>full'. Inr (full, stored, full'))))"

text \<open>
  if the display depends on a parameter that is hidden, a value gets lost: the hidden parameter is not
  stored, and with its default the other one is hidden too.
\<close>

theorem hidden_dependency_loses_value:
  "stored_then_completed chained_props [(''kind'', JStr ''x''), (''text'', JStr ''hi'')]
    = Inr (JObj [(''mode'', JStr ''no''), (''text'', JStr ''hi'')], JObj [(''text'', JStr ''hi'')], JObj [(''mode'', JStr ''no'')])"
  by code_simp

text \<open>A fixed collection that allows one value.\<close>

definition one_of_collection :: "json \<Rightarrow> INodeProperties" where
  "one_of_collection dflt = INodeProperties ''options'' ''fixedCollection'' dflt None (Some False) []
     [(''values'', [text_param ''name'' '''' None])]"

text \<open>
  a fixed collection with a default item throws when the node has no value for it, since the item is
  read from the missing value; and an empty value makes the function return all values of the node, also
  those that equal their defaults.
\<close>

theorem fixed_collection_defects:
  "getNodeParameters field_context [one_of_collection (JObj [(''values'', JObj [(''name'', JStr ''a'')])])] (JObj []) (topOptions True)
      = Inl TypeError
   \<and> getNodeParameters field_context [text_param ''text'' ''d'' None, one_of_collection (JObj [])]
      (JObj [(''text'', JStr ''d''), (''options'', JObj [])]) (topOptions False)
      = Inr (JObj [(''text'', JStr ''d''), (''options'', JObj [])])"
  by (intro conjI; code_simp)

end
