(* ===== verification/AugmentObject.thy ===== *)
theory AugmentObject
  imports JsPrelude
begin

section \<open>Augmented objects\<close>

text \<open>
  \<open>packages/workflow/src/augment-object.ts\<close>: the data that code in a workflow gets is wrapped in proxies, so
  that it can be changed without changing the original.  Objects are compared by identity and shared, so the
  model has a heap: a list of cells, whose positions are the references.  A proxy is a cell with its target
  and the variables its handlers close over.  Values are those of JSON data: dates, regular expressions, byte
  arrays, functions and frozen objects are left out, and so are the properties of prototypes apart from
  \<open>constructor\<close>.
\<close>

datatype JsValue = VUndefined | VNull | VBool bool | VNum int | VText string | VRef nat | VClass string

text \<open>The elements of an array, with holes, and its other properties.\<close>

type_synonym ArrayData = "JsValue option list \<times> (string, JsValue) jmap"

datatype JsCell =
    PlainObject "(string, JsValue) jmap"
  | PlainArray ArrayData
  | ObjectProxy nat "(string, JsValue) jmap" "string list"
  | ArrayProxy nat "ArrayData option"

type_synonym JsHeap = "JsCell list"

subsection \<open>Arrays\<close>

definition arrayGet :: "ArrayData \<Rightarrow> string \<Rightarrow> JsValue option" where
  "arrayGet arr key = (if key = ''length'' then Some (VNum (int (length (fst arr))))
     else if is_array_index key then (case arr_get (fst arr) (dec_value key) of None \<Rightarrow> None | Some e \<Rightarrow> e)
     else jget (snd arr) key)"

text \<open>The length is set to numbers only.\<close>

definition setLength :: "JsValue \<Rightarrow> ArrayData \<Rightarrow> ArrayData res" where
  "setLength v arr = (case v of
      VNum n \<Rightarrow> if 0 \<le> n \<and> n < 2 ^ 32
        then Inr (take (nat n) (fst arr) @ replicate (nat n - length (fst arr)) None, snd arr)
        else Inl (NamedError ''RangeError'' ''Invalid array length'')
    | _ \<Rightarrow> Inl (NamedError ''RangeError'' ''Invalid array length''))"

definition arraySet :: "string \<Rightarrow> JsValue \<Rightarrow> ArrayData \<Rightarrow> ArrayData res" where
  "arraySet key v arr = (if key = ''length'' then setLength v arr
     else if is_array_index key then Inr (arr_put None (dec_value key) (Some v) (fst arr), snd arr)
     else Inr (fst arr, jput key v (snd arr)))"

definition arrayDelete :: "string \<Rightarrow> ArrayData \<Rightarrow> ArrayData res" where
  "arrayDelete key arr = (if key = ''length'' then Inl TypeError
     else if is_array_index key then Inr ((fst arr)[dec_value key := None], snd arr)
     else Inr (fst arr, jdel key (snd arr)))"

definition arrayKeys :: "ArrayData \<Rightarrow> string list" where
  "arrayKeys arr = map (nat_string \<circ> fst) (filter (\<lambda>(i, e). e \<noteq> None) (enumerate 0 (fst arr))) @ [''length''] @ own_keys (snd arr)"

text \<open>\<open>[...data]\<close>: holes become undefined, the other properties are left.\<close>

definition spreadArray :: "ArrayData \<Rightarrow> ArrayData" where
  "spreadArray arr = (map (\<lambda>e. Some (case e of None \<Rightarrow> VUndefined | Some v \<Rightarrow> v)) (fst arr), [])"

subsection \<open>The proxies\<close>

definition objectAt :: "JsHeap \<Rightarrow> nat \<Rightarrow> (string, JsValue) jmap" where
  "objectAt h a = (case arr_get h a of Some (PlainObject kvs) \<Rightarrow> kvs | _ \<Rightarrow> [])"

definition arrayAt :: "JsHeap \<Rightarrow> nat \<Rightarrow> ArrayData" where
  "arrayAt h a = (case arr_get h a of Some (PlainArray arr) \<Rightarrow> arr | _ \<Rightarrow> ([], []))"

definition augmentArray :: "JsHeap \<Rightarrow> nat \<Rightarrow> JsValue \<times> JsHeap" where
  "augmentArray h a = (case arr_get h a of
      Some (ArrayProxy _ _) \<Rightarrow> (VRef a, h)
    | _ \<Rightarrow> (VRef (length h), h @ [ArrayProxy a None]))"

definition augmentObject :: "JsHeap \<Rightarrow> nat \<Rightarrow> JsValue \<times> JsHeap" where
  "augmentObject h a = (case arr_get h a of
      Some (ObjectProxy _ _ _) \<Rightarrow> (VRef a, h)
    | _ \<Rightarrow> (VRef (length h), h @ [ObjectProxy a [] []]))"

text \<open>A proxy of an array is an array for \<open>Array.isArray\<close>.\<close>

definition isArray :: "JsHeap \<Rightarrow> nat \<Rightarrow> bool" where
  "isArray h a = (case arr_get h a of Some (PlainArray _) \<Rightarrow> True | Some (ArrayProxy _ _) \<Rightarrow> True | _ \<Rightarrow> False)"

definition augment :: "JsHeap \<Rightarrow> JsValue \<Rightarrow> JsValue \<times> JsHeap" where
  "augment h v = (case v of VRef a \<Rightarrow> if isArray h a then augmentArray h a else augmentObject h a | _ \<Rightarrow> (v, h))"

text \<open>The current elements of the proxy of an array, \<open>newData ?? target\<close>, and \<open>getData()\<close>.\<close>

definition currentData :: "JsHeap \<Rightarrow> nat \<Rightarrow> ArrayData option \<Rightarrow> ArrayData" where
  "currentData h t newData = (case newData of None \<Rightarrow> arrayAt h t | Some d \<Rightarrow> d)"

definition getData :: "JsHeap \<Rightarrow> nat \<Rightarrow> ArrayData option \<Rightarrow> ArrayData" where
  "getData h t newData = (case newData of None \<Rightarrow> spreadArray (arrayAt h t) | Some d \<Rightarrow> d)"

definition orUndefined :: "JsValue option \<Rightarrow> JsValue" where
  "orUndefined v = (case v of None \<Rightarrow> VUndefined | Some x \<Rightarrow> x)"

definition arrayTrapGet :: "JsHeap \<Rightarrow> nat \<Rightarrow> nat \<Rightarrow> ArrayData option \<Rightarrow> string \<Rightarrow> JsValue \<times> JsHeap" where
  "arrayTrapGet h a t newData key =
     (if key = ''constructor'' then (VClass ''Array'', h)
      else let value = orUndefined (arrayGet (currentData h t newData) key); (newValue, h') = augment h value
        in if newValue \<noteq> value
           then (case arraySet key newValue (getData h t newData) of
               Inl e \<Rightarrow> (newValue, h')
             | Inr d \<Rightarrow> (newValue, h'[a := ArrayProxy t (Some d)]))
           else (value, h'))"

definition objectTrapGet :: "JsHeap \<Rightarrow> nat \<Rightarrow> nat \<Rightarrow> (string, JsValue) jmap \<Rightarrow> string list \<Rightarrow> string \<Rightarrow> JsValue \<times> JsHeap" where
  "objectTrapGet h a t newData deleted key =
     (if key = ''constructor'' then (VClass ''Object'', h)
      else if key \<in> set deleted then (VUndefined, h)
      else case jget newData key of
          Some v \<Rightarrow> (v, h)
        | None \<Rightarrow> let value = orUndefined (jget (objectAt h t) key); (newValue, h') = augment h value
            in if newValue \<noteq> value then (newValue, h'[a := ObjectProxy t (jput key newValue newData) deleted])
               else (value, h'))"

definition getProperty :: "JsHeap \<Rightarrow> nat \<Rightarrow> string \<Rightarrow> (JsValue \<times> JsHeap) res" where
  "getProperty h a key = (case arr_get h a of
      None \<Rightarrow> Inl TypeError
    | Some (PlainObject kvs) \<Rightarrow> Inr (case jget kvs key of Some v \<Rightarrow> v
        | None \<Rightarrow> if key = ''constructor'' then VClass ''Object'' else VUndefined, h)
    | Some (PlainArray arr) \<Rightarrow> Inr (case arrayGet arr key of Some v \<Rightarrow> v
        | None \<Rightarrow> if key = ''constructor'' then VClass ''Array'' else VUndefined, h)
    | Some (ObjectProxy t newData deleted) \<Rightarrow> Inr (objectTrapGet h a t newData deleted key)
    | Some (ArrayProxy t newData) \<Rightarrow> Inr (arrayTrapGet h a t newData key))"

definition objectTrapDelete :: "JsHeap \<Rightarrow> nat \<Rightarrow> (string, JsValue) jmap \<Rightarrow> string list \<Rightarrow> string \<Rightarrow> JsCell" where
  "objectTrapDelete h t newData deleted key = ObjectProxy t (if jhas newData key then jdel key newData else newData)
     (if jhas (objectAt h t) key then sadd key deleted else deleted)"

definition objectTrapSet :: "JsHeap \<Rightarrow> nat \<Rightarrow> (string, JsValue) jmap \<Rightarrow> string list \<Rightarrow> string \<Rightarrow> JsValue \<Rightarrow> JsCell" where
  "objectTrapSet h t newData deleted key newValue =
     (if newValue = VUndefined
      then ObjectProxy t (if jhas newData key then jdel key newData else newData)
        (if jhas (objectAt h t) key then sadd key deleted else deleted)
      else ObjectProxy t (jput key newValue newData) (if key \<in> set deleted then sdel key deleted else deleted))"

definition arrayTrapSet :: "JsHeap \<Rightarrow> nat \<Rightarrow> nat \<Rightarrow> ArrayData option \<Rightarrow> string \<Rightarrow> JsValue \<Rightarrow> JsHeap res" where
  "arrayTrapSet h a t newData key newValue =
     (let (v, h') = augment h newValue
      in rbind (arraySet key v (getData h t newData)) (\<lambda>d. Inr (h'[a := ArrayProxy t (Some d)])))"

definition setProperty :: "JsHeap \<Rightarrow> nat \<Rightarrow> string \<Rightarrow> JsValue \<Rightarrow> JsHeap res" where
  "setProperty h a key v = (case arr_get h a of
      None \<Rightarrow> Inl TypeError
    | Some (PlainObject kvs) \<Rightarrow> Inr (h[a := PlainObject (jput key v kvs)])
    | Some (PlainArray arr) \<Rightarrow> rbind (arraySet key v arr) (\<lambda>arr'. Inr (h[a := PlainArray arr']))
    | Some (ObjectProxy t newData deleted) \<Rightarrow> Inr (h[a := objectTrapSet h t newData deleted key v])
    | Some (ArrayProxy t newData) \<Rightarrow> arrayTrapSet h a t newData key v)"

definition deleteProperty :: "JsHeap \<Rightarrow> nat \<Rightarrow> string \<Rightarrow> JsHeap res" where
  "deleteProperty h a key = (case arr_get h a of
      None \<Rightarrow> Inl TypeError
    | Some (PlainObject kvs) \<Rightarrow> Inr (h[a := PlainObject (jdel key kvs)])
    | Some (PlainArray arr) \<Rightarrow> rbind (arrayDelete key arr) (\<lambda>arr'. Inr (h[a := PlainArray arr']))
    | Some (ObjectProxy t newData deleted) \<Rightarrow> Inr (h[a := objectTrapDelete h t newData deleted key])
    | Some (ArrayProxy t newData) \<Rightarrow> rbind (arrayDelete key (getData h t newData)) (\<lambda>d. Inr (h[a := ArrayProxy t (Some d)])))"

definition hasProperty :: "JsHeap \<Rightarrow> nat \<Rightarrow> string \<Rightarrow> bool res" where
  "hasProperty h a key = (case arr_get h a of
      None \<Rightarrow> Inl TypeError
    | Some (PlainObject kvs) \<Rightarrow> Inr (jhas kvs key)
    | Some (PlainArray arr) \<Rightarrow> Inr (arrayGet arr key \<noteq> None)
    | Some (ObjectProxy t newData deleted) \<Rightarrow> Inr (key \<notin> set deleted
        \<and> jhas (if jhas newData key then newData else objectAt h t) key)
    | Some (ArrayProxy t newData) \<Rightarrow> Inr (arrayGet (currentData h t newData) key \<noteq> None))"

definition ownKeys :: "JsHeap \<Rightarrow> nat \<Rightarrow> string list res" where
  "ownKeys h a = (case arr_get h a of
      None \<Rightarrow> Inl TypeError
    | Some (PlainObject kvs) \<Rightarrow> Inr (own_keys kvs)
    | Some (PlainArray arr) \<Rightarrow> Inr (arrayKeys arr)
    | Some (ObjectProxy t newData deleted) \<Rightarrow>
        Inr (filter (\<lambda>key. key \<notin> set deleted) (set_of_list (own_keys (objectAt h t) @ own_keys newData)))
    | Some (ArrayProxy t newData) \<Rightarrow> Inr (arrayKeys (currentData h t newData)))"

text \<open>The value in the property descriptor that \<open>getOwnPropertyDescriptor\<close> returns.\<close>

definition describeProperty :: "JsHeap \<Rightarrow> nat \<Rightarrow> string \<Rightarrow> JsValue res" where
  "describeProperty h a key = (case arr_get h a of
      None \<Rightarrow> Inl TypeError
    | Some (PlainObject kvs) \<Rightarrow> Inr (orUndefined (jget kvs key))
    | Some (PlainArray arr) \<Rightarrow> Inr (orUndefined (arrayGet arr key))
    | Some (ObjectProxy t newData deleted) \<Rightarrow> Inr (if key \<in> set deleted then VUndefined
        else orUndefined (jget (if jhas newData key then newData else objectAt h t) key))
    | Some (ArrayProxy t newData) \<Rightarrow> Inr (orUndefined (case newData of
          None \<Rightarrow> arrayGet (arrayAt h t) key
        | Some d \<Rightarrow> if key = ''length'' then arrayGet d key else arrayGet (arrayAt h t) key)))"

text \<open>
  \<open>Object.defineProperty(obj, key, {value, ...})\<close> of a property that can be written, listed and configured:
  the proxies have no trap for it, so it works on their target.
\<close>

definition definePlain :: "JsHeap \<Rightarrow> nat \<Rightarrow> string \<Rightarrow> JsValue \<Rightarrow> JsHeap res" where
  "definePlain h a key v = (case arr_get h a of
      Some (PlainObject kvs) \<Rightarrow> Inr (h[a := PlainObject (jput key v kvs)])
    | Some (PlainArray arr) \<Rightarrow> if key = ''length'' then Inl TypeError
        else rbind (arraySet key v arr) (\<lambda>arr'. Inr (h[a := PlainArray arr']))
    | _ \<Rightarrow> Inl TypeError)"

definition defineProperty :: "JsHeap \<Rightarrow> nat \<Rightarrow> string \<Rightarrow> JsValue \<Rightarrow> JsHeap res" where
  "defineProperty h a key v = definePlain h (case arr_get h a of
      Some (ObjectProxy t _ _) \<Rightarrow> t | Some (ArrayProxy t _) \<Rightarrow> t | _ \<Rightarrow> a) key v"

subsection \<open>Code that works on the data\<close>

text \<open>
  A program holds values: at first the proxy of the data.  It makes objects and arrays of its own, and reads,
  writes, deletes and defines properties of what it holds; a value that is read is held too, and so is the
  value in a property descriptor.
\<close>

datatype JsOp = Constant JsValue | NewObject | NewArray | Read nat string | Write nat string nat | Remove nat string | Wrap nat
  | Describe nat string | Define nat string nat

definition reference :: "JsValue list \<Rightarrow> nat \<Rightarrow> nat res" where
  "reference vs i = (case arr_get vs i of Some (VRef a) \<Rightarrow> Inr a | _ \<Rightarrow> Inl TypeError)"

definition or_nothing :: "JsValue \<Rightarrow> JsValue" where
  "or_nothing v = (case v of VRef _ \<Rightarrow> VUndefined | _ \<Rightarrow> v)"

type_synonym Program = "JsHeap \<times> JsValue list"

fun execute :: "JsOp \<Rightarrow> Program \<Rightarrow> Program res" where
  "execute (Constant v) (h, vs) = Inr (h, vs @ [or_nothing v])"
| "execute NewObject (h, vs) = Inr (h @ [PlainObject []], vs @ [VRef (length h)])"
| "execute NewArray (h, vs) = Inr (h @ [PlainArray ([], [])], vs @ [VRef (length h)])"
| "execute (Read i key) (h, vs) = rbind (reference vs i) (\<lambda>a. rbind (getProperty h a key) (\<lambda>(v, h'). Inr (h', vs @ [v])))"
| "execute (Write i key j) (h, vs) = rbind (reference vs i) (\<lambda>a. case arr_get vs j of None \<Rightarrow> Inl TypeError
     | Some v \<Rightarrow> rbind (setProperty h a key v) (\<lambda>h'. Inr (h', vs)))"
| "execute (Remove i key) (h, vs) = rbind (reference vs i) (\<lambda>a. rbind (deleteProperty h a key) (\<lambda>h'. Inr (h', vs)))"
| "execute (Wrap i) (h, vs) = (case arr_get vs i of None \<Rightarrow> Inl TypeError
     | Some v \<Rightarrow> let (v', h') = augment h v in Inr (h', vs @ [v']))"
| "execute (Describe i key) (h, vs) = rbind (reference vs i) (\<lambda>a. rbind (describeProperty h a key) (\<lambda>v. Inr (h, vs @ [v])))"
| "execute (Define i key j) (h, vs) = rbind (reference vs i) (\<lambda>a. case arr_get vs j of None \<Rightarrow> Inl TypeError
     | Some v \<Rightarrow> rbind (defineProperty h a key v) (\<lambda>h'. Inr (h', vs)))"

definition executeAll :: "JsOp list \<Rightarrow> Program \<Rightarrow> Program res" where
  "executeAll ops = rfold execute ops"

definition startProgram :: "JsHeap \<Rightarrow> nat \<Rightarrow> Program" where
  "startProgram h a = (let (v, h') = augment h (VRef a) in (h', [v]))"

end
