(* ===== verification/AugmentIsolation.thy ===== *)
theory AugmentIsolation
  imports AugmentObject
begin

section \<open>What code can reach through augmented data\<close>

text \<open>
  The cells of the original data stay as they are, whatever a program does with the proxy.  The invariant: a
  program holds no reference to one of the first \<open>n\<close> cells, and no object or proxy that it can reach holds
  one, apart from the copied elements of an array, which are augmented when they are read.
\<close>

subsection \<open>The invariant\<close>

definition outside :: "nat \<Rightarrow> JsHeap \<Rightarrow> JsValue \<Rightarrow> bool" where
  "outside n h v = (case v of VRef a \<Rightarrow> n \<le> a \<and> a < length h | _ \<Rightarrow> True)"

definition plain_cell :: "JsCell \<Rightarrow> bool" where
  "plain_cell c = (case c of ObjectProxy _ _ _ \<Rightarrow> False | ArrayProxy _ _ \<Rightarrow> False | _ \<Rightarrow> True)"

definition cell_values :: "JsCell \<Rightarrow> JsValue set" where
  "cell_values c = (case c of
      PlainObject kvs \<Rightarrow> snd ` set kvs
    | PlainArray arr \<Rightarrow> {v. Some v \<in> set (fst arr)} \<union> snd ` set (snd arr)
    | ObjectProxy t newData deleted \<Rightarrow> snd ` set newData
    | ArrayProxy t newData \<Rightarrow> {})"

definition isolated :: "nat \<Rightarrow> JsHeap \<Rightarrow> bool" where
  "isolated n h \<longleftrightarrow> n \<le> length h \<and> (\<forall>a < n. plain_cell (h ! a))
     \<and> (\<forall>a. n \<le> a \<longrightarrow> a < length h \<longrightarrow> (\<forall>v \<in> cell_values (h ! a). outside n h v))"

lemma cell_values_simps [simp]:
  "cell_values (PlainObject kvs) = snd ` set kvs"
  "cell_values (PlainArray arr) = {v. Some v \<in> set (fst arr)} \<union> snd ` set (snd arr)"
  "cell_values (ObjectProxy t newData deleted) = snd ` set newData"
  "cell_values (ArrayProxy t d) = {}"
  by (simp_all add: cell_values_def)

lemma outside_primitive [simp]:
  "outside n h VUndefined" "outside n h (VNum i)" "outside n h (VClass s)" "outside n h (or_nothing v)"
  by (simp_all add: outside_def or_nothing_def split: JsValue.split)

lemma outside_mono: "outside n h v \<Longrightarrow> length h \<le> length h' \<Longrightarrow> outside n h' v"
  by (auto simp: outside_def split: JsValue.splits)

lemma outside_VRef [simp]: "outside n h (VRef a) \<longleftrightarrow> n \<le> a \<and> a < length h"
  by (simp add: outside_def)

lemma outside_update [simp]: "outside n (h[a := c]) v = outside n h v"
  by (simp add: outside_def split: JsValue.splits)

text \<open>A step outside the original: it keeps the invariant and the first cells.\<close>

definition outside_step :: "nat \<Rightarrow> JsHeap \<Rightarrow> JsHeap \<Rightarrow> bool" where
  "outside_step n h h' \<longleftrightarrow> isolated n h' \<and> take n h' = take n h \<and> length h \<le> length h'"

lemma outside_step_refl: "isolated n h \<Longrightarrow> outside_step n h h"
  by (simp add: outside_step_def)

lemma outside_step_trans: "outside_step n h h' \<Longrightarrow> outside_step n h' h'' \<Longrightarrow> outside_step n h h''"
  by (simp add: outside_step_def)

lemma outside_new:
  assumes "isolated n h" and "cell_values c = {}"
  shows "outside_step n h (h @ [c])"
  using assms by (auto simp: outside_step_def isolated_def nth_append less_Suc_eq intro: outside_mono [of n h])

lemma outside_write:
  assumes "isolated n h" and "n \<le> a" and "\<forall>v \<in> cell_values c. outside n h v"
  shows "outside_step n h (h[a := c])"
proof (cases "a < length h")
  case True
  then show ?thesis
    using assms by (auto simp: outside_step_def isolated_def nth_list_update)
qed (simp add: assms(1) outside_step_refl list_update_beyond)

lemma isolated_cell:
  assumes "isolated n h" and "arr_get h a = Some c" and "n \<le> a" and "v \<in> cell_values c"
  shows "outside n h v"
  using assms by (auto simp: isolated_def arr_get_def split: if_splits)

subsection \<open>The operations\<close>

text \<open>Whatever is augmented, the result is outside.\<close>

lemma augment_outside:
  assumes "isolated n h" and "augment h v = (v', h')"
  shows "outside_step n h h' \<and> outside n h' v'"
proof -
  have plain: "plain_cell c" if "arr_get h a = Some c" "a < n" for a c
    using that assms(1) by (auto simp: isolated_def arr_get_def split: if_splits)
  have n: "n \<le> length h" using assms(1) by (simp add: isolated_def)
  have proxy: "n \<le> a \<and> a < length h" if "arr_get h a = Some c" "\<not> plain_cell c" for a c
    using that plain [of a c] by (cases "a < n") (auto simp: arr_get_def split: if_splits)
  have new: "outside_step n h (h @ [c]) \<and> outside n (h @ [c]) (VRef (length h))" if "cell_values c = {}" for c
    using outside_new [OF assms(1) that] n by (simp add: outside_def)
  have refl: "outside_step n h h" by (rule outside_step_refl [OF assms(1)])
  show ?thesis
  proof (cases v)
    case (VRef a)
    then show ?thesis
      using assms(2) new refl n proxy [of a]
      by (cases "arr_get h a")
        (auto simp: augment_def isArray_def augmentArray_def augmentObject_def plain_cell_def outside_def [of n h] split: JsCell.splits)
  qed (use assms(2) refl in \<open>auto simp: augment_def outside_def\<close>)
qed

lemma arrayGet_value: "arrayGet arr key = Some v \<Longrightarrow> (\<exists>i. v = VNum i) \<or> v \<in> cell_values (PlainArray arr)"
  by (auto simp: arrayGet_def split: if_splits option.splits dest: arr_get_in_set jget_in_set intro: rev_image_eqI)

lemma update_values: "(k', w) \<in> set (jput k v m) \<Longrightarrow> w = v \<or> w \<in> snd ` set m"
  by (induction m) (auto split: if_splits intro: rev_image_eqI)

lemma delete_values: "(k', w) \<in> set (jdel k m) \<Longrightarrow> w \<in> snd ` set m"
  by (auto simp: AList.delete_eq intro: rev_image_eqI)

lemma values_put: "\<forall>x \<in> snd ` set m. P x \<Longrightarrow> P v \<Longrightarrow> \<forall>x \<in> snd ` set (jput k v m). P x"
  using update_values by fastforce

lemma values_del: "\<forall>x \<in> snd ` set m. P x \<Longrightarrow> \<forall>x \<in> snd ` set (jdel k m). P x"
  using delete_values by fastforce

lemma objectTrap_values:
  assumes "\<forall>x \<in> snd ` set newData. P x"
  shows "\<forall>x \<in> cell_values (objectTrapDelete h t newData deleted key). P x"
    and "P v \<Longrightarrow> \<forall>x \<in> cell_values (objectTrapSet h t newData deleted key v). P x"
  unfolding objectTrapDelete_def objectTrapSet_def
  using values_put [OF assms, of v] values_del [OF assms] assms
  by (simp_all split: if_split del: ball_simps)

lemma jget_value: "jget m k = Some v \<Longrightarrow> v \<in> snd ` set m"
  by (auto dest: jget_in_set intro: rev_image_eqI)

lemma arr_put_values: "Some w \<in> set (arr_put None i (Some v) xs) \<Longrightarrow> w = v \<or> Some w \<in> set xs"
  by (auto simp: arr_put_def split: if_splits dest: set_update_subset_insert [THEN subsetD])

lemma arraySet_values:
  "arraySet key v arr = Inr arr' \<Longrightarrow> cell_values (PlainArray arr') \<subseteq> insert v (cell_values (PlainArray arr))"
  by (auto simp: arraySet_def setLength_def split: if_splits JsValue.splits dest: arr_put_values in_set_takeD update_values)

lemma arrayDelete_values:
  "arrayDelete key arr = Inr arr' \<Longrightarrow> cell_values (PlainArray arr') \<subseteq> cell_values (PlainArray arr)"
  by (auto simp: arrayDelete_def split: if_splits dest: set_update_subset_insert [THEN subsetD] delete_values)

text \<open>Reading.\<close>

lemma getProperty_outside:
  assumes iso: "isolated n h" and a: "n \<le> a" and r: "getProperty h a key = Inr (v, h')"
  shows "outside_step n h h' \<and> outside n h' v"
proof (cases "arr_get h a")
  case None
  then show ?thesis using r by (simp add: getProperty_def)
next
  case (Some c)
  have refl: "outside_step n h h" by (rule outside_step_refl [OF iso])
  note vals = isolated_cell [OF iso Some a]
  show ?thesis
  proof (cases c)
    case (PlainObject kvs)
    then show ?thesis using r Some refl vals jget_value [of kvs key]
      by (auto simp: getProperty_def split: option.splits)
  next
    case (PlainArray arr)
    then show ?thesis using r Some refl vals arrayGet_value [of arr key]
      by (auto simp: getProperty_def split: option.splits)
  next
    case (ObjectProxy t newData deleted)
    have old: "outside n h w" if "jget newData key = Some w" for w
      using vals jget_value [OF that] ObjectProxy by simp
    obtain w h1 where w: "augment h (orUndefined (jget (objectAt h t) key)) = (w, h1)" by fastforce
    note aug = augment_outside [OF iso w]
    have "\<forall>x \<in> cell_values (ObjectProxy t (jput key w newData) deleted). outside n h1 x"
      unfolding cell_values_simps using aug vals ObjectProxy
      by (intro values_put) (auto simp: outside_step_def intro: outside_mono [of n h])
    then have upd: "outside_step n h (h1[a := ObjectProxy t (jput key w newData) deleted])"
      using aug a outside_write [of n h1 a] outside_step_trans by (auto simp: outside_step_def)
    show ?thesis
      using r Some ObjectProxy refl old w aug upd
      by (auto simp: getProperty_def objectTrapGet_def Let_def split: if_splits option.splits)
  next
    case (ArrayProxy t newData)
    obtain w h1 where w: "augment h (orUndefined (arrayGet (currentData h t newData) key)) = (w, h1)" by fastforce
    note aug = augment_outside [OF iso w]
    have upd: "outside_step n h (h1[a := ArrayProxy t d])" for d
      using aug a outside_write [of n h1 a "ArrayProxy t d"] outside_step_trans by (auto simp: outside_step_def)
    show ?thesis
      using r Some ArrayProxy refl w aug upd
      by (auto simp: getProperty_def arrayTrapGet_def Let_def split: if_splits sum.splits)
  qed
qed

text \<open>Writing and deleting.\<close>

lemma setProperty_outside:
  assumes iso: "isolated n h" and a: "n \<le> a" and v: "outside n h v" and r: "setProperty h a key v = Inr h'"
  shows "outside_step n h h'"
proof (cases "arr_get h a")
  case None
  then show ?thesis using r by (simp add: setProperty_def)
next
  case (Some c)
  note vals = isolated_cell [OF iso Some a]
  note upd = outside_write [OF iso a]
  show ?thesis
  proof (cases c)
    case (PlainObject kvs)
    have "\<forall>x \<in> snd ` set (jput key v kvs). outside n h x" by (rule values_put) (use vals v PlainObject in auto)
    then show ?thesis using r Some PlainObject upd [of "PlainObject (jput key v kvs)"] by (auto simp: setProperty_def)
  next
    case (PlainArray arr)
    then show ?thesis using r Some v vals by (auto simp: setProperty_def rbind_Inr_iff intro!: upd dest!: arraySet_values)
  next
    case (ObjectProxy t newData deleted)
    have "\<forall>x \<in> snd ` set newData. outside n h x" using vals ObjectProxy by auto
    from upd [OF objectTrap_values(2) [OF this v]] show ?thesis using r Some ObjectProxy by (auto simp: setProperty_def)
  next
    case (ArrayProxy t newData)
    obtain w h1 where w: "augment h v = (w, h1)" by fastforce
    note aug = augment_outside [OF iso w]
    have "outside_step n h (h1[a := ArrayProxy t d])" for d
      using aug a outside_write [of n h1 a "ArrayProxy t d"] outside_step_trans by (auto simp: outside_step_def)
    then show ?thesis using r Some ArrayProxy w by (auto simp: setProperty_def arrayTrapSet_def rbind_Inr_iff)
  qed
qed

lemma deleteProperty_outside:
  assumes iso: "isolated n h" and a: "n \<le> a" and r: "deleteProperty h a key = Inr h'"
  shows "outside_step n h h'"
proof (cases "arr_get h a")
  case None
  then show ?thesis using r by (simp add: deleteProperty_def)
next
  case (Some c)
  note vals = isolated_cell [OF iso Some a]
  have del: "\<forall>x \<in> snd ` set (jdel key m). outside n h x" if "snd ` set m \<subseteq> cell_values c" for m
    by (rule values_del) (use vals that in auto)
  have all: "\<forall>x \<in> cell_values c. outside n h x" using vals by blast
  note upd = outside_write [OF iso a]
  show ?thesis
  proof (cases c)
    case (PlainObject kvs)
    then show ?thesis using r Some del [of kvs] upd [of "PlainObject (jdel key kvs)"] by (auto simp: deleteProperty_def)
  next
    case (PlainArray arr)
    then show ?thesis using r Some all
      by (auto simp: deleteProperty_def rbind_Inr_iff intro!: upd dest!: arrayDelete_values)
  next
    case (ObjectProxy t newData deleted)
    then have "\<forall>x \<in> snd ` set newData. outside n h x" using all by simp
    from upd [OF objectTrap_values(1) [OF this]] show ?thesis using r Some ObjectProxy by (auto simp: deleteProperty_def)
  next
    case (ArrayProxy t newData)
    then show ?thesis using r Some upd by (auto simp: deleteProperty_def rbind_Inr_iff)
  qed
qed

subsection \<open>Programs\<close>

definition program_ok :: "nat \<Rightarrow> Program \<Rightarrow> bool" where
  "program_ok n p \<longleftrightarrow> isolated n (fst p) \<and> list_all (outside n (fst p)) (snd p)"

text \<open>The operations that go past the handlers of the proxies.\<close>

definition bypasses :: "JsOp \<Rightarrow> bool" where
  "bypasses op = (case op of Describe _ _ \<Rightarrow> True | Define _ _ _ \<Rightarrow> True | _ \<Rightarrow> False)"

lemma program_step:
  assumes "outside_step n h h'" and "list_all (outside n h) vs" and "list_all (outside n h') ws"
  shows "program_ok n (h', vs @ ws) \<and> take n h' = take n h"
  using assms by (auto simp: program_ok_def outside_step_def list_all_iff intro: outside_mono [of n h])

lemma execute_ok:
  assumes ok: "program_ok n (h, vs)" and r: "execute op (h, vs) = Inr p'" and d: "\<not> bypasses op"
  shows "program_ok n p' \<and> take n (fst p') = take n h"
proof -
  have iso: "isolated n h" and vs: "list_all (outside n h) vs" using ok by (simp_all add: program_ok_def)
  have held: "outside n h v" if "arr_get vs i = Some v" for i v
    using arr_get_in_set [OF that] vs by (simp add: list_all_iff)
  have ref: "n \<le> a" if "reference vs i = Inr a" for i a
    using that held [of i] by (auto simp: reference_def split: option.splits JsValue.splits)
  have step: "program_ok n (h', vs @ ws) \<and> take n h' = take n h" if "outside_step n h h'" "list_all (outside n h') ws" for h' ws
    by (rule program_step [OF that(1) vs that(2)])
  have len: "n \<le> length h" using iso by (simp add: isolated_def)
  show ?thesis
  proof (cases op)
    case (Constant v)
    then show ?thesis using r step [OF outside_step_refl [OF iso], of "[or_nothing v]"] by auto
  next
    case NewObject
    then show ?thesis using r len step [OF outside_new [OF iso], of "PlainObject []" "[VRef (length h)]"] by auto
  next
    case NewArray
    then show ?thesis using r len step [OF outside_new [OF iso], of "PlainArray ([], [])" "[VRef (length h)]"] by auto
  next
    case (Read i key)
    then obtain a v h' where "reference vs i = Inr a" "getProperty h a key = Inr (v, h')" "p' = (h', vs @ [v])"
      using r by (auto simp: rbind_Inr_iff)
    then show ?thesis using getProperty_outside [OF iso ref] step [of h' "[v]"] by auto
  next
    case (Write i key j)
    then obtain a v h' where "reference vs i = Inr a" "arr_get vs j = Some v" "setProperty h a key v = Inr h'" "p' = (h', vs)"
      using r by (auto simp: rbind_Inr_iff split: option.splits)
    then show ?thesis using setProperty_outside [OF iso ref held] step [of h' "[]"] by auto
  next
    case (Remove i key)
    then obtain a h' where "reference vs i = Inr a" "deleteProperty h a key = Inr h'" "p' = (h', vs)"
      using r by (auto simp: rbind_Inr_iff)
    then show ?thesis using deleteProperty_outside [OF iso ref] step [of h' "[]"] by auto
  next
    case (Wrap i)
    then obtain v v' h' where "augment h v = (v', h')" "p' = (h', vs @ [v'])"
      using r by (auto split: option.splits prod.splits)
    then show ?thesis using augment_outside [OF iso] step [of h' "[v']"] by auto
  next
    case (Describe i key)
    then show ?thesis using d by (simp add: bypasses_def)
  next
    case (Define i key j)
    then show ?thesis using d by (simp add: bypasses_def)
  qed
qed

text \<open>
  C38: a program that starts with the proxy of some data may read, write and delete properties of it and of
  everything it reaches, and make and wrap objects of its own: the cells of the original data stay the same.
  Property descriptors and \<open>defineProperty\<close> are excluded.
\<close>

theorem augmented_data_unchanged:
  assumes "list_all plain_cell h" and "executeAll ops (startProgram h a) = Inr (h', vs)"
    and "\<not> list_ex bypasses ops"
  shows "take (length h) h' = h"
proof -
  let ?n = "length h"
  obtain v0 h0 where s: "augment h (VRef a) = (v0, h0)" by fastforce
  have iso: "isolated ?n h" using assms(1) by (simp add: isolated_def list_all_length)
  have start: "program_ok ?n (h0, [v0])" "take ?n h0 = h"
    using augment_outside [OF iso s] by (simp_all add: program_ok_def outside_step_def)
  have "program_ok ?n (h', vs) \<and> take ?n (fst (h', vs)) = h"
  proof (rule rfold_invariant [where I = "\<lambda>p. program_ok ?n p \<and> take ?n (fst p) = h"])
    show "rfold execute ops (h0, [v0]) = Inr (h', vs)" using assms(2) s by (simp add: executeAll_def startProgram_def)
    show "program_ok ?n (h0, [v0]) \<and> take ?n (fst (h0, [v0])) = h" using start by simp
  next
    fix op p p'
    assume "op \<in> set ops" "program_ok ?n p \<and> take ?n (fst p) = h" "execute op p = Inr p'"
    then show "program_ok ?n p' \<and> take ?n (fst p') = h"
      using execute_ok [of ?n "fst p" "snd p" op p'] assms(3) by (auto simp: list_ex_iff)
  qed
  then show ?thesis by simp
qed

text \<open>An object with a nested one; a program that changes both, and one that goes through a descriptor.\<close>

definition nested_data :: JsHeap where
  "nested_data = [PlainObject [(''a'', VRef 1), (''n'', VNum 1)], PlainObject [(''b'', VNum 2)]]"

definition change_both :: "JsOp list" where
  "change_both = [Constant (VNum 7), Write 0 ''n'' 1, Read 0 ''a'', Write 2 ''b'' 1, Remove 0 ''a'']"

theorem augmented_data_unchanged_witness:
  "\<exists>h' vs. executeAll change_both (startProgram nested_data 0) = Inr (h', vs) \<and> length h' = 4 \<and> take 2 h' = nested_data"
proof -
  have run: "executeAll change_both (startProgram nested_data 0) = Inr
      ([PlainObject [(''a'', VRef 1), (''n'', VNum 1)], PlainObject [(''b'', VNum 2)],
        ObjectProxy 0 [(''n'', VNum 7)] [''a''], ObjectProxy 1 [(''b'', VNum 7)] []], [VRef 2, VNum 7, VRef 3])"
    by code_simp
  have "list_all plain_cell nested_data" "\<not> list_ex bypasses change_both" by code_simp+
  from augmented_data_unchanged [OF this(1) run this(2)] run show ?thesis by (simp add: nested_data_def)
qed

text \<open>
  the descriptor of a property gives the nested object itself instead of its proxy, so a program that
  writes to it changes the original data.
\<close>

theorem descriptor_exposes_original:
  "executeAll [Describe 0 ''a'', Constant (VNum 7), Write 1 ''b'' 2] (startProgram nested_data 0)
    = Inr ([PlainObject [(''a'', VRef 1), (''n'', VNum 1)], PlainObject [(''b'', VNum 7)], ObjectProxy 0 [] []],
      [VRef 2, VRef 1, VNum 7])"
  by code_simp

text \<open>
  The proxies have no trap for \<open>defineProperty\<close>: it changes the original data, and even the program does not
  see the new value when it has written the property before.
\<close>

theorem defineProperty_changes_original:
  "executeAll [Constant (VNum 7), Constant (VNum 8), Write 0 ''n'' 1, Define 0 ''n'' 2, Read 0 ''n''] (startProgram nested_data 0)
    = Inr ([PlainObject [(''a'', VRef 1), (''n'', VNum 8)], PlainObject [(''b'', VNum 2)], ObjectProxy 0 [(''n'', VNum 7)] []],
      [VRef 2, VNum 7, VNum 8, VNum 7])"
  by code_simp

end
