(* ===== verification/AugmentReads.thy ===== *)
theory AugmentReads
  imports AugmentIsolation
begin

section \<open>What a program sees of augmented data\<close>

text \<open>
  The proxy of an object is the original with the changes laid over it, and a program that only reads sees in
  the proxies what it would see in the data itself.
\<close>

text \<open>A value that is read through a proxy is that of the original or a proxy of it.\<close>

definition proxied :: "JsHeap \<Rightarrow> nat \<Rightarrow> nat option" where
  "proxied h a = (case arr_get h a of
      Some (ObjectProxy t _ _) \<Rightarrow> Some t | Some (ArrayProxy t _) \<Rightarrow> Some t | _ \<Rightarrow> None)"

definition wraps :: "JsHeap \<Rightarrow> JsValue \<Rightarrow> JsValue \<Rightarrow> bool" where
  "wraps h v w \<longleftrightarrow> (case w of VRef t \<Rightarrow> (case v of VRef a \<Rightarrow> a = t \<or> proxied h a = Some t | _ \<Rightarrow> False) | _ \<Rightarrow> v = w)"

lemma wraps_refl [simp]: "wraps h v v"
  by (simp add: wraps_def split: JsValue.split)

lemma arr_get_append: "arr_get (xs @ [x]) i = (if i = length xs then Some x else arr_get xs i)"
  by (simp add: arr_get_def nth_append)

lemma arr_get_update: "arr_get (xs[i := x]) j = (if i = j \<and> i < length xs then Some x else arr_get xs j)"
  by (simp add: arr_get_def nth_list_update)

lemma arr_get_SomeD: "arr_get xs i = Some x \<Longrightarrow> i < length xs"
  by (simp add: arr_get_def split: if_splits)

text \<open>Augmenting adds at most one cell.\<close>

lemma augment_effect:
  assumes "augment h v = (v', h')"
  shows "wraps h' v' v" and "\<exists>cs. h' = h @ cs" and "v' = v \<Longrightarrow> v \<noteq> VRef (length h) \<Longrightarrow> h' = h"
    and "a < length h \<Longrightarrow> arr_get h' a = arr_get h a"
  using assms
  by (auto simp: augment_def augmentArray_def augmentObject_def wraps_def proxied_def arr_get_append
      split: JsValue.splits option.splits JsCell.splits if_splits)

subsection \<open>Objects\<close>

definition overlay :: "JsHeap \<Rightarrow> nat \<Rightarrow> string \<Rightarrow> JsValue option" where
  "overlay h a key = (case arr_get h a of
      Some (ObjectProxy t newData deleted) \<Rightarrow> if key \<in> set deleted then None
        else (case jget newData key of Some v \<Rightarrow> Some v | None \<Rightarrow> jget (objectAt h t) key)
    | _ \<Rightarrow> None)"

definition object_proxy :: "JsHeap \<Rightarrow> nat \<Rightarrow> bool" where
  "object_proxy h a = (case arr_get h a of
      Some (ObjectProxy t _ _) \<Rightarrow> (case arr_get h t of Some (PlainObject _) \<Rightarrow> True | _ \<Rightarrow> False) | _ \<Rightarrow> False)"

lemma object_proxyE:
  assumes "object_proxy h a"
  obtains t newData deleted kvs where "arr_get h a = Some (ObjectProxy t newData deleted)" "arr_get h t = Some (PlainObject kvs)"
    "t \<noteq> a"
proof -
  obtain t newData deleted kvs where p: "arr_get h a = Some (ObjectProxy t newData deleted)" "arr_get h t = Some (PlainObject kvs)"
    using assms by (auto simp: object_proxy_def split: option.splits JsCell.splits)
  then have "t \<noteq> a" by auto
  with p show thesis by (rule that)
qed

lemma overlay_update:
  assumes "arr_get h a = Some (ObjectProxy t newData deleted)" "arr_get h t = Some (PlainObject kvs)"
  shows "overlay (h[a := ObjectProxy t newData' deleted']) a key = (if key \<in> set deleted' then None
     else (case jget newData' key of Some v \<Rightarrow> Some v | None \<Rightarrow> jget kvs key))"
  using assms arr_get_SomeD [OF assms(1)] by (auto simp: overlay_def objectAt_def arr_get_update split: option.split)

lemma overlay_cong:
  assumes "object_proxy h a" and same: "\<And>t. t < length h \<Longrightarrow> arr_get h' t = arr_get h t"
  shows "overlay h' a = overlay h a"
proof -
  obtain t newData deleted kvs where p: "arr_get h a = Some (ObjectProxy t newData deleted)"
    and t: "arr_get h t = Some (PlainObject kvs)"
    using assms(1) by (rule object_proxyE)
  have "arr_get h' a = arr_get h a" "arr_get h' t = arr_get h t"
    by (rule same [OF arr_get_SomeD [OF p]], rule same [OF arr_get_SomeD [OF t]])
  then show ?thesis using p t by (simp add: fun_eq_iff overlay_def objectAt_def split: option.split)
qed

lemma wraps_update:
  "wraps h v w \<Longrightarrow> proxied (h[a := c]) a = proxied h a \<Longrightarrow> wraps (h[a := c]) v w"
  by (auto simp: wraps_def proxied_def arr_get_update split: JsValue.splits if_splits)

lemma read_overlay:
  assumes "object_proxy h a" and "key \<noteq> ''constructor''"
  shows "\<exists>w h'. getProperty h a key = Inr (w, h') \<and> wraps h' w (orUndefined (overlay h a key))
    \<and> overlay h' a = (if overlay h a key = None then overlay h a else (overlay h a)(key \<mapsto> w))"
proof -
  obtain t newData deleted kvs where p: "arr_get h a = Some (ObjectProxy t newData deleted)"
    and t: "arr_get h t = Some (PlainObject kvs)" and ta: "t \<noteq> a"
    using assms(1) by (rule object_proxyE)
  have at: "objectAt h t = kvs" using t by (simp add: objectAt_def)
  have ov: "overlay h a key = (if key \<in> set deleted then None else (case jget newData key of Some v \<Rightarrow> Some v | None \<Rightarrow> jget kvs key))" for key
    by (simp add: overlay_def p at split: option.split)
  have get: "getProperty h a key = Inr (objectTrapGet h a t newData deleted key)" by (simp add: getProperty_def p)
  show ?thesis
  proof (cases "key \<in> set deleted \<or> jget newData key \<noteq> None")
    case True
    then show ?thesis using assms(2) by (auto simp: get objectTrapGet_def ov orUndefined_def fun_eq_iff)
  next
    case False
    obtain w h1 where w: "augment h (orUndefined (jget kvs key)) = (w, h1)" by fastforce
    have same: "arr_get h1 b = arr_get h b" if "b < length h" for b using augment_effect(4) [OF w that] .
    have p1: "arr_get h1 a = Some (ObjectProxy t newData deleted)" "arr_get h1 t = Some (PlainObject kvs)"
      using same p t arr_get_SomeD [OF p] arr_get_SomeD [OF t] by simp_all
    have o1: "overlay h1 a = overlay h a" by (rule overlay_cong [OF assms(1) same])
    show ?thesis
    proof (cases "w = orUndefined (jget kvs key)")
      case True
      then have "getProperty h a key = Inr (w, h1)" using False assms(2) w at by (simp add: get objectTrapGet_def)
      then show ?thesis using True False o1 by (auto simp: ov orUndefined_def fun_eq_iff split: option.splits)
    next
      case new: False
      let ?h = "h1[a := ObjectProxy t (jput key w newData) deleted]"
      have "getProperty h a key = Inr (w, ?h)" using False new assms(2) w at by (simp add: get objectTrapGet_def)
      moreover have "jget kvs key \<noteq> None" using new w by (cases "jget kvs key") (auto simp: augment_def orUndefined_def)
      moreover have "overlay ?h a = (overlay h a)(key \<mapsto> w)"
        using False by (auto simp: fun_eq_iff overlay_update [OF p1] ov js_map_simps split: option.split)
      moreover have "wraps ?h w (orUndefined (jget kvs key))"
        by (rule wraps_update [OF augment_effect(1) [OF w]]) (use p1(1) arr_get_SomeD [OF p1(1)] in \<open>simp add: proxied_def arr_get_update\<close>)
      ultimately show ?thesis using False by (auto simp: ov split: option.split)
    qed
  qed
qed

text \<open>
  the proxy of an object behaves as a map: its keys, the test for a key, writing, where undefined removes
  the key, and deleting; reading gives what is written or the original value, proxied, and keeps the rest.
\<close>

theorem object_proxy_overlay:
  assumes "object_proxy h a" and "key \<noteq> ''constructor''"
  shows "hasProperty h a key = Inr (overlay h a key \<noteq> None)
     \<and> (\<exists>ks. ownKeys h a = Inr ks \<and> distinct ks \<and> set ks = dom (overlay h a))
     \<and> (\<exists>h'. setProperty h a key v = Inr h' \<and> overlay h' a = (overlay h a)(key := if v = VUndefined then None else Some v))
     \<and> (\<exists>h'. deleteProperty h a key = Inr h' \<and> overlay h' a = (overlay h a)(key := None))
     \<and> (\<exists>w h'. getProperty h a key = Inr (w, h') \<and> wraps h' w (orUndefined (overlay h a key))
          \<and> overlay h' a = (if overlay h a key = None then overlay h a else (overlay h a)(key \<mapsto> w)))"
proof (intro conjI)
  obtain t newData deleted kvs where p: "arr_get h a = Some (ObjectProxy t newData deleted)"
    and t: "arr_get h t = Some (PlainObject kvs)" and ta: "t \<noteq> a"
    using assms(1) by (rule object_proxyE)
  have at: "objectAt h t = kvs" using t by (simp add: objectAt_def)
  note o = overlay_update [OF p t]
  have ov: "overlay h a = (\<lambda>key. if key \<in> set deleted then None else (case jget newData key of Some v \<Rightarrow> Some v | None \<Rightarrow> jget kvs key))"
    by (simp add: fun_eq_iff overlay_def p at split: option.split)
  show "hasProperty h a key = Inr (overlay h a key \<noteq> None)"
    by (simp add: hasProperty_def p at ov jhas_def split: option.split)
  show "\<exists>ks. ownKeys h a = Inr ks \<and> distinct ks \<and> set ks = dom (overlay h a)"
  proof (intro exI conjI)
    show "ownKeys h a = Inr (filter (\<lambda>key. key \<notin> set deleted) (set_of_list (own_keys kvs @ own_keys newData)))"
      by (simp add: ownKeys_def p at)
    show "distinct (filter (\<lambda>key. key \<notin> set deleted) (set_of_list (own_keys kvs @ own_keys newData)))" by simp
    show "set (filter (\<lambda>key. key \<notin> set deleted) (set_of_list (own_keys kvs @ own_keys newData))) = dom (overlay h a)"
      by (auto simp: ov dom_map_of_conv_image_fst [symmetric] split: option.splits if_splits)
  qed
  show "\<exists>h'. setProperty h a key v = Inr h' \<and> overlay h' a = (overlay h a)(key := if v = VUndefined then None else Some v)"
    by (auto simp: setProperty_def p objectTrapSet_def at fun_eq_iff o ov jhas_def js_map_simps sdel_def sadd_def split: option.splits)
  show "\<exists>h'. deleteProperty h a key = Inr h' \<and> overlay h' a = (overlay h a)(key := None)"
    by (auto simp: deleteProperty_def p objectTrapDelete_def at fun_eq_iff o ov jhas_def js_map_simps sadd_def split: option.splits)
  show "\<exists>w h'. getProperty h a key = Inr (w, h') \<and> wraps h' w (orUndefined (overlay h a key))
      \<and> overlay h' a = (if overlay h a key = None then overlay h a else (overlay h a)(key \<mapsto> w))"
    by (rule read_overlay [OF assms])
qed

subsection \<open>Programs that only read\<close>

text \<open>The original is closed JSON data; a held value is the proxy of an original one.\<close>

definition closed_data :: "JsHeap \<Rightarrow> bool" where
  "closed_data h0 \<longleftrightarrow> list_all (\<lambda>c. case c of
      PlainObject kvs \<Rightarrow> list_all (\<lambda>(k, v). case v of VRef b \<Rightarrow> b < length h0 | _ \<Rightarrow> True) kvs
    | PlainArray (es, props) \<Rightarrow> props = [] \<and> list_all (\<lambda>e. case e of Some (VRef b) \<Rightarrow> b < length h0 | _ \<Rightarrow> True) es
    | _ \<Rightarrow> False) h0"

definition proxies :: "JsHeap \<Rightarrow> JsValue \<Rightarrow> JsValue \<Rightarrow> bool" where
  "proxies h v w \<longleftrightarrow> (case w of VRef t \<Rightarrow> (case v of VRef a \<Rightarrow> proxied h a = Some t | _ \<Rightarrow> False) | _ \<Rightarrow> v = w)"

definition cell_mirrors :: "JsHeap \<Rightarrow> JsHeap \<Rightarrow> JsCell \<Rightarrow> bool" where
  "cell_mirrors h0 h c = (case c of
      ObjectProxy t newData deleted \<Rightarrow> deleted = [] \<and> (\<exists>kvs. arr_get h0 t = Some (PlainObject kvs)
        \<and> (\<forall>k w. jget newData k = Some w \<longrightarrow> (\<exists>u. jget kvs k = Some u \<and> proxies h w u)))
    | ArrayProxy t newData \<Rightarrow> (\<exists>es. arr_get h0 t = Some (PlainArray (es, []))
        \<and> (\<forall>d. newData = Some d \<longrightarrow> (\<forall>k. wraps h (orUndefined (arrayGet d k)) (orUndefined (arrayGet (es, []) k)))))
    | _ \<Rightarrow> False)"

definition mirrors :: "JsHeap \<Rightarrow> JsHeap \<Rightarrow> bool" where
  "mirrors h0 h \<longleftrightarrow> (\<forall>a < length h0. arr_get h a = arr_get h0 a)
     \<and> (\<forall>a c. length h0 \<le> a \<longrightarrow> arr_get h a = Some c \<longrightarrow> cell_mirrors h0 h c)"

definition keeps_targets :: "JsHeap \<Rightarrow> JsHeap \<Rightarrow> bool" where
  "keeps_targets h h' \<longleftrightarrow> (\<forall>a t. proxied h a = Some t \<longrightarrow> proxied h' a = Some t)"

lemma proxies_mono: "keeps_targets h h' \<Longrightarrow> proxies h v w \<Longrightarrow> proxies h' v w"
  by (auto simp: proxies_def keeps_targets_def split: JsValue.splits)

lemma wraps_mono: "keeps_targets h h' \<Longrightarrow> wraps h v w \<Longrightarrow> wraps h' v w"
  by (auto simp: wraps_def keeps_targets_def split: JsValue.splits)

lemma proxies_wraps: "proxies h v w \<Longrightarrow> wraps h v w"
  by (auto simp: proxies_def wraps_def split: JsValue.splits)

lemma cell_mirrors_mono: "keeps_targets h h' \<Longrightarrow> cell_mirrors h0 h c \<Longrightarrow> cell_mirrors h0 h' c"
  using proxies_mono wraps_mono by (auto simp: cell_mirrors_def split: JsCell.splits) blast+

lemma keeps_targets_append: "keeps_targets h (h @ [c])"
  by (auto simp: keeps_targets_def proxied_def arr_get_append dest: arr_get_SomeD split: option.splits)

lemma keeps_targets_update: "proxied (h[a := c]) a = proxied h a \<Longrightarrow> keeps_targets h (h[a := c])"
  by (auto simp: keeps_targets_def proxied_def arr_get_update split: if_splits)

lemma keeps_targets_trans: "keeps_targets h h' \<Longrightarrow> keeps_targets h' h'' \<Longrightarrow> keeps_targets h h''"
  by (simp add: keeps_targets_def)

lemma mirrors_append:
  assumes m: "mirrors h0 h" and c: "cell_mirrors h0 h c" and "length h0 \<le> length h"
  shows "mirrors h0 (h @ [c])"
  using assms cell_mirrors_mono [OF keeps_targets_append]
  by (auto simp: mirrors_def arr_get_append split: if_splits)

lemma mirrors_update:
  assumes m: "mirrors h0 h" and "keeps_targets h (h[a := c])" and "cell_mirrors h0 h c" and "length h0 \<le> a"
  shows "mirrors h0 (h[a := c])"
  using assms cell_mirrors_mono [OF assms(2)] by (auto simp: mirrors_def arr_get_update split: if_splits)

text \<open>Augmenting a value of the original, or a proxy of it, gives a proxy of it.\<close>

lemma augment_mirrors:
  assumes m: "mirrors h0 h" and closed: "closed_data h0" and len: "length h0 \<le> length h"
    and w: "wraps h v u" and u: "\<And>t. u = VRef t \<Longrightarrow> t < length h0" and aug: "augment h v = (v', h')"
  shows "mirrors h0 h' \<and> proxies h' v' u \<and> keeps_targets h h'"
proof (cases u)
  case (VRef t)
  have t: "t < length h0" by (rule u [OF VRef])
  have orig: "arr_get h t = arr_get h0 t" using m t by (simp add: mirrors_def)
  obtain c where c: "arr_get h0 t = Some c" using t by (simp add: arr_get_def)
  have cc: "case c of PlainObject kvs \<Rightarrow> True | PlainArray (es, props) \<Rightarrow> props = [] | _ \<Rightarrow> False"
    using closed arr_get_in_set [OF c] by (auto simp: closed_data_def list_all_iff split: JsCell.splits)
  obtain a where a: "v = VRef a" "a = t \<or> proxied h a = Some t" using w VRef by (auto simp: wraps_def split: JsValue.splits)
  show ?thesis
  proof (cases "proxied h a = Some t")
    case True
    then have "v' = v" "h' = h" using aug a(1)
      by (auto simp: augment_def augmentArray_def augmentObject_def proxied_def isArray_def split: option.splits JsCell.splits)
    then show ?thesis using m True a VRef by (simp add: proxies_def keeps_targets_def)
  next
    case False
    then have "a = t" using a(2) by simp
    then have "\<exists>d. v' = VRef (length h) \<and> h' = h @ [d] \<and> cell_mirrors h0 h d \<and> (d = ArrayProxy t None \<or> d = ObjectProxy t [] [])"
      using aug a(1) cc orig c
      by (auto simp: augment_def augmentArray_def augmentObject_def isArray_def cell_mirrors_def split: JsCell.splits)
    then show ?thesis
      using mirrors_append [OF m] len keeps_targets_append VRef by (auto simp: proxies_def proxied_def arr_get_append)
  qed
qed (use assms in \<open>auto simp: wraps_def augment_def proxies_def keeps_targets_def\<close>)

lemma closed_value:
  assumes "closed_data h0" and "getProperty h0 t key = Inr (VRef b, h')" and "key \<noteq> ''constructor''"
  shows "b < length h0"
proof -
  obtain c where c: "arr_get h0 t = Some c" using assms(2) by (cases "arr_get h0 t") (auto simp: getProperty_def)
  note closed = assms(1) [unfolded closed_data_def list_all_iff, rule_format, OF arr_get_in_set [OF c]]
  show ?thesis
    using assms(2,3) c closed
    by (cases c) (fastforce simp: getProperty_def arrayGet_def list_all_iff split: option.splits if_splits
        dest: jget_in_set arr_get_in_set)+
qed

lemma not_augmented: "augment h v = (w, h1) \<Longrightarrow> w \<noteq> v \<Longrightarrow> \<exists>b. v = VRef b"
  by (auto simp: augment_def split: JsValue.splits)

lemma put_mirrors:
  assumes m: "mirrors h0 h" and a: "arr_get h a = Some c" and len: "length h0 \<le> a"
    and c: "cell_mirrors h0 h c'" and "proxied [c] 0 = proxied [c'] 0"
  shows "mirrors h0 (h[a := c']) \<and> keeps_targets h (h[a := c'])"
proof -
  have "proxied (h[a := c']) a = proxied h a"
    using a assms(5) arr_get_SomeD [OF a] by (auto simp: proxied_def arr_get_update)
  then have k: "keeps_targets h (h[a := c'])" by (rule keeps_targets_update)
  then show ?thesis using mirrors_update [OF m k c len] by simp
qed

lemma spread_same: "orUndefined (arrayGet (spreadArray (es, [])) k) = orUndefined (arrayGet (es, []) k)"
  by (auto simp: spreadArray_def arrayGet_def arr_get_def orUndefined_def split: option.split)

lemma arraySet_element:
  assumes "orUndefined (arrayGet (es, []) key) = VRef b"
    and d: "\<And>k. wraps h (orUndefined (arrayGet d k)) (orUndefined (arrayGet (es, []) k))"
    and w: "wraps h w (VRef b)"
  shows "\<exists>d'. arraySet key w d = Inr d' \<and> (\<forall>k. wraps h (orUndefined (arrayGet d' k)) (orUndefined (arrayGet (es, []) k)))"
proof -
  have key: "key \<noteq> ''length''" "is_array_index key" "arr_get es (dec_value key) = Some (Some (VRef b))"
    using assms(1) by (auto simp: arrayGet_def orUndefined_def split: if_splits option.splits)
  have "length (fst d) = length es" using d [of "''length''"] by (simp add: arrayGet_def orUndefined_def wraps_def)
  then have len: "dec_value key < length (fst d)" using arr_get_SomeD [OF key(3)] by simp
  have nolen: "\<not> is_array_index ''length''" by (simp add: is_array_index_def is_digit_def)
  have "wraps h (orUndefined (arrayGet ((fst d)[dec_value key := Some w], snd d) k)) (orUndefined (arrayGet (es, []) k))" for k
    using d [of k] key(3) w len by (auto simp: arrayGet_def orUndefined_def arr_get_update)
  then show ?thesis using key len by (simp add: arraySet_def arr_put_def)
qed

text \<open>A property of a proxy is the proxy of the property.\<close>

lemma getProperty_mirrors:
  assumes m: "mirrors h0 h" and closed: "closed_data h0" and len: "length h0 \<le> length h"
    and target: "proxied h a = Some t" and key: "key \<noteq> ''constructor''" and plain: "getProperty h0 t key = Inr (u, h0')"
  shows "\<exists>v h'. getProperty h a key = Inr (v, h') \<and> mirrors h0 h' \<and> proxies h' v u \<and> keeps_targets h h'"
proof -
  have u: "u = VRef b \<Longrightarrow> b < length h0" for b using closed_value [OF closed _ key] plain by blast
  have fresh: "mirrors h0 h1 \<and> proxies h1 w u \<and> keeps_targets h h1" if "wraps h v u" "augment h v = (w, h1)" for v w h1
    by (rule augment_mirrors [OF m closed len that(1) u that(2)])
  obtain c where c: "arr_get h a = Some c" using target by (auto simp: proxied_def split: option.splits)
  have kept: "arr_get h1 a = Some c" if "augment h v = (w, h1)" for v w h1
    using augment_effect(4) [OF that arr_get_SomeD [OF c]] c by simp
  have a: "length h0 \<le> a"
  proof (rule ccontr)
    assume "\<not> length h0 \<le> a"
    then have "arr_get h0 a = Some c" using m c by (simp add: mirrors_def)
    from arr_get_in_set [OF this] show False
      using closed target c by (auto simp: closed_data_def list_all_iff proxied_def split: JsCell.splits)
  qed
  have cm: "cell_mirrors h0 h c" using m a c by (simp add: mirrors_def)
  show ?thesis
  proof (cases c)
    case (ObjectProxy t' newData deleted)
    then obtain kvs where kvs: "arr_get h0 t = Some (PlainObject kvs)" and del: "deleted = []" and t': "t' = t"
      and nd: "\<And>k w. jget newData k = Some w \<Longrightarrow> \<exists>u. jget kvs k = Some u \<and> proxies h w u"
      using cm target c by (auto simp: cell_mirrors_def proxied_def)
    have at: "objectAt h t = kvs" using m kvs arr_get_SomeD [OF kvs] by (simp add: mirrors_def objectAt_def)
    have uk: "u = orUndefined (jget kvs key)" using plain kvs key by (auto simp: getProperty_def orUndefined_def split: option.splits)
    have get: "getProperty h a key = Inr (objectTrapGet h a t newData [] key)" using c ObjectProxy del t' by (simp add: getProperty_def)
    show ?thesis
    proof (cases "jget newData key")
      case (Some w)
      then show ?thesis using nd [OF Some] uk key m by (auto simp: get objectTrapGet_def orUndefined_def keeps_targets_def)
    next
      case None
      obtain w h1 where w: "augment h u = (w, h1)" by fastforce
      note f = fresh [OF wraps_refl w]
      show ?thesis
      proof (cases "w = u")
        case True
        then show ?thesis using f w None uk at key by (auto simp: get objectTrapGet_def)
      next
        case False
        let ?c = "ObjectProxy t (jput key w newData) []"
        have some: "jget kvs key = Some u" using not_augmented [OF w False] uk by (auto simp: orUndefined_def split: option.splits)
        have "cell_mirrors h0 h1 ?c"
          using kvs nd some f proxies_mono by (fastforce simp: cell_mirrors_def js_map_simps)
        then have put: "mirrors h0 (h1[a := ?c]) \<and> keeps_targets h1 (h1[a := ?c])"
          using put_mirrors [OF _ kept [OF w] a] f ObjectProxy t' by (simp add: proxied_def)
        then show ?thesis
          using f proxies_mono keeps_targets_trans False w None uk at key by (auto simp: get objectTrapGet_def)
      qed
    qed
  next
    case (ArrayProxy t' newData)
    then obtain es where es: "arr_get h0 t = Some (PlainArray (es, []))" and t': "t' = t"
      and nd: "\<And>d k. newData = Some d \<Longrightarrow> wraps h (orUndefined (arrayGet d k)) (orUndefined (arrayGet (es, []) k))"
      using cm target c by (auto simp: cell_mirrors_def proxied_def)
    have at: "arrayAt h t = (es, [])" using m es arr_get_SomeD [OF es] by (simp add: mirrors_def arrayAt_def)
    have uk: "u = orUndefined (arrayGet (es, []) key)" using plain es key by (auto simp: getProperty_def orUndefined_def split: option.splits)
    have cur: "wraps h (orUndefined (arrayGet (currentData h t newData) k)) (orUndefined (arrayGet (es, []) k))"
      and new: "wraps h (orUndefined (arrayGet (getData h t newData) k)) (orUndefined (arrayGet (es, []) k))" for k
      using nd at by (auto simp: currentData_def getData_def spread_same split: option.split)
    have get: "getProperty h a key = Inr (arrayTrapGet h a t newData key)" using c ArrayProxy t' by (simp add: getProperty_def)
    define v where "v = orUndefined (arrayGet (currentData h t newData) key)"
    obtain w h1 where w: "augment h v = (w, h1)" by fastforce
    have f: "mirrors h0 h1 \<and> proxies h1 w u \<and> keeps_targets h h1" using fresh [OF _ w] cur [of key] by (simp add: v_def uk)
    show ?thesis
    proof (cases "w = v")
      case True
      then show ?thesis using f w key by (auto simp: get arrayTrapGet_def v_def Let_def)
    next
      case False
      obtain b where b: "u = VRef b" using not_augmented [OF w False] cur [of key]
        by (auto simp: v_def uk wraps_def split: JsValue.splits)
      have "wraps h1 (orUndefined (arrayGet (getData h t newData) k)) (orUndefined (arrayGet (es, []) k))" for k
        using wraps_mono new f by blast
      then obtain d' where d': "arraySet key w (getData h t newData) = Inr d'"
        "\<And>k. wraps h1 (orUndefined (arrayGet d' k)) (orUndefined (arrayGet (es, []) k))"
        using arraySet_element [of es key b h1 "getData h t newData" w] f b uk proxies_wraps by metis
      have "cell_mirrors h0 h1 (ArrayProxy t (Some d'))" using es d'(2) by (cases d') (simp add: cell_mirrors_def)
      then have "mirrors h0 (h1[a := ArrayProxy t (Some d')]) \<and> keeps_targets h1 (h1[a := ArrayProxy t (Some d')])"
        using put_mirrors [OF _ kept [OF w] a] f ArrayProxy t' by (simp add: proxied_def)
      then show ?thesis
        using f proxies_mono keeps_targets_trans False w d'(1) key by (auto simp: get arrayTrapGet_def v_def Let_def)
    qed
  qed (use target c in \<open>simp_all add: proxied_def\<close>)
qed

definition reads :: "JsOp \<Rightarrow> bool" where
  "reads op = (case op of Read _ key \<Rightarrow> key \<noteq> ''constructor'' | _ \<Rightarrow> False)"

definition reads_alike :: "JsHeap \<Rightarrow> Program \<Rightarrow> JsValue list \<Rightarrow> bool" where
  "reads_alike h0 p ws \<longleftrightarrow> mirrors h0 (fst p) \<and> length h0 \<le> length (fst p) \<and> list_all2 (proxies (fst p)) (snd p) ws"

lemma getProperty_plain: "closed_data h0 \<Longrightarrow> getProperty h0 a key = Inr (u, h') \<Longrightarrow> h' = h0"
  by (cases "arr_get h0 a")
    (auto simp: getProperty_def closed_data_def list_all_iff dest!: arr_get_in_set split: JsCell.splits)

lemma getProperty_length: "getProperty h a key = Inr (v, h') \<Longrightarrow> length h \<le> length h'"
  using augment_effect(2)
  by (auto simp: getProperty_def objectTrapGet_def arrayTrapGet_def Let_def split: option.splits JsCell.splits prod.splits if_splits sum.splits)
    fastforce+

lemma execute_reads:
  assumes alike: "reads_alike h0 (h, vs) ws" and closed: "closed_data h0" and op: "reads op"
    and plain: "execute op (h0, ws) = Inr (h1, ws')"
  shows "h1 = h0 \<and> (\<exists>h' vs'. execute op (h, vs) = Inr (h', vs') \<and> reads_alike h0 (h', vs') ws')"
proof -
  obtain i key where read: "op = Read i key" "key \<noteq> ''constructor''" using op by (auto simp: reads_def split: JsOp.splits)
  then obtain t u where t: "reference ws i = Inr t" and u: "getProperty h0 t key = Inr (u, h1)" "ws' = ws @ [u]"
    using plain by (auto simp: rbind_Inr_iff)
  have i: "i < length ws" "ws ! i = VRef t" using t by (auto simp: reference_def arr_get_def split: option.splits JsValue.splits if_splits)
  have vs: "list_all2 (proxies h) vs ws" and m: "mirrors h0 h" "length h0 \<le> length h" using alike by (simp_all add: reads_alike_def)
  have "proxies h (vs ! i) (VRef t)" and "i < length vs" using vs i list_all2_nthD2 [OF vs i(1)] by (simp_all add: list_all2_lengthD)
  then obtain a where a: "reference vs i = Inr a" "proxied h a = Some t"
    by (auto simp: proxies_def reference_def arr_get_def split: JsValue.splits)
  obtain v h' where v: "getProperty h a key = Inr (v, h')" "mirrors h0 h'" "proxies h' v u" "keeps_targets h h'"
    using getProperty_mirrors [OF m(1) closed m(2) a(2) read(2) u(1)] by blast
  have "list_all2 (proxies h') (vs @ [v]) ws'"
    using list_all2_mono [OF vs proxies_mono [OF v(4)]] v(3) u(2) by (simp add: list_all2_appendI)
  then have "reads_alike h0 (h', vs @ [v]) ws'" using v(2) m(2) getProperty_length [OF v(1)] by (simp add: reads_alike_def)
  moreover have "execute op (h, vs) = Inr (h', vs @ [v])" using a(1) v(1) by (simp add: read)
  ultimately show ?thesis using getProperty_plain [OF closed u(1)] by simp
qed

lemma executeAll_reads:
  assumes "reads_alike h0 (h, vs) ws" and "closed_data h0" and "list_all reads ops" and "rfold execute ops (h0, ws) = Inr (h1, ws')"
  shows "\<exists>h' vs'. rfold execute ops (h, vs) = Inr (h', vs') \<and> reads_alike h0 (h', vs') ws'"
  using assms
proof (induction ops arbitrary: h vs ws)
  case (Cons op ops)
  then obtain h2 ws2 where s: "execute op (h0, ws) = Inr (h2, ws2)" "rfold execute ops (h2, ws2) = Inr (h1, ws')"
    by (auto simp: rbind_Inr_iff)
  obtain h' vs' where "execute op (h, vs) = Inr (h', vs')" "reads_alike h0 (h', vs') ws2" "h2 = h0"
    using execute_reads [OF Cons.prems(1,2) _ s(1)] Cons.prems(3) by auto
  then show ?case using Cons.IH Cons.prems(2,3) s(2) by simp
qed auto

text \<open>
  a program that only reads sees the same in the proxy of the data as in the data: the values are the
  same, and where the data has an object or array there is a proxy of just that.
\<close>

theorem augmented_reads:
  assumes "closed_data h0" and "a < length h0" and "list_all reads ops"
    and "executeAll ops (h0, [VRef a]) = Inr (h1, ws)"
  shows "\<exists>h' vs. executeAll ops (startProgram h0 a) = Inr (h', vs) \<and> list_all2 (proxies h') vs ws"
proof -
  obtain v h where s: "augment h0 (VRef a) = (v, h)" by fastforce
  have "mirrors h0 h0" by (auto simp: mirrors_def dest: arr_get_SomeD)
  then have "mirrors h0 h \<and> proxies h v (VRef a) \<and> keeps_targets h0 h"
    by (rule augment_mirrors [OF _ assms(1) _ _ _ s]) (use assms(2) in simp_all)
  then have "reads_alike h0 (h, [v]) [VRef a]" using augment_effect(2) [OF s] by (auto simp: reads_alike_def)
  from executeAll_reads [OF this assms(1,3)] show ?thesis
    using assms(4) s by (auto simp: executeAll_def startProgram_def reads_alike_def)
qed

text \<open>An object with an array of an object and a number.\<close>

definition list_data :: JsHeap where
  "list_data = [PlainObject [(''items'', VRef 1)], PlainArray ([Some (VRef 2), Some (VNum 5)], []), PlainObject [(''b'', VNum 2)]]"

definition read_all :: "JsOp list" where
  "read_all = [Read 0 ''items'', Read 1 ''0'', Read 2 ''b'', Read 1 ''1'', Read 1 ''length'', Read 1 ''0'']"

theorem augmented_reads_witness:
  "\<exists>h' vs. executeAll read_all (startProgram list_data 0) = Inr (h', vs)
     \<and> list_all2 (proxies h') vs [VRef 0, VRef 1, VRef 2, VNum 2, VNum 5, VNum 2, VRef 2]"
proof (rule augmented_reads)
  show "closed_data list_data" "0 < length list_data" "list_all reads read_all" by code_simp+
  have "is_array_index ''0''" "dec_value ''0'' = 0" "is_array_index ''1''" "dec_value ''1'' = 1" "\<not> is_array_index ''length''"
    by (simp_all add: is_array_index_def is_digit_def dec_value_def digit_value_def)
  then show "executeAll read_all (list_data, [VRef 0]) = Inr (list_data, [VRef 0, VRef 1, VRef 2, VNum 2, VNum 5, VNum 2, VRef 2])"
    by (simp add: executeAll_def read_all_def list_data_def reference_def getProperty_def arrayGet_def arr_get_def)
qed

definition changed_proxy :: JsHeap where
  "changed_proxy = [PlainObject [(''a'', VNum 1), (''b'', VNum 2)], ObjectProxy 0 [(''c'', VNum 3)] [''a'']]"

theorem object_proxy_overlay_witness:
  "ownKeys changed_proxy 1 = Inr [''b'', ''c''] \<and> hasProperty changed_proxy 1 ''b'' = Inr True
     \<and> (\<exists>h'. deleteProperty changed_proxy 1 ''b'' = Inr h' \<and> overlay h' 1 ''b'' = None)"
proof -
  have "object_proxy changed_proxy 1" by code_simp
  from object_proxy_overlay [OF this, of "''b''" VNull]
  have "hasProperty changed_proxy 1 ''b'' = Inr (overlay changed_proxy 1 ''b'' \<noteq> None)"
    "\<exists>h'. deleteProperty changed_proxy 1 ''b'' = Inr h' \<and> overlay h' 1 ''b'' = None" by auto
  moreover have "ownKeys changed_proxy 1 = Inr [''b'', ''c'']" by code_simp
  moreover have "overlay changed_proxy 1 ''b'' \<noteq> None"
    by (simp add: overlay_def changed_proxy_def arr_get_def objectAt_def)
  ultimately show ?thesis by simp
qed

end
