(* ===== verification/ScheduledTasks.thy ===== *)
theory ScheduledTasks
  imports Workflow TransitionSystem "HOL-Library.Char_ord" "HOL-Library.List_Lexorder"
begin

section \<open>Scheduled tasks\<close>

text \<open>
  \<open>ScheduledTaskManager\<close> of \<open>packages/core/src/execution-engine/scheduled-task-manager.ts\<close>: the cron jobs that
  workflows have registered.  A job is a number with its context and what it does on a tick; it runs from its
  construction until it is stopped.  When it ticks is up to the library \<open>cron\<close>, which also rejects invalid
  expressions (\<open>cronError\<close>).  Log output is left out.
\<close>

datatype CronRecurrenceRule = NotActivated | Activated int int string

record CronContext =
  cx_nodeId :: string
  cx_workflowId :: string
  cx_timezone :: string
  cx_expression :: string
  cx_recurrence :: "CronRecurrenceRule option"

record Cron =
  cr_job :: nat
  cr_summary :: string
  cr_ctx :: CronContext

text \<open>A key is a JSON text of an object; different objects have different texts, so the object stands for it.\<close>

type_synonym CronKey = json

record 't Scheduler =
  sc_cronsByWorkflow :: "(string, (CronKey, Cron) jmap) jmap"
  sc_running :: "(nat \<times> CronContext \<times> 't) list"
  sc_nextJob :: nat
  sc_logInterval :: bool

definition newScheduler :: "int \<Rightarrow> 't Scheduler" where
  "newScheduler activeInterval =
     \<lparr>sc_cronsByWorkflow = [], sc_running = [], sc_nextJob = 0, sc_logInterval = (activeInterval \<noteq> 0)\<rparr>"

definition toCronKey :: "CronContext \<Rightarrow> CronKey" where
  "toCronKey ctx =
     (let rest = [(''workflowId'', JStr (cx_workflowId ctx)), (''nodeId'', JStr (cx_nodeId ctx)),
            (''expression'', JStr (cx_expression ctx)), (''timezone'', JStr (cx_timezone ctx))];
          flattened = (case cx_recurrence ctx of
              None \<Rightarrow> rest
            | Some NotActivated \<Rightarrow> rest @ [(''recurrenceActivated'', JBool False)]
            | Some (Activated index intervalSize typeInterval) \<Rightarrow> rest @ [(''recurrenceActivated'', JBool True),
                (''recurrenceIndex'', JNum index), (''recurrenceIntervalSize'', JNum intervalSize),
                (''recurrenceTypeInterval'', JStr typeInterval)])
      in JObj (sort_key fst flattened))"

definition cronSummary :: "CronContext \<Rightarrow> string" where
  "cronSummary ctx = (case cx_recurrence ctx of
      Some (Activated index intervalSize typeInterval) \<Rightarrow>
        cx_expression ctx @ '' (every '' @ int_string intervalSize @ '' '' @ typeInterval @ '')''
    | _ \<Rightarrow> cx_expression ctx)"

definition cronsOf :: "string \<Rightarrow> 't Scheduler \<Rightarrow> (CronKey, Cron) jmap" where
  "cronsOf workflowId s = (case jget (sc_cronsByWorkflow s) workflowId of None \<Rightarrow> [] | Some crons \<Rightarrow> crons)"

definition registerCron :: "(CronContext \<Rightarrow> js_error option) \<Rightarrow> CronContext \<Rightarrow> 't \<Rightarrow> 't Scheduler \<Rightarrow> 't Scheduler res" where
  "registerCron cronError ctx onTick s =
     (let workflowCrons = jget (sc_cronsByWorkflow s) (cx_workflowId ctx); key = toCronKey ctx
      in if (case workflowCrons of None \<Rightarrow> False | Some crons \<Rightarrow> jhas crons key) then Inr s
         else case cronError ctx of
             Some e \<Rightarrow> Inl e
           | None \<Rightarrow>
               let job = sc_nextJob s; cron = \<lparr>cr_job = job, cr_summary = cronSummary ctx, cr_ctx = ctx\<rparr>;
                   crons = (case workflowCrons of None \<Rightarrow> [(key, cron)] | Some crons \<Rightarrow> jput key cron crons)
               in Inr (s\<lparr>sc_cronsByWorkflow := jput (cx_workflowId ctx) crons (sc_cronsByWorkflow s),
                    sc_running := sc_running s @ [(job, ctx, onTick)], sc_nextJob := Suc job\<rparr>))"

definition stopJob :: "nat \<Rightarrow> 't Scheduler \<Rightarrow> 't Scheduler" where
  "stopJob job s = s\<lparr>sc_running := filter (\<lambda>j. fst j \<noteq> job) (sc_running s)\<rparr>"

definition deregisterCrons :: "string \<Rightarrow> 't Scheduler \<Rightarrow> 't Scheduler" where
  "deregisterCrons workflowId s = (case jget (sc_cronsByWorkflow s) workflowId of
      None \<Rightarrow> s
    | Some crons \<Rightarrow> if crons = [] then s
        else let s' = fold (\<lambda>cron. stopJob (cr_job cron)) (jvals crons) s
          in s'\<lparr>sc_cronsByWorkflow := jdel workflowId (sc_cronsByWorkflow s')\<rparr>)"

definition deregisterAllCrons :: "'t Scheduler \<Rightarrow> 't Scheduler" where
  "deregisterAllCrons s = (fold deregisterCrons (jkeys (sc_cronsByWorkflow s)) s)\<lparr>sc_logInterval := False\<rparr>"

definition loggableCrons :: "'t Scheduler \<Rightarrow> (string, string list) jmap" where
  "loggableCrons s = map (\<lambda>(workflowId, crons). (''workflowId-'' @ workflowId, map cr_summary (jvals crons))) (sc_cronsByWorkflow s)"

text \<open>The job a cron library ticks: only a leader executes it.\<close>

definition cronTick :: "bool \<Rightarrow> nat \<Rightarrow> 't Scheduler \<Rightarrow> 't option" where
  "cronTick isLeader job s = (if isLeader then map_option snd (jget (sc_running s) job) else None)"

subsection \<open>Jobs and crons\<close>

text \<open>The jobs of the registered crons, with their contexts.\<close>

definition registered :: "'t Scheduler \<Rightarrow> (nat \<times> CronContext) set" where
  "registered s = {(job, ctx). \<exists>w key cron. jget (cronsOf w s) key = Some cron \<and> job = cr_job cron \<and> ctx = cr_ctx cron}"

definition running :: "'t Scheduler \<Rightarrow> (nat \<times> CronContext) set" where
  "running s = (\<lambda>(job, ctx, onTick). (job, ctx)) ` set (sc_running s)"

definition crons_ok :: "'t Scheduler \<Rightarrow> bool" where
  "crons_ok s \<longleftrightarrow> distinct (map fst (sc_running s)) \<and> (\<forall>j \<in> running s. fst j < sc_nextJob s)
     \<and> running s = registered s
     \<and> (\<forall>w. jwf (cronsOf w s) \<and> (\<forall>key cron. jget (cronsOf w s) key = Some cron
         \<longrightarrow> key = toCronKey (cr_ctx cron) \<and> cx_workflowId (cr_ctx cron) = w))"

lemma crons_okD:
  assumes "crons_ok s" and "jget (cronsOf w s) key = Some cron"
  shows "key = toCronKey (cr_ctx cron)" "cx_workflowId (cr_ctx cron) = w" "(cr_job cron, cr_ctx cron) \<in> running s"
proof -
  have "(cr_job cron, cr_ctx cron) \<in> registered s" using assms(2) unfolding registered_def by blast
  then show "(cr_job cron, cr_ctx cron) \<in> running s" using assms(1) by (simp add: crons_ok_def)
qed (use assms in \<open>simp_all add: crons_ok_def\<close>)

lemma running_unique:
  assumes "crons_ok s" and "(job, ctx) \<in> running s" and "(job, ctx') \<in> running s"
  shows "ctx = ctx'"
proof -
  obtain t t' where j: "(job, ctx, t) \<in> set (sc_running s)" "(job, ctx', t') \<in> set (sc_running s)"
    using assms(2,3) by (force simp: running_def)
  have "distinct (map fst (sc_running s))" using assms(1) by (simp add: crons_ok_def)
  from eq_key_imp_eq_value [OF this j] show ?thesis by simp
qed

lemma registered_cron:
  assumes "crons_ok s" and "(job, ctx) \<in> running s"
  obtains cron where "jget (cronsOf (cx_workflowId ctx) s) (toCronKey ctx) = Some cron" "cr_job cron = job" "cr_ctx cron = ctx"
proof -
  have "(job, ctx) \<in> registered s" using assms by (simp add: crons_ok_def)
  then obtain w key cron where c: "jget (cronsOf w s) key = Some cron" "job = cr_job cron" "ctx = cr_ctx cron"
    by (auto simp: registered_def)
  have "w = cx_workflowId ctx" "key = toCronKey ctx" using crons_okD(1,2) [OF assms(1) c(1)] by (simp_all only: c(3))
  then show thesis using that [OF _ c(2) [symmetric] c(3) [symmetric]] c(1) by (simp only:)
qed

lemma register_ok:
  assumes ok: "crons_ok s" and r: "registerCron cronError ctx onTick s = Inr s'"
  shows "crons_ok s' \<and> (sc_running s' = sc_running s \<or> sc_running s' = sc_running s @ [(sc_nextJob s, ctx, onTick)])"
proof (cases "jhas (cronsOf (cx_workflowId ctx) s) (toCronKey ctx)")
  case True
  then have "s' = s" using r by (auto simp: registerCron_def cronsOf_def jhas_def Let_def split: option.splits if_splits)
  then show ?thesis using ok by simp
next
  case False
  define cron where "cron = \<lparr>cr_job = sc_nextJob s, cr_summary = cronSummary ctx, cr_ctx = ctx\<rparr>"
  let ?w = "cx_workflowId ctx" and ?key = "toCronKey ctx"
  have s': "s' = s\<lparr>sc_cronsByWorkflow := jput ?w (jput ?key cron (cronsOf ?w s)) (sc_cronsByWorkflow s),
      sc_running := sc_running s @ [(sc_nextJob s, ctx, onTick)], sc_nextJob := Suc (sc_nextJob s)\<rparr>"
    using r False by (auto simp: registerCron_def cronsOf_def Let_def cron_def split: option.splits if_splits)
  have crons: "cronsOf w s' = (if w = ?w then jput ?key cron (cronsOf ?w s) else cronsOf w s)" for w
    by (simp add: s' cronsOf_def js_map_simps)
  have at: "jget (cronsOf w s') key = (if w = ?w \<and> key = ?key then Some cron else jget (cronsOf w s) key)" for w key
    by (simp add: crons js_map_simps)
  have "sc_nextJob s \<notin> fst ` set (sc_running s)" using ok by (fastforce simp: crons_ok_def running_def)
  then have "distinct (map fst (sc_running s'))" using ok by (simp add: s' crons_ok_def)
  moreover have run: "running s' = insert (sc_nextJob s, ctx) (running s)" by (simp add: s' running_def)
  moreover have "registered s' = insert (sc_nextJob s, ctx) (registered s)"
  proof -
    have new: "jget (cronsOf ?w s) ?key = None" using False by (simp add: jhas_def)
    have "x \<in> registered s' \<longleftrightarrow> x = (sc_nextJob s, ctx) \<or> x \<in> registered s" for x
    proof
      assume "x \<in> registered s'"
      then obtain w key c where "jget (cronsOf w s') key = Some c" "x = (cr_job c, cr_ctx c)" by (auto simp: registered_def)
      then show "x = (sc_nextJob s, ctx) \<or> x \<in> registered s"
        by (cases "w = ?w \<and> key = ?key") (auto simp: at cron_def registered_def)
    next
      assume "x = (sc_nextJob s, ctx) \<or> x \<in> registered s"
      then show "x \<in> registered s'"
      proof
        assume "x = (sc_nextJob s, ctx)"
        then show ?thesis using at [of ?w ?key] by (force simp: registered_def cron_def)
      next
        assume "x \<in> registered s"
        then obtain w key c where c: "jget (cronsOf w s) key = Some c" "x = (cr_job c, cr_ctx c)" by (auto simp: registered_def)
        then have "jget (cronsOf w s') key = Some c" using new by (auto simp: at)
        then show ?thesis using c(2) by (auto simp: registered_def)
      qed
    qed
    then show ?thesis by blast
  qed
  moreover have "sc_nextJob s' = Suc (sc_nextJob s)" by (simp add: s')
  then have "\<forall>j \<in> running s'. fst j < sc_nextJob s'" using ok by (auto simp: run crons_ok_def less_SucI)
  moreover have "jwf (cronsOf w s')" for w using ok by (simp add: crons crons_ok_def)
  moreover have "key = toCronKey (cr_ctx c) \<and> cx_workflowId (cr_ctx c) = w" if "jget (cronsOf w s') key = Some c" for w key c
    using that crons_okD(1,2) [OF ok] by (cases "w = ?w \<and> key = ?key") (auto simp only: at cron_def simp_thms if_True if_False option.inject Cron.simps)
  ultimately have "crons_ok s'" using ok unfolding crons_ok_def by blast
  then show ?thesis by (simp add: s')
qed

lemma fold_stopJob:
  "fold (\<lambda>cron. stopJob (cr_job cron)) crons s = s\<lparr>sc_running := filter (\<lambda>j. fst j \<notin> cr_job ` set crons) (sc_running s)\<rparr>"
  by (induction crons arbitrary: s) (auto simp: stopJob_def intro: filter_cong)

text \<open>Exactly the jobs of the workflow are stopped.\<close>

lemma job_of_workflow:
  assumes ok: "crons_ok s" and j: "(job, ctx) \<in> running s"
  shows "job \<in> cr_job ` set (jvals (cronsOf w s)) \<longleftrightarrow> cx_workflowId ctx = w"
proof
  assume "job \<in> cr_job ` set (jvals (cronsOf w s))"
  then obtain key cron where c: "(key, cron) \<in> set (cronsOf w s)" "job = cr_job cron" by auto
  then have cron: "jget (cronsOf w s) key = Some cron" using ok by (simp add: crons_ok_def jget_iff_set)
  have "(job, cr_ctx cron) \<in> running s" using crons_okD(3) [OF ok cron] c(2) by simp
  then have "cr_ctx cron = ctx" using j running_unique [OF ok] by blast
  then show "cx_workflowId ctx = w" using crons_okD(2) [OF ok cron] by simp
next
  assume w: "cx_workflowId ctx = w"
  obtain cron where "jget (cronsOf w s) (toCronKey ctx) = Some cron" "cr_job cron = job"
    using registered_cron [OF ok j] w by metis
  then show "job \<in> cr_job ` set (jvals (cronsOf w s))" by (force dest: jget_in_set)
qed

lemma deregister_effect:
  "sc_running (deregisterCrons w s) = filter (\<lambda>j. fst j \<notin> cr_job ` set (jvals (cronsOf w s))) (sc_running s)"
  "cronsOf w' (deregisterCrons w s) = (if w' = w then [] else cronsOf w' s)"
  "sc_nextJob (deregisterCrons w s) = sc_nextJob s"
  by (auto simp: deregisterCrons_def cronsOf_def fold_stopJob Let_def js_map_simps jvals_def split: option.split)

lemma deregister_running:
  assumes ok: "crons_ok s"
  shows "sc_running (deregisterCrons w s) = filter (\<lambda>(job, ctx, onTick). cx_workflowId ctx \<noteq> w) (sc_running s)"
  unfolding deregister_effect(1)
proof (rule filter_cong [OF refl])
  fix j assume j: "j \<in> set (sc_running s)"
  obtain job ctx onTick where "j = (job, ctx, onTick)" by (cases j)
  moreover have "(job, ctx) \<in> running s" using j calculation by (force simp: running_def)
  ultimately show "(fst j \<notin> cr_job ` set (jvals (cronsOf w s))) = (case j of (job, ctx, onTick) \<Rightarrow> cx_workflowId ctx \<noteq> w)"
    using job_of_workflow [OF ok] by simp
qed

lemma deregister_ok:
  assumes ok: "crons_ok s"
  shows "crons_ok (deregisterCrons w s)"
proof -
  let ?s = "deregisterCrons w s"
  have run: "running ?s = {x \<in> running s. cx_workflowId (snd x) \<noteq> w}"
    by (force simp: running_def deregister_running [OF ok])
  have "registered ?s = {x \<in> registered s. cx_workflowId (snd x) \<noteq> w}"
  proof (intro equalityI subsetI)
    fix x assume "x \<in> registered ?s"
    then obtain w' key c where "jget (cronsOf w' ?s) key = Some c" "x = (cr_job c, cr_ctx c)" by (auto simp: registered_def)
    then show "x \<in> {x \<in> registered s. cx_workflowId (snd x) \<noteq> w}"
      using crons_okD(2) [OF ok] by (auto simp: registered_def deregister_effect(2) split: if_splits)
  next
    fix x assume "x \<in> {x \<in> registered s. cx_workflowId (snd x) \<noteq> w}"
    then obtain w' key c where "jget (cronsOf w' s) key = Some c" "x = (cr_job c, cr_ctx c)" "cx_workflowId (cr_ctx c) \<noteq> w"
      by (auto simp: registered_def)
    then show "x \<in> registered ?s" using crons_okD(2) [OF ok] by (fastforce simp: registered_def deregister_effect(2))
  qed
  then have "running ?s = registered ?s" using run ok by (simp add: crons_ok_def)
  moreover have "distinct (map fst (sc_running ?s))" using ok by (simp add: deregister_running [OF ok] crons_ok_def distinct_map_filter)
  moreover have "\<forall>j \<in> running ?s. fst j < sc_nextJob ?s" using ok by (auto simp: run crons_ok_def deregister_effect(3))
  moreover have "jwf (cronsOf w' ?s) \<and> (\<forall>key cron. jget (cronsOf w' ?s) key = Some cron
      \<longrightarrow> key = toCronKey (cr_ctx cron) \<and> cx_workflowId (cr_ctx cron) = w')" for w'
    using ok by (simp add: crons_ok_def deregister_effect(2))
  ultimately show ?thesis by (simp add: crons_ok_def)
qed

lemma fold_deregister:
  "crons_ok s \<Longrightarrow> crons_ok (fold deregisterCrons ws s)
    \<and> sc_running (fold deregisterCrons ws s) = filter (\<lambda>(job, ctx, onTick). cx_workflowId ctx \<notin> set ws) (sc_running s)"
proof (induction ws arbitrary: s)
  case (Cons w ws)
  then show ?case
    using Cons.IH [OF deregister_ok [OF Cons.prems]]
    by (simp add: deregister_running split_def conj_commute cong: conj_cong)
qed (simp add: split_def)

lemma crons_ok_log: "crons_ok (s\<lparr>sc_logInterval := b\<rparr>) = crons_ok s"
  by (simp add: crons_ok_def running_def registered_def cronsOf_def)

text \<open>Everything is stopped, and nothing stays registered.\<close>

lemma deregisterAll_ok:
  assumes ok: "crons_ok s"
  shows "crons_ok (deregisterAllCrons s) \<and> sc_running (deregisterAllCrons s) = []"
proof -
  let ?s = "fold deregisterCrons (jkeys (sc_cronsByWorkflow s)) s"
  have "cx_workflowId ctx \<in> set (jkeys (sc_cronsByWorkflow s))" if "(job, ctx, onTick) \<in> set (sc_running s)" for job ctx onTick
  proof -
    have "(job, ctx) \<in> running s" using that by (force simp: running_def)
    then obtain cron where "jget (cronsOf (cx_workflowId ctx) s) (toCronKey ctx) = Some cron"
      using registered_cron [OF ok] by metis
    then show ?thesis by (force simp: cronsOf_def split: option.splits dest: jget_in_set)
  qed
  then have none: "sc_running ?s = []" using fold_deregister [OF ok] by (fastforce simp: filter_empty_conv)
  have "crons_ok ?s" using fold_deregister [OF ok] by blast
  then show ?thesis using none
    by (simp add: deregisterAllCrons_def crons_ok_log)
qed

subsection \<open>Runs\<close>

inductive scheduler_step :: "(CronContext \<Rightarrow> js_error option) \<Rightarrow> 't Scheduler \<Rightarrow> 't Scheduler \<Rightarrow> bool" for cronError where
  "registerCron cronError ctx onTick s = Inr s' \<Longrightarrow> scheduler_step cronError s s'"
| "scheduler_step cronError s (deregisterCrons w s)"
| "scheduler_step cronError s (deregisterAllCrons s)"

interpretation scheduler: transition_system "scheduler_step cronError" crons_ok
proof
  fix s s' :: "'t Scheduler"
  assume "scheduler_step cronError s s'" "crons_ok s"
  then show "crons_ok s'" by cases (auto simp: register_ok deregister_ok deregisterAll_ok)
qed

lemma crons_ok_new: "crons_ok (newScheduler activeInterval)"
  by (simp add: crons_ok_def newScheduler_def running_def registered_def cronsOf_def)

text \<open>
  C40: at every moment the jobs that run are those of the registered crons, each context has one job at most,
  and deregistering a workflow stops exactly its jobs.
\<close>

theorem scheduled_jobs:
  assumes "(scheduler_step cronError)\<^sup>*\<^sup>* (newScheduler activeInterval) s"
  shows "running s = registered s
     \<and> (\<forall>job job' ctx. (job, ctx) \<in> running s \<longrightarrow> (job', ctx) \<in> running s \<longrightarrow> job = job')
     \<and> sc_running (deregisterCrons w s) = filter (\<lambda>(job, ctx, onTick). cx_workflowId ctx \<noteq> w) (sc_running s)"
proof -
  have ok: "crons_ok s" by (rule scheduler.inv_reachable [OF assms crons_ok_new])
  have "job = job'" if "(job, ctx) \<in> running s" "(job', ctx) \<in> running s" for job job' ctx
    using registered_cron [OF ok that(1)] registered_cron [OF ok that(2)] by (metis option.inject)
  then show ?thesis using ok deregister_running [OF ok] by (auto simp: crons_ok_def)
qed

text \<open>Two crons of one node; the second registration of the same cron is skipped.\<close>

definition minute_cron :: "string \<Rightarrow> CronContext" where
  "minute_cron workflowId = \<lparr>cx_nodeId = ''a'', cx_workflowId = workflowId, cx_timezone = ''UTC'',
     cx_expression = ''30 * * * * *'', cx_recurrence = None\<rparr>"

definition register_all :: "CronContext list \<Rightarrow> unit Scheduler res" where
  "register_all ctxs = rfold (\<lambda>ctx. registerCron (\<lambda>ctx. None) ctx ()) ctxs (newScheduler 0)"

lemma register_all_steps:
  "register_all ctxs = Inr s \<Longrightarrow> (scheduler_step (\<lambda>ctx. None))\<^sup>*\<^sup>* (newScheduler 0) s"
  unfolding register_all_def
  by (erule rfold_invariant) (auto intro: rtranclp.rtrancl_into_rtrancl scheduler_step.intros(1))

theorem scheduled_jobs_witness:
  "\<exists>s. register_all [minute_cron ''w1'', minute_cron ''w2'', minute_cron ''w1''] = Inr s \<and> length (sc_running s) = 2
     \<and> sc_running (deregisterCrons ''w1'' s) = [(1, minute_cron ''w2'', ())]"
proof -
  let ?s = "projr (register_all [minute_cron ''w1'', minute_cron ''w2'', minute_cron ''w1''])"
  have "isl (register_all [minute_cron ''w1'', minute_cron ''w2'', minute_cron ''w1'']) = False" by code_simp
  then have s: "register_all [minute_cron ''w1'', minute_cron ''w2'', minute_cron ''w1''] = Inr ?s" by simp
  have run: "sc_running ?s = [(0, minute_cron ''w1'', ()), (1, minute_cron ''w2'', ())]" by code_simp
  have "sc_running (deregisterCrons ''w1'' ?s) = filter (\<lambda>(job, ctx, onTick). cx_workflowId ctx \<noteq> ''w1'') (sc_running ?s)"
    using scheduled_jobs [OF register_all_steps [OF s]] by blast
  then show ?thesis using s run by (auto simp: minute_cron_def)
qed

end
