(* ===== verification/ActiveWorkflows.thy ===== *)
theory ActiveWorkflows
  imports ScheduledTasks
begin

section \<open>Active workflows\<close>

text \<open>
  \<open>active-workflows.ts\<close> and \<open>triggers-and-pollers.ts\<close> of \<open>packages/core/src/execution-engine\<close> and
  \<open>cron.ts\<close> of \<open>packages/workflow\<close>: which workflows are active in memory, with the triggers that have to be
  closed again and the crons that poll.  What the nodes do is a parameter (\<open>NodeRuns\<close>), as are the random
  seconds.  An operation that throws leaves its changes, so it returns the state and the exception.  Each
  operation is one step: what else could happen while it awaits the start or the end of a trigger is left out.
\<close>

subsection \<open>Trigger times\<close>

datatype TriggerTime =
    EveryMinute
  | EveryHour int
  | EveryXMinutes int
  | EveryXHours int
  | EveryDay int int
  | EveryWeek int int int
  | EveryMonth int int int
  | CustomTime string

text \<open>\<open>String.prototype.trim\<close>, on the blanks of ASCII.\<close>

definition is_blank :: "char \<Rightarrow> bool" where
  "is_blank c \<longleftrightarrow> (of_char c :: nat) \<in> {9, 10, 11, 12, 13, 32}"

definition js_trim :: "string \<Rightarrow> string" where
  "js_trim s = rev (dropWhile is_blank (rev (dropWhile is_blank s)))"

fun toCronExpression :: "nat \<Rightarrow> nat \<Rightarrow> TriggerTime \<Rightarrow> string" where
  "toCronExpression randomSecond randomMinute EveryMinute = nat_string randomSecond @ '' * * * * *''"
| "toCronExpression randomSecond randomMinute (EveryHour minute) =
     nat_string randomSecond @ '' '' @ int_string minute @ '' * * * *''"
| "toCronExpression randomSecond randomMinute (EveryXMinutes value) =
     nat_string randomSecond @ '' */'' @ int_string value @ '' * * * *''"
| "toCronExpression randomSecond randomMinute (EveryXHours value) =
     nat_string randomSecond @ '' '' @ nat_string randomMinute @ '' */'' @ int_string value @ '' * * *''"
| "toCronExpression randomSecond randomMinute (EveryDay hour minute) =
     nat_string randomSecond @ '' '' @ int_string minute @ '' '' @ int_string hour @ '' * * *''"
| "toCronExpression randomSecond randomMinute (EveryWeek hour minute weekday) =
     nat_string randomSecond @ '' '' @ int_string minute @ '' '' @ int_string hour @ '' * * '' @ int_string weekday"
| "toCronExpression randomSecond randomMinute (EveryMonth hour minute dayOfMonth) =
     nat_string randomSecond @ '' '' @ int_string minute @ '' '' @ int_string hour @ '' '' @ int_string dayOfMonth @ '' * *''"
| "toCronExpression randomSecond randomMinute (CustomTime cronExpression) = js_trim cronExpression"

subsection \<open>State\<close>

text \<open>What a call of the close function of a trigger does.\<close>

datatype CloseResult = Closed | TriggerCloseError | CloseFails js_error

record ITriggerResponse =
  tg_id :: nat
  tg_closeFunction :: "CloseResult option"

datatype CronTick = PollTick INode | TriggerTick INode

record NodeRuns =
  nr_trigger :: "INode \<Rightarrow> (string \<times> CronRecurrenceRule option) list \<times> (js_error + ITriggerResponse option)"
  nr_pollTimes :: "INode \<Rightarrow> TriggerTime list res"
  nr_firstPoll :: "INode \<Rightarrow> js_error option"
  nr_random :: "INode \<Rightarrow> nat \<Rightarrow> nat \<times> nat"
  nr_cronError :: "CronContext \<Rightarrow> js_error option"
  nr_manual :: bool
  nr_defaultTimezone :: string

record Activations =
  aw_activeWorkflows :: "(string, ITriggerResponse list) jmap"
  aw_scheduler :: "CronTick Scheduler"
  aw_closed :: "nat list"

definition isActive :: "string \<Rightarrow> Activations \<Rightarrow> bool" where
  "isActive workflowId a = jhas (aw_activeWorkflows a) workflowId"

definition allActiveWorkflows :: "Activations \<Rightarrow> string list" where
  "allActiveWorkflows a = own_keys (aw_activeWorkflows a)"

definition workflowTimezone :: "NodeRuns \<Rightarrow> Workflow \<Rightarrow> string" where
  "workflowTimezone nr w = (case jget (w_settings w) ''timezone'' of Some (JStr timezone) \<Rightarrow> timezone | _ \<Rightarrow> nr_defaultTimezone nr)"

definition nodeCron :: "NodeRuns \<Rightarrow> Workflow \<Rightarrow> INode \<Rightarrow> string \<Rightarrow> CronRecurrenceRule option \<Rightarrow> CronContext" where
  "nodeCron nr w node expression recurrence = \<lparr>cx_nodeId = n_id node, cx_workflowId = w_id w,
     cx_timezone = workflowTimezone nr w, cx_expression = expression, cx_recurrence = recurrence\<rparr>"

subsection \<open>Activation\<close>

text \<open>
  A trigger may register crons through the functions it gets; a registration that fails changes nothing, and
  whether the trigger fails then is part of its result.
\<close>

definition registerAttempt :: "NodeRuns \<Rightarrow> CronContext \<Rightarrow> CronTick \<Rightarrow> CronTick Scheduler \<Rightarrow> CronTick Scheduler" where
  "registerAttempt nr ctx tick s = (case registerCron (nr_cronError nr) ctx tick s of Inl e \<Rightarrow> s | Inr s' \<Rightarrow> s')"

definition runTrigger :: "INodeTypes \<Rightarrow> NodeRuns \<Rightarrow> Workflow \<Rightarrow> INode \<Rightarrow> CronTick Scheduler
    \<Rightarrow> CronTick Scheduler \<times> ITriggerResponse option res" where
  "runTrigger nodeTypes nr w node s = (case nodeTypes (n_type node) (n_typeVersion node) of
      None \<Rightarrow> (s, Inl TypeError)
    | Some nodeType \<Rightarrow> if \<not> nt_trigger nodeType then (s, Inl (ApplicationError ''Node type does not have a trigger function defined''))
        else let (crons, result) = nr_trigger nr node
          in (fold (\<lambda>(expression, recurrence). registerAttempt nr (nodeCron nr w node expression recurrence) (TriggerTick node)) crons s,
            if nr_manual nr \<and> result = Inr None then Inl TypeError else result))"

definition errorMessage :: "js_error \<Rightarrow> string" where
  "errorMessage e = (case e of AssertionError m \<Rightarrow> m | TypeError \<Rightarrow> '''' | UserError m \<Rightarrow> m | ApplicationError m \<Rightarrow> m
     | UnexpectedError m \<Rightarrow> m | OperationalError m \<Rightarrow> m | NamedError _ m \<Rightarrow> m)"

definition activationError :: "js_error \<Rightarrow> js_error" where
  "activationError e = NamedError ''WorkflowActivationError''
     (''There was a problem activating the workflow: '' @ [CHR 0x22] @ errorMessage e @ [CHR 0x22])"

fun runTriggers :: "INodeTypes \<Rightarrow> NodeRuns \<Rightarrow> Workflow \<Rightarrow> INode list \<Rightarrow> ITriggerResponse list \<Rightarrow> CronTick Scheduler
    \<Rightarrow> CronTick Scheduler \<times> ITriggerResponse list res" where
  "runTriggers nodeTypes nr w [] triggerResponses s = (s, Inr triggerResponses)"
| "runTriggers nodeTypes nr w (triggerNode # nodes) triggerResponses s = (case runTrigger nodeTypes nr w triggerNode s of
      (s', Inl e) \<Rightarrow> (s', Inl (activationError e))
    | (s', Inr triggerResponse) \<Rightarrow> runTriggers nodeTypes nr w nodes
        (case triggerResponse of None \<Rightarrow> triggerResponses | Some r \<Rightarrow> triggerResponses @ [r]) s')"

text \<open>The crons of a poll node; the first field of an expression is its seconds.\<close>

fun registerPolls :: "NodeRuns \<Rightarrow> Workflow \<Rightarrow> INode \<Rightarrow> string list \<Rightarrow> CronTick Scheduler \<Rightarrow> CronTick Scheduler \<times> js_error option" where
  "registerPolls nr w node [] s = (s, None)"
| "registerPolls nr w node (expression # expressions) s =
     (if CHR ''*'' \<in> set (takeWhile (\<lambda>c. c \<noteq> CHR '' '') expression)
      then (s, Some (UserError ''The polling interval is too short. It has to be at least a minute.''))
      else case registerCron (nr_cronError nr) (nodeCron nr w node expression None) (PollTick node) s of
          Inl e \<Rightarrow> (s, Some e)
        | Inr s' \<Rightarrow> registerPolls nr w node expressions s')"

definition activatePolling :: "INodeTypes \<Rightarrow> NodeRuns \<Rightarrow> Workflow \<Rightarrow> INode \<Rightarrow> CronTick Scheduler \<Rightarrow> CronTick Scheduler \<times> js_error option" where
  "activatePolling nodeTypes nr w node s = (case nr_pollTimes nr node of
      Inl e \<Rightarrow> (s, Some e)
    | Inr pollTimes \<Rightarrow>
        let cronExpressions = map (\<lambda>(i, time). toCronExpression (fst (nr_random nr node i)) (snd (nr_random nr node i)) time) (enumerate 0 pollTimes)
        in case nodeTypes (n_type node) (n_typeVersion node) of
            None \<Rightarrow> (s, Some TypeError)
          | Some nodeType \<Rightarrow> if \<not> nt_poll nodeType then (s, Some (ApplicationError ''Node type does not have a poll function defined''))
              else case nr_firstPoll nr node of Some e \<Rightarrow> (s, Some e) | None \<Rightarrow> registerPolls nr w node cronExpressions s)"

fun activatePollings :: "INodeTypes \<Rightarrow> NodeRuns \<Rightarrow> Workflow \<Rightarrow> INode list \<Rightarrow> CronTick Scheduler \<Rightarrow> CronTick Scheduler \<times> js_error option" where
  "activatePollings nodeTypes nr w [] s = (s, None)"
| "activatePollings nodeTypes nr w (pollNode # nodes) s = (case activatePolling nodeTypes nr w pollNode s of
      (s', Some e) \<Rightarrow> (s', Some (activationError e))
    | (s', None) \<Rightarrow> activatePollings nodeTypes nr w nodes s')"

definition addActive :: "INodeTypes \<Rightarrow> NodeRuns \<Rightarrow> string \<Rightarrow> Workflow \<Rightarrow> Activations \<Rightarrow> Activations \<times> js_error option" where
  "addActive nodeTypes nr workflowId w a = (case runTriggers nodeTypes nr w (getTriggerNodes nodeTypes w) [] (aw_scheduler a) of
      (s, Inl e) \<Rightarrow> (a\<lparr>aw_scheduler := s\<rparr>, Some e)
    | (s, Inr triggerResponses) \<Rightarrow>
        let active = jput workflowId triggerResponses (aw_activeWorkflows a)
        in case activatePollings nodeTypes nr w (getPollNodes nodeTypes w) s of
            (s', None) \<Rightarrow> (a\<lparr>aw_activeWorkflows := active, aw_scheduler := s'\<rparr>, None)
          | (s', Some e) \<Rightarrow> (a\<lparr>aw_activeWorkflows := (if triggerResponses = [] then jdel workflowId active else active),
              aw_scheduler := s'\<rparr>, Some e))"

subsection \<open>Deactivation\<close>

definition deactivationError :: "string \<Rightarrow> js_error \<Rightarrow> js_error" where
  "deactivationError workflowId e = NamedError ''WorkflowDeactivationError''
     (''Failed to deactivate trigger of workflow ID '' @ [CHR 0x22] @ workflowId @ [CHR 0x22] @ '': '' @ [CHR 0x22] @ errorMessage e @ [CHR 0x22])"

definition closeTrigger :: "string \<Rightarrow> ITriggerResponse \<Rightarrow> Activations \<Rightarrow> Activations \<times> js_error option" where
  "closeTrigger workflowId response a = (case tg_closeFunction response of
      None \<Rightarrow> (a, None)
    | Some result \<Rightarrow> (a\<lparr>aw_closed := aw_closed a @ [tg_id response]\<rparr>,
        case result of CloseFails e \<Rightarrow> Some (deactivationError workflowId e) | _ \<Rightarrow> None))"

fun closeTriggers :: "string \<Rightarrow> ITriggerResponse list \<Rightarrow> Activations \<Rightarrow> Activations \<times> js_error option" where
  "closeTriggers workflowId [] a = (a, None)"
| "closeTriggers workflowId (r # responses) a = (case closeTrigger workflowId r a of
      (a', Some e) \<Rightarrow> (a', Some e)
    | (a', None) \<Rightarrow> closeTriggers workflowId responses a')"

definition removeActive :: "string \<Rightarrow> Activations \<Rightarrow> Activations \<times> bool res" where
  "removeActive workflowId a = (case jget (aw_activeWorkflows a) workflowId of
      None \<Rightarrow> (a, Inr False)
    | Some responses \<Rightarrow>
        (case closeTriggers workflowId responses (a\<lparr>aw_scheduler := deregisterCrons workflowId (aw_scheduler a)\<rparr>) of
           (a', Some e) \<Rightarrow> (a', Inl e)
         | (a', None) \<Rightarrow> (a'\<lparr>aw_activeWorkflows := jdel workflowId (aw_activeWorkflows a')\<rparr>, Inr True)))"

fun removeWorkflows :: "string list \<Rightarrow> Activations \<Rightarrow> Activations \<times> js_error option" where
  "removeWorkflows [] a = (a, None)"
| "removeWorkflows (workflowId # ids) a = (case removeActive workflowId a of
      (a', Inl e) \<Rightarrow> (a', Some e)
    | (a', Inr removed) \<Rightarrow> removeWorkflows ids a')"

definition removeAllTriggerAndPollerBasedWorkflows :: "Activations \<Rightarrow> Activations \<times> js_error option" where
  "removeAllTriggerAndPollerBasedWorkflows a = removeWorkflows (own_keys (aw_activeWorkflows a)) a"

text \<open>What a tick of the cron of a poll node does: emit the data or the error of the poll, or nothing.\<close>

datatype 'd PollEvent = Emit 'd | EmitError js_error | NoEvent

definition executeTrigger :: "'d option res \<Rightarrow> 'd PollEvent" where
  "executeTrigger poll = (case poll of Inl e \<Rightarrow> EmitError e | Inr None \<Rightarrow> NoEvent | Inr (Some d) \<Rightarrow> Emit d)"

end
