(* ===== verification/Activation.thy ===== *)
theory Activation
  imports ActiveWorkflows
begin

section \<open>Activating and deactivating workflows\<close>

text \<open>
  A workflow that is activated and deactivated again leaves no cron and no open trigger.  As long as no
  activation fails, crons run for active workflows only.
\<close>

subsection \<open>Crons of a workflow\<close>

text \<open>The scheduler changes for one workflow only.\<close>

definition other_jobs :: "string \<Rightarrow> CronTick Scheduler \<Rightarrow> (nat \<times> CronContext \<times> CronTick) list" where
  "other_jobs w s = filter (\<lambda>(job, ctx, tick). cx_workflowId ctx \<noteq> w) (sc_running s)"

definition extends_for :: "string \<Rightarrow> CronTick Scheduler \<Rightarrow> CronTick Scheduler \<Rightarrow> bool" where
  "extends_for w s s' \<longleftrightarrow> crons_ok s' \<and> other_jobs w s' = other_jobs w s"

lemma extends_refl: "crons_ok s \<Longrightarrow> extends_for w s s"
  by (simp add: extends_for_def)

lemma extends_trans: "extends_for w s s' \<Longrightarrow> extends_for w s' s'' \<Longrightarrow> extends_for w s s''"
  by (simp add: extends_for_def)

lemma extends_register:
  "crons_ok s \<Longrightarrow> registerCron cronError ctx tick s = Inr s' \<Longrightarrow> cx_workflowId ctx = w \<Longrightarrow> extends_for w s s'"
  using register_ok [of s cronError ctx tick s'] by (auto simp: extends_for_def other_jobs_def)

lemma extends_ok: "extends_for w s s' \<Longrightarrow> crons_ok s'"
  by (simp add: extends_for_def)

lemma node_cron_workflow [simp]: "cx_workflowId (nodeCron nr w node expression recurrence) = w_id w"
  by (simp add: nodeCron_def)

lemma attempt_extends: "crons_ok s \<Longrightarrow> extends_for (w_id w) s (registerAttempt nr (nodeCron nr w node x r) tick s)"
  by (auto simp: registerAttempt_def extends_refl intro: extends_register split: sum.split)

lemma attempts_extend:
  "crons_ok s \<Longrightarrow> extends_for (w_id w) s (fold (\<lambda>(x, r). registerAttempt nr (nodeCron nr w node x r) tick) crons s)"
proof (induction crons arbitrary: s)
  case (Cons c crons)
  obtain x r where c: "c = (x, r)" by (cases c)
  have one: "extends_for (w_id w) s (registerAttempt nr (nodeCron nr w node x r) tick s)" by (rule attempt_extends [OF Cons.prems])
  show ?case using extends_trans [OF one Cons.IH [OF extends_ok [OF one]]] by (simp add: c)
qed (simp add: extends_refl)

lemma trigger_extends: "crons_ok s \<Longrightarrow> extends_for (w_id w) s (fst (runTrigger nodeTypes nr w node s))"
  by (auto simp: runTrigger_def extends_refl attempts_extend split: option.split prod.split)

lemma triggers_extend: "crons_ok s \<Longrightarrow> extends_for (w_id w) s (fst (runTriggers nodeTypes nr w nodes responses s))"
proof (induction nodes arbitrary: responses s)
  case (Cons node nodes)
  obtain s' r where t: "runTrigger nodeTypes nr w node s = (s', r)" by (cases "runTrigger nodeTypes nr w node s")
  have one: "extends_for (w_id w) s s'" using trigger_extends [OF Cons.prems, of w nodeTypes nr node] t by simp
  show ?case
    using one extends_trans [OF one Cons.IH [OF extends_ok [OF one]]] by (auto simp: t split: sum.split)
qed (simp add: extends_refl)

lemma polls_extend: "crons_ok s \<Longrightarrow> extends_for (w_id w) s (fst (registerPolls nr w node expressions s))"
proof (induction expressions arbitrary: s)
  case (Cons x xs)
  show ?case
  proof (cases "registerCron (nr_cronError nr) (nodeCron nr w node x None) (PollTick node) s")
    case (Inr s')
    have one: "extends_for (w_id w) s s'" by (rule extends_register [OF Cons.prems Inr]) simp
    show ?thesis using extends_trans [OF one Cons.IH [OF extends_ok [OF one]]] Inr Cons.prems by (simp add: extends_refl)
  qed (simp add: Cons.prems extends_refl)
qed (simp add: extends_refl)

lemma polling_extends: "crons_ok s \<Longrightarrow> extends_for (w_id w) s (fst (activatePolling nodeTypes nr w node s))"
  by (auto simp: activatePolling_def extends_refl polls_extend Let_def split: sum.split option.split)

lemma pollings_extend: "crons_ok s \<Longrightarrow> extends_for (w_id w) s (fst (activatePollings nodeTypes nr w nodes s))"
proof (induction nodes arbitrary: s)
  case (Cons node nodes)
  obtain s' r where t: "activatePolling nodeTypes nr w node s = (s', r)" by (cases "activatePolling nodeTypes nr w node s")
  have one: "extends_for (w_id w) s s'" using polling_extends [OF Cons.prems, of w nodeTypes nr node] t by simp
  show ?case
    using one extends_trans [OF one Cons.IH [OF extends_ok [OF one]]] by (auto simp: t split: option.split)
qed (simp add: extends_refl)

lemma add_extends:
  assumes "crons_ok (aw_scheduler a)" and add: "addActive nodeTypes nr workflowId w a = (a', e)"
  shows "extends_for (w_id w) (aw_scheduler a) (aw_scheduler a')" and "aw_closed a' = aw_closed a"
    and "e = None \<Longrightarrow> \<exists>responses. aw_activeWorkflows a' = jput workflowId responses (aw_activeWorkflows a)"
proof -
  obtain s r where t: "runTriggers nodeTypes nr w (getTriggerNodes nodeTypes w) [] (aw_scheduler a) = (s, r)" by fastforce
  have one: "extends_for (w_id w) (aw_scheduler a) s"
    using triggers_extend [OF assms(1), of w nodeTypes nr "getTriggerNodes nodeTypes w" "[]"] t by simp
  obtain s' x where p: "activatePollings nodeTypes nr w (getPollNodes nodeTypes w) s = (s', x)" by fastforce
  have two: "extends_for (w_id w) (aw_scheduler a) s'"
    using extends_trans [OF one] pollings_extend [OF extends_ok [OF one], of w nodeTypes nr "getPollNodes nodeTypes w"] p by simp
  show "extends_for (w_id w) (aw_scheduler a) (aw_scheduler a')" "aw_closed a' = aw_closed a"
    "e = None \<Longrightarrow> \<exists>responses. aw_activeWorkflows a' = jput workflowId responses (aw_activeWorkflows a)"
    using add one two by (auto simp: addActive_def t p Let_def split: sum.splits option.splits)
qed

subsection \<open>Closing\<close>

definition closable :: "ITriggerResponse \<Rightarrow> bool" where
  "closable r = (case tg_closeFunction r of Some (CloseFails e) \<Rightarrow> False | _ \<Rightarrow> True)"

definition openIds :: "ITriggerResponse list \<Rightarrow> nat list" where
  "openIds responses = map tg_id (filter (\<lambda>r. tg_closeFunction r \<noteq> None) responses)"

lemma close_all:
  "list_all closable responses \<Longrightarrow> closeTriggers workflowId responses a = (a\<lparr>aw_closed := aw_closed a @ openIds responses\<rparr>, None)"
proof (induction responses arbitrary: a)
  case (Cons r responses)
  then show ?case
    by (cases "tg_closeFunction r") (auto simp: closeTrigger_def closable_def openIds_def split: CloseResult.splits)
qed (simp add: openIds_def)

lemma close_keeps:
  "closeTriggers workflowId responses a = (a', e) \<Longrightarrow> aw_scheduler a' = aw_scheduler a \<and> aw_activeWorkflows a' = aw_activeWorkflows a"
proof (induction responses arbitrary: a)
  case (Cons r responses)
  obtain b x where b: "closeTrigger workflowId r a = (b, x)" by fastforce
  then have "aw_scheduler b = aw_scheduler a \<and> aw_activeWorkflows b = aw_activeWorkflows a"
    by (auto simp: closeTrigger_def split: option.splits)
  then show ?case using Cons b by (auto split: option.splits)
qed simp

text \<open>
  activating a workflow that is not active and has no crons, and deactivating it again, restores the
  active workflows and the jobs that run, and closes each of its triggers once, in order.
\<close>

theorem activate_deactivate:
  assumes ok: "crons_ok (aw_scheduler a)" and inactive: "\<not> isActive (w_id w) a" and none: "cronsOf (w_id w) (aw_scheduler a) = []"
    and add: "addActive nodeTypes nr (w_id w) w a = (a', None)" and responses: "jget (aw_activeWorkflows a') (w_id w) = Some responses"
    and close: "list_all closable responses"
  shows "\<exists>a''. removeActive (w_id w) a' = (a'', Inr True) \<and> sc_running (aw_scheduler a'') = sc_running (aw_scheduler a)
     \<and> (\<forall>x. jget (aw_activeWorkflows a'') x = jget (aw_activeWorkflows a) x) \<and> aw_closed a'' = aw_closed a @ openIds responses"
proof -
  let ?w = "w_id w"
  note added = add_extends [OF ok add]
  have "cx_workflowId ctx \<noteq> ?w" if "(job, ctx, tick) \<in> set (sc_running (aw_scheduler a))" for job ctx tick
    using registered_cron [OF ok, of job ctx] that none by (force simp: running_def)
  then have all: "other_jobs ?w (aw_scheduler a) = sc_running (aw_scheduler a)"
    by (auto simp: other_jobs_def intro!: filter_True)
  have "sc_running (deregisterCrons ?w (aw_scheduler a')) = other_jobs ?w (aw_scheduler a')"
    using deregister_running [OF extends_ok [OF added(1)]] by (simp add: other_jobs_def)
  then have running: "sc_running (deregisterCrons ?w (aw_scheduler a')) = sc_running (aw_scheduler a)"
    using added(1) all by (simp add: extends_for_def)
  obtain rs where "aw_activeWorkflows a' = jput ?w rs (aw_activeWorkflows a)" using added(3) by blast
  then have "jget (jdel ?w (aw_activeWorkflows a')) x = jget (aw_activeWorkflows a) x" for x
    using inactive by (auto simp: js_map_simps isActive_def jhas_def)
  then show ?thesis
    using running added(2) close by (simp add: removeActive_def responses close_all)
qed

subsection \<open>Crons of active workflows\<close>

text \<open>Activations that succeed, deactivations whether they succeed or not, and shutdown steps.\<close>

inductive activation_step :: "INodeTypes \<Rightarrow> Activations \<Rightarrow> Activations \<Rightarrow> bool" for nodeTypes where
  "addActive nodeTypes nr (w_id w) w a = (a', None) \<Longrightarrow> activation_step nodeTypes a a'"
| "removeActive workflowId a = (a', r) \<Longrightarrow> activation_step nodeTypes a a'"

definition owned_crons :: "Activations \<Rightarrow> bool" where
  "owned_crons a \<longleftrightarrow> crons_ok (aw_scheduler a)
     \<and> (\<forall>(job, ctx, tick) \<in> set (sc_running (aw_scheduler a)). isActive (cx_workflowId ctx) a)"

lemma owned_others:
  assumes "owned_crons a" and "crons_ok (aw_scheduler a')" and "set (other_jobs w (aw_scheduler a')) \<subseteq> set (sc_running (aw_scheduler a))"
    and "\<And>x. x \<noteq> w \<Longrightarrow> isActive x a \<Longrightarrow> isActive x a'"
    and "isActive w a' \<or> sc_running (aw_scheduler a') = other_jobs w (aw_scheduler a')"
  shows "owned_crons a'"
  unfolding owned_crons_def
proof (intro conjI assms(2) ballI, clarify)
  fix job ctx tick
  assume j: "(job, ctx, tick) \<in> set (sc_running (aw_scheduler a'))"
  show "isActive (cx_workflowId ctx) a'"
  proof (cases "cx_workflowId ctx = w")
    case True
    then have "(job, ctx, tick) \<notin> set (other_jobs w (aw_scheduler a'))" by (simp add: other_jobs_def)
    then have "sc_running (aw_scheduler a') \<noteq> other_jobs w (aw_scheduler a')" using j by metis
    then show ?thesis using assms(5) True by blast
  next
    case False
    then have "(job, ctx, tick) \<in> set (other_jobs w (aw_scheduler a'))" using j by (simp add: other_jobs_def)
    then have "isActive (cx_workflowId ctx) a" using assms(1,3) unfolding owned_crons_def by blast
    then show ?thesis using assms(4) False by blast
  qed
qed

interpretation activations: transition_system "activation_step nodeTypes" owned_crons
proof
  fix a a'
  assume "activation_step nodeTypes a a'" and owned: "owned_crons a"
  then have ok: "crons_ok (aw_scheduler a)" by (simp add: owned_crons_def)
  from \<open>activation_step nodeTypes a a'\<close> show "owned_crons a'"
  proof cases
    case (1 nr w)
    note added = add_extends [OF ok 1]
    show ?thesis
      by (rule owned_others [OF owned extends_ok [OF added(1)], of "w_id w"])
        (use added in \<open>auto simp: extends_for_def other_jobs_def isActive_def jhas_def js_map_simps\<close>)
  next
    case (2 workflowId r)
    show ?thesis
    proof (cases "jget (aw_activeWorkflows a) workflowId")
      case None
      then show ?thesis using 2 owned by (simp add: removeActive_def)
    next
      case (Some responses)
      let ?s = "deregisterCrons workflowId (aw_scheduler a)"
      obtain b x where b: "closeTriggers workflowId responses (a\<lparr>aw_scheduler := ?s\<rparr>) = (b, x)" by fastforce
      note kept = close_keeps [OF b]
      have s: "aw_scheduler a' = ?s" and act: "\<And>y. y \<noteq> workflowId \<Longrightarrow> isActive y a' = isActive y a"
        using 2 Some b kept by (auto simp: removeActive_def isActive_def jhas_def js_map_simps split: option.splits)
      show ?thesis
        by (rule owned_others [OF owned, of a' workflowId])
          (auto simp: s deregister_ok [OF ok] deregister_running [OF ok] other_jobs_def act)
    qed
  qed
qed

definition noActivations :: "int \<Rightarrow> Activations" where
  "noActivations activeInterval = \<lparr>aw_activeWorkflows = [], aw_scheduler = newScheduler activeInterval, aw_closed = []\<rparr>"

text \<open>
  as long as no activation fails, every cron that runs belongs to an active workflow, also when the
  triggers of a workflow cannot be closed.
\<close>

theorem crons_of_active_workflows:
  assumes "(activation_step nodeTypes)\<^sup>*\<^sup>* (noActivations activeInterval) a"
    and "(job, ctx, tick) \<in> set (sc_running (aw_scheduler a))"
  shows "isActive (cx_workflowId ctx) a"
proof -
  have "owned_crons (noActivations activeInterval)"
    by (simp add: owned_crons_def noActivations_def crons_ok_new) (simp add: newScheduler_def)
  then have "owned_crons a" by (rule activations.inv_reachable [OF assms(1)])
  then show ?thesis using assms(2) unfolding owned_crons_def by blast
qed

subsection \<open>Workflows that poll\<close>

text \<open>A workflow of a trigger and two nodes that poll every minute; the second poll may fail.\<close>

definition poll_types :: INodeTypes where
  "poll_types type version = Some \<lparr>nt_name = type, nt_group = [], nt_trigger = (type = ''trigger''), nt_poll = (type = ''poll''),
     nt_webhook = False, nt_execute = False, nt_inputs = 0, nt_outputs = None, nt_requiredInputs = None,
     nt_customOperations = None, nt_requestDefaults = False\<rparr>"

definition typed_node :: "string \<Rightarrow> string \<Rightarrow> INode" where
  "typed_node name type = (mk_node 0 name)\<lparr>n_id := name, n_type := type\<rparr>"

definition poll_workflow :: "(string \<times> string) list \<Rightarrow> Workflow" where
  "poll_workflow nodes = \<lparr>w_id = ''w1'', w_name = ''w'', w_nodes = map (\<lambda>(name, type). (name, typed_node name type)) nodes,
     w_connectionsBySourceNode = [], w_connectionsByDestinationNode = [], w_active = True, w_settings = [],
     w_staticData = create [] True, w_testStaticData = None, w_pinData = None\<rparr>"

definition poll_runs :: "string list \<Rightarrow> NodeRuns" where
  "poll_runs failing = \<lparr>nr_trigger = (\<lambda>node. ([], Inr (Some \<lparr>tg_id = 7, tg_closeFunction = Some Closed\<rparr>))),
     nr_pollTimes = (\<lambda>node. Inr [EveryMinute]), nr_firstPoll = (\<lambda>node. if n_name node \<in> set failing then Some TypeError else None),
     nr_random = (\<lambda>node i. (30, 0)), nr_cronError = (\<lambda>ctx. None), nr_manual = False, nr_defaultTimezone = ''UTC''\<rparr>"

definition running_nodes :: "Activations \<Rightarrow> string list" where
  "running_nodes a = map (\<lambda>(job, ctx, tick). cx_nodeId ctx) (sc_running (aw_scheduler a))"

text \<open>
  when the second node of a workflow fails to poll, the activation fails and the workflow is not active,
  but the cron of the first node keeps running; deactivating the workflow does not stop it.
\<close>

theorem failed_activation_leaves_cron:
  "(let (a, e) = addActive poll_types (poll_runs [''b'']) ''w1'' (poll_workflow [(''a'', ''poll''), (''b'', ''poll'')]) (noActivations 0);
        (a', removed) = removeActive ''w1'' a
    in (e \<noteq> None, allActiveWorkflows a, removed, running_nodes a')) = (True, [], Inr False, [''a''])"
  by code_simp

text \<open>A workflow with a trigger and a poll.\<close>

definition trigger_workflow :: Workflow where
  "trigger_workflow = poll_workflow [(''t'', ''trigger''), (''a'', ''poll'')]"

theorem activate_deactivate_witness:
  "\<exists>a' a''. addActive poll_types (poll_runs []) ''w1'' trigger_workflow (noActivations 0) = (a', None) \<and> running_nodes a' = [''a'']
     \<and> removeActive ''w1'' a' = (a'', Inr True) \<and> running_nodes a'' = [] \<and> aw_closed a'' = [7]"
proof -
  obtain a' where add: "addActive poll_types (poll_runs []) ''w1'' trigger_workflow (noActivations 0) = (a', None)"
    and run: "running_nodes a' = [''a'']"
    and rs: "jget (aw_activeWorkflows a') ''w1'' = Some [\<lparr>tg_id = 7, tg_closeFunction = Some Closed\<rparr>]"
  proof
    let ?r = "addActive poll_types (poll_runs []) ''w1'' trigger_workflow (noActivations 0)"
    have "snd ?r = None" by code_simp
    then show "?r = (fst ?r, None)" by (metis prod.collapse)
    show "running_nodes (fst ?r) = [''a'']" by code_simp
    show "jget (aw_activeWorkflows (fst ?r)) ''w1'' = Some [\<lparr>tg_id = 7, tg_closeFunction = Some Closed\<rparr>]" by code_simp
  qed
  have w: "w_id trigger_workflow = ''w1''" by (simp add: trigger_workflow_def poll_workflow_def)
  have "\<exists>a''. removeActive ''w1'' a' = (a'', Inr True) \<and> sc_running (aw_scheduler a'') = sc_running (aw_scheduler (noActivations 0))
      \<and> (\<forall>x. jget (aw_activeWorkflows a'') x = jget (aw_activeWorkflows (noActivations 0)) x)
      \<and> aw_closed a'' = aw_closed (noActivations 0) @ openIds [\<lparr>tg_id = 7, tg_closeFunction = Some Closed\<rparr>]"
    by (rule activate_deactivate [where w = trigger_workflow, unfolded w, OF _ _ _ add rs])
      (simp_all add: noActivations_def crons_ok_new isActive_def jhas_def closable_def, simp add: newScheduler_def cronsOf_def)
  then show ?thesis using add run by (auto simp: running_nodes_def noActivations_def newScheduler_def openIds_def)
qed

theorem crons_of_active_workflows_witness:
  "\<exists>a job ctx tick. (job, ctx, tick) \<in> set (sc_running (aw_scheduler a)) \<and> isActive (cx_workflowId ctx) a
     \<and> addActive poll_types (poll_runs []) ''w1'' trigger_workflow (noActivations 0) = (a, None)"
proof -
  let ?r = "addActive poll_types (poll_runs []) ''w1'' trigger_workflow (noActivations 0)"
  have "snd ?r = None" by code_simp
  then have add: "?r = (fst ?r, None)" by (metis prod.collapse)
  have w: "w_id trigger_workflow = ''w1''" by (simp add: trigger_workflow_def poll_workflow_def)
  have step: "(activation_step poll_types)\<^sup>*\<^sup>* (noActivations 0) (fst ?r)"
    using activation_step.intros(1) [OF add [folded w]] by (simp add: w)
  have "length (sc_running (aw_scheduler (fst ?r))) = 1" by code_simp
  then obtain job ctx tick where j: "(job, ctx, tick) \<in> set (sc_running (aw_scheduler (fst ?r)))"
    by (cases "sc_running (aw_scheduler (fst ?r))") auto
  show ?thesis using j crons_of_active_workflows [OF step j] add by blast
qed

end
