(* ===== verification/WaitTracker.thy ===== *)
theory WaitTracker
  imports JsPrelude TransitionSystem
begin

section \<open>Waiting executions\<close>

text \<open>
  The class \<open>WaitTracker\<close> of \<open>packages/cli/src/wait-tracker.ts\<close>: a leader asks the database every minute for
  executions whose wait ends soon and sets a timer for each.  The runtime's side of it is part of the state:
  the timers and intervals that are set, the queries without an answer, and the executions whose end resumes
  their parent.  An operation runs up to its first \<open>await\<close>, and what follows is a step of its own.
\<close>

record RelatedExecution =
  re_executionId :: string
  re_shouldResume :: "bool option"

record ExecutionData =
  ed_finished :: bool
  ed_workflowId :: string
  ed_parentExecution :: "RelatedExecution option"

record WaitTracker =
  wt_waitingExecutions :: "(string, nat) jmap"
  wt_mainTimer :: "nat option"
  wt_timers :: "(nat \<times> string) list"
  wt_intervals :: "nat list"
  wt_nextTimer :: nat
  wt_queries :: nat
  wt_started :: "string list"
  wt_starting :: "string list"
  wt_resumed :: "string list"
  wt_parents :: "(string \<times> string) list"

definition newTracker :: WaitTracker where
  "newTracker = \<lparr>wt_waitingExecutions = [], wt_mainTimer = None, wt_timers = [], wt_intervals = [], wt_nextTimer = 0,
     wt_queries = 0, wt_started = [], wt_starting = [], wt_resumed = [], wt_parents = []\<rparr>"

definition isWaiting :: "string \<Rightarrow> WaitTracker \<Rightarrow> bool" where
  "isWaiting executionId t = jhas (wt_waitingExecutions t) executionId"

definition queryExecutions :: "WaitTracker \<Rightarrow> WaitTracker" where
  "queryExecutions t = t\<lparr>wt_queries := Suc (wt_queries t)\<rparr>"

definition startTracking :: "WaitTracker \<Rightarrow> WaitTracker" where
  "startTracking t = queryExecutions (t\<lparr>wt_mainTimer := Some (wt_nextTimer t),
     wt_intervals := wt_intervals t @ [wt_nextTimer t], wt_nextTimer := Suc (wt_nextTimer t)\<rparr>)"

definition initTracker :: "bool \<Rightarrow> WaitTracker \<Rightarrow> WaitTracker" where
  "initTracker isLeader t = (if isLeader then startTracking t else t)"

definition setTimer :: "string \<Rightarrow> WaitTracker \<Rightarrow> WaitTracker" where
  "setTimer executionId t = (if isWaiting executionId t then t
     else t\<lparr>wt_waitingExecutions := jput executionId (wt_nextTimer t) (wt_waitingExecutions t),
       wt_timers := wt_timers t @ [(wt_nextTimer t, executionId)], wt_nextTimer := Suc (wt_nextTimer t)\<rparr>)"

text \<open>The answer of a query.\<close>

definition getWaitingExecutions :: "string list \<Rightarrow> WaitTracker \<Rightarrow> WaitTracker" where
  "getWaitingExecutions executionIds t = fold setTimer executionIds (t\<lparr>wt_queries := wt_queries t - 1\<rparr>)"

definition clearTimer :: "nat \<Rightarrow> WaitTracker \<Rightarrow> WaitTracker" where
  "clearTimer timer t = t\<lparr>wt_timers := filter (\<lambda>x. fst x \<noteq> timer) (wt_timers t)\<rparr>"

definition stopWaiting :: "string \<Rightarrow> WaitTracker \<Rightarrow> WaitTracker" where
  "stopWaiting executionId t = (case jget (wt_waitingExecutions t) executionId of
      None \<Rightarrow> t
    | Some timer \<Rightarrow> (clearTimer timer t)\<lparr>wt_waitingExecutions := jdel executionId (wt_waitingExecutions t)\<rparr>)"

definition shouldRestartParentExecution :: "RelatedExecution option \<Rightarrow> bool" where
  "shouldRestartParentExecution parentExecution = (case parentExecution of
      None \<Rightarrow> False
    | Some p \<Rightarrow> (case re_shouldResume p of None \<Rightarrow> True | Some shouldResume \<Rightarrow> shouldResume))"

text \<open>
  \<open>startExecution\<close> runs up to its first \<open>await\<close> and is then one of the started executions that wait for an
  answer; \<open>resumeExecution\<close> is the rest, which changes nothing of the tracker in between.  \<open>runError\<close> is an
  exception of the database, the ownership service or the workflow runner.
\<close>

definition startExecution :: "string \<Rightarrow> WaitTracker \<Rightarrow> WaitTracker" where
  "startExecution executionId t = t\<lparr>wt_waitingExecutions := jdel executionId (wt_waitingExecutions t),
     wt_started := wt_started t @ [executionId], wt_starting := wt_starting t @ [executionId]\<rparr>"

definition resumeExecution :: "ExecutionData option \<Rightarrow> js_error option \<Rightarrow> string \<Rightarrow> WaitTracker \<Rightarrow> WaitTracker \<times> js_error option" where
  "resumeExecution fullExecutionData runError executionId t =
     (let t = t\<lparr>wt_starting := remove1 executionId (wt_starting t)\<rparr>
      in case fullExecutionData of
          None \<Rightarrow> (t, Some (UnexpectedError ''Execution does not exist.''))
        | Some d \<Rightarrow>
            if ed_finished d then (t, Some (UnexpectedError ''The execution did succeed and can so not be started again.''))
            else if ed_workflowId d = [] then (t, Some (UnexpectedError ''Only saved workflows can be resumed.''))
            else (case runError of
                Some e \<Rightarrow> (t, Some e)
              | None \<Rightarrow>
                  let t = t\<lparr>wt_resumed := wt_resumed t @ [executionId]\<rparr>
                  in (case ed_parentExecution d of
                      Some p \<Rightarrow> (if shouldRestartParentExecution (Some p)
                        then t\<lparr>wt_parents := wt_parents t @ [(executionId, re_executionId p)]\<rparr> else t, None)
                    | None \<Rightarrow> (t, None))))"

definition stopTracking :: "WaitTracker \<Rightarrow> WaitTracker" where
  "stopTracking t = (case wt_mainTimer t of
      None \<Rightarrow> t
    | Some timer \<Rightarrow> fold clearTimer (own_vals (wt_waitingExecutions t))
        (t\<lparr>wt_intervals := filter (\<lambda>i. i \<noteq> timer) (wt_intervals t)\<rparr>))"

text \<open>
  What can happen next.  \<open>ChildFinished\<close> is the end of an execution that resumes its parent; the promise of
  another execution's end and the timers are the runtime's.
\<close>

datatype TrackerStep =
    Takeover | Stepdown | IntervalTick nat | Answer "string list" | StopWaiting string
  | TimerFires nat | Resume string "ExecutionData option" "js_error option" | ChildFinished string string

inductive tracker_step :: "TrackerStep \<Rightarrow> WaitTracker \<Rightarrow> WaitTracker \<Rightarrow> bool" where
  takeover: "tracker_step Takeover t (startTracking t)"
| stepdown: "tracker_step Stepdown t (stopTracking t)"
| tick: "i \<in> set (wt_intervals t) \<Longrightarrow> tracker_step (IntervalTick i) t (queryExecutions t)"
| answer: "0 < wt_queries t \<Longrightarrow> tracker_step (Answer ids) t (getWaitingExecutions ids t)"
| stop: "tracker_step (StopWaiting executionId) t (stopWaiting executionId t)"
| fire: "jget (wt_timers t) timer = Some executionId
    \<Longrightarrow> tracker_step (TimerFires timer) t (startExecution executionId (clearTimer timer t))"
| resume: "executionId \<in> set (wt_starting t) \<Longrightarrow> tracker_step (Resume executionId d e) t (fst (resumeExecution d e executionId t))"
| child: "(executionId, parentId) \<in> set (wt_parents t)
    \<Longrightarrow> tracker_step (ChildFinished executionId parentId) t
      (startExecution parentId (t\<lparr>wt_parents := remove1 (executionId, parentId) (wt_parents t)\<rparr>))"

subsection \<open>Timers\<close>

text \<open>Timers are fresh, and a timer that an entry refers to is set for that entry.\<close>

definition timers_ok :: "WaitTracker \<Rightarrow> bool" where
  "timers_ok t \<longleftrightarrow> jwf (wt_timers t) \<and> jwf (wt_waitingExecutions t) \<and> (\<forall>z \<in> set (wt_timers t). fst z < wt_nextTimer t)
     \<and> (\<forall>i timer. jget (wt_waitingExecutions t) i = Some timer \<longrightarrow> timer < wt_nextTimer t
         \<and> (\<forall>i'. (timer, i') \<in> set (wt_timers t) \<longrightarrow> i' = i))"

definition same_timers :: "WaitTracker \<Rightarrow> WaitTracker \<Rightarrow> bool" where
  "same_timers t t' \<longleftrightarrow> wt_timers t' = wt_timers t \<and> wt_waitingExecutions t' = wt_waitingExecutions t \<and> wt_nextTimer t \<le> wt_nextTimer t'"

lemma same_timers_ok: "timers_ok t \<Longrightarrow> same_timers t t' \<Longrightarrow> timers_ok t'"
  by (fastforce simp: timers_ok_def same_timers_def)

text \<open>An operation may forget timers and entries.\<close>

lemma forget_ok:
  assumes "timers_ok t" and "wt_timers t' = filter P (wt_timers t)" and "wt_nextTimer t \<le> wt_nextTimer t'"
    and "wt_waitingExecutions t' = wt_waitingExecutions t \<or> wt_waitingExecutions t' = jdel i (wt_waitingExecutions t)"
  shows "timers_ok t'"
proof -
  have old: "jget (wt_waitingExecutions t) k = Some v" if "jget (wt_waitingExecutions t') k = Some v" for k v
    using assms(4) that by (auto simp: js_map_simps split: if_splits)
  have "jwf (wt_timers t')" "jwf (wt_waitingExecutions t')"
    using assms by (auto simp: timers_ok_def distinct_map_filter)
  moreover have "\<forall>z \<in> set (wt_timers t'). fst z < wt_nextTimer t'" using assms(1-3) by (fastforce simp: timers_ok_def)
  moreover have "v < wt_nextTimer t' \<and> (\<forall>i'. (v, i') \<in> set (wt_timers t') \<longrightarrow> i' = k)" if "jget (wt_waitingExecutions t') k = Some v" for k v
  proof -
    have "v < wt_nextTimer t \<and> (\<forall>i'. (v, i') \<in> set (wt_timers t) \<longrightarrow> i' = k)" using assms(1) old [OF that] unfolding timers_ok_def by blast
    then show ?thesis using assms(2,3) by auto
  qed
  ultimately show ?thesis unfolding timers_ok_def by blast
qed

lemma setTimer_ok:
  assumes ok: "timers_ok t"
  shows "timers_ok (setTimer i t)"
proof (cases "isWaiting i t")
  case True
  then show ?thesis using ok by (simp add: setTimer_def)
next
  case False
  let ?n = "wt_nextTimer t"
  have new: "?n \<notin> fst ` set (wt_timers t)" using ok by (fastforce simp: timers_ok_def)
  have old: "v < ?n \<and> (\<forall>i'. (v, i') \<in> set (wt_timers t) \<longrightarrow> i' = k)" if "jget (wt_waitingExecutions t) k = Some v" for k v
    using ok that unfolding timers_ok_def by blast
  have get: "jget (jput i ?n (wt_waitingExecutions t)) k = Some v \<longleftrightarrow> (if k = i then v = ?n else jget (wt_waitingExecutions t) k = Some v)" for k v
    by (auto simp: js_map_simps)
  have "v < Suc ?n \<and> (\<forall>i'. (v, i') \<in> set (wt_timers t @ [(?n, i)]) \<longrightarrow> i' = k)"
    if "jget (jput i ?n (wt_waitingExecutions t)) k = Some v" for k v
    using that old [of k v] new unfolding get by (cases "k = i") (auto intro: rev_image_eqI)
  moreover have "jwf (wt_timers t @ [(?n, i)])" "jwf (jput i ?n (wt_waitingExecutions t))"
    "\<forall>z \<in> set (wt_timers t @ [(?n, i)]). fst z < Suc ?n"
    using ok new by (auto simp: timers_ok_def less_SucI)
  moreover have "setTimer i t = t\<lparr>wt_waitingExecutions := jput i ?n (wt_waitingExecutions t),
      wt_timers := wt_timers t @ [(?n, i)], wt_nextTimer := Suc ?n\<rparr>" using False by (simp add: setTimer_def)
  ultimately show ?thesis unfolding timers_ok_def by simp
qed

lemma fold_clearTimer: "fold clearTimer timers t = t\<lparr>wt_timers := filter (\<lambda>x. fst x \<notin> set timers) (wt_timers t)\<rparr>"
  by (induction timers arbitrary: t) (auto simp: clearTimer_def intro: filter_cong)

lemma startExecution_state:
  "wt_timers (startExecution i t) = wt_timers t"
  "wt_waitingExecutions (startExecution i t) = jdel i (wt_waitingExecutions t)"
  "wt_nextTimer (startExecution i t) = wt_nextTimer t"
  "wt_started (startExecution i t) = wt_started t @ [i]"
  by (simp_all add: startExecution_def)

lemma resumeExecution_state:
  "wt_timers (fst (resumeExecution d e i t)) = wt_timers t"
  "wt_waitingExecutions (fst (resumeExecution d e i t)) = wt_waitingExecutions t"
  "wt_nextTimer (fst (resumeExecution d e i t)) = wt_nextTimer t"
  "wt_started (fst (resumeExecution d e i t)) = wt_started t"
  by (auto simp: resumeExecution_def Let_def split: option.split)

interpretation tracker: transition_system "\<lambda>t t'. \<exists>l. allowed l \<and> tracker_step l t t'" timers_ok
proof
  fix t t'
  assume "\<exists>l. allowed l \<and> tracker_step l t t'" and ok: "timers_ok t"
  then obtain l where "tracker_step l t t'" by blast
  then show "timers_ok t'"
  proof cases
    case takeover
    then show ?thesis using same_timers_ok [OF ok] by (simp add: same_timers_def startTracking_def queryExecutions_def)
  next
    case stepdown
    have "wt_timers (stopTracking t) = filter (\<lambda>x. wt_mainTimer t = None \<or> fst x \<notin> set (own_vals (wt_waitingExecutions t))) (wt_timers t)"
      by (auto simp: stopTracking_def fold_clearTimer split: option.split)
    then show ?thesis unfolding stepdown
      by (rule forget_ok [OF ok]) (auto simp: stopTracking_def fold_clearTimer split: option.split)
  next
    case (tick i)
    then show ?thesis using same_timers_ok [OF ok] by (simp add: same_timers_def queryExecutions_def)
  next
    case (answer ids)
    have "timers_ok (t\<lparr>wt_queries := wt_queries t - 1\<rparr>)" by (rule same_timers_ok [OF ok]) (simp add: same_timers_def)
    then have "timers_ok (fold setTimer ids (t\<lparr>wt_queries := wt_queries t - 1\<rparr>))"
      by (rule fold_invariant_list) (rule setTimer_ok)
    then show ?thesis using answer by (simp add: getWaitingExecutions_def)
  next
    case (stop executionId)
    have "wt_timers (stopWaiting executionId t) = filter (\<lambda>x. Some (fst x) \<noteq> jget (wt_waitingExecutions t) executionId) (wt_timers t)"
      by (auto simp: stopWaiting_def clearTimer_def filter_id_conv split: option.split)
    then show ?thesis unfolding stop
      by (rule forget_ok [OF ok]) (auto simp: stopWaiting_def clearTimer_def split: option.split)
  next
    case (fire timer executionId)
    show ?thesis unfolding fire
      by (rule forget_ok [OF ok, of _ "\<lambda>x. fst x \<noteq> timer" executionId]) (simp_all add: startExecution_state clearTimer_def)
  next
    case (resume executionId d e)
    then show ?thesis using same_timers_ok [OF ok] by (simp add: same_timers_def resumeExecution_state)
  next
    case (child executionId parentId)
    show ?thesis unfolding child
      by (rule forget_ok [OF ok, of _ "\<lambda>x. True" parentId]) (simp_all add: startExecution_state)
  qed
qed

end
