(* ===== verification/WaitTimers.thy ===== *)
theory WaitTimers
  imports WaitTracker
begin

section \<open>Timers of waiting executions\<close>

text \<open>
  While an instance stays the leader each waiting execution has one timer.  After a stepdown the executions
  that were waiting are not started any more, since their entries stay without a timer.
\<close>

text \<open>Steps that leave an execution to its timer.\<close>

definition leaves :: "string \<Rightarrow> TrackerStep \<Rightarrow> bool" where
  "leaves executionId l = (case l of StopWaiting x \<Rightarrow> x \<noteq> executionId | ChildFinished _ parentId \<Rightarrow> parentId \<noteq> executionId | _ \<Rightarrow> True)"

definition stays_leader :: "TrackerStep \<Rightarrow> bool" where
  "stays_leader l = (case l of Stepdown \<Rightarrow> False | _ \<Rightarrow> True)"

definition no_parent :: "string \<Rightarrow> TrackerStep \<Rightarrow> bool" where
  "no_parent executionId l = (case l of ChildFinished _ parentId \<Rightarrow> parentId \<noteq> executionId | _ \<Rightarrow> True)"

definition tracker_run :: "(TrackerStep \<Rightarrow> bool) \<Rightarrow> WaitTracker \<Rightarrow> WaitTracker \<Rightarrow> bool" where
  "tracker_run allowed = (\<lambda>t t'. \<exists>l. allowed l \<and> tracker_step l t t')\<^sup>*\<^sup>*"

definition timersOf :: "string \<Rightarrow> WaitTracker \<Rightarrow> nat list" where
  "timersOf executionId t = map fst (filter (\<lambda>x. snd x = executionId) (wt_timers t))"

lemma run_invariant:
  assumes "tracker_run allowed t t'" and "I t"
    and "\<And>l s s'. allowed l \<Longrightarrow> tracker_step l s s' \<Longrightarrow> I s \<Longrightarrow> I s'"
  shows "I t'"
  using assms(1,2) unfolding tracker_run_def by (induction rule: rtranclp_induct) (auto intro: assms(3))

lemma timers_ok_run: "tracker_run allowed newTracker t \<Longrightarrow> timers_ok t"
  unfolding tracker_run_def
  by (rule tracker.inv_reachable) (auto simp: newTracker_def timers_ok_def)

subsection \<open>What each step does to the timers of an execution\<close>

lemma timersOf_clear: "timersOf i (clearTimer timer t) = filter (\<lambda>x. x \<noteq> timer) (timersOf i t)"
  by (simp add: timersOf_def clearTimer_def filter_map comp_def conj_commute)

lemma timersOf_set:
  "timersOf i (setTimer j t) = (if i = j \<and> \<not> isWaiting i t then timersOf i t @ [wt_nextTimer t] else timersOf i t)"
  "jget (wt_waitingExecutions (setTimer j t)) i = (if i = j \<and> \<not> isWaiting i t then Some (wt_nextTimer t) else jget (wt_waitingExecutions t) i)"
  by (auto simp: setTimer_def timersOf_def js_map_simps)

lemma timer_owner:
  assumes "timers_ok t" and "jget (wt_waitingExecutions t) j = Some timer" and "timer \<in> set (timersOf i t)"
  shows "i = j"
  using assms unfolding timers_ok_def timersOf_def by fastforce

definition one_timer :: "string \<Rightarrow> WaitTracker \<Rightarrow> bool" where
  "one_timer i t \<longleftrightarrow> timersOf i t = (case jget (wt_waitingExecutions t) i of None \<Rightarrow> [] | Some timer \<Rightarrow> [timer])"

lemma one_timer_step:
  assumes ok: "timers_ok t" and one: "one_timer i t" and step: "tracker_step l t t'"
    and l: "stays_leader l" "no_parent i l"
  shows "one_timer i t'"
  using step
proof cases
  case (answer ids)
  have "one_timer i (fold setTimer ids s)" if "one_timer i s" for s
    using that
  proof (induction ids arbitrary: s)
    case (Cons j ids)
    have "one_timer i (setTimer j s)"
      using Cons.prems by (auto simp: one_timer_def timersOf_set isWaiting_def jhas_def split: option.splits)
    then show ?case using Cons.IH by simp
  qed simp
  then show ?thesis using one by (simp add: answer getWaitingExecutions_def one_timer_def timersOf_def)
next
  case (stop j)
  show ?thesis
  proof (cases "jget (wt_waitingExecutions t) j")
    case (Some timer)
    have t: "timersOf i t' = filter (\<lambda>x. x \<noteq> timer) (timersOf i t)"
      using timersOf_clear [of i timer t] Some by (simp add: stop stopWaiting_def timersOf_def)
    have w: "jget (wt_waitingExecutions t') i = (if i = j then None else jget (wt_waitingExecutions t) i)"
      using Some by (simp add: stop stopWaiting_def js_map_simps)
    show ?thesis
    proof (cases "i = j")
      case True
      then show ?thesis using one Some t w by (simp add: one_timer_def)
    next
      case False
      then have "timer \<notin> set (timersOf i t)" using timer_owner [OF ok Some] by blast
      then have "timersOf i t' = timersOf i t" using t by (auto simp: filter_id_conv)
      then show ?thesis using one w False by (simp add: one_timer_def)
    qed
  qed (use one in \<open>simp add: stop stopWaiting_def\<close>)
next
  case (fire timer j)
  have j: "(timer, j) \<in> set (wt_timers t)" using fire by (simp add: map_of_SomeD)
  have t: "timersOf i t' = filter (\<lambda>x. x \<noteq> timer) (timersOf i t)"
    using timersOf_clear [of i timer t] by (simp add: fire timersOf_def startExecution_state)
  have w: "jget (wt_waitingExecutions t') i = (if i = j then None else jget (wt_waitingExecutions t) i)"
    by (simp add: fire startExecution_state clearTimer_def js_map_simps)
  show ?thesis
  proof (cases "i = j")
    case True
    then have "timer \<in> set (timersOf i t)" using j by (force simp: timersOf_def)
    then show ?thesis using one True t w by (auto simp: one_timer_def split: option.splits)
  next
    case False
    have "timer \<notin> set (timersOf i t)"
    proof
      assume "timer \<in> set (timersOf i t)"
      then have "(timer, i) \<in> set (wt_timers t)" by (auto simp: timersOf_def)
      then show False using j False ok eq_key_imp_eq_value [of "wt_timers t" timer i j] by (simp add: timers_ok_def)
    qed
    then have "timersOf i t' = timersOf i t" using t by (auto simp: filter_id_conv)
    then show ?thesis using one w False by (simp add: one_timer_def)
  qed
qed (use one l in \<open>auto simp: one_timer_def timersOf_def startTracking_def queryExecutions_def stays_leader_def no_parent_def
    startExecution_state resumeExecution_state js_map_simps\<close>)

text \<open>
  C39: as long as the instance stays the leader and no child execution resumes it, an execution has exactly
  one timer while it is waiting and none otherwise.
\<close>

theorem waiting_has_one_timer:
  assumes "tracker_run (\<lambda>l. stays_leader l \<and> no_parent executionId l) newTracker t"
  shows "length (timersOf executionId t) = (if isWaiting executionId t then 1 else 0)"
proof -
  have "timers_ok t \<and> one_timer executionId t"
  proof (rule run_invariant [OF assms])
    show "timers_ok newTracker \<and> one_timer executionId newTracker"
      by (simp add: newTracker_def timers_ok_def one_timer_def timersOf_def)
  next
    fix l s s'
    assume "stays_leader l \<and> no_parent executionId l" "tracker_step l s s'" "timers_ok s \<and> one_timer executionId s"
    then show "timers_ok s' \<and> one_timer executionId s'"
      using tracker.inv_step [where allowed = "\<lambda>l. True"] one_timer_step by blast
  qed
  then show ?thesis by (auto simp: one_timer_def isWaiting_def jhas_def split: option.splits)
qed

subsection \<open>After a stepdown\<close>

definition forgotten :: "string \<Rightarrow> nat \<Rightarrow> WaitTracker \<Rightarrow> bool" where
  "forgotten i n t \<longleftrightarrow> isWaiting i t \<and> timersOf i t = [] \<and> length (filter (\<lambda>x. x = i) (wt_started t)) = n"

lemma forgotten_step:
  assumes f: "forgotten i n t" and step: "tracker_step l t t'" and l: "leaves i l"
  shows "forgotten i n t'"
  using step
proof cases
  case (answer ids)
  have "forgotten i n (fold setTimer ids s)" if "forgotten i n s" for s
    using that
  proof (induction ids arbitrary: s)
    case (Cons j ids)
    have "forgotten i n (setTimer j s)"
      using Cons.prems timersOf_set [where i = i and j = j and t = s]
      by (auto simp: forgotten_def isWaiting_def jhas_def) (simp_all add: setTimer_def)
    then show ?case using Cons.IH by simp
  qed simp
  then show ?thesis using f by (simp add: answer getWaitingExecutions_def forgotten_def timersOf_def isWaiting_def)
next
  case stepdown
  then show ?thesis using f
    by (auto simp: forgotten_def timersOf_def isWaiting_def stopTracking_def fold_clearTimer filter_empty_conv split: option.split)
next
  case (stop j)
  then show ?thesis using f l
    by (auto simp: forgotten_def timersOf_def isWaiting_def jhas_def leaves_def stopWaiting_def clearTimer_def js_map_simps
        filter_empty_conv split: option.split)
next
  case (fire timer j)
  have "(timer, j) \<in> set (wt_timers t)" using fire by (simp add: map_of_SomeD)
  then have "j \<noteq> i" using f by (auto simp: forgotten_def timersOf_def filter_empty_conv)
  then show ?thesis using f
    by (auto simp: fire forgotten_def timersOf_def isWaiting_def jhas_def startExecution_state clearTimer_def js_map_simps filter_empty_conv)
next
  case (child c j)
  then show ?thesis using f l
    by (auto simp: forgotten_def timersOf_def isWaiting_def jhas_def leaves_def startExecution_state js_map_simps filter_empty_conv)
qed (use f in \<open>auto simp: forgotten_def timersOf_def isWaiting_def startTracking_def queryExecutions_def resumeExecution_state\<close>)

text \<open>A timer that is set belongs to the entry of its execution.\<close>

definition timer_entry :: "string \<Rightarrow> WaitTracker \<Rightarrow> bool" where
  "timer_entry i t \<longleftrightarrow> (\<forall>timer \<in> set (timersOf i t). jget (wt_waitingExecutions t) i = Some timer)"

lemma timer_entry_step:
  assumes ok: "timers_ok t" and e: "timer_entry i t" and step: "tracker_step l t t'" and l: "leaves i l"
  shows "timer_entry i t'"
  using step
proof cases
  case (answer ids)
  have "timer_entry i (fold setTimer ids s)" if "timer_entry i s" for s
    using that
  proof (induction ids arbitrary: s)
    case (Cons j ids)
    have "timer_entry i (setTimer j s)"
      using Cons.prems by (auto simp: timer_entry_def timersOf_set isWaiting_def jhas_def)
    then show ?case using Cons.IH by simp
  qed simp
  then show ?thesis using e by (simp add: answer getWaitingExecutions_def timer_entry_def timersOf_def)
next
  case stepdown
  then show ?thesis using e
    by (auto simp: timer_entry_def timersOf_def stopTracking_def fold_clearTimer split: option.split)
next
  case (stop j)
  then show ?thesis using e l
    by (auto simp: timer_entry_def timersOf_def leaves_def stopWaiting_def clearTimer_def js_map_simps split: option.split)
next
  case (fire timer j)
  have j: "(timer, j) \<in> set (wt_timers t)" using fire by (simp add: map_of_SomeD)
  have "tm = timer" if tm: "(tm, j) \<in> set (wt_timers t)" "i = j" for tm
  proof -
    have "tm \<in> set (timersOf i t)" "timer \<in> set (timersOf i t)" using tm j by (force simp: timersOf_def)+
    then have "jget (wt_waitingExecutions t) i = Some tm" "jget (wt_waitingExecutions t) i = Some timer"
      using e unfolding timer_entry_def by blast+
    then show ?thesis by simp
  qed
  then show ?thesis using e
    by (auto simp: fire timer_entry_def timersOf_def startExecution_state clearTimer_def js_map_simps)
next
  case (child c j)
  then show ?thesis using e l
    by (auto simp: timer_entry_def timersOf_def leaves_def startExecution_state js_map_simps)
qed (use e in \<open>auto simp: timer_entry_def timersOf_def startTracking_def queryExecutions_def resumeExecution_state\<close>)

text \<open>
  When an instance steps down, \<open>startExecution\<close> is not called any more for an execution that waits then, also
  after the instance has become the leader again and the database reports the execution, unless it is stopped
  or the end of a child execution resumes it.
\<close>

theorem stepdown_forgets_execution:
  assumes before: "tracker_run (leaves executionId) newTracker t" and waiting: "isWaiting executionId t"
    and leader: "wt_mainTimer t \<noteq> None" and after: "tracker_run (leaves executionId) (stopTracking t) t'"
  shows "isWaiting executionId t' \<and> filter (\<lambda>x. x = executionId) (wt_started t') = filter (\<lambda>x. x = executionId) (wt_started t)"
proof -
  let ?i = executionId
  have "timers_ok t \<and> timer_entry ?i t"
  proof (rule run_invariant [OF before])
    show "timers_ok newTracker \<and> timer_entry ?i newTracker" by (simp add: newTracker_def timers_ok_def timer_entry_def timersOf_def)
  next
    fix l s s'
    assume "leaves ?i l" "tracker_step l s s'" "timers_ok s \<and> timer_entry ?i s"
    then show "timers_ok s' \<and> timer_entry ?i s'"
      using tracker.inv_step [where allowed = "\<lambda>l. True"] timer_entry_step by blast
  qed
  moreover obtain timer where timer: "jget (wt_waitingExecutions t) ?i = Some timer"
    using waiting by (auto simp: isWaiting_def jhas_def)
  ultimately have "set (timersOf ?i t) \<subseteq> {timer}" by (auto simp: timer_entry_def)
  moreover have "timer \<in> set (own_vals (wt_waitingExecutions t))" using timer by (force dest: jget_in_set)
  ultimately have "fst x \<in> set (own_vals (wt_waitingExecutions t))" if "x \<in> set (wt_timers t)" "snd x = ?i" for x
    using that by (force simp: timersOf_def simp del: set_own_vals)
  then have "timersOf ?i (stopTracking t) = []"
    using leader by (auto simp: stopTracking_def fold_clearTimer timersOf_def filter_empty_conv simp del: set_own_vals)
  then have start: "forgotten ?i (length (filter (\<lambda>x. x = ?i) (wt_started t))) (stopTracking t)"
    using waiting by (auto simp: forgotten_def isWaiting_def stopTracking_def fold_clearTimer split: option.split)
  have "forgotten ?i (length (filter (\<lambda>x. x = ?i) (wt_started t))) t'"
    by (rule run_invariant [OF after, where I = "forgotten ?i (length (filter (\<lambda>x. x = ?i) (wt_started t)))"])
      (rule start, rule forgotten_step)
  then have "isWaiting ?i t'" "length (filter (\<lambda>x. x = ?i) (wt_started t')) = length (filter (\<lambda>x. x = ?i) (wt_started t))"
    by (simp_all add: forgotten_def)
  moreover have "filter (\<lambda>x. x = ?i) xs = replicate (length (filter (\<lambda>x. x = ?i) xs)) ?i" for xs
    by (induction xs) auto
  ultimately show ?thesis by metis
qed

subsection \<open>Runs\<close>

text \<open>A leader learns of an execution, steps down and takes over again; the execution is reported once more.\<close>

definition learned :: WaitTracker where
  "learned = getWaitingExecutions [''e1''] (startTracking newTracker)"

definition relearned :: WaitTracker where
  "relearned = getWaitingExecutions [''e1''] (startTracking (stopTracking learned))"

lemma learned_run: "tracker_run (\<lambda>l. leaves x l \<and> stays_leader l \<and> no_parent x l) newTracker learned"
proof -
  have "0 < wt_queries (startTracking newTracker)" by code_simp
  from tracker_step.answer [OF this, of "[''e1'']"] tracker_step.takeover [of newTracker] show ?thesis
    unfolding tracker_run_def learned_def
    by (intro rtranclp.rtrancl_into_rtrancl [OF r_into_rtranclp]) (auto simp: leaves_def stays_leader_def no_parent_def
        intro: exI [of _ Takeover] exI [of _ "Answer [''e1'']"])
qed

lemma tracker_run_mono: "tracker_run P t t' \<Longrightarrow> (\<And>l. P l \<Longrightarrow> Q l) \<Longrightarrow> tracker_run Q t t'"
  unfolding tracker_run_def by (erule rtranclp_mono [THEN predicate2D, rotated]) blast

theorem waiting_has_one_timer_witness: "isWaiting ''e1'' learned \<and> length (timersOf ''e1'' learned) = 1"
proof -
  have "isWaiting ''e1'' learned" by code_simp
  then show ?thesis using waiting_has_one_timer [OF tracker_run_mono [OF learned_run [of "''e1''"]]] by simp
qed

theorem stepdown_forgets_execution_witness:
  "wt_mainTimer relearned \<noteq> None \<and> isWaiting ''e1'' relearned \<and> timersOf ''e1'' relearned = []
     \<and> filter (\<lambda>x. x = ''e1'') (wt_started relearned) = []"
proof -
  have "0 < wt_queries (startTracking (stopTracking learned))" by code_simp
  from tracker_step.answer [OF this, of "[''e1'']"] tracker_step.takeover [of "stopTracking learned"]
  have after: "tracker_run (leaves ''e1'') (stopTracking learned) relearned"
    unfolding tracker_run_def relearned_def
    by (intro rtranclp.rtrancl_into_rtrancl [OF r_into_rtranclp]) (auto simp: leaves_def
        intro: exI [of _ Takeover] exI [of _ "Answer [''e1'']"])
  have "isWaiting ''e1'' learned" "wt_mainTimer learned \<noteq> None" by code_simp+
  from stepdown_forgets_execution [OF tracker_run_mono [OF learned_run [of "''e1''"]] this after]
  have "isWaiting ''e1'' relearned" "filter (\<lambda>x. x = ''e1'') (wt_started relearned) = filter (\<lambda>x. x = ''e1'') (wt_started learned)"
    by simp_all
  moreover have "wt_started learned = []" "wt_mainTimer relearned \<noteq> None" "timersOf ''e1'' relearned = []" by code_simp+
  ultimately show ?thesis by simp
qed

text \<open>
  A query that is answered after the stepdown sets timers although the instance is not the leader; the
  timer of a resumed parent is not cleared, so the parent can be started twice.
\<close>

theorem tracker_defects:
  "timersOf ''e1'' (getWaitingExecutions [''e1''] (stopTracking (startTracking newTracker))) = [1]
   \<and> timersOf ''e1'' (startExecution ''e1'' learned) = [1] \<and> \<not> isWaiting ''e1'' (startExecution ''e1'' learned)"
  by code_simp

end
