(* ===== verification/DiContainer.thy ===== *)
theory DiContainer
  imports JsPrelude
begin

section \<open>Dependency injection\<close>

text \<open>
  The container of \<open>packages/@n8n/di/src/di.ts\<close>.  A class is a name, an instance a number.  From outside come
  the parameter types that the compiler records for a class, where \<open>None\<close> is undefined, and what a
  constructor or factory does (it does not call the container itself).  \<open>get\<close> calls itself for the types of
  the parameters; it need not return, so its value is an option, and \<open>None\<close> stands for an endless recursion.
\<close>

datatype BuildResult = Built | BuiltFalsy | BuildAbstract | BuildFails js_error

record DiWorld =
  dw_paramTypes :: "string \<Rightarrow> string option list"
  dw_build :: "string \<Rightarrow> bool \<Rightarrow> nat option list \<Rightarrow> BuildResult"

record Metadata =
  md_instance :: "nat option"
  md_factory :: bool

record Container =
  ct_instances :: "(string, Metadata) jmap"
  ct_resolutionStack :: "string list"
  ct_next :: nat
  ct_built :: "string list"

definition newContainer :: Container where
  "newContainer = \<lparr>ct_instances = [], ct_resolutionStack = [], ct_next = 0, ct_built = []\<rparr>"

definition diError :: "string \<Rightarrow> js_error" where
  "diError message = NamedError ''DIError'' (''[DI] '' @ message)"

definition register :: "bool \<Rightarrow> string \<Rightarrow> Container \<Rightarrow> Container" where
  "register factory target c = c\<lparr>ct_instances := jput target \<lparr>md_instance = None, md_factory = factory\<rparr> (ct_instances c)\<rparr>"

definition hasService :: "string \<Rightarrow> Container \<Rightarrow> bool" where
  "hasService type c = jhas (ct_instances c) type"

definition setService :: "string \<Rightarrow> nat \<Rightarrow> Container \<Rightarrow> Container" where
  "setService type inst c = c\<lparr>ct_instances := jput type
     ((case jget (ct_instances c) type of Some m \<Rightarrow> m | None \<Rightarrow> \<lparr>md_instance = None, md_factory = False\<rparr>)\<lparr>md_instance := Some inst\<rparr>)
     (ct_instances c)\<rparr>"

definition resetContainer :: "Container \<Rightarrow> Container" where
  "resetContainer c = c\<lparr>ct_instances := map (\<lambda>(type, m). (type, m\<lparr>md_instance := None\<rparr>)) (ct_instances c)\<rparr>"

fun arrowJoin :: "string list \<Rightarrow> string" where
  "arrowJoin [] = []"
| "arrowJoin [t] = t"
| "arrowJoin (t # ts) = t @ '' -> '' @ arrowJoin ts"

definition circularError :: "nat \<Rightarrow> string list \<Rightarrow> js_error" where
  "circularError index stack = diError (''Circular dependency detected in '' @ List.last stack @ '' at index ''
     @ nat_string index @ ''.'' @ [CHR 0x0A] @ arrowJoin stack @ [CHR 0x0A])"

text \<open>The call of the constructor or factory, and the end of \<open>get\<close> with its handler and \<open>finally\<close>.\<close>

definition construct :: "DiWorld \<Rightarrow> string \<Rightarrow> Metadata \<Rightarrow> nat option list res \<Rightarrow> Container \<Rightarrow> Container \<times> nat option res" where
  "construct w type m dependencies c =
     (let pop = c\<lparr>ct_resolutionStack := butlast (ct_resolutionStack c)\<rparr>
      in case dependencies of
          Inl e \<Rightarrow> (pop, Inl e)
        | Inr ds \<Rightarrow> (case dw_build w type (md_factory m) ds of
            Built \<Rightarrow> (pop\<lparr>ct_instances := jput type (m\<lparr>md_instance := Some (ct_next c)\<rparr>) (ct_instances c),
                ct_next := Suc (ct_next c), ct_built := ct_built c @ [type]\<rparr>, Inr (Some (ct_next c)))
          | BuiltFalsy \<Rightarrow> (pop\<lparr>ct_instances := jput type m (ct_instances c), ct_built := ct_built c @ [type]\<rparr>, Inr None)
          | BuildAbstract \<Rightarrow> (pop, Inl (diError (type @ '' is an abstract class, and cannot be instantiated'')))
          | BuildFails e \<Rightarrow> (pop, Inl e)))"

text \<open>\<open>get\<close> of all types of a list, from a position on; an exception ends it.\<close>

partial_function (option) getAll :: "DiWorld \<Rightarrow> nat \<Rightarrow> string option list \<Rightarrow> Container \<Rightarrow> (Container \<times> nat option list res) option" where
  "getAll w index types c = (case types of
      [] \<Rightarrow> Some (c, Inr [])
    | None # rest \<Rightarrow> Some (c, Inl (circularError index (ct_resolutionStack c)))
    | Some type # rest \<Rightarrow>
        Option.bind
          (case jget (ct_instances c) type of
             None \<Rightarrow> Some (c, if ct_resolutionStack c \<noteq> [] then Inr None else Inl (diError (type @ '' is not decorated with Service'')))
           | Some m \<Rightarrow> (case md_instance m of
               Some inst \<Rightarrow> Some (c, Inr (Some inst))
             | None \<Rightarrow> Option.bind (getAll w 0 (dw_paramTypes w type) (c\<lparr>ct_resolutionStack := ct_resolutionStack c @ [type]\<rparr>))
                 (\<lambda>(c', dependencies). Some (construct w type m dependencies c'))))
          (\<lambda>(c', r). case r of
              Inl e \<Rightarrow> Some (c', Inl e)
            | Inr v \<Rightarrow> Option.bind (getAll w (Suc index) rest c') (\<lambda>(c'', vs). Some (c'', rbind vs (\<lambda>vs. Inr (v # vs))))))"

definition getService :: "DiWorld \<Rightarrow> string \<Rightarrow> Container \<Rightarrow> (Container \<times> nat option res) option" where
  "getService w type c = map_option (\<lambda>(c', vs). (c', rbind vs (\<lambda>vs. Inr (hd vs)))) (getAll w 0 [Some type] c)"

end
