(* ===== verification/DiResolution.thy ===== *)
theory DiResolution
  imports DiContainer
begin

section \<open>Resolving services\<close>

text \<open>
  If the dependencies between classes have no cycle, \<open>get\<close> returns; a class is built once, and later calls
  give the same instance.  A cycle is not detected: \<open>get\<close> does not return.
\<close>

definition instanceOf :: "Container \<Rightarrow> string \<Rightarrow> nat option" where
  "instanceOf c type = (case jget (ct_instances c) type of None \<Rightarrow> None | Some m \<Rightarrow> md_instance m)"

definition truthy_builds :: "DiWorld \<Rightarrow> bool" where
  "truthy_builds w \<longleftrightarrow> (\<forall>type factory ds. dw_build w type factory ds \<noteq> BuiltFalsy)"

definition acyclic_types :: "DiWorld \<Rightarrow> (string \<Rightarrow> nat) \<Rightarrow> bool" where
  "acyclic_types w rank \<longleftrightarrow> (\<forall>type d. Some d \<in> set (dw_paramTypes w type) \<longrightarrow> rank d < rank type)"

text \<open>What a call leaves as it was: the stack, the registrations and the instances.\<close>

definition keeps :: "Container \<Rightarrow> Container \<Rightarrow> bool" where
  "keeps c c' \<longleftrightarrow> ct_resolutionStack c' = ct_resolutionStack c \<and> (\<forall>type. hasService type c' = hasService type c)
     \<and> (\<forall>type i. instanceOf c type = Some i \<longrightarrow> instanceOf c' type = Some i)"

definition builds :: "(string \<Rightarrow> nat) \<Rightarrow> nat \<Rightarrow> Container \<Rightarrow> Container \<Rightarrow> bool" where
  "builds rank n c c' \<longleftrightarrow> (\<exists>new. ct_built c' = ct_built c @ new \<and> distinct new
     \<and> (\<forall>type \<in> set new. rank type < n \<and> instanceOf c type = None \<and> instanceOf c' type \<noteq> None)
     \<and> (\<forall>type. instanceOf c' type = None \<or> instanceOf c' type = instanceOf c type \<or> type \<in> set new))"

definition answers :: "Container \<Rightarrow> Container \<Rightarrow> string option list \<Rightarrow> nat option list \<Rightarrow> bool" where
  "answers c c' = list_all2 (\<lambda>type v. \<exists>t. type = Some t
     \<and> (if hasService t c then v \<noteq> None \<and> instanceOf c' t = v else v = None))"

lemma keeps_refl [simp]: "keeps c c" by (simp add: keeps_def)

lemma keeps_trans: "keeps c c' \<Longrightarrow> keeps c' c'' \<Longrightarrow> keeps c c''" by (simp add: keeps_def)

lemma builds_refl [simp]: "builds rank n c c" by (simp add: builds_def)

lemma builds_trans:
  assumes "builds rank n c c'" and "builds rank n c' c''" and "keeps c c'" and "keeps c' c''"
  shows "builds rank n c c''"
proof -
  obtain new where new: "ct_built c' = ct_built c @ new" "distinct new"
    "\<forall>type \<in> set new. rank type < n \<and> instanceOf c type = None \<and> instanceOf c' type \<noteq> None"
    "\<forall>type. instanceOf c' type = None \<or> instanceOf c' type = instanceOf c type \<or> type \<in> set new"
    using assms(1) unfolding builds_def by blast
  obtain new' where new': "ct_built c'' = ct_built c' @ new'" "distinct new'"
    "\<forall>type \<in> set new'. rank type < n \<and> instanceOf c' type = None \<and> instanceOf c'' type \<noteq> None"
    "\<forall>type. instanceOf c'' type = None \<or> instanceOf c'' type = instanceOf c' type \<or> type \<in> set new'"
    using assms(2) unfolding builds_def by blast
  have none: "instanceOf c type = None" if "instanceOf c' type = None" for type
    using assms(3) that by (cases "instanceOf c type") (auto simp: keeps_def)
  have kept: "instanceOf c'' type \<noteq> None" if "instanceOf c' type \<noteq> None" for type
    using assms(4) that by (auto simp: keeps_def)
  show ?thesis
    unfolding builds_def
    by (intro exI [of _ "new @ new'"]) (use new new' none kept in \<open>auto; metis option.distinct(1)\<close>)
qed

lemma builds_mono: "builds rank n c c' \<Longrightarrow> n \<le> m \<Longrightarrow> builds rank m c c'"
  unfolding builds_def by fastforce

lemma answers_keep: "answers c c' types vs \<Longrightarrow> keeps c' c'' \<Longrightarrow> answers c c'' types vs"
  unfolding answers_def by (erule list_all2_mono) (auto simp: keeps_def split: if_splits)

text \<open>The outcome of a call.\<close>

definition outcome :: "(string \<Rightarrow> nat) \<Rightarrow> nat \<Rightarrow> string option list \<Rightarrow> Container \<Rightarrow> Container \<times> nat option list res \<Rightarrow> bool" where
  "outcome rank n types c = (\<lambda>(c', r). keeps c c' \<and> builds rank n c c' \<and> (\<forall>vs. r = Inr vs \<longrightarrow> answers c c' types vs))"

lemma construct_outcome:
  assumes truthy: "truthy_builds w" and m: "jget (ct_instances c) type = Some m" "md_instance m = None"
    and c': "keeps (c\<lparr>ct_resolutionStack := ct_resolutionStack c @ [type]\<rparr>) c'"
    and b: "builds rank (rank type) (c\<lparr>ct_resolutionStack := ct_resolutionStack c @ [type]\<rparr>) c'" and n: "rank type < n"
    and r: "construct w type m ds c' = (c'', v)"
  shows "keeps c c'' \<and> builds rank n c c'' \<and> (\<forall>x. v = Inr x \<longrightarrow> x \<noteq> None \<and> instanceOf c'' type = x)"
proof -
  let ?p = "c\<lparr>ct_resolutionStack := ct_resolutionStack c @ [type]\<rparr>"
  have inst: "instanceOf ?p = instanceOf c" "\<And>t. hasService t ?p = hasService t c" "ct_built ?p = ct_built c"
    by (simp_all add: fun_eq_iff instanceOf_def hasService_def)
  have none: "instanceOf c type = None" using m by (simp add: instanceOf_def)
  obtain new where new: "ct_built c' = ct_built c @ new" "distinct new"
    "\<forall>t \<in> set new. rank t < rank type \<and> instanceOf c t = None \<and> instanceOf c' t \<noteq> None"
    "\<forall>t. instanceOf c' t = None \<or> instanceOf c' t = instanceOf c t \<or> t \<in> set new"
    using b by (auto simp: builds_def inst)
  then have self: "type \<notin> set new" by blast
  have kept: "ct_resolutionStack c' = ct_resolutionStack c @ [type]" "\<And>t. hasService t c' = hasService t c"
    "\<And>t i. instanceOf c t = Some i \<Longrightarrow> instanceOf c' t = Some i"
    using c' by (simp_all add: keeps_def inst)
  have pop: "keeps c (c'\<lparr>ct_resolutionStack := butlast (ct_resolutionStack c')\<rparr>)
      \<and> builds rank n c (c'\<lparr>ct_resolutionStack := butlast (ct_resolutionStack c')\<rparr>)"
    using kept new n by (auto simp: keeps_def builds_def instanceOf_def hasService_def intro!: exI [of _ new])
  show ?thesis
  proof (cases "\<exists>xs. ds = Inr xs \<and> dw_build w type (md_factory m) xs = Built")
    case False
    then show ?thesis using r pop truthy
      by (auto simp: construct_def Let_def truthy_builds_def split: sum.splits BuildResult.splits)
  next
    case True
    then have c'': "c'' = c'\<lparr>ct_resolutionStack := ct_resolutionStack c,
        ct_instances := jput type (m\<lparr>md_instance := Some (ct_next c')\<rparr>) (ct_instances c'),
        ct_next := Suc (ct_next c'), ct_built := ct_built c' @ [type]\<rparr>" and v: "v = Inr (Some (ct_next c'))"
      using r kept(1) by (auto simp: construct_def Let_def)
    have i: "instanceOf c'' t = (if t = type then Some (ct_next c') else instanceOf c' t)" for t
      by (simp add: c'' instanceOf_def js_map_simps)
    have "hasService type c" using m by (simp add: hasService_def jhas_def)
    then have h: "hasService t c'' = hasService t c" for t
      using kept(2) [of t] by (auto simp: c'' hasService_def jhas_def js_map_simps)
    have st: "ct_resolutionStack c'' = ct_resolutionStack c" "ct_built c'' = ct_built c' @ [type]" by (simp_all add: c'')
    have "instanceOf c'' t = Some k" if "instanceOf c t = Some k" for t k
      using that kept(3) [OF that] none by (auto simp: i)
    then have "keeps c c''" using h st by (simp add: keeps_def)
    moreover have "builds rank n c c''"
      unfolding builds_def by (intro exI [of _ "new @ [type]"]) (use new n none self st in \<open>auto simp: i\<close>)
    ultimately show ?thesis using v i by simp
  qed
qed

lemma getAll_outcome:
  assumes acyclic: "acyclic_types w rank" and truthy: "truthy_builds w"
    and ranks: "\<forall>t. Some t \<in> set types \<longrightarrow> rank t < n"
  shows "\<exists>y. getAll w index types c = Some y \<and> outcome rank n types c y"
  using ranks
proof (induction n arbitrary: types index c rule: less_induct)
  case (less n)
  from less.prems show ?case
  proof (induction types arbitrary: index c)
    case Nil
    then show ?case by (simp add: getAll.simps outcome_def answers_def)
  next
    case (Cons t rest)
    show ?case
    proof (cases t)
      case None
      then show ?thesis by (simp add: getAll.simps outcome_def)
    next
      case (Some type)
      have rank: "rank type < n" using Cons.prems Some by simp
      define one where "one = (case jget (ct_instances c) type of
             None \<Rightarrow> Some (c, if ct_resolutionStack c \<noteq> [] then Inr None else Inl (diError (type @ '' is not decorated with Service'')))
           | Some m \<Rightarrow> (case md_instance m of
               Some inst \<Rightarrow> Some (c, Inr (Some inst))
             | None \<Rightarrow> Option.bind (getAll w 0 (dw_paramTypes w type) (c\<lparr>ct_resolutionStack := ct_resolutionStack c @ [type]\<rparr>))
                 (\<lambda>(c', dependencies). Some (construct w type m dependencies c'))))"
      have "\<exists>c' v. one = Some (c', v) \<and> keeps c c' \<and> builds rank n c c'
          \<and> (\<forall>x. v = Inr x \<longrightarrow> (if hasService type c then x \<noteq> None \<and> instanceOf c' type = x else x = None))"
      proof (cases "jget (ct_instances c) type")
        case None
        then show ?thesis by (auto simp: one_def hasService_def jhas_def)
      next
        case m: (Some m)
        then have has: "hasService type c" by (simp add: hasService_def jhas_def)
        show ?thesis
        proof (cases "md_instance m")
          case (Some inst)
          then show ?thesis using m has by (auto simp: one_def instanceOf_def)
        next
          case None
          let ?p = "c\<lparr>ct_resolutionStack := ct_resolutionStack c @ [type]\<rparr>"
          have "\<forall>d. Some d \<in> set (dw_paramTypes w type) \<longrightarrow> rank d < rank type" using acyclic by (simp add: acyclic_types_def)
          from less.IH [OF rank this, of 0 ?p] obtain c1 ds where
            g: "getAll w 0 (dw_paramTypes w type) ?p = Some (c1, ds)" "outcome rank (rank type) (dw_paramTypes w type) ?p (c1, ds)" by auto
          obtain c2 v where k: "construct w type m ds c1 = (c2, v)" by fastforce
          have "keeps c c2 \<and> builds rank n c c2 \<and> (\<forall>x. v = Inr x \<longrightarrow> x \<noteq> None \<and> instanceOf c2 type = x)"
          proof (rule construct_outcome [OF truthy m None _ _ _ k])
            show "keeps ?p c1" "builds rank (rank type) ?p c1" "rank type < n" using g(2) rank by (simp_all add: outcome_def)
          qed
          then show ?thesis using m None g(1) k has by (auto simp: one_def)
        qed
      qed
      then obtain c' v where one: "one = Some (c', v)" "keeps c c'" "builds rank n c c'"
        "\<And>x. v = Inr x \<Longrightarrow> (if hasService type c then x \<noteq> None \<and> instanceOf c' type = x else x = None)" by blast
      have step: "getAll w index (t # rest) c = Option.bind one (\<lambda>(c', r). case r of
              Inl e \<Rightarrow> Some (c', Inl e)
            | Inr v \<Rightarrow> Option.bind (getAll w (Suc index) rest c') (\<lambda>(c'', vs). Some (c'', rbind vs (\<lambda>vs. Inr (v # vs)))))"
        by (subst getAll.simps) (simp add: one_def Some)
      show ?thesis
      proof (cases v)
        case (Inl e)
        then show ?thesis using step one by (simp add: outcome_def)
      next
        case (Inr x)
        have "\<forall>t. Some t \<in> set rest \<longrightarrow> rank t < n" using Cons.prems by simp
        from Cons.IH [OF this, of "Suc index" c'] obtain c'' vs where
          r: "getAll w (Suc index) rest c' = Some (c'', vs)" "outcome rank n rest c' (c'', vs)" by auto
        then have k: "keeps c' c''" "builds rank n c' c''" by (simp_all add: outcome_def)
        have "answers c c'' (t # rest) (x # xs)" if "vs = Inr xs" for xs
        proof -
          have "answers c' c'' rest xs" using r(2) that by (simp add: outcome_def)
          then have "answers c c'' rest xs" using one(2) by (simp add: answers_def keeps_def)
          then show ?thesis using one(4) [OF Inr] k(1) Some by (auto simp: answers_def keeps_def split: if_splits)
        qed
        then show ?thesis
          using step one(1) Inr r(1) keeps_trans [OF one(2) k(1)] builds_trans [OF one(3) k(2) one(2) k(1)]
          by (auto simp: outcome_def rbind_Inr_iff)
      qed
    qed
  qed
qed

text \<open>
  if the dependencies of classes have no cycle and every build gives an object, \<open>get\<close> returns.  It leaves
  the stack and all instances as they were and builds no class twice and none that has an instance; a class
  that it succeeds for has an instance then, which the next call gives without any change.
\<close>

theorem container_get:
  assumes "acyclic_types w rank" and "truthy_builds w"
  shows "\<exists>c' r. getService w type c = Some (c', r) \<and> ct_resolutionStack c' = ct_resolutionStack c
     \<and> (\<forall>t i. instanceOf c t = Some i \<longrightarrow> instanceOf c' t = Some i)
     \<and> (\<exists>new. ct_built c' = ct_built c @ new \<and> distinct new \<and> (\<forall>t \<in> set new. instanceOf c t = None))
     \<and> (\<forall>v. r = Inr v \<longrightarrow> hasService type c \<longrightarrow>
          (\<exists>i. v = Some i \<and> instanceOf c' type = Some i \<and> getService w type c' = Some (c', Inr (Some i))))"
proof -
  obtain c' vs where g: "getAll w 0 [Some type] c = Some (c', vs)" "outcome rank (Suc (rank type)) [Some type] c (c', vs)"
    using getAll_outcome [OF assms, of "[Some type]" "Suc (rank type)" 0 c] by auto
  have again: "getService w type c' = Some (c', Inr (Some i))" if "instanceOf c' type = Some i" for i
    using that by (auto simp: getService_def getAll.simps instanceOf_def split: option.splits)
  have answer: "\<exists>i. hd xs = Some i \<and> instanceOf c' type = Some i" if "vs = Inr xs" "hasService type c" for xs
    using g(2) that by (auto simp: outcome_def answers_def list_all2_Cons1)
  have "\<exists>new. ct_built c' = ct_built c @ new \<and> distinct new \<and> (\<forall>t \<in> set new. instanceOf c t = None)"
    using g(2) by (auto simp: outcome_def builds_def)
  then show ?thesis
    using g again answer by (auto simp: getService_def outcome_def keeps_def rbind_Inr_iff)
qed

subsection \<open>Cycles\<close>

definition unbuilt :: "DiWorld \<Rightarrow> string set \<Rightarrow> Container \<Rightarrow> bool" where
  "unbuilt w S c \<longleftrightarrow> (\<forall>t \<in> S. hasService t c \<and> instanceOf c t = None \<and> (\<exists>d rest. dw_paramTypes w t = Some d # rest \<and> d \<in> S))"

text \<open>
  cycles are not detected.  If each of some classes is registered and not built yet, and its first
  parameter is one of them again, \<open>get\<close> does not return for any of them.
\<close>

theorem cycle_not_detected:
  assumes "unbuilt w S c" and "type \<in> S"
  shows "getService w type c = None"
proof -
  have "\<not> (w' = w \<and> unbuilt w S c \<and> (\<exists>t rest. types = Some t # rest \<and> t \<in> S))"
    if "getAll w' index types c = Some y" for w' index types c y
    using that
  proof (rule getAll.raw_induct [rotated])
    fix f :: "DiWorld \<Rightarrow> nat \<Rightarrow> string option list \<Rightarrow> Container \<Rightarrow> (Container \<times> nat option list res) option"
      and w' index types c y
    assume IH: "\<And>w' index types c y. f w' index types c = Some y \<Longrightarrow>
        \<not> (w' = w \<and> unbuilt w S c \<and> (\<exists>t rest. types = Some t # rest \<and> t \<in> S))"
      and r: "(case types of [] \<Rightarrow> Some (c, Inr [])
        | None # rest \<Rightarrow> Some (c, Inl (circularError index (ct_resolutionStack c)))
        | Some type # rest \<Rightarrow>
          Option.bind
            (case jget (ct_instances c) type of
               None \<Rightarrow> Some (c, if ct_resolutionStack c \<noteq> [] then Inr None else Inl (diError (type @ '' is not decorated with Service'')))
             | Some m \<Rightarrow> (case md_instance m of
                 Some inst \<Rightarrow> Some (c, Inr (Some inst))
               | None \<Rightarrow> Option.bind (f w' 0 (dw_paramTypes w' type) (c\<lparr>ct_resolutionStack := ct_resolutionStack c @ [type]\<rparr>))
                   (\<lambda>(c', dependencies). Some (construct w' type m dependencies c'))))
            (\<lambda>(c', r). case r of
                Inl e \<Rightarrow> Some (c', Inl e)
              | Inr v \<Rightarrow> Option.bind (f w' (Suc index) rest c') (\<lambda>(c'', vs). Some (c'', rbind vs (\<lambda>vs. Inr (v # vs)))))) = Some y"
    show "\<not> (w' = w \<and> unbuilt w S c \<and> (\<exists>t rest. types = Some t # rest \<and> t \<in> S))"
    proof
      assume "w' = w \<and> unbuilt w S c \<and> (\<exists>t rest. types = Some t # rest \<and> t \<in> S)"
      then obtain t rest where t: "w' = w" "unbuilt w S c" "types = Some t # rest" "t \<in> S" by blast
      then obtain m d ds where m: "jget (ct_instances c) t = Some m" "md_instance m = None" "dw_paramTypes w t = Some d # ds" "d \<in> S"
        by (fastforce simp: unbuilt_def hasService_def jhas_def instanceOf_def split: option.splits)
      let ?p = "c\<lparr>ct_resolutionStack := ct_resolutionStack c @ [t]\<rparr>"
      have "unbuilt w S ?p" using t(2) by (simp add: unbuilt_def hasService_def instanceOf_def)
      then have "f w 0 (dw_paramTypes w t) ?p = None" using IH [of w 0 "dw_paramTypes w t" ?p] m by (cases "f w 0 (dw_paramTypes w t) ?p") auto
      then show False using r t m by simp
    qed
  qed
  then have "getAll w 0 [Some type] c = None" using assms by (cases "getAll w 0 [Some type] c") blast+
  then show ?thesis by (simp add: getService_def)
qed

subsection \<open>Classes\<close>

text \<open>A class with a dependency, and two classes that depend on each other.\<close>

definition two_classes :: DiWorld where
  "two_classes = \<lparr>dw_paramTypes = (\<lambda>t. if t = ''A'' then [Some ''B''] else []), dw_build = (\<lambda>t factory ds. Built)\<rparr>"

definition mutual_classes :: DiWorld where
  "mutual_classes = \<lparr>dw_paramTypes = (\<lambda>t. if t = ''A'' then [Some ''B''] else [Some ''A'']), dw_build = (\<lambda>t factory ds. Built)\<rparr>"

definition two_registered :: Container where
  "two_registered = register False ''B'' (register False ''A'' newContainer)"

theorem container_get_witness:
  "\<exists>c' i. getService two_classes ''A'' two_registered = Some (c', Inr (Some i)) \<and> ct_built c' = [''B'', ''A'']
     \<and> getService two_classes ''A'' c' = Some (c', Inr (Some i))"
proof -
  have "acyclic_types two_classes (\<lambda>t. if t = ''A'' then 1 else 0)" "truthy_builds two_classes"
    by (auto simp: acyclic_types_def truthy_builds_def two_classes_def)
  from container_get [OF this, of "''A''" two_registered] obtain c' r where
    g: "getService two_classes ''A'' two_registered = Some (c', r)"
    "\<And>v. r = Inr v \<Longrightarrow> hasService ''A'' two_registered \<Longrightarrow> \<exists>i. v = Some i \<and> getService two_classes ''A'' c' = Some (c', Inr (Some i))"
    by blast
  have "map_option (\<lambda>(c', r). (ct_built c', r)) (getService two_classes ''A'' two_registered) = Some ([''B'', ''A''], Inr (Some 1))"
    by (simp add: getService_def getAll.simps two_classes_def two_registered_def register_def newContainer_def construct_def Let_def)
  then have "ct_built c' = [''B'', ''A'']" "r = Inr (Some 1)" using g(1) by simp_all
  moreover have "hasService ''A'' two_registered" by code_simp
  ultimately show ?thesis using g by auto
qed

theorem cycle_not_detected_witness: "getService mutual_classes ''A'' two_registered = None"
proof (rule cycle_not_detected)
  show "unbuilt mutual_classes {''A'', ''B''} two_registered"
    by (auto simp: unbuilt_def mutual_classes_def two_registered_def register_def newContainer_def hasService_def jhas_def instanceOf_def)
qed simp

end
