(* ===== verification/Spec2Isabelle.thy ===== *)
theory Spec2Isabelle
  imports WorkflowSearch PartialGraph PartialStack ExtractableGraph EngineItems EngineProgress EngineRequestOrder EngineCalls
    ActiveExecutions TaskMatching WorkflowGroups ParameterStorage AugmentReads Activation WaitTimers DiResolution
begin

section \<open>The workflow engine: overview\<close>

text \<open>
  This library models the core of the workflow engine, in the packages \<open>packages/workflow\<close> (the data
  model and the static analysis of workflows) and \<open>packages/core\<close> (the execution engine), three services of
  \<open>packages/cli\<close> that decide what runs when (the control of concurrent executions, the task broker and the
  tracker of waiting executions), and the container of services that they all come from.

  \<^bold>\<open>Parts and theories.\<close>  A workflow is a set of nodes and a map of connections.  The engine looks
  for nodes in it (\<open>Workflow\<close>), turns it into a graph for partial executions (\<open>DirectedGraph\<close>), and
  computes from the graph and the data of earlier runs what has to run again.  The execution itself is a
  loop over a stack of nodes: it runs the node on top, stores its data, and puts the nodes behind it on the
  stack, or into the waiting tables until all their inputs have data.

  \<^item> \<open>JsPrelude\<close>: maps, plain objects with their enumeration order, sets, arrays and exceptions, with the
    locales \<open>keyed_store\<close> and \<open>ordered_set\<close>, both interpreted on the lists the model uses.
  \<^item> \<open>WorkflowTypes\<close>: the interfaces of \<open>interfaces.ts\<close> as records and datatypes.
  \<^item> \<open>Reachability\<close>: paths that avoid a set of nodes, the depth-first walk behind the graph traversals,
    and the locale \<open>downstream_search\<close>, interpreted on \<open>getChildren\<close> of every graph in \<open>GraphTraversal\<close>.
  \<^item> \<open>Connections\<close>, \<open>ConnectedNodes\<close>: \<open>common/map-connections-by-destination.ts\<close>, \<open>get-connected-nodes.ts\<close>,
    \<open>get-child-nodes.ts\<close>, \<open>get-parent-nodes.ts\<close>.
  \<^item> \<open>ObservableObject\<close>: \<open>observable-object.ts\<close>, the proxies that mark static data as changed; each object of the
    tree is wrapped or not, since an object that is assigned later is not watched.
  \<^item> \<open>AugmentObject\<close>: \<open>augment-object.ts\<close>, the proxies that keep code from changing the data it gets, over a heap;
    \<open>AugmentIsolation\<close> shows that the data stays as it is, \<open>AugmentReads\<close> what a program sees of it.
  \<^item> \<open>Workflow\<close>, \<open>WorkflowSearch\<close>: the class of \<open>workflow.ts\<close>: state, renaming, and the searches for start
    nodes, highest nodes, root nodes and connection indexes.
  \<^item> \<open>DirectedGraph\<close>: the class of \<open>partial-execution-utils/directed-graph.ts\<close>; \<open>GraphTraversal\<close> has its
    invariant \<open>graph_wf\<close> and what the traversals return, \<open>GraphComponents\<close> the strongly connected components,
    \<open>GraphEdits\<close> the removal of nodes, \<open>GraphImport\<close> cloning, export and import.
  \<^item> \<open>PartialRunData\<close>, \<open>PartialGraph\<close>, \<open>PartialStack\<close>: the other files of \<open>partial-execution-utils\<close>.
  \<^item> \<open>ExtractableGraph\<close>: \<open>graph/graph-utils.ts\<close>, which selections of nodes can become a sub-workflow.
  \<^item> \<open>Engine...\<close>: the class of \<open>workflow-execute.ts\<close> with \<open>requests-response.ts\<close>.  \<open>EngineState\<close> has its state and
    the waiting tables, \<open>EngineSchedule\<close> the method \<open>addNodeToBeExecuted\<close>, \<open>EngineNode\<close> the method \<open>runNode\<close> and
    what is done with items, \<open>EngineRequests\<close> the requests of nodes, \<open>EngineTry\<close> the retries, \<open>EngineLoop\<close> and
    \<open>EngineStep\<close> one iteration of the loop, \<open>EngineRun\<close> the start, the loop and the end of a run.
    \<open>EngineTables\<close>, \<open>EngineInvariant\<close> and \<open>EngineReach\<close> have the invariant of all reachable states, with the
    locale of \<open>TransitionSystem\<close> interpreted on the step of the loop; \<open>EngineJoin\<close>, \<open>EngineOrder\<close>,
    \<open>EngineRequestOrder\<close>, \<open>EngineProgress\<close>, \<open>EngineItems\<close> and \<open>EngineCalls\<close> what the operations do.
  \<^item> \<open>ConcurrencyQueue\<close>, \<open>ConcurrencyControl\<close>: \<open>concurrency-queue.ts\<close> and \<open>concurrency-control.service.ts\<close> of
    \<open>packages/cli\<close>; \<open>ActiveExecutions\<close>: \<open>active-executions.ts\<close>, which calls them.
  \<^item> \<open>TaskBroker\<close>: \<open>task-broker.service.ts\<close>; \<open>TaskResults\<close> has its invariant and \<open>TaskMatching\<close> what a round of
    matching does.  The services interpret \<open>transition_system\<close> on their own steps.
  \<^item> \<open>WaitTracker\<close>: \<open>wait-tracker.ts\<close>; \<open>WaitTimers\<close> has the timers of waiting executions and what a stepdown does.
  \<^item> \<open>ScheduledTasks\<close>: \<open>scheduled-task-manager.ts\<close>, the cron jobs; \<open>ActiveWorkflows\<close>: \<open>active-workflows.ts\<close>,
    \<open>triggers-and-pollers.ts\<close> and \<open>cron.ts\<close>, which register them; \<open>Activation\<close> what (de)activating a workflow does.
  \<^item> \<open>DiContainer\<close>: \<open>@n8n/di/src/di.ts\<close>; \<open>DiResolution\<close>: resolving services ends unless they form a cycle.

  \<^item> \<open>JsonValues\<close>: operations on parameter values.  \<open>WorkflowDiff\<close>: \<open>workflow-diff.ts\<close>, the changes between
    versions of a workflow and the grouping of a history; \<open>WorkflowGroups\<close> what is composed and grouped.
  \<^item> \<open>ParameterDisplay\<close>, \<open>ParameterOrder\<close>, \<open>NodeParameters\<close>: from \<open>node-helpers.ts\<close> the conditions under which
    a parameter is displayed, the order in which parameters are resolved, and \<open>getNodeParameters\<close>;
    \<open>ParameterResolve\<close> has what the order guarantees, \<open>ParameterStorage\<close> the round trip through what is stored.

  \<^bold>\<open>State and correspondence.\<close>  A class is a record of its fields, a method a function from the state to
  the new state, its name that of the method.  An object that is compared by identity (\<open>INode\<close>) has a field
  \<open>n_oid\<close>, so that equal records are the same object.  A JavaScript map is an association list in insertion
  order; \<open>undefined\<close> is \<open>None\<close>; an exception is the left side of a sum.  Loops are structural recursion
  or functions with a termination proof: no fuel is used, so every theorem on a result is about the code's
  own result; where the code need not end, as \<open>get\<close> of the container, the value is an option.  Sets that recursive calls share are threaded through the calls.  An iteration of the execution
  loop is a function of the state and of an \<open>Env\<close>, which holds what it reads from outside: the answers of
  the node implementations, the clock, the node types.  A run is the relation \<open>loop_step\<close>, which allows any
  \<open>Env\<close> in each iteration and a cancellation between two of them; a run need not end.

  \<^bold>\<open>What the lemmas show.\<close>  The traversals of connection maps and graphs return exactly the reachable
  nodes, for each depth limit and on cyclic graphs; reversing connections loses nothing; renaming keeps a
  workflow consistent; well-formed graphs stay well-formed; removing a node keeps the paths between the
  others; cloning and import keep nodes and connections; a partial execution runs exactly what is dirty.
  An execution keeps its stack and waiting tables in order whatever the nodes do; data for a node with
  several inputs is joined as an abstract specification says; nodes are started in the documented order;
  waiting nodes are started until only blocked ones are left; a node is called a bounded number of times.
  The number of running executions stays below the limit as long as no waiting one is cancelled; every result
  sent for a task that exists has a handler that still awaits the requester, and none follows once the task is
  gone; a round of matching leaves no request that could be served.  A waiting execution has one timer, the
  jobs that run are those of the registered crons, and augmented data is never changed through its proxies.
  Changes between versions compose, and grouping loses no version; parameters are resolved after those they
  depend on, and stored parameters are completed to the same values again.
  Where the code differs from its comments a closed theorem gives the input that shows it.

  \<^bold>\<open>Not modelled.\<close>  Of the execution: hooks, logging, times and sleeping, the execution context, items that
  two places share, the state an uncaught exception leaves in the middle of an operation, and a cancellation
  while a node runs; \<open>getNodeParameters\<close> is a parameter of the class \<open>Workflow\<close>.  Expressions, the nodes
  themselves (\<open>nodes-base\<close>, \<open>nodes-langchain\<close>; a node type is data and the registry a parameter), the
  database, HTTP and queue layers of the server, and the editor.  Of the services: a message is delivered at
  once, \<open>nanoid\<close> and the clock are parameters, a timer is a step that can be taken while it is set, a callback of
  a requester does not fail, a constructor does not call the container, and activations do not interleave.  Of
  node parameters: numbers are integers, lodash's \<open>get\<close> and \<open>isEqual\<close> and regular expressions are parameters.
  Of the data behind proxies: dates, regular expressions, functions, prototypes and frozen objects, and writes
  inside arrays of static data.  The input index of a connection is an integer in a graph and a natural number
  in a workflow.
\<close>

end
